(* ===== verification/Prelude.thy ===== *)
theory Prelude
  imports Main "HOL-Library.Word" "HOL-Library.Multiset" "HOL-Library.Sublist"
begin

text \<open>
  Vocabulary shared by every component of the block explorer model.

  \<^item> Go values: byte slices, machine integers, returned errors and panics.
  \<^item> Iteration over Go maps: a \<^emph>\<open>range oracle\<close> chooses the order, because the language leaves
    it unspecified; \<open>range_ok\<close> says that an oracle visits every key exactly once.
  \<^item> Generic facts on lists and association lists, collected in \<open>go_simps\<close> and \<open>range_simps\<close>.
\<close>

named_theorems go_simps \<open>rewrite rules for the model of the Go library\<close>
named_theorems range_simps \<open>facts on the iteration order of Go maps\<close>

type_synonym byte = "8 word"
type_synonym bytes = "byte list"

text \<open>
  A returned \<open>error\<close> value. \<open>RecordNotFound\<close> is gorm's sentinel (\<open>gorm.IsRecordNotFoundError\<close>
  recognises it, and not a wrapped copy of it); every other error is its message.
\<close>

datatype error = RecordNotFound | Err string

definition Error :: "error \<Rightarrow> string" where
  "Error e = (case e of RecordNotFound \<Rightarrow> ''record not found'' | Err m \<Rightarrow> m)"

text \<open>\<open>errors.Wrap(err, msg)\<close> of \<open>github.com/pkg/errors\<close>.\<close>

definition Wrap :: "error \<Rightarrow> string \<Rightarrow> error" where
  "Wrap e msg = Err (msg @ '': '' @ Error e)"

datatype panic = IndexOutOfRange | NilDereference | SendOnClosedChannel | NegativeCapacity | DivideByZero | InvalidArgument | AssignToNilMap

datatype 'a outcome = Done 'a | Panic panic

definition bind_outcome :: "'a outcome \<Rightarrow> ('a \<Rightarrow> 'b outcome) \<Rightarrow> 'b outcome" where
  "bind_outcome x f = (case x of Done a \<Rightarrow> f a | Panic p \<Rightarrow> Panic p)"

lemma bind_outcome_simps [simp]:
  "bind_outcome (Done a) f = f a"
  "bind_outcome (Panic p) f = Panic p"
  by (simp_all add: bind_outcome_def)

lemma bind_outcome_Done_iff:
  "bind_outcome x f = Done b \<longleftrightarrow> (\<exists>a. x = Done a \<and> f a = Done b)"
  by (cases x) auto

section \<open>Iteration over Go maps\<close>

text \<open>
  \<open>for k := range m\<close> visits the keys of \<open>m\<close> once each, in an order the language leaves open and
  that may differ between two executions of the same loop. An oracle \<open>ro n ks\<close> gives the order
  in which the loop numbered \<open>n\<close> visits the keys \<open>ks\<close>.
\<close>

type_synonym 'k range_order = "nat \<Rightarrow> 'k list \<Rightarrow> 'k list"

definition range_ok :: "'k range_order \<Rightarrow> bool" where
  "range_ok ro \<longleftrightarrow> (\<forall>n ks. mset (ro n ks) = mset ks)"

lemma range_ok_mset [range_simps]: "range_ok ro \<Longrightarrow> mset (ro n ks) = mset ks"
  by (simp add: range_ok_def)

lemma range_ok_set [range_simps]: "range_ok ro \<Longrightarrow> set (ro n ks) = set ks"
  by (metis mset_eq_setD range_ok_mset)

lemma range_ok_length [range_simps]: "range_ok ro \<Longrightarrow> length (ro n ks) = length ks"
  by (metis mset_eq_length range_ok_mset)

lemma range_ok_distinct [range_simps]: "range_ok ro \<Longrightarrow> distinct (ro n ks) = distinct ks"
  by (metis mset_eq_imp_distinct_iff range_ok_mset)

text \<open>The oracle that visits the keys in insertion order, and its reverse.\<close>

definition range_insertion :: "'k range_order" where
  "range_insertion n ks = ks"

definition range_reverse :: "'k range_order" where
  "range_reverse n ks = rev ks"

lemma range_ok_insertion [simp]: "range_ok range_insertion"
  by (simp add: range_ok_def range_insertion_def)

lemma range_ok_reverse [simp]: "range_ok range_reverse"
  by (simp add: range_ok_def range_reverse_def)

section \<open>Go maps as association lists\<close>

text \<open>
  A Go map is an association list with distinct keys, in insertion order. \<open>map_put\<close> is
  \<open>m[k] = v\<close>, \<open>map_del\<close> is \<open>delete(m, k)\<close>, \<open>map_of\<close> is the two-valued read.
\<close>

type_synonym ('k, 'v) gomap = "('k \<times> 'v) list"

fun map_put :: "'k \<Rightarrow> 'v \<Rightarrow> ('k, 'v) gomap \<Rightarrow> ('k, 'v) gomap" where
  "map_put k v [] = [(k, v)]"
| "map_put k v ((k', v') # m) = (if k = k' then (k, v) # m else (k', v') # map_put k v m)"

definition map_del :: "'k \<Rightarrow> ('k, 'v) gomap \<Rightarrow> ('k, 'v) gomap" where
  "map_del k m = filter (\<lambda>e. fst e \<noteq> k) m"

definition map_keys :: "('k, 'v) gomap \<Rightarrow> 'k list" where
  "map_keys m = map fst m"

definition gomap :: "('k, 'v) gomap \<Rightarrow> bool" where
  "gomap m \<longleftrightarrow> distinct (map fst m)"

lemma map_of_put [simp]: "map_of (map_put k v m) = (map_of m)(k \<mapsto> v)"
  by (induction m) (auto simp: fun_eq_iff)

lemma map_of_del [simp]: "map_of (map_del k m) = (map_of m)(k := None)"
proof (induction m)
  case Nil
  then show ?case by (simp add: map_del_def fun_eq_iff)
next
  case (Cons e m)
  then show ?case by (cases e) (auto simp: map_del_def fun_eq_iff split: if_splits)
qed

lemma set_keys_put: "set (map fst (map_put k v m)) = insert k (set (map fst m))"
proof (induction m)
  case (Cons e m)
  then show ?case by (cases e) (simp add: insert_commute)
qed simp

lemma keys_put [simp]: "fst ` set (map_put k v m) = insert k (fst ` set m)"
  using set_keys_put [of k v m] by simp

lemma gomap_Nil [simp]: "gomap []"
  by (simp add: gomap_def)

lemma gomap_put [simp]: "gomap m \<Longrightarrow> gomap (map_put k v m)"
  unfolding gomap_def
proof (induction m)
  case Nil
  then show ?case by simp
next
  case (Cons e m)
  then show ?case
    by (cases e) (use set_keys_put [of k v m] in auto)
qed

lemma gomap_del [simp]: "gomap m \<Longrightarrow> gomap (map_del k m)"
  unfolding gomap_def map_del_def by (simp add: distinct_map_filter)

lemma length_put: "length (map_put k v m) = (if map_of m k = None then Suc (length m) else length m)"
  by (induction m) auto

lemma map_of_None_keys: "map_of m k = None \<longleftrightarrow> k \<notin> set (map_keys m)"
  by (simp add: map_of_eq_None_iff map_keys_def)

section \<open>Lists\<close>

text \<open>Consecutive elements of a list, the relation behind every "chain" of this development.\<close>

fun chained :: "('a \<Rightarrow> 'a \<Rightarrow> bool) \<Rightarrow> 'a list \<Rightarrow> bool" where
  "chained R [] = True"
| "chained R [x] = True"
| "chained R (x # y # zs) = (R x y \<and> chained R (y # zs))"

lemma chained_nth: "chained R xs \<longleftrightarrow> (\<forall>i. Suc i < length xs \<longrightarrow> R (xs ! i) (xs ! Suc i))"
proof (induction R xs rule: chained.induct)
  case (3 R x y zs)
  then show ?case
    by (auto simp: less_Suc_eq_0_disj nth_Cons split: nat.splits)
qed auto

lemma chained_append_single:
  "chained R (xs @ [x]) \<longleftrightarrow> chained R xs \<and> (xs \<noteq> [] \<longrightarrow> R (last xs) x)"
  by (induction R xs rule: chained.induct) auto

lemma mset_eq_permutation_filter: "mset xs = mset ys \<Longrightarrow> mset (filter P xs) = mset (filter P ys)"
  by (metis mset_filter)

end
