(* ===== verification/Go_Lib.thy ===== *)
theory Go_Lib
  imports Prelude
begin

text \<open>
  The parts of Go's standard library the block explorer calls on strings and bytes:
  decimal printing (\<open>fmt.Sprintf("%d")\<close>, \<open>strconv.Itoa\<close>), \<open>strconv.ParseInt(_, 10, 64)\<close>,
  \<open>strings.Split\<close>, \<open>strings.Index\<close>, \<open>strings.Contains\<close>, \<open>strings.TrimSpace\<close>,
  \<open>url.QueryUnescape\<close> and \<open>base64.StdEncoding.EncodeToString\<close>. Strings are byte sequences, as
  in Go. The lemmas give the inverse laws the components rest on: a printed number parses back,
  a separator splits a concatenation, text without escapes is its own unescaping, base64 is
  injective.
\<close>

section \<open>Decimal numbers\<close>

definition digit_char :: "nat \<Rightarrow> char" where
  "digit_char n = char_of (48 + n)"

definition is_digit :: "char \<Rightarrow> bool" where
  "is_digit c \<longleftrightarrow> 48 \<le> (of_char c :: nat) \<and> (of_char c :: nat) \<le> 57"

definition digit_val :: "char \<Rightarrow> nat" where
  "digit_val c = of_char c - 48"

fun dec_nat :: "nat \<Rightarrow> string" where
  "dec_nat n = (if n \<ge> 10 then dec_nat (n div 10) @ [digit_char (n mod 10)] else [digit_char n])"

declare dec_nat.simps [simp del]

definition Itoa :: "int \<Rightarrow> string" where
  "Itoa i = (if i < 0 then CHR ''-'' # dec_nat (nat (- i)) else dec_nat (nat i))"

definition dec_val :: "string \<Rightarrow> nat" where
  "dec_val ds = foldl (\<lambda>v c. v * 10 + digit_val c) 0 ds"

definition int64_range :: "int \<Rightarrow> bool" where
  "int64_range v \<longleftrightarrow> - (2 ^ 63) \<le> v \<and> v < 2 ^ 63"

text \<open>\<open>strconv.ParseInt(s, 10, 64)\<close>: an optional sign, at least one digit, a value of 64 bits.\<close>

definition ParseInt :: "string \<Rightarrow> int option" where
  "ParseInt s =
     (let neg = (s \<noteq> [] \<and> hd s = CHR ''-'');
          ds = (if s \<noteq> [] \<and> (hd s = CHR ''-'' \<or> hd s = CHR ''+'') then tl s else s)
      in if ds = [] \<or> \<not> list_all is_digit ds then None
         else let v = (if neg then - int (dec_val ds) else int (dec_val ds))
              in if int64_range v then Some v else None)"

lemma of_char_digit_char: "n < 10 \<Longrightarrow> (of_char (digit_char n) :: nat) = 48 + n"
  by (simp add: digit_char_def)

lemma is_digit_digit_char [simp]: "n < 10 \<Longrightarrow> is_digit (digit_char n)"
  by (simp add: is_digit_def of_char_digit_char)

lemma digit_val_digit_char [simp]: "n < 10 \<Longrightarrow> digit_val (digit_char n) = n"
  by (simp add: digit_val_def of_char_digit_char)

lemma dec_nat_digits: "list_all is_digit (dec_nat n) \<and> dec_nat n \<noteq> []"
proof (induction n rule: dec_nat.induct)
  case (1 n)
  then show ?case
    by (cases "n \<ge> 10") (simp_all add: dec_nat.simps [of n])
qed

lemma dec_val_append: "dec_val (ds @ [c]) = dec_val ds * 10 + digit_val c"
  by (simp add: dec_val_def)

lemma dec_val_dec_nat [simp]: "dec_val (dec_nat n) = n"
proof (induction n rule: dec_nat.induct)
  case (1 n)
  show ?case
  proof (cases "n \<ge> 10")
    case True
    with 1 show ?thesis by (simp add: dec_nat.simps [of n] dec_val_append)
  next
    case False
    then show ?thesis by (simp add: dec_nat.simps [of n] dec_val_def)
  qed
qed

lemma not_digit_chars [simp]:
  "\<not> is_digit CHR ''-''" "\<not> is_digit CHR ''+''" "\<not> is_digit CHR '':''" "\<not> is_digit CHR ''%''"
  by (simp_all add: is_digit_def)

lemma dec_nat_hd_digit: "is_digit (hd (dec_nat n))"
  using dec_nat_digits [of n] by (cases "dec_nat n") auto

text \<open>Printing and parsing are inverse on 64-bit integers.\<close>

lemma ParseInt_Itoa [go_simps]: "int64_range v \<Longrightarrow> ParseInt (Itoa v) = Some v"
proof (cases "v < 0")
  case True
  assume "int64_range v"
  with True show ?thesis
    using dec_nat_digits [of "nat (- v)"] by (simp add: ParseInt_def Itoa_def Let_def)
next
  case False
  assume "int64_range v"
  moreover have "hd (dec_nat (nat v)) \<noteq> CHR ''-''" "hd (dec_nat (nat v)) \<noteq> CHR ''+''"
    using dec_nat_hd_digit [of "nat v"] by auto
  ultimately show ?thesis
    using False dec_nat_digits [of "nat v"] by (simp add: ParseInt_def Itoa_def Let_def)
qed

lemma ParseInt_range: "ParseInt s = Some v \<Longrightarrow> int64_range v"
  by (auto simp: ParseInt_def Let_def split: if_splits)

lemma Itoa_no_colon [go_simps]: "CHR '':'' \<notin> set (Itoa v)"
  using dec_nat_digits [of "nat v"] dec_nat_digits [of "nat (- v)"]
  by (auto simp: Itoa_def list_all_iff)

lemma Itoa_chars: "c \<in> set (Itoa v) \<Longrightarrow> is_digit c \<or> c = CHR ''-''"
  using dec_nat_digits [of "nat v"] dec_nat_digits [of "nat (- v)"]
  by (auto simp: Itoa_def list_all_iff split: if_splits)

lemma Itoa_inj: "int64_range v \<Longrightarrow> int64_range w \<Longrightarrow> Itoa v = Itoa w \<Longrightarrow> v = w"
  by (metis ParseInt_Itoa option.inject)

section \<open>The strings package\<close>

text \<open>\<open>strings.Split(s, sep)\<close> for a separator of one character.\<close>

fun Split :: "char \<Rightarrow> string \<Rightarrow> string list" where
  "Split c [] = [[]]"
| "Split c (x # xs) =
     (if x = c then [] # Split c xs
      else (case Split c xs of [] \<Rightarrow> [[x]] | y # ys \<Rightarrow> (x # y) # ys))"

lemma Split_no_sep [go_simps]: "c \<notin> set s \<Longrightarrow> Split c s = [s]"
  by (induction s) auto

lemma Split_append [go_simps]: "c \<notin> set s \<Longrightarrow> Split c (s @ c # t) = s # Split c t"
  by (induction s) auto

text \<open>\<open>strings.Index\<close>: the position of the first occurrence, or -1.\<close>

fun index_from :: "int \<Rightarrow> string \<Rightarrow> string \<Rightarrow> int" where
  "index_from i [] sub = (if sub = [] then i else - 1)"
| "index_from i (x # t) sub = (if prefix sub (x # t) then i else index_from (i + 1) t sub)"

definition Index :: "string \<Rightarrow> string \<Rightarrow> int" where
  "Index s sub = index_from 0 s sub"

definition Contains :: "string \<Rightarrow> string \<Rightarrow> bool" where
  "Contains s sub \<longleftrightarrow> Index s sub \<noteq> - 1"

lemma index_from_cases: "0 \<le> i \<Longrightarrow> index_from i s sub = - 1 \<or> i \<le> index_from i s sub"
proof (induction i s sub rule: index_from.induct)
  case (2 i x t sub)
  then show ?case by (cases "prefix sub (x # t)") auto
qed simp

text \<open>\<open>strings.Index(s, sub) == 0\<close> is the prefix test of \<open>pulseIsComplete\<close>.\<close>

lemma Index_0_iff [go_simps]: "Index s sub = 0 \<longleftrightarrow> prefix sub s"
proof (cases s)
  case (Cons x t)
  then show ?thesis
    using index_from_cases [of 1 t sub] by (auto simp: Index_def)
qed (simp add: Index_def)

lemma Contains_prefix: "prefix sub s \<Longrightarrow> Contains s sub"
  by (metis Contains_def Index_0_iff zero_neq_neg_one)

lemma Contains_wrapped [go_simps]: "Contains (Error (Wrap e msg)) msg"
  by (simp add: Contains_prefix Wrap_def Error_def)

text \<open>
  \<open>strings.TrimSpace\<close>: the white space of Unicode, as the byte sequences of its UTF-8 encodings.
\<close>

definition white_spaces :: "string list" where
  "white_spaces =
     map (map char_of)
       ([[9], [10], [11], [12], [13], [32], [194, 133], [194, 160], [225, 154, 128]]
        @ map (\<lambda>k. [226, 128, 128 + k]) [0..<11]
        @ [[226, 128, 168], [226, 128, 169], [226, 128, 175], [226, 129, 159], [227, 128, 128 :: nat]])"

definition strip_one :: "string list \<Rightarrow> string \<Rightarrow> string option" where
  "strip_one ws s =
     (case filter (\<lambda>w. w \<noteq> [] \<and> prefix w s) ws of [] \<Rightarrow> None | w # _ \<Rightarrow> Some (drop (length w) s))"

function trim_prefixes :: "string list \<Rightarrow> string \<Rightarrow> string" where
  "trim_prefixes ws s = (case strip_one ws s of None \<Rightarrow> s | Some t \<Rightarrow> trim_prefixes ws t)"
  by pat_completeness auto
termination
proof (relation "measure (\<lambda>(ws, s). length s)", simp)
  fix ws s t
  assume "strip_one ws s = Some t"
  then obtain w r where f: "filter (\<lambda>w. w \<noteq> [] \<and> prefix w s) ws = w # r"
    and t: "t = drop (length w) s"
    by (cases "filter (\<lambda>w. w \<noteq> [] \<and> prefix w s) ws") (simp_all add: strip_one_def)
  from f have "w \<in> set (filter (\<lambda>w. w \<noteq> [] \<and> prefix w s) ws)" by simp
  then have "w \<noteq> []" and "prefix w s" by auto
  with t show "((ws, t), ws, s) \<in> measure (\<lambda>(ws, s). length s)"
    by (auto simp: prefix_def)
qed

declare trim_prefixes.simps [simp del]

definition TrimSpace :: "string \<Rightarrow> string" where
  "TrimSpace s =
     rev (trim_prefixes (map rev white_spaces) (rev (trim_prefixes white_spaces s)))"

section \<open>url.QueryUnescape\<close>

definition hex_val :: "char \<Rightarrow> nat option" where
  "hex_val c =
     (let n = of_char c :: nat
      in if 48 \<le> n \<and> n \<le> 57 then Some (n - 48)
         else if 97 \<le> n \<and> n \<le> 102 then Some (n - 87)
         else if 65 \<le> n \<and> n \<le> 70 then Some (n - 55)
         else None)"

fun QueryUnescape :: "string \<Rightarrow> string option" where
  "QueryUnescape [] = Some []"
| "QueryUnescape (c # cs) =
     (if c = CHR ''%'' then
        (case cs of
           a # b # rest \<Rightarrow>
             (case (hex_val a, hex_val b) of
                (Some x, Some y) \<Rightarrow> map_option (Cons (char_of (16 * x + y))) (QueryUnescape rest)
              | _ \<Rightarrow> None)
         | _ \<Rightarrow> None)
      else if c = CHR ''+'' then map_option (Cons (CHR '' '')) (QueryUnescape cs)
      else map_option (Cons c) (QueryUnescape cs))"

lemma QueryUnescape_plain [go_simps]:
  "CHR ''%'' \<notin> set s \<Longrightarrow> CHR ''+'' \<notin> set s \<Longrightarrow> QueryUnescape s = Some s"
  by (induction s) auto

section \<open>base64.StdEncoding\<close>

definition b64_alphabet :: string where
  "b64_alphabet = ''ABCDEFGHIJKLMNOPQRSTUVWXYZabcdefghijklmnopqrstuvwxyz0123456789+/''"

definition b64_char :: "nat \<Rightarrow> char" where
  "b64_char i = b64_alphabet ! i"

fun b64_nats :: "nat list \<Rightarrow> string" where
  "b64_nats [] = []"
| "b64_nats [a] = [b64_char (a div 4), b64_char (a mod 4 * 16), CHR ''='', CHR ''='']"
| "b64_nats [a, b] =
     [b64_char (a div 4), b64_char (a mod 4 * 16 + b div 16), b64_char (b mod 16 * 4), CHR ''='']"
| "b64_nats (a # b # c # r) =
     b64_char (a div 4) # b64_char (a mod 4 * 16 + b div 16)
       # b64_char (b mod 16 * 4 + c div 64) # b64_char (c mod 64) # b64_nats r"

definition EncodeToString :: "bytes \<Rightarrow> string" where
  "EncodeToString bs = b64_nats (map unat bs)"

lemma b64_alphabet_facts: "distinct b64_alphabet" "length b64_alphabet = 64"
  "CHR ''='' \<notin> set b64_alphabet"
  by (simp_all add: b64_alphabet_def)

lemma b64_char_inj: "i < 64 \<Longrightarrow> j < 64 \<Longrightarrow> b64_char i = b64_char j \<longleftrightarrow> i = j"
  using b64_alphabet_facts by (simp add: b64_char_def nth_eq_iff_index_eq)

lemma b64_char_pad: "i < 64 \<Longrightarrow> b64_char i \<noteq> CHR ''=''"
  using b64_alphabet_facts by (metis b64_char_def nth_mem)

text \<open>Each group of three bytes is recovered from its four sextets.\<close>

lemma digits_unique:
  fixes x x' q q' k :: nat
  assumes "x * k + q = x' * k + q'" "q < k" "q' < k"
  shows "x = x' \<and> q = q'"
proof -
  have "x = (x * k + q) div k" "x' = (x' * k + q') div k"
    using assms(2,3) by simp_all
  with assms(1) have "x = x'" by simp
  with assms(1) show ?thesis by simp
qed

lemma eq_from_div_mod: "a div k = a' div k \<Longrightarrow> a mod k = a' mod k \<Longrightarrow> a = (a' :: nat)"
  by (metis div_mult_mod_eq)

lemma sextet_bounds:
  fixes a b :: nat
  shows "a < 256 \<Longrightarrow> a div 4 < 64" "a mod 4 * 16 < 64" "a mod 16 * 4 < 64" "a mod 64 < 64"
    "b < 256 \<Longrightarrow> b div 16 < 16" "b < 256 \<Longrightarrow> b div 64 < 4"
    "b < 256 \<Longrightarrow> a mod 4 * 16 + b div 16 < 64" "b < 256 \<Longrightarrow> a mod 16 * 4 + b div 64 < 64"
proof -
  have m: "a mod 4 \<le> 3" "a mod 16 \<le> 15" by (simp_all add: Suc_leI less_Suc_eq_le [symmetric])
  then show "a mod 4 * 16 < 64" "a mod 16 * 4 < 64" by simp_all
  show "b div 16 < 16" "b div 64 < 4" if "b < 256" using that by simp_all
  then show "a mod 4 * 16 + b div 16 < 64" "a mod 16 * 4 + b div 64 < 64" if "b < 256"
    using that m by fastforce+
qed simp_all

lemma second_sextet:
  fixes a b :: nat
  assumes "b < 256" "b' < 256"
  shows "a mod 4 * 16 + b div 16 = a' mod 4 * 16 + b' div 16 \<longleftrightarrow> a mod 4 = a' mod 4 \<and> b div 16 = b' div 16"
  using digits_unique [of "a mod 4" 16 "b div 16" "a' mod 4" "b' div 16"] assms
  by (auto simp: sextet_bounds)

lemma third_sextet:
  fixes b c :: nat
  assumes "c < 256" "c' < 256"
  shows "b mod 16 * 4 + c div 64 = b' mod 16 * 4 + c' div 64 \<longleftrightarrow> b mod 16 = b' mod 16 \<and> c div 64 = c' div 64"
  using digits_unique [of "b mod 16" 4 "c div 64" "b' mod 16" "c' div 64"] assms
  by (auto simp: sextet_bounds)

lemmas b64_simps = b64_char_inj b64_char_pad b64_char_pad [symmetric] sextet_bounds
  second_sextet third_sextet

lemma b64_nats_inj:
  "\<forall>x \<in> set xs. x < 256 \<Longrightarrow> \<forall>y \<in> set ys. y < 256 \<Longrightarrow> b64_nats xs = b64_nats ys \<Longrightarrow> xs = ys"
proof (induction xs arbitrary: ys rule: b64_nats.induct)
  case 1
  then show ?case by (cases ys rule: b64_nats.cases) auto
next
  case (2 a)
  then show ?case
    by (cases ys rule: b64_nats.cases)
      (auto simp: b64_simps intro: eq_from_div_mod [where k = 4])
next
  case (3 a b)
  then show ?case
    by (cases ys rule: b64_nats.cases)
      (auto simp: b64_simps intro: eq_from_div_mod [where k = 4] eq_from_div_mod [where k = 16])
next
  case (4 a b c r)
  from "4.prems" obtain a' b' c' r' where ys: "ys = a' # b' # c' # r'"
    by (cases ys rule: b64_nats.cases) (auto simp: b64_simps)
  with 4 have "a = a'" "b = b'" "c = c'" "b64_nats r = b64_nats r'"
    by (auto simp: b64_simps intro: eq_from_div_mod [where k = 4]
        eq_from_div_mod [where k = 16] eq_from_div_mod [where k = 64])
  moreover from this "4.prems" ys have "r = r'" by (intro "4.IH") auto
  ultimately show ?case using ys by simp
qed

text \<open>Hashes may be compared through their base64 text.\<close>

lemma EncodeToString_inj [go_simps]: "EncodeToString xs = EncodeToString ys \<longleftrightarrow> xs = ys"
proof
  have "unat (x :: byte) < 2 ^ LENGTH(8)" for x by (rule unsigned_less)
  then have lt: "\<forall>x \<in> set (map unat zs). x < 256" for zs :: bytes by simp
  assume "EncodeToString xs = EncodeToString ys"
  then have "map unat xs = map unat ys"
    unfolding EncodeToString_def by (rule b64_nats_inj [OF lt lt])
  then show "xs = ys"
    by (metis inj_map_eq_map inj_onI unsigned_word_eqI)
qed simp

end
