(* ===== verification/Types_Models.thy ===== *)
theory Types_Models
  imports Go_Lib
begin

text \<open>
  The data model: the canonical types of \<open>etl/types/types.go\<close> (prefix \<open>tp_\<close>, \<open>tr_\<close>, \<open>tj_\<close>), the
  database rows of \<open>etl/models/models.go\<close> (prefix \<open>mp_\<close>, \<open>mr_\<close>, \<open>mj_\<close>), the messages of the
  Insolar platform the code reads, and the record \<open>insolar_lib\<close> of the platform library's
  functions, which is a parameter of every definition that calls them. Identifiers of the
  platform (\<open>insolar.ID\<close>, \<open>insolar.JetID\<close>, \<open>insolar.Reference\<close>) are the byte strings they are
  arrays of.

  The lemmas cover jet drop identifiers (parsing, printing, validation) and jet siblings.
\<close>

section \<open>Messages of the platform\<close>

record JetDropContinue =
  jc_JetID :: bytes
  jc_Hash :: bytes
  jc_PrevDropHashes :: "bytes list"

record FullPulse =
  fp_PulseNumber :: "32 word"
  fp_PulseTimestamp :: "64 word"
  fp_NextPulseNumber :: "32 word"
  fp_PrevPulseNumber :: "32 word"
  fp_Jets :: "JetDropContinue list"

text \<open>The union of \<open>record.Virtual\<close>; \<open>Virtual_Other\<close> is any alternative the code skips.\<close>

datatype Virtual =
    Virtual_Activate (act_Image: bytes) (act_Memory: bytes) (act_Request: bytes)
  | Virtual_Amend (am_Image: bytes) (am_Memory: bytes) (am_PrevState: bytes) (am_Request: bytes)
  | Virtual_Deactivate (de_PrevState: bytes)
  | Virtual_Result (res_Payload: bytes) (res_Object: bytes)
  | Virtual_IncomingRequest (inc_Method: string)
  | Virtual_OutgoingRequest
  | Virtual_Other

text \<open>\<open>er_Rest\<close> stands for the fields that only \<open>Marshal\<close> reads.\<close>

record ex_Record =
  er_RecordNumber :: "32 word"
  er_ID :: bytes
  er_ObjectID :: bytes
  er_JetID :: bytes
  er_Virtual :: Virtual
  er_ShouldIterateFrom :: "32 word option"
  er_Rest :: bytes

record PlatformPulseData =
  pp_Pulse :: "FullPulse option"
  pp_Records :: "ex_Record list"

text \<open>The functions and constants of the platform's packages that the explorer calls.\<close>

record insolar_lib =
  Depth :: "bytes \<Rightarrow> byte"                       \<comment> \<open>JetID.Depth\<close>
  Prefix :: "bytes \<Rightarrow> bytes"                     \<comment> \<open>JetID.Prefix\<close>
  JetIsValid :: "bytes \<Rightarrow> bool"                  \<comment> \<open>JetID.IsValid\<close>
  IDHash :: "bytes \<Rightarrow> bytes"                     \<comment> \<open>ID.Hash\<close>
  IDPulse :: "bytes \<Rightarrow> 32 word"                  \<comment> \<open>ID.Pulse\<close>
  IDString :: "bytes \<Rightarrow> string"                  \<comment> \<open>NewIDFromBytes(b).String()\<close>
  RefLocal :: "bytes \<Rightarrow> bytes"                   \<comment> \<open>Reference.GetLocal().Bytes()\<close>
  AsEpoch :: "32 word \<Rightarrow> 32 word"                \<comment> \<open>PulseNumber.AsEpoch\<close>
  GenesisRef :: "string \<Rightarrow> bytes"                \<comment> \<open>genesisrefs.GenesisRef\<close>
  Marshal :: "ex_Record \<Rightarrow> error + bytes"        \<comment> \<open>exporter.Record.Marshal\<close>
  MinTimePulse :: "32 word"                      \<comment> \<open>pulse.MinTimePulse\<close>

text \<open>A library in which the text of an identifier is its bytes, for concrete inputs.\<close>

definition plain_lib :: insolar_lib where
  "plain_lib = \<lparr>Depth = (\<lambda>b. of_nat (8 * length b)), Prefix = (\<lambda>b. b), JetIsValid = (\<lambda>_. True),
     IDHash = (\<lambda>b. b), IDPulse = (\<lambda>_. 65600), IDString = map (\<lambda>w. char_of (unat w)),
     RefLocal = (\<lambda>b. b), AsEpoch = (\<lambda>p. p), GenesisRef = map of_char,
     Marshal = (\<lambda>r. Inr (er_Rest r)), MinTimePulse = 65537\<rparr>"

section \<open>Canonical types (etl/types)\<close>

record types_Pulse =
  tp_PulseNo :: int
  tp_EpochPulseNo :: int
  tp_PulseTimestamp :: int
  tp_NextPulseNumber :: int
  tp_PrevPulseNumber :: int

datatype types_RecordType = STATE | REQUEST | RESULT

record types_Record =
  tr_Type :: types_RecordType
  tr_Ref :: bytes
  tr_ObjectReference :: bytes
  tr_PrototypeReference :: bytes
  tr_PrevRecordReference :: bytes
  tr_RecordPayload :: bytes
  tr_Hash :: bytes
  tr_RawData :: bytes
  tr_Order :: "32 word"

record DropStart =
  ds_PulseData :: types_Pulse
  ds_JetDropPrefix :: string
  ds_JetDropPrefixLength :: nat

record DropContinue =
  dc_PrevDropHash :: "bytes list"

record MainSection =
  ms_Start :: DropStart
  ms_DropContinue :: DropContinue
  ms_Records :: "types_Record list"

text \<open>\<open>MainSection\<close> is the only implementation of the interface \<open>Section\<close>.\<close>

datatype Section = Section_Main MainSection

primrec IsSection :: "Section \<Rightarrow> bool" where
  "IsSection (Section_Main m) = True"

record types_JetDrop =
  tj_MainSection :: MainSection
  tj_Sections :: "Section list"
  tj_RawData :: bytes
  tj_Hash :: bytes

section \<open>Database rows (etl/models)\<close>

text \<open>\<open>[]RecordType{"state", "request", "result"}[rt]\<close>\<close>

fun RecordTypeFromTypes :: "types_RecordType \<Rightarrow> string" where
  "RecordTypeFromTypes STATE = ''state''"
| "RecordTypeFromTypes REQUEST = ''request''"
| "RecordTypeFromTypes RESULT = ''result''"

definition models_State :: string where
  "models_State = ''state''"

definition ReferenceFromTypes :: "bytes \<Rightarrow> bytes" where
  "ReferenceFromTypes r = r"

record models_Record =
  mr_Reference :: bytes
  mr_Type :: string
  mr_ObjectReference :: bytes
  mr_PrototypeReference :: bytes
  mr_Payload :: bytes
  mr_PrevRecordReference :: bytes
  mr_Hash :: bytes
  mr_RawData :: bytes
  mr_JetID :: string
  mr_PulseNumber :: int
  mr_Order :: int
  mr_Timestamp :: int

record models_JetDrop =
  mj_PulseNumber :: int
  mj_JetID :: string
  mj_FirstPrevHash :: bytes
  mj_SecondPrevHash :: bytes
  mj_Hash :: bytes
  mj_RawData :: bytes
  mj_Timestamp :: int
  mj_RecordAmount :: int

record models_Pulse =
  mp_PulseNumber :: int
  mp_PrevPulseNumber :: int
  mp_NextPulseNumber :: int
  mp_IsComplete :: bool
  mp_IsSequential :: bool
  mp_Timestamp :: int
  mp_JetDropAmount :: int
  mp_RecordAmount :: int

text \<open>The zero value \<open>models.Pulse{}\<close>.\<close>

definition emptyPulse :: models_Pulse where
  "emptyPulse = \<lparr>mp_PulseNumber = 0, mp_PrevPulseNumber = 0, mp_NextPulseNumber = 0,
     mp_IsComplete = False, mp_IsSequential = False, mp_Timestamp = 0,
     mp_JetDropAmount = 0, mp_RecordAmount = 0\<rparr>"

definition emptyJetDrop :: models_JetDrop where
  "emptyJetDrop = \<lparr>mj_PulseNumber = 0, mj_JetID = [], mj_FirstPrevHash = [],
     mj_SecondPrevHash = [], mj_Hash = [], mj_RawData = [], mj_Timestamp = 0, mj_RecordAmount = 0\<rparr>"

definition Siblings :: "models_JetDrop \<Rightarrow> string list" where
  "Siblings j =
     (let siblings = [mj_JetID j, mj_JetID j @ ''0'', mj_JetID j @ ''1''];
          sz = length (mj_JetID j)
      in if sz > 0 then siblings @ [take (sz - 1) (mj_JetID j)] else siblings)"

section \<open>Jet drop identifiers\<close>

record JetDropID =
  ji_JetID :: string
  ji_PulseNumber :: int

definition NewJetDropID :: "string \<Rightarrow> int \<Rightarrow> JetDropID" where
  "NewJetDropID jetID pulseNumber =
     \<lparr>ji_JetID = (if jetID = ''*'' then [] else jetID), ji_PulseNumber = pulseNumber\<rparr>"

text \<open>\<open>jetIDRegexp\<close>: \<open>^(\*|([0-1]{1,216}))$\<close>\<close>

definition jetIDRegexp :: "string \<Rightarrow> bool" where
  "jetIDRegexp s \<longleftrightarrow> s = ''*'' \<or>
     (1 \<le> length s \<and> length s \<le> 216 \<and> list_all (\<lambda>c. c = CHR ''0'' \<or> c = CHR ''1'') s)"

definition NewJetDropIDFromString :: "string \<Rightarrow> error + JetDropID" where
  "NewJetDropIDFromString jetDropID =
     (case QueryUnescape jetDropID of
        None \<Rightarrow> Inl (Err ''wrong jet drop id format'')
      | Some u \<Rightarrow>
          (let s = Split CHR '':'' u
           in if length s \<noteq> 2 then Inl (Err ''wrong jet drop id format'')
              else if \<not> jetIDRegexp (s ! 0) then Inl (Err ''wrong jet drop id format'')
              else (case ParseInt (s ! 1) of
                      None \<Rightarrow> Inl (Err ''wrong jet drop id format'')
                    | Some pulse \<Rightarrow> Inr (NewJetDropID (s ! 0) pulse))))"

definition JetIDToString_id :: "JetDropID \<Rightarrow> string" where
  "JetIDToString_id j = (if ji_JetID j = [] then ''*'' else ji_JetID j)"

definition ToString :: "JetDropID \<Rightarrow> string" where
  "ToString j = JetIDToString_id j @ '':'' @ Itoa (ji_PulseNumber j)"

section \<open>Properties of identifiers\<close>

definition is_bit :: "char \<Rightarrow> bool" where
  "is_bit c \<longleftrightarrow> c = CHR ''0'' \<or> c = CHR ''1''"

definition bitstring :: "string \<Rightarrow> bool" where
  "bitstring s \<longleftrightarrow> list_all is_bit s"

text \<open>A well-formed identifier: at most 216 bits of prefix, a pulse number of 64 bits.\<close>

definition JetDropID_ok :: "JetDropID \<Rightarrow> bool" where
  "JetDropID_ok j \<longleftrightarrow>
     bitstring (ji_JetID j) \<and> length (ji_JetID j) \<le> 216 \<and> int64_range (ji_PulseNumber j)"

lemma bitstring_Nil [simp]: "bitstring []"
  by (simp add: bitstring_def)

lemma bitstring_append [simp]: "bitstring (s @ t) \<longleftrightarrow> bitstring s \<and> bitstring t"
  by (simp add: bitstring_def)

lemma bitstring_Cons [simp]: "bitstring (c # t) \<longleftrightarrow> is_bit c \<and> bitstring t"
  by (simp add: bitstring_def)

lemma is_bit_chars [simp]: "is_bit CHR ''0''" "is_bit CHR ''1''"
  by (simp_all add: is_bit_def)

lemma bitstring_take [simp]: "bitstring s \<Longrightarrow> bitstring (take n s)"
  by (metis append_take_drop_id bitstring_append)

lemma bitstring_set: "bitstring s \<Longrightarrow> c \<in> set s \<Longrightarrow> c = CHR ''0'' \<or> c = CHR ''1''"
  by (auto simp: bitstring_def list_all_iff is_bit_def)

lemma jetIDRegexp_alt:
  "jetIDRegexp s \<longleftrightarrow> s = ''*'' \<or> (s \<noteq> [] \<and> length s \<le> 216 \<and> bitstring s)"
  by (cases s) (auto simp: jetIDRegexp_def bitstring_def is_bit_def [abs_def])

lemma JetIDToString_id_regexp:
  "bitstring (ji_JetID j) \<Longrightarrow> length (ji_JetID j) \<le> 216 \<Longrightarrow> jetIDRegexp (JetIDToString_id j)"
  by (auto simp: JetIDToString_id_def jetIDRegexp_alt)

lemma JetIDToString_id_no_special:
  assumes "bitstring (ji_JetID j)"
  shows "CHR '':'' \<notin> set (JetIDToString_id j)" "CHR ''%'' \<notin> set (JetIDToString_id j)"
    "CHR ''+'' \<notin> set (JetIDToString_id j)"
  using bitstring_set [OF assms] by (auto simp: JetIDToString_id_def)

lemma ToString_unescaped:
  assumes "bitstring (ji_JetID j)"
  shows "QueryUnescape (ToString j) = Some (ToString j)"
proof (rule QueryUnescape_plain)
  have n: "CHR ''%'' \<notin> set (Itoa (ji_PulseNumber j))" "CHR ''+'' \<notin> set (Itoa (ji_PulseNumber j))"
    using Itoa_chars [of "CHR ''%''"] Itoa_chars [of "CHR ''+''"] by auto
  show "CHR ''%'' \<notin> set (ToString j)" "CHR ''+'' \<notin> set (ToString j)"
    using n JetIDToString_id_no_special [OF assms] by (simp_all add: ToString_def)
qed

lemma NewJetDropID_JetIDToString_id:
  "bitstring (ji_JetID j) \<Longrightarrow> NewJetDropID (JetIDToString_id j) (ji_PulseNumber j) = j"
  by (cases j) (auto simp: NewJetDropID_def JetIDToString_id_def is_bit_def)

text \<open>A jet drop identifier that is printed parses back to itself.\<close>

theorem JetDropID_roundtrip:
  assumes "JetDropID_ok j"
  shows "NewJetDropIDFromString (ToString j) = Inr j"
proof -
  from assms have b: "bitstring (ji_JetID j)" "length (ji_JetID j) \<le> 216"
    and r: "int64_range (ji_PulseNumber j)" by (simp_all add: JetDropID_ok_def)
  have "Split CHR '':'' (ToString j) = [JetIDToString_id j, Itoa (ji_PulseNumber j)]"
    using JetIDToString_id_no_special(1) [OF b(1)] Itoa_no_colon
    by (simp add: ToString_def Split_append Split_no_sep)
  then show ?thesis
    using b r by (simp add: NewJetDropIDFromString_def ToString_unescaped
        JetIDToString_id_regexp ParseInt_Itoa NewJetDropID_JetIDToString_id)
qed

theorem JetDropID_roundtrip_witness:
  "JetDropID_ok \<lparr>ji_JetID = ''010'', ji_PulseNumber = 65600\<rparr> \<and>
   NewJetDropIDFromString (ToString \<lparr>ji_JetID = ''010'', ji_PulseNumber = 65600\<rparr>) =
     Inr \<lparr>ji_JetID = ''010'', ji_PulseNumber = 65600\<rparr>"
proof -
  have ok: "JetDropID_ok \<lparr>ji_JetID = ''010'', ji_PulseNumber = 65600\<rparr>"
    by (simp add: JetDropID_ok_def int64_range_def)
  from JetDropID_roundtrip [OF ok] ok show ?thesis by simp
qed

text \<open>C37: whatever text is accepted, the identifier it yields is well formed.\<close>

theorem NewJetDropIDFromString_ok:
  assumes "NewJetDropIDFromString s = Inr j"
  shows "JetDropID_ok j"
proof -
  from assms obtain u p where "jetIDRegexp (Split CHR '':'' u ! 0)"
    and p: "ParseInt (Split CHR '':'' u ! 1) = Some p"
    and j: "j = NewJetDropID (Split CHR '':'' u ! 0) p"
    by (auto simp: NewJetDropIDFromString_def Let_def split: option.splits if_splits)
  then show ?thesis
    using ParseInt_range [OF p] by (auto simp: JetDropID_ok_def NewJetDropID_def jetIDRegexp_alt)
qed

theorem NewJetDropIDFromString_ok_witness:
  "NewJetDropIDFromString ''%2A:65537'' = Inr \<lparr>ji_JetID = [], ji_PulseNumber = 65537\<rparr> \<and>
   JetDropID_ok \<lparr>ji_JetID = [], ji_PulseNumber = 65537\<rparr>"
proof -
  have p: "NewJetDropIDFromString ''%2A:65537'' = Inr \<lparr>ji_JetID = [], ji_PulseNumber = 65537\<rparr>"
    by (simp add: NewJetDropIDFromString_def Let_def char_of_def bit_0 hex_val_def jetIDRegexp_def ParseInt_def is_digit_def
        digit_val_def dec_val_def int64_range_def NewJetDropID_def)
  with NewJetDropIDFromString_ok [OF p] show ?thesis by simp
qed

section \<open>Siblings\<close>

text \<open>The jets that may carry the previous or next state of a jet: itself, its children, its parent.\<close>

lemma Siblings_set:
  "y \<in> set (Siblings j) \<longleftrightarrow>
     y = mj_JetID j \<or> (\<exists>c \<in> {CHR ''0'', CHR ''1''}. y = mj_JetID j @ [c])
       \<or> (mj_JetID j \<noteq> [] \<and> y = butlast (mj_JetID j))"
  by (auto simp: Siblings_def Let_def butlast_conv_take)

text \<open>On bit strings, being siblings is symmetric, so a jet drop sees another as its
  predecessor exactly when the other sees it as its successor.\<close>

theorem Siblings_symmetric:
  assumes "bitstring (mj_JetID a)" "bitstring (mj_JetID b)"
  shows "mj_JetID a \<in> set (Siblings b) \<longleftrightarrow> mj_JetID b \<in> set (Siblings a)"
proof -
  have sym: "mj_JetID y \<in> set (Siblings x)"
    if y: "bitstring (mj_JetID y)" and xy: "mj_JetID x \<in> set (Siblings y)" for x y
  proof -
    have "last (mj_JetID y) \<in> {CHR ''0'', CHR ''1''}" if "mj_JetID y \<noteq> []"
      using that bitstring_set [OF y, of "last (mj_JetID y)"] by simp
    moreover have "mj_JetID y = mj_JetID x @ [last (mj_JetID y)]"
      if "mj_JetID y \<noteq> []" "mj_JetID x = butlast (mj_JetID y)"
      using that by simp
    ultimately show ?thesis
      using xy by (auto simp: Siblings_set simp del: append_butlast_last_id)
  qed
  from assms show ?thesis using sym by blast
qed

theorem Siblings_symmetric_witness:
  "(''01'' \<in> set (Siblings (emptyJetDrop\<lparr>mj_JetID := ''0''\<rparr>))) =
   (''0'' \<in> set (Siblings (emptyJetDrop\<lparr>mj_JetID := ''01''\<rparr>)))"
  using Siblings_symmetric [of "emptyJetDrop\<lparr>mj_JetID := ''01''\<rparr>" "emptyJetDrop\<lparr>mj_JetID := ''0''\<rparr>"]
  by simp

end
