(* ===== verification/Converter.thy ===== *)
theory Converter
  imports Types_Models
begin

unbundle bit_operations_syntax

text \<open>
  \<open>instrumentation/converter/platform.go\<close> and \<open>instrumentation/comparator.go\<close>: the textual form
  of a jet identifier, nanoseconds and seconds, and the test for an empty reference. Integers keep
  their width: \<open>uint8\<close> counters, \<open>uint32\<close> seconds and \<open>int64\<close> nanoseconds are words.
\<close>

section \<open>Definitions\<close>

text \<open>\<open>int64\<close> division of Go truncates towards zero.\<close>

definition go_div64 :: "64 word \<Rightarrow> 64 word \<Rightarrow> 64 word" where
  "go_div64 a b = word_of_int (sgn (sint a) * sgn (sint b) * (\<bar>sint a\<bar> div \<bar>sint b\<bar>))"

definition NanosecondsInSecond :: "64 word" where
  "NanosecondsInSecond = 1000000000"

definition SecondsToNanos :: "32 word \<Rightarrow> 64 word" where
  "SecondsToNanos seconds = ucast seconds * NanosecondsInSecond"

definition NanosToSeconds :: "64 word \<Rightarrow> 64 word" where
  "NanosToSeconds nanoseconds = go_div64 nanoseconds NanosecondsInSecond"

text \<open>
  The loop of \<open>JetIDToString\<close>, from counter \<open>i\<close>, a \<open>uint8\<close>: bit \<open>7 - i%8\<close> of byte \<open>i/8\<close> of the
  prefix. Reading past the prefix panics.
\<close>

function jet_bits :: "byte \<Rightarrow> byte \<Rightarrow> bytes \<Rightarrow> string outcome" where
  "jet_bits i depth pfx =
     (if i < depth then
        (let bytePos = i div 8; bitPos = 7 - i mod 8
         in if unat bytePos \<ge> length pfx then Panic IndexOutOfRange
            else let byteValue = pfx ! unat bytePos;
                     bitValue = drop_bit (unat bitPos) byteValue AND 1
                 in bind_outcome (jet_bits (i + 1) depth pfx)
                      (\<lambda>rest. Done (Itoa (uint bitValue) @ rest)))
      else Done [])"
  by pat_completeness auto
termination
proof (relation "measure (\<lambda>(i, depth, pfx). unat depth - unat i)", simp)
  fix i depth :: byte and pfx :: bytes
  assume "i < depth"
  then have "unat (i + 1) = unat i + 1 \<and> unat i < unat depth" by unat_arith
  then show "((i + 1, depth, pfx), i, depth, pfx)
      \<in> measure (\<lambda>(i, depth, pfx). unat depth - unat i)"
    by (simp add: diff_less_mono2)
qed

declare jet_bits.simps [simp del]

definition JetIDToString :: "insolar_lib \<Rightarrow> bytes \<Rightarrow> string outcome" where
  "JetIDToString L jid =
     (let depth = Depth L jid; pfx = Prefix L jid
      in if depth = 0 then Done [] else jet_bits 0 depth pfx)"

text \<open>\<open>instrumentation.IsEmpty\<close>: no bytes, or only zero bytes.\<close>

definition IsEmpty :: "bytes \<Rightarrow> bool" where
  "IsEmpty b \<longleftrightarrow> (let emptyByte = replicate (length b) 0 in b = [] \<or> b = emptyByte)"

section \<open>Properties\<close>

text \<open>The bit of a prefix that stands at a position of the text.\<close>

definition jet_bit :: "bytes \<Rightarrow> nat \<Rightarrow> char" where
  "jet_bit pfx k = (if bit (pfx ! (k div 8)) (7 - k mod 8) then CHR ''1'' else CHR ''0'')"

lemma Itoa_bit: "Itoa (uint (drop_bit n (w :: byte) AND 1)) = (if bit w n then ''1'' else ''0'')"
proof -
  have "Itoa 0 = ''0''" "Itoa 1 = ''1''"
    by (simp_all add: Itoa_def dec_nat.simps digit_char_def char_of_def bit_0)
  then show ?thesis
    by (simp add: and_one_eq bit_iff_odd_drop_bit mod_2_eq_odd)
qed

lemma unat_byte_pos:
  fixes i :: byte
  shows "unat (i div 8) = unat i div 8" "unat (7 - i mod 8) = 7 - unat i mod 8"
proof -
  have m: "unat (i mod 8) = unat i mod 8" by (simp add: unat_mod)
  moreover have "i mod 8 \<le> 7"
    using m by (simp add: word_le_nat_alt)
  ultimately show "unat (7 - i mod 8) = 7 - unat i mod 8"
    by (simp add: unat_sub)
qed (simp add: unat_div)

lemma unat_succ: "(i :: byte) < depth \<Longrightarrow> unat (i + 1) = Suc (unat i) \<and> unat i < unat depth"
  by unat_arith

lemma jet_bits_done:
  "unat depth \<le> 8 * length pfx \<Longrightarrow>
   jet_bits i depth pfx = Done (map (jet_bit pfx) [unat i..<unat depth])"
proof (induction i depth pfx rule: jet_bits.induct)
  case (1 i depth pfx)
  show ?case
  proof (cases "i < depth")
    case True
    note s = unat_succ [OF True]
    with "1.prems" have len: "unat i div 8 < length pfx" by auto
    with "1.IH" True "1.prems"
    have "jet_bits (i + 1) depth pfx = Done (map (jet_bit pfx) [Suc (unat i)..<unat depth])"
      using s by (simp add: unat_byte_pos)
    with True s len show ?thesis
      by (simp add: jet_bits.simps [of i] unat_byte_pos Itoa_bit upt_conv_Cons jet_bit_def)
  next
    case False
    then show ?thesis by (simp add: jet_bits.simps [of i] word_less_nat_alt)
  qed
qed

lemma jet_bits_panic:
  "8 * length pfx < unat depth \<Longrightarrow> unat i \<le> 8 * length pfx \<Longrightarrow>
   jet_bits i depth pfx = Panic IndexOutOfRange"
proof (induction i depth pfx rule: jet_bits.induct)
  case (1 i depth pfx)
  then have lt: "i < depth" by (simp add: word_less_nat_alt)
  note s = unat_succ [OF lt]
  show ?case
  proof (cases "unat i div 8 < length pfx")
    case True
    with s have "unat (i + 1) \<le> 8 * length pfx" by auto
    with 1 lt True show ?thesis
      by (simp add: jet_bits.simps [of i] unat_byte_pos)
  next
    case False
    with lt show ?thesis by (simp add: jet_bits.simps [of i] unat_byte_pos)
  qed
qed

lemma jet_bit_is_bit [simp]: "is_bit (jet_bit pfx k)"
  by (simp add: jet_bit_def)

lemma JetIDToString_eq:
  "JetIDToString L jid =
     (if unat (Depth L jid) \<le> 8 * length (Prefix L jid)
      then Done (map (jet_bit (Prefix L jid)) [0..<unat (Depth L jid)])
      else Panic IndexOutOfRange)"
  by (auto simp: JetIDToString_def Let_def jet_bits_done jet_bits_panic)

lemma JetIDToString_bitstring:
  "JetIDToString L jid = Done s \<Longrightarrow> bitstring s \<and> length s = unat (Depth L jid)"
  by (auto simp: JetIDToString_eq bitstring_def list_all_iff split: if_splits)

lemma sint_SecondsToNanos: "sint (SecondsToNanos s) = uint s * 1000000000"
proof -
  have u: "uint s < 2 ^ LENGTH(32)" by (rule unsigned_less)
  then have "uint (SecondsToNanos s) = uint s * 1000000000"
    by (simp add: SecondsToNanos_def NanosecondsInSecond_def uint_word_ariths unsigned_ucast_eq
        take_bit_eq_mod)
  moreover have "signed_take_bit 63 (uint s * 1000000000) = uint s * 1000000000"
  proof (rule signed_take_bit_int_eq_self)
    have "0 \<le> uint s" by simp
    then have "0 \<le> uint s * 1000000000" by simp
    then show "- (2 ^ 63) \<le> uint s * 1000000000" by (rule order_trans [rotated]) simp
  qed (use u in simp)
  ultimately show ?thesis
    by (simp add: sint_uint)
qed

text \<open>No \<open>uint32\<close> number of seconds overflows the \<open>int64\<close> of nanoseconds, and converting back
  is the identity.\<close>

theorem SecondsToNanos_exact:
  "sint (SecondsToNanos s) = uint s * 1000000000 \<and> NanosToSeconds (SecondsToNanos s) = ucast s"
proof
  show e: "sint (SecondsToNanos s) = uint s * 1000000000" by (rule sint_SecondsToNanos)
  have "sint NanosecondsInSecond = 1000000000"
    by (simp add: NanosecondsInSecond_def)
  then have "NanosToSeconds (SecondsToNanos s) =
      word_of_int (sgn (uint s * 1000000000) * \<bar>uint s\<bar>)"
    unfolding NanosToSeconds_def go_div64_def by (simp add: e abs_mult)
  moreover have "sgn (uint s * 1000000000) * \<bar>uint s\<bar> = uint s"
    by (cases "uint s = 0") (simp_all add: sgn_if order_less_le)
  ultimately show "NanosToSeconds (SecondsToNanos s) = ucast s"
    by (simp only: ucast_eq)
qed

lemma IsEmpty_iff: "IsEmpty b \<longleftrightarrow> (\<forall>x \<in> set b. x = 0)"
proof -
  have "IsEmpty b \<longleftrightarrow> b = replicate (length b) 0"
    by (auto simp: IsEmpty_def Let_def)
  also have "\<dots> \<longleftrightarrow> (\<forall>x \<in> set b. x = 0)"
    by (metis in_set_replicate replicate_eqI)
  finally show ?thesis .
qed

end
