(* ===== verification/Transformer.thy ===== *)
theory Transformer
  imports Converter
begin

text \<open>
  \<open>etl/transformer/transformer.go\<close>: the translation of a platform pulse with its records into
  canonical jet drops. Maps keyed by object and by reference are association lists; the loops
  over them follow a range oracle, so every result below holds for every iteration order.

  \<open>sortRecords\<close> puts the state records of each object in the order of change. The main results:
  it returns a permutation of its input in which the records of each object form a lifeline, and
  it succeeds on every input whose objects have one, with the same lifelines whatever the
  iteration order.
\<close>

section \<open>Converting one record\<close>

definition UnsupportedRecordTypeError :: error where
  "UnsupportedRecordTypeError = Err ''Record does not support''"

definition restoreInsolarID :: "insolar_lib \<Rightarrow> bytes \<Rightarrow> string" where
  "restoreInsolarID L b = IDString L (if IsEmpty b then [] else b)"

definition getPulseData :: "insolar_lib \<Rightarrow> FullPulse \<Rightarrow> types_Pulse" where
  "getPulseData L pn =
     \<lparr>tp_PulseNo = uint (fp_PulseNumber pn),
      tp_EpochPulseNo = uint (AsEpoch L (fp_PulseNumber pn)),
      tp_PulseTimestamp = sint (NanosToSeconds (fp_PulseTimestamp pn)),
      tp_NextPulseNumber = uint (fp_NextPulseNumber pn),
      tp_PrevPulseNumber = uint (fp_PrevPulseNumber pn)\<rparr>"

definition transferToCanonicalRecord :: "insolar_lib \<Rightarrow> ex_Record \<Rightarrow> error + types_Record" where
  "transferToCanonicalRecord L r =
     (case Marshal L r of
        Inl err \<Rightarrow> Inl (Wrap err ''cannot get record raw data'')
      | Inr rawData \<Rightarrow>
          (let ret = \<lparr>tr_Type = STATE, tr_Ref = er_ID r, tr_ObjectReference = er_ObjectID r,
                 tr_PrototypeReference = [], tr_PrevRecordReference = [], tr_RecordPayload = [],
                 tr_Hash = IDHash L (er_ID r), tr_RawData = rawData,
                 tr_Order = er_RecordNumber r\<rparr>;
               genesis = (IDPulse L (er_ID r) = MinTimePulse L)
           in case er_Virtual r of
                Virtual_Activate img memory request \<Rightarrow>
                  Inr (ret\<lparr>tr_Type := STATE, tr_PrototypeReference := img,
                    tr_RecordPayload := memory,
                    tr_ObjectReference := (if genesis then RefLocal L request else er_ObjectID r)\<rparr>)
              | Virtual_Amend img memory prevState request \<Rightarrow>
                  Inr (ret\<lparr>tr_Type := STATE, tr_PrototypeReference := img,
                    tr_RecordPayload := memory, tr_PrevRecordReference := prevState,
                    tr_ObjectReference := (if genesis then RefLocal L request else er_ObjectID r)\<rparr>)
              | Virtual_Deactivate prevState \<Rightarrow>
                  Inr (ret\<lparr>tr_Type := STATE, tr_PrevRecordReference := prevState\<rparr>)
              | Virtual_Result payload object \<Rightarrow>
                  Inr (ret\<lparr>tr_Type := RESULT, tr_RecordPayload := payload,
                    tr_ObjectReference := (if genesis then object else er_ObjectID r)\<rparr>)
              | Virtual_IncomingRequest method \<Rightarrow>
                  Inr (ret\<lparr>tr_Type := REQUEST,
                    tr_ObjectReference :=
                      (if genesis then RefLocal L (GenesisRef L method) else er_ObjectID r)\<rparr>)
              | Virtual_OutgoingRequest \<Rightarrow> Inr (ret\<lparr>tr_Type := REQUEST\<rparr>)
              | Virtual_Other \<Rightarrow> Inl UnsupportedRecordTypeError))"

section \<open>Sorting the records of a jet drop\<close>

text \<open>\<open>map[string]types.Record\<close>, and the maps of maps keyed by object first.\<close>

type_synonym record_map = "(string, types_Record) gomap"
type_synonym object_map = "(string, record_map) gomap"

definition map_get :: "'k \<Rightarrow> ('k, 'v list) gomap \<Rightarrow> 'v list" where
  "map_get k m = (case map_of m k of None \<Rightarrow> [] | Some v \<Rightarrow> v)"

definition put_nested :: "string \<Rightarrow> string \<Rightarrow> types_Record \<Rightarrow> object_map \<Rightarrow> object_map" where
  "put_nested obj k r m = map_put obj (map_put k r (map_get obj m)) m"

text \<open>The loop of \<open>initRecordsMapsByObj\<close>; its state is (by previous reference, by reference, others).\<close>

fun init_maps_loop ::
  "insolar_lib \<Rightarrow> types_Record list \<Rightarrow> object_map \<times> object_map \<times> types_Record list
   \<Rightarrow> object_map \<times> object_map \<times> types_Record list" where
  "init_maps_loop L [] st = st"
| "init_maps_loop L (r # rs) (byPrevRef, byRef, notState) =
     (if tr_Type r \<noteq> STATE then init_maps_loop L rs (byPrevRef, byRef, notState @ [r])
      else let obj = restoreInsolarID L (tr_ObjectReference r)
           in init_maps_loop L rs
                (put_nested obj (restoreInsolarID L (tr_PrevRecordReference r)) r byPrevRef,
                 put_nested obj (restoreInsolarID L (tr_Ref r)) r byRef,
                 notState))"

definition initRecordsMapsByObj ::
  "insolar_lib \<Rightarrow> types_Record list \<Rightarrow> object_map \<times> object_map \<times> types_Record list" where
  "initRecordsMapsByObj L records = init_maps_loop L records ([], [], [])"

text \<open>
  The search for the head: the first visited record whose previous reference is not the
  reference of a record of the same object.
\<close>

fun find_head :: "insolar_lib \<Rightarrow> record_map \<Rightarrow> record_map \<Rightarrow> string list \<Rightarrow> types_Record option" where
  "find_head L byRef byPrev [] = None"
| "find_head L byRef byPrev (k # ks) =
     (case map_of byPrev k of
        None \<Rightarrow> find_head L byRef byPrev ks
      | Some r \<Rightarrow>
          (if map_of byRef (restoreInsolarID L (tr_PrevRecordReference r)) = None then Some r
           else find_head L byRef byPrev ks))"

text \<open>The loop that appends the successors of the head; \<open>n\<close> is \<open>len(recordsByPrevRef) - i\<close>.\<close>

fun follow_chain ::
  "insolar_lib \<Rightarrow> string \<Rightarrow> record_map \<Rightarrow> nat \<Rightarrow> string \<Rightarrow> types_Record list \<Rightarrow> error + types_Record list"
where
  "follow_chain L objRef byPrev 0 key acc = Inr acc"
| "follow_chain L objRef byPrev (Suc n) key acc =
     (case map_of byPrev key of
        None \<Rightarrow> Inl (Err (''cannot find record with prev record '' @ key @ '', object '' @ objRef))
      | Some r \<Rightarrow> follow_chain L objRef byPrev n (restoreInsolarID L (tr_Ref r)) (acc @ [r]))"

definition sort_object ::
  "insolar_lib \<Rightarrow> (string list \<Rightarrow> string list) \<Rightarrow> string \<Rightarrow> record_map \<Rightarrow> record_map
   \<Rightarrow> types_Record list \<Rightarrow> error + types_Record list" where
  "sort_object L order objRef byRef byPrev sortedRecords =
     (if length byRef = 1 then Inr (sortedRecords @ map snd byRef)
      else case find_head L byRef byPrev (order (map_keys byPrev)) of
             None \<Rightarrow> Inl (Err (''cannot find head record for object '' @ objRef))
           | Some headRecord \<Rightarrow>
               follow_chain L objRef byPrev (length byPrev - 1)
                 (restoreInsolarID L (tr_Ref headRecord)) (sortedRecords @ [headRecord]))"

text \<open>The loop over the objects; the \<open>k\<close>-th object's inner loop uses the oracle at \<open>k\<close>.\<close>

fun sort_objects ::
  "insolar_lib \<Rightarrow> string range_order \<Rightarrow> nat \<Rightarrow> object_map \<Rightarrow> object_map \<Rightarrow> string list
   \<Rightarrow> types_Record list \<Rightarrow> error + types_Record list" where
  "sort_objects L ro k byObjAndPrevRef byObjAndRef [] acc = Inr acc"
| "sort_objects L ro k byObjAndPrevRef byObjAndRef (obj # objs) acc =
     (case sort_object L (ro (Suc k)) obj (map_get obj byObjAndRef) (map_get obj byObjAndPrevRef) acc of
        Inl e \<Rightarrow> Inl e
      | Inr acc' \<Rightarrow> sort_objects L ro (Suc k) byObjAndPrevRef byObjAndRef objs acc')"

definition sortRecords ::
  "insolar_lib \<Rightarrow> string range_order \<Rightarrow> types_Record list \<Rightarrow> error + types_Record list" where
  "sortRecords L ro records =
     (let (byObjAndPrevRef, byObjAndRef, notState) = initRecordsMapsByObj L records
      in case sort_objects L ro 0 byObjAndPrevRef byObjAndRef (ro 0 (map_keys byObjAndRef)) notState of
           Inl e \<Rightarrow> Inl e
         | Inr sortedRecords \<Rightarrow>
             (if length records \<noteq> length sortedRecords
              then Inl (Err (''Number of records before sorting ('' @ Itoa (int (length records))
                @ '') changes after ('' @ Itoa (int (length sortedRecords)) @ '')''))
              else Inr sortedRecords))"

section \<open>Jet drops\<close>

text \<open>\<open>getJetDrop\<close> returns a nil pointer, here \<open>None\<close>, when the records cannot be sorted.\<close>

definition getJetDrop ::
  "insolar_lib \<Rightarrow> string range_order \<Rightarrow> bytes \<Rightarrow> types_Record list \<Rightarrow> types_Pulse \<Rightarrow> bytes \<Rightarrow> bytes list
   \<Rightarrow> types_JetDrop option outcome" where
  "getJetDrop L ro jetID records pulseData hash prevDropHash =
     bind_outcome (if JetIsValid L jetID then JetIDToString L jetID else Done [])
       (\<lambda>pfx. case sortRecords L ro records of
          Inl err \<Rightarrow> Done None
        | Inr records' \<Rightarrow>
            Done (Some
              \<lparr>tj_MainSection =
                 \<lparr>ms_Start = \<lparr>ds_PulseData = pulseData, ds_JetDropPrefix = pfx,
                               ds_JetDropPrefixLength = length pfx\<rparr>,
                  ms_DropContinue = \<lparr>dc_PrevDropHash = prevDropHash\<rparr>,
                  ms_Records = records'\<rparr>,
               tj_Sections = [], tj_RawData = [], tj_Hash = hash\<rparr>))"

type_synonym jet_map = "(bytes, types_Record list) gomap"

fun get_records_loop :: "insolar_lib \<Rightarrow> ex_Record list \<Rightarrow> jet_map \<Rightarrow> error + jet_map" where
  "get_records_loop L [] res = Inr res"
| "get_records_loop L (r # rs) res =
     (case transferToCanonicalRecord L r of
        Inl err \<Rightarrow> (if err = UnsupportedRecordTypeError then get_records_loop L rs res else Inl err)
      | Inr record \<Rightarrow>
          get_records_loop L rs (map_put (er_JetID r) (map_get (er_JetID r) res @ [record]) res))"

text \<open>\<open>getRecords\<close>; the partial map it returns beside an error is dropped by its only caller.\<close>

definition getRecords :: "insolar_lib \<Rightarrow> PlatformPulseData option \<Rightarrow> error + jet_map" where
  "getRecords L jd =
     (case jd of
        None \<Rightarrow> Inr []
      | Some d \<Rightarrow>
          (case (pp_Records d, pp_Pulse d) of
             ([], Some p) \<Rightarrow> Inr (foldl (\<lambda>res jet. map_put (jc_JetID jet) [] res) [] (fp_Jets p))
           | (rs, _) \<Rightarrow> get_records_loop L rs []))"

definition add_missing_jets :: "JetDropContinue list \<Rightarrow> jet_map \<Rightarrow> jet_map" where
  "add_missing_jets jets m =
     foldl (\<lambda>m jet. if map_of m (jc_JetID jet) \<noteq> None then m else map_put (jc_JetID jet) [] m) m jets"

fun jet_drops_loop ::
  "insolar_lib \<Rightarrow> (nat \<Rightarrow> string range_order) \<Rightarrow> nat \<Rightarrow> types_Pulse \<Rightarrow> jet_map \<Rightarrow> JetDropContinue list
   \<Rightarrow> types_JetDrop list \<Rightarrow> types_JetDrop list outcome" where
  "jet_drops_loop L ros k pulseData m [] result = Done result"
| "jet_drops_loop L ros k pulseData m (jet # jets) result =
     bind_outcome
       (getJetDrop L (ros k) (jc_JetID jet) (map_get (jc_JetID jet) m) pulseData (jc_Hash jet)
          (jc_PrevDropHashes jet))
       (\<lambda>localJetDrop.
          jet_drops_loop L ros (Suc k) pulseData m jets
            (case localJetDrop of None \<Rightarrow> result | Some d \<Rightarrow> result @ [d]))"

definition Transform ::
  "insolar_lib \<Rightarrow> (nat \<Rightarrow> string range_order) \<Rightarrow> PlatformPulseData option
   \<Rightarrow> (error + types_JetDrop list) outcome" where
  "Transform L ros jd =
     (case jd of
        None \<Rightarrow> Panic NilDereference
      | Some d \<Rightarrow>
          (case pp_Pulse d of
             None \<Rightarrow> Panic NilDereference
           | Some pulse \<Rightarrow>
               (let pulseData = getPulseData L pulse
                in case getRecords L jd of
                     Inl err \<Rightarrow> Done (Inl err)
                   | Inr m \<Rightarrow>
                       bind_outcome
                         (jet_drops_loop L ros 0 pulseData (add_missing_jets (fp_Jets pulse) m)
                            (fp_Jets pulse) [])
                         (\<lambda>result. Done (Inr result)))))"

section \<open>Lifelines\<close>

text \<open>
  The three keys of a record, and the order of change: in a lifeline each record names its
  predecessor, references do not repeat, and the first of several names no record of the list.
\<close>

abbreviation refkey :: "insolar_lib \<Rightarrow> types_Record \<Rightarrow> string" where
  "refkey L r \<equiv> restoreInsolarID L (tr_Ref r)"

abbreviation prevkey :: "insolar_lib \<Rightarrow> types_Record \<Rightarrow> string" where
  "prevkey L r \<equiv> restoreInsolarID L (tr_PrevRecordReference r)"

abbreviation objkey :: "insolar_lib \<Rightarrow> types_Record \<Rightarrow> string" where
  "objkey L r \<equiv> restoreInsolarID L (tr_ObjectReference r)"

definition lifeline :: "insolar_lib \<Rightarrow> types_Record list \<Rightarrow> bool" where
  "lifeline L c \<longleftrightarrow> c \<noteq> [] \<and> distinct (map (refkey L) c) \<and>
     chained (\<lambda>a b. prevkey L b = refkey L a) c \<and>
     (length c = 1 \<or> prevkey L (hd c) \<notin> set (map (refkey L) c))"

definition state_records :: "types_Record list \<Rightarrow> types_Record list" where
  "state_records rs = filter (\<lambda>r. tr_Type r = STATE) rs"

definition records_of :: "insolar_lib \<Rightarrow> string \<Rightarrow> types_Record list \<Rightarrow> types_Record list" where
  "records_of L obj rs = filter (\<lambda>r. tr_Type r = STATE \<and> objkey L r = obj) rs"

text \<open>References are unique among the state records of one object.\<close>

definition refs_unique :: "insolar_lib \<Rightarrow> types_Record list \<Rightarrow> bool" where
  "refs_unique L rs \<longleftrightarrow> (\<forall>obj. distinct (map (refkey L) (records_of L obj rs)))"

subsection \<open>The maps built by the code\<close>

definition index_by :: "(types_Record \<Rightarrow> string) \<Rightarrow> types_Record list \<Rightarrow> record_map" where
  "index_by f rs = foldl (\<lambda>m r. map_put (f r) r m) [] rs"

lemma index_by_snoc: "index_by f (rs @ [r]) = map_put (f r) r (index_by f rs)"
  by (simp add: index_by_def)

lemma index_by_Nil [simp]: "index_by f [] = []"
  by (simp add: index_by_def)

lemma map_put_new: "map_of m k = None \<Longrightarrow> map_put k v m = m @ [(k, v)]"
  by (induction m) auto

lemma index_by_keys: "fst ` set (index_by f rs) = f ` set rs"
  by (induction rs rule: rev_induct) (simp_all add: index_by_snoc)

lemma index_by_distinct: "distinct (map f rs) \<Longrightarrow> index_by f rs = map (\<lambda>r. (f r, r)) rs"
proof (induction rs rule: rev_induct)
  case (snoc r rs)
  then have "map_of (index_by f rs) (f r) = None"
    using index_by_keys [of f rs] by (auto simp: map_of_eq_None_iff)
  with snoc show ?case by (simp add: index_by_snoc map_put_new)
qed simp

lemma gomap_index_by: "gomap (index_by f rs)"
  by (induction rs rule: rev_induct) (simp_all add: index_by_snoc)

lemma length_index_by: "length (index_by f rs) = card (set (map f rs))"
  using gomap_index_by [of f rs] index_by_keys [of f rs]
  by (metis distinct_card gomap_def length_map list.set_map)

lemma length_index_by_le: "length (index_by f rs) \<le> length rs"
  by (metis card_length length_index_by length_map)

lemma length_index_by_eq: "length (index_by f rs) = length rs \<longleftrightarrow> distinct (map f rs)"
  by (metis card_distinct distinct_card length_index_by length_map)

definition nested_index ::
  "(types_Record \<Rightarrow> string) \<Rightarrow> (types_Record \<Rightarrow> string) \<Rightarrow> object_map \<Rightarrow> types_Record list \<Rightarrow> object_map"
where
  "nested_index g f m rs = foldl (\<lambda>m r. put_nested (g r) (f r) r m) m rs"

lemma map_get_put_nested:
  "map_get o1 (put_nested o2 k r m) = (if o1 = o2 then map_put k r (map_get o1 m) else map_get o1 m)"
  by (simp add: put_nested_def map_get_def)

lemma map_get_nested_index:
  "map_get obj (nested_index g f m rs) =
     foldl (\<lambda>m r. map_put (f r) r m) (map_get obj m) (filter (\<lambda>r. g r = obj) rs)"
  by (induction rs arbitrary: m) (simp_all add: nested_index_def map_get_put_nested)

lemma nested_index_keys: "fst ` set (nested_index g f m rs) = fst ` set m \<union> g ` set rs"
proof (induction rs arbitrary: m)
  case (Cons r rs)
  have "fst ` set (put_nested (g r) (f r) r m) = insert (g r) (fst ` set m)"
    by (simp add: put_nested_def)
  with Cons [of "put_nested (g r) (f r) r m"] show ?case by (simp add: nested_index_def)
qed (simp add: nested_index_def)

lemma gomap_nested_index: "gomap m \<Longrightarrow> gomap (nested_index g f m rs)"
  by (induction rs arbitrary: m) (simp_all add: nested_index_def put_nested_def)

lemma init_maps_loop_eq:
  "init_maps_loop L rs (P, R, N) =
     (nested_index (objkey L) (prevkey L) P (state_records rs),
      nested_index (objkey L) (refkey L) R (state_records rs),
      N @ filter (\<lambda>r. tr_Type r \<noteq> STATE) rs)"
  by (induction rs arbitrary: P R N)
    (simp_all add: nested_index_def state_records_def Let_def)

lemma records_of_state: "records_of L obj rs = filter (\<lambda>r. objkey L r = obj) (state_records rs)"
  by (simp add: records_of_def state_records_def conj_commute)

subsection \<open>The head and its successors\<close>

lemma find_head_Some:
  "find_head L byRef byPrev ks = Some r \<Longrightarrow>
   \<exists>k \<in> set ks. map_of byPrev k = Some r \<and> map_of byRef (prevkey L r) = None"
  by (induction ks) (auto split: option.splits if_splits)

lemma find_head_None:
  "find_head L byRef byPrev ks = None \<Longrightarrow> k \<in> set ks \<Longrightarrow> map_of byPrev k = Some r \<Longrightarrow>
   map_of byRef (prevkey L r) \<noteq> None"
  by (induction ks) (auto split: option.splits if_splits)

fun links :: "insolar_lib \<Rightarrow> record_map \<Rightarrow> string \<Rightarrow> types_Record list \<Rightarrow> bool" where
  "links L byPrev key [] = True"
| "links L byPrev key (r # c) = (map_of byPrev key = Some r \<and> links L byPrev (refkey L r) c)"

lemma follow_chain_Inr:
  "follow_chain L obj byPrev n key acc = Inr out \<longleftrightarrow>
   (\<exists>c. out = acc @ c \<and> length c = n \<and> links L byPrev key c)"
proof (induction n arbitrary: key acc)
  case (Suc n)
  show ?case
  proof (cases "map_of byPrev key")
    case None
    then show ?thesis by (auto simp: length_Suc_conv)
  next
    case (Some r)
    with Suc show ?thesis by (auto simp: length_Suc_conv)
  qed
qed auto

lemma links_prev:
  assumes "\<And>k r. map_of byPrev k = Some r \<Longrightarrow> prevkey L r = k \<and> r \<in> R"
  shows "links L byPrev (refkey L h) c \<Longrightarrow>
     chained (\<lambda>a b. prevkey L b = refkey L a) (h # c) \<and> set c \<subseteq> R"
proof (induction c arbitrary: h)
  case (Cons r c)
  then show ?case using assms [of "refkey L h" r] Cons.IH [of r] by simp
qed simp

lemma links_of_chain:
  assumes "distinct (map (prevkey L) rs)"
  shows "chained (\<lambda>a b. prevkey L b = refkey L a) (h # c) \<Longrightarrow> set c \<subseteq> set rs \<Longrightarrow>
     links L (map (\<lambda>r. (prevkey L r, r)) rs) (refkey L h) c"
proof (induction c arbitrary: h)
  case (Cons r c)
  then have "refkey L h = prevkey L r" "r \<in> set rs" by auto
  then have "(refkey L h, r) \<in> set (map (\<lambda>r. (prevkey L r, r)) rs)" by simp
  moreover have "distinct (map fst (map (\<lambda>r. (prevkey L r, r)) rs))"
    using assms by (simp add: comp_def)
  ultimately have "map_of (map (\<lambda>r. (prevkey L r, r)) rs) (refkey L h) = Some r"
    by (rule map_of_is_SomeI [rotated])
  with Cons show ?case by simp
qed simp

text \<open>Following previous references from a record that has none in the set never repeats.\<close>

lemma chain_no_repeat:
  assumes ch: "chained (\<lambda>a b. prevkey L b = refkey L a) c" and sub: "set c \<subseteq> set rs"
    and dist: "distinct (map (refkey L) rs)" and head: "prevkey L (hd c) \<notin> refkey L ` set rs"
  shows "distinct (map (refkey L) c)"
proof -
  have step: "prevkey L (c ! Suc i) = refkey L (c ! i)" if "Suc i < length c" for i
    using ch that by (simp add: chained_nth)
  have same: "c ! i = c ! j" if "i < length c" "j < length c" "refkey L (c ! i) = refkey L (c ! j)" for i j
    using that sub dist by (metis (no_types, lifting) distinct_map inj_onD nth_mem subsetD)
  have "refkey L (c ! i) \<noteq> refkey L (c ! j)" if "i < j" "j < length c" for i j
    using that
  proof (induction i arbitrary: j)
    case 0
    then obtain k where j: "j = Suc k" by (cases j) auto
    show ?case
    proof
      assume "refkey L (c ! 0) = refkey L (c ! j)"
      with 0 have "c ! 0 = c ! j" by (intro same) auto
      then have "prevkey L (hd c) = refkey L (c ! k)"
        using step [of k] 0 j by (cases c) auto
      moreover have "c ! k \<in> set rs" using 0 j sub by (meson Suc_lessD nth_mem subsetD)
      ultimately show False using head by auto
    qed
  next
    case (Suc i)
    then obtain k where j: "j = Suc k" by (cases j) auto
    show ?case
    proof
      assume "refkey L (c ! Suc i) = refkey L (c ! j)"
      with Suc.prems have "c ! Suc i = c ! j" by (intro same) auto
      then have "refkey L (c ! i) = refkey L (c ! k)"
        using step [of k] step [of i] Suc.prems j by simp
      with Suc.IH [of k] Suc.prems j show False by simp
    qed
  qed
  then show ?thesis
    by (simp add: distinct_conv_nth) (metis nat_neq_iff)
qed

subsection \<open>One object\<close>

lemma index_by_map_of:
  assumes "map_of (index_by f rs) k = Some r"
  shows "f r = k \<and> r \<in> set rs"
  using assms
proof (induction rs arbitrary: r rule: rev_induct)
  case (snoc x xs)
  show ?case
  proof (cases "f x = k")
    case True
    with snoc.prems show ?thesis by (simp add: index_by_snoc)
  next
    case False
    with snoc.prems have "map_of (index_by f xs) k = Some r" by (simp add: index_by_snoc)
    from snoc.IH [OF this] show ?thesis by simp
  qed
qed simp

lemma index_by_None: "map_of (index_by f rs) k = None \<longleftrightarrow> k \<notin> f ` set rs"
  by (simp only: map_of_eq_None_iff index_by_keys)

lemma mset_eq_of_distinct_subset:
  assumes "set c \<subseteq> set rs" "distinct (map f c)" "distinct (map f rs)" "length c = length rs"
  shows "mset c = mset rs"
proof -
  have "distinct c" "distinct rs" using assms(2,3) by (auto simp: distinct_map)
  moreover from this have "set c = set rs"
    using assms(1,4) by (metis List.finite_set card_subset_eq distinct_card)
  ultimately show ?thesis by (simp add: set_eq_iff_mset_eq_distinct)
qed

lemma sort_object_sound:
  assumes ord: "set (order (map_keys (index_by (prevkey L) rs))) = set (map_keys (index_by (prevkey L) rs))"
    and dist: "distinct (map (refkey L) rs)" and ne: "rs \<noteq> []"
    and res: "sort_object L order obj (index_by (refkey L) rs) (index_by (prevkey L) rs) acc = Inr out"
  shows "\<exists>c. out = acc @ c \<and> length c \<le> length rs \<and>
     (length c = length rs \<longrightarrow> mset c = mset rs \<and> lifeline L c)"
proof (cases "length rs = 1")
  case True
  then obtain r where "rs = [r]" by (auto simp: length_Suc_conv)
  with res show ?thesis by (auto simp: sort_object_def index_by_def lifeline_def)
next
  case False
  have len: "length (index_by (refkey L) rs) = length rs"
    using dist by (simp add: length_index_by_eq)
  from res False len obtain h where
    h: "find_head L (index_by (refkey L) rs) (index_by (prevkey L) rs)
          (order (map_keys (index_by (prevkey L) rs))) = Some h"
    and fc: "follow_chain L obj (index_by (prevkey L) rs) (length (index_by (prevkey L) rs) - 1)
          (refkey L h) (acc @ [h]) = Inr out"
    by (auto simp: sort_object_def split: option.splits)
  from fc obtain c where out: "out = acc @ h # c" and lc: "length c = length (index_by (prevkey L) rs) - 1"
    and ln: "links L (index_by (prevkey L) rs) (refkey L h) c"
    by (auto simp: follow_chain_Inr)
  have inv: "prevkey L r = k \<and> r \<in> set rs" if "map_of (index_by (prevkey L) rs) k = Some r" for k r
    using index_by_map_of [OF that] by simp
  from find_head_Some [OF h] obtain k where k: "map_of (index_by (prevkey L) rs) k = Some h"
    and hd: "prevkey L h \<notin> refkey L ` set rs"
    by (auto simp: index_by_None)
  from links_prev [OF inv ln] inv [OF k] have ch: "chained (\<lambda>a b. prevkey L b = refkey L a) (h # c)"
    and sub: "set (h # c) \<subseteq> set rs" by simp_all
  have "0 < length rs" using ne by simp
  then have le: "length (h # c) \<le> length rs"
    using lc length_index_by_le [of "prevkey L" rs] by (simp only: list.size)
  have dc: "distinct (map (refkey L) (h # c))"
    by (rule chain_no_repeat [OF ch sub dist]) (simp add: hd)
  have "refkey L ` set (h # c) \<subseteq> refkey L ` set rs" using sub by (rule image_mono)
  then have "prevkey L h \<notin> refkey L ` set (h # c)" using hd by (rule contra_subsetD)
  then have life: "lifeline L (h # c)"
    using ch dc unfolding lifeline_def by simp
  have "mset (h # c) = mset rs" if "length (h # c) = length rs"
    by (rule mset_eq_of_distinct_subset [OF sub dc dist that])
  then show ?thesis using out le life by (intro exI [of _ "h # c"]) simp
qed

lemma lifeline_prev_distinct:
  assumes "lifeline L c" "length c \<noteq> 1"
  shows "distinct (map (prevkey L) c)"
proof (cases c)
  case (Cons h t)
  have "map (prevkey L) t = map (refkey L) (butlast c)"
    using assms by (intro nth_equalityI) (auto simp: lifeline_def chained_nth nth_butlast Cons nth_Cons')
  moreover have "distinct (map (refkey L) (butlast c))"
    using assms by (simp add: lifeline_def map_butlast distinct_butlast)
  moreover have "prevkey L h \<notin> set (map (refkey L) (butlast c))"
    using assms by (auto simp: lifeline_def Cons dest: in_set_butlastD)
  ultimately show ?thesis using Cons by (metis distinct.simps(2) list.simps(9))
qed simp

lemma lifeline_head_unique:
  assumes "lifeline L c" "r \<in> set c" "prevkey L r \<notin> refkey L ` set c"
  shows "r = hd c"
proof -
  from assms(2) obtain i where i: "i < length c" "c ! i = r" by (auto simp: in_set_conv_nth)
  show ?thesis
  proof (cases i)
    case 0
    with i show ?thesis by (cases c) auto
  next
    case (Suc k)
    with i assms(1) have "prevkey L r = refkey L (c ! k)" by (auto simp: lifeline_def chained_nth)
    with i Suc assms(3) show ?thesis by auto
  qed
qed

lemma sort_object_complete:
  assumes ord: "set (order (map_keys (index_by (prevkey L) rs))) = set (map_keys (index_by (prevkey L) rs))"
    and life: "lifeline L c" and perm: "mset c = mset rs"
  shows "sort_object L order obj (index_by (refkey L) rs) (index_by (prevkey L) rs) acc = Inr (acc @ c)"
proof (cases "length c = 1")
  case True
  then obtain r where "c = [r]" by (auto simp: length_Suc_conv)
  with perm show ?thesis by (simp add: sort_object_def index_by_def)
next
  case False
  from life have ne: "c \<noteq> []" and dc: "distinct (map (refkey L) c)" by (auto simp: lifeline_def)
  have set: "set c = set rs" and len: "length c = length rs"
    using perm by (auto dest: mset_eq_setD mset_eq_length)
  have dp: "distinct (map (prevkey L) rs)" and dr: "distinct (map (refkey L) rs)"
    using lifeline_prev_distinct [OF life False] dc perm
    by (metis mset_eq_imp_distinct_iff mset_map)+
  let ?P = "index_by (prevkey L) rs" and ?R = "index_by (refkey L) rs"
  have hdc: "prevkey L (hd c) \<notin> refkey L ` set rs" "hd c \<in> set rs"
    using life False ne set by (auto simp: lifeline_def)
  have P: "?P = map (\<lambda>r. (prevkey L r, r)) rs" using dp by (rule index_by_distinct)
  have look: "map_of ?P (prevkey L (hd c)) = Some (hd c)"
    using hdc dp P by (auto simp: comp_def intro!: map_of_is_SomeI)
  have "prevkey L (hd c) \<in> set (order (map_keys ?P))"
    using ord look by (metis map_of_None_keys option.distinct(1))
  then have "find_head L ?R ?P (order (map_keys ?P)) \<noteq> None"
    using find_head_None look hdc(1) by (metis index_by_None)
  moreover have "r = hd c" if "find_head L ?R ?P (order (map_keys ?P)) = Some r" for r
    using find_head_Some [OF that] index_by_map_of set
    by (metis index_by_None lifeline_head_unique [OF life])
  ultimately have hd: "find_head L ?R ?P (order (map_keys ?P)) = Some (hd c)" by auto
  have "links L ?P (refkey L (hd c)) (tl c)"
    using links_of_chain [OF dp, of "hd c" "tl c"] life ne set P
    by (auto simp: lifeline_def dest: list.set_sel(2))
  moreover have "length (tl c) = length ?P - 1"
    using P len by simp
  ultimately have "follow_chain L obj ?P (length ?P - 1) (refkey L (hd c)) (acc @ [hd c]) = Inr (acc @ c)"
    using ne by (auto simp: follow_chain_Inr intro!: exI [of _ "tl c"])
  moreover have "length ?R \<noteq> 1" using False len dr length_index_by_eq [of "refkey L" rs] by simp
  ultimately show ?thesis by (simp add: sort_object_def hd)
qed

subsection \<open>All objects\<close>

lemma objects_partition:
  "distinct objs \<Longrightarrow>
   mset (concat (map (\<lambda>obj. filter (\<lambda>r. f r = obj) S) objs)) = mset (filter (\<lambda>r. f r \<in> set objs) S)"
proof (induction objs)
  case (Cons obj objs)
  have "mset (filter (\<lambda>r. f r \<in> set (obj # objs)) S) =
      mset (filter (\<lambda>r. f r = obj) S) + mset (filter (\<lambda>r. f r \<in> set objs) S)"
    using Cons.prems by (induction S) auto
  with Cons show ?case by simp
qed simp

lemma pointwise_eq_of_sum_eq:
  assumes "list_all2 (\<lambda>x c. length c \<le> (f x :: nat)) xs cs"
    and "sum_list (map length cs) = sum_list (map f xs)"
  shows "list_all2 (\<lambda>x c. length c = f x) xs cs"
proof -
  have "sum_list (map length cs) \<le> sum_list (map f xs) \<and>
      (sum_list (map length cs) = sum_list (map f xs) \<longrightarrow> list_all2 (\<lambda>x c. length c = f x) xs cs)"
    using assms(1) by (induction rule: list_all2_induct) auto
  with assms(2) show ?thesis by simp
qed

lemma sort_objects_sound:
  assumes ro: "range_ok ro"
    and R: "\<And>obj. map_get obj R = index_by (refkey L) (recs obj)"
    and P: "\<And>obj. map_get obj P = index_by (prevkey L) (recs obj)"
    and dist: "\<And>obj. distinct (map (refkey L) (recs obj))"
  shows "sort_objects L ro k P R objs acc = Inr out \<Longrightarrow> (\<And>obj. obj \<in> set objs \<Longrightarrow> recs obj \<noteq> []) \<Longrightarrow>
    \<exists>cs. out = acc @ concat cs \<and>
      list_all2 (\<lambda>obj c. length c \<le> length (recs obj) \<and>
        (length c = length (recs obj) \<longrightarrow> mset c = mset (recs obj) \<and> lifeline L c)) objs cs"
proof (induction objs arbitrary: k acc)
  case (Cons obj objs)
  from Cons.prems(1) obtain acc' where
    so: "sort_object L (ro (Suc k)) obj (index_by (refkey L) (recs obj)) (index_by (prevkey L) (recs obj)) acc = Inr acc'"
    and rest: "sort_objects L ro (Suc k) P R objs acc' = Inr out"
    by (auto simp: R P split: sum.splits)
  from sort_object_sound [OF range_ok_set [OF ro] dist _ so] Cons.prems(2)
  obtain c where c: "acc' = acc @ c" "length c \<le> length (recs obj)"
    "length c = length (recs obj) \<longrightarrow> mset c = mset (recs obj) \<and> lifeline L c" by auto
  from Cons.IH [OF rest] Cons.prems(2) obtain cs where "out = acc' @ concat cs"
    "list_all2 (\<lambda>obj c. length c \<le> length (recs obj) \<and>
        (length c = length (recs obj) \<longrightarrow> mset c = mset (recs obj) \<and> lifeline L c)) objs cs" by auto
  with c show ?case by (intro exI [of _ "c # cs"]) simp
qed simp

lemma sort_objects_complete:
  assumes ro: "range_ok ro"
    and R: "\<And>obj. map_get obj R = index_by (refkey L) (recs obj)"
    and P: "\<And>obj. map_get obj P = index_by (prevkey L) (recs obj)"
    and life: "\<And>obj. obj \<in> O' \<Longrightarrow> lifeline L (line obj) \<and> mset (line obj) = mset (recs obj)"
  shows "set objs \<subseteq> O' \<Longrightarrow>
    sort_objects L ro k P R objs acc = Inr (acc @ concat (map line objs))"
proof (induction objs arbitrary: k acc)
  case (Cons obj objs)
  with life [of obj] have "sort_object L (ro (Suc k)) obj (map_get obj R) (map_get obj P) acc = Inr (acc @ line obj)"
    by (simp add: R P sort_object_complete range_ok_set [OF ro])
  with Cons show ?case by simp
qed simp

lemma objects_of_maps:
  assumes "initRecordsMapsByObj L rs = (P, R, N)"
  shows "N = filter (\<lambda>r. tr_Type r \<noteq> STATE) rs"
    and "map_get obj R = index_by (refkey L) (records_of L obj rs)"
    and "map_get obj P = index_by (prevkey L) (records_of L obj rs)"
    and "distinct (map_keys R)" and "set (map_keys R) = objkey L ` set (state_records rs)"
proof -
  have eq: "P = nested_index (objkey L) (prevkey L) [] (state_records rs)"
    "R = nested_index (objkey L) (refkey L) [] (state_records rs)"
    "N = filter (\<lambda>r. tr_Type r \<noteq> STATE) rs"
    using assms by (simp_all add: initRecordsMapsByObj_def init_maps_loop_eq)
  then show "N = filter (\<lambda>r. tr_Type r \<noteq> STATE) rs" by simp
  show "map_get obj R = index_by (refkey L) (records_of L obj rs)"
    "map_get obj P = index_by (prevkey L) (records_of L obj rs)"
    by (simp_all add: eq map_get_nested_index records_of_state index_by_def map_get_def [of _ "[]"])
  show "distinct (map_keys R)" using gomap_nested_index [OF gomap_Nil]
    by (simp add: eq map_keys_def gomap_def)
  show "set (map_keys R) = objkey L ` set (state_records rs)"
    by (simp add: eq map_keys_def nested_index_keys)
qed

lemma mset_objects:
  assumes "distinct objs" "set objs = objkey L ` set (state_records rs)"
  shows "mset (concat (map (\<lambda>obj. records_of L obj rs) objs)) = mset (state_records rs)"
proof -
  have "filter (\<lambda>r. objkey L r \<in> set objs) (state_records rs) = state_records rs"
    using assms(2) by simp
  then show ?thesis
    using objects_partition [OF assms(1), of "objkey L" "state_records rs"]
    by (simp add: records_of_state)
qed

text \<open>In a concatenation of the objects' chains, the records of one object are its chain.\<close>

definition chain_of :: "insolar_lib \<Rightarrow> string \<Rightarrow> types_Record list \<Rightarrow> bool" where
  "chain_of L obj c \<longleftrightarrow> (\<forall>r \<in> set c. tr_Type r = STATE \<and> objkey L r = obj)"

lemma chain_of_perm: "mset c = mset (records_of L obj rs) \<Longrightarrow> chain_of L obj c"
  by (drule mset_eq_setD) (simp add: chain_of_def records_of_def)

lemma records_of_append: "records_of L obj (xs @ ys) = records_of L obj xs @ records_of L obj ys"
  by (simp add: records_of_def)

lemma records_of_chain: "chain_of L x c \<Longrightarrow> records_of L obj c = (if x = obj then c else [])"
  by (auto simp: records_of_def chain_of_def filter_empty_conv intro!: filter_True)

lemma records_of_concat_other:
  "list_all2 (chain_of L) objs cs \<Longrightarrow> obj \<notin> set objs \<Longrightarrow> records_of L obj (concat cs) = []"
proof (induction rule: list_all2_induct)
  case (Cons x xs c cs)
  then show ?case by (auto simp: records_of_append records_of_chain)
qed (simp add: records_of_def)

lemma records_of_concat:
  "list_all2 (chain_of L) objs cs \<Longrightarrow> distinct objs \<Longrightarrow> i < length objs \<Longrightarrow>
   records_of L (objs ! i) (concat cs) = cs ! i"
proof (induction arbitrary: i rule: list_all2_induct)
  case (Cons x xs c cs)
  show ?case
  proof (cases i)
    case 0
    with Cons show ?thesis
      by (simp add: records_of_append records_of_chain records_of_concat_other)
  next
    case (Suc j)
    with Cons have "x \<noteq> xs ! j" by auto
    with Cons Suc show ?thesis by (simp add: records_of_append records_of_chain)
  qed
qed simp

lemma chains_are_states:
  "list_all2 (chain_of L) objs cs \<Longrightarrow> filter (\<lambda>r. tr_Type r \<noteq> STATE) (concat cs) = []"
  by (induction rule: list_all2_induct) (simp_all add: chain_of_def filter_empty_conv)

lemma sortRecords_Inr:
  assumes "sortRecords L ro rs = Inr out" "initRecordsMapsByObj L rs = (P, R, N)"
  shows "sort_objects L ro 0 P R (ro 0 (map_keys R)) N = Inr out" "length out = length rs"
  using assms by (auto simp: sortRecords_def split: sum.splits if_splits)

lemma mset_state_split:
  "mset rs = mset (filter (\<lambda>r. tr_Type r \<noteq> STATE) rs) + mset (state_records rs)"
  by (induction rs) (simp_all add: state_records_def)

text \<open>
  The result is the other records followed by one chain per object, each a lifeline made of
  exactly that object's records.
\<close>

lemma sortRecords_shape:
  assumes ro: "range_ok ro" and uniq: "refs_unique L rs" and res: "sortRecords L ro rs = Inr out"
  obtains objs cs where "out = filter (\<lambda>r. tr_Type r \<noteq> STATE) rs @ concat cs"
    and "distinct objs" and "set objs = objkey L ` set (state_records rs)"
    and "list_all2 (\<lambda>obj c. mset c = mset (records_of L obj rs) \<and> lifeline L c) objs cs"
proof -
  obtain P R N where init: "initRecordsMapsByObj L rs = (P, R, N)" by (cases "initRecordsMapsByObj L rs")
  note maps = objects_of_maps [OF init]
  let ?objs = "ro 0 (map_keys R)" and ?recs = "\<lambda>obj. records_of L obj rs"
  have objs: "distinct ?objs" "set ?objs = objkey L ` set (state_records rs)"
    using maps(4,5) by (simp_all add: range_ok_distinct [OF ro] range_ok_set [OF ro])
  have dist: "distinct (map (refkey L) (?recs obj))" for obj
    using uniq by (simp add: refs_unique_def)
  have ne: "?recs obj \<noteq> []" if "obj \<in> set ?objs" for obj
    using that objs(2) by (auto simp: records_of_state filter_empty_conv)
  let ?fit = "\<lambda>obj c. length c \<le> length (?recs obj) \<and>
      (length c = length (?recs obj) \<longrightarrow> mset c = mset (?recs obj) \<and> lifeline L c)"
  have "\<exists>cs. out = N @ concat cs \<and> list_all2 ?fit ?objs cs"
    by (rule sort_objects_sound [where recs = ?recs, OF ro maps(2,3) dist sortRecords_Inr(1) [OF res init] ne])
  then obtain cs where out: "out = N @ concat cs" and fit: "list_all2 ?fit ?objs cs" by (elim exE conjE)
  have "length rs = length N + length (state_records rs)"
    using arg_cong [OF mset_state_split [of rs], of size] by (simp add: maps(1) del: mset_filter)
  moreover have "length (state_records rs) = sum_list (map (\<lambda>obj. length (?recs obj)) ?objs)"
    using mset_eq_length [OF mset_objects [OF objs]] by (simp add: length_concat comp_def)
  ultimately have "sum_list (map length cs) = sum_list (map (\<lambda>obj. length (?recs obj)) ?objs)"
    using sortRecords_Inr(2) [OF res init] out by (simp add: length_concat)
  moreover have "list_all2 (\<lambda>obj c. length c \<le> length (?recs obj)) ?objs cs"
    using fit by (rule list_all2_mono) simp
  ultimately have "list_all2 (\<lambda>obj c. length c = length (?recs obj)) ?objs cs"
    by (intro pointwise_eq_of_sum_eq) simp_all
  with fit have "list_all2 (\<lambda>obj c. mset c = mset (?recs obj) \<and> lifeline L c) ?objs cs"
    by (simp add: list_all2_conv_all_nth)
  with that [of cs ?objs] out objs maps(1) show thesis by simp
qed

subsection \<open>Correctness of sortRecords\<close>

definition state_rec :: "byte \<Rightarrow> byte \<Rightarrow> byte \<Rightarrow> types_Record" where
  "state_rec obj ref prev = \<lparr>tr_Type = STATE, tr_Ref = [ref], tr_ObjectReference = [obj],
     tr_PrototypeReference = [], tr_PrevRecordReference = (if prev = 0 then [] else [prev]),
     tr_RecordPayload = [], tr_Hash = [], tr_RawData = [], tr_Order = 0\<rparr>"

lemma sortRecords_sound:
  assumes ro: "range_ok ro" and uniq: "refs_unique L rs" and res: "sortRecords L ro rs = Inr out"
  shows "mset out = mset rs \<and>
    filter (\<lambda>r. tr_Type r \<noteq> STATE) out = filter (\<lambda>r. tr_Type r \<noteq> STATE) rs \<and>
    (\<forall>obj. records_of L obj rs \<noteq> [] \<longrightarrow> lifeline L (records_of L obj out))"
proof -
  from assms obtain objs cs where out: "out = filter (\<lambda>r. tr_Type r \<noteq> STATE) rs @ concat cs"
    and objs: "distinct objs" "set objs = objkey L ` set (state_records rs)"
    and all: "list_all2 (\<lambda>obj c. mset c = mset (records_of L obj rs) \<and> lifeline L c) objs cs"
    by (rule sortRecords_shape)
  have len: "length cs = length objs" using all by (simp add: list_all2_lengthD)
  have ch: "list_all2 (chain_of L) objs cs"
    using all by (rule list_all2_mono) (simp add: chain_of_perm)
  have "mset (concat cs) = mset (concat (map (\<lambda>obj. records_of L obj rs) objs))"
    using all by (induction rule: list_all2_induct) auto
  then have "mset out = mset rs"
    using out mset_objects [OF objs] mset_state_split [of rs] by simp
  moreover have "filter (\<lambda>r. tr_Type r \<noteq> STATE) (concat cs) = []"
    using ch by (rule chains_are_states)
  moreover have "lifeline L (records_of L obj out)" if "records_of L obj rs \<noteq> []" for obj
  proof -
    from that have "obj \<in> set objs" using objs(2) by (auto simp: records_of_state filter_empty_conv)
    then obtain i where i: "i < length objs" "objs ! i = obj" by (auto simp: in_set_conv_nth)
    have "records_of L obj (filter (\<lambda>r. tr_Type r \<noteq> STATE) rs) = []"
      by (simp add: records_of_def filter_empty_conv)
    then have "records_of L obj out = cs ! i"
      using records_of_concat [OF ch objs(1) i(1)] i(2) by (simp add: out records_of_append)
    with all i len show ?thesis by (simp add: list_all2_conv_all_nth)
  qed
  ultimately show ?thesis using out by simp
qed


lemma sortRecords_succeeds:
  assumes ro: "range_ok ro"
    and life: "\<forall>obj \<in> objkey L ` set (state_records rs).
      lifeline L (line obj) \<and> mset (line obj) = mset (records_of L obj rs)"
  shows "\<exists>objs. distinct objs \<and> set objs = objkey L ` set (state_records rs) \<and>
    sortRecords L ro rs = Inr (filter (\<lambda>r. tr_Type r \<noteq> STATE) rs @ concat (map line objs))"
proof -
  obtain P R N where init: "initRecordsMapsByObj L rs = (P, R, N)" by (cases "initRecordsMapsByObj L rs")
  note maps = objects_of_maps [OF init]
  let ?objs = "ro 0 (map_keys R)"
  have objs: "distinct ?objs" "set ?objs = objkey L ` set (state_records rs)"
    using maps(4,5) by (simp_all add: range_ok_distinct [OF ro] range_ok_set [OF ro])
  have so: "sort_objects L ro 0 P R ?objs N = Inr (N @ concat (map line ?objs))"
  proof (rule sort_objects_complete [where O' = "objkey L ` set (state_records rs)", OF ro maps(2,3)])
    fix obj
    assume "obj \<in> objkey L ` set (state_records rs)"
    with life show "lifeline L (line obj) \<and> mset (line obj) = mset (records_of L obj rs)" by (rule bspec)
  qed (simp only: objs(2) order_refl)
  have "mset (concat (map line ?objs)) = mset (concat (map (\<lambda>obj. records_of L obj rs) ?objs))"
  proof -
    have "map mset (map line ?objs) = map mset (map (\<lambda>obj. records_of L obj rs) ?objs)"
      using life objs(2) by simp
    then show ?thesis by (simp only: mset_concat)
  qed
  then have "mset (N @ concat (map line ?objs)) = mset rs"
    using mset_objects [OF objs] mset_state_split [of rs] maps(1) by simp
  then have "length rs = length (N @ concat (map line ?objs))" by (metis size_mset)
  then have "sortRecords L ro rs = Inr (N @ concat (map line ?objs))"
    by (simp add: sortRecords_def init so)
  with objs maps(1) show ?thesis by blast
qed

text \<open>C17: whenever every object's state records can be arranged in a lifeline, the sort succeeds, and
  it returns exactly those lifelines, whatever the iteration order of the maps.\<close>

theorem sortRecords_complete:
  assumes ro: "range_ok ro"
    and life: "\<forall>obj \<in> objkey L ` set (state_records rs).
      lifeline L (line obj) \<and> mset (line obj) = mset (records_of L obj rs)"
  shows "\<exists>objs. distinct objs \<and> set objs = objkey L ` set (state_records rs) \<and>
    sortRecords L ro rs = Inr (filter (\<lambda>r. tr_Type r \<noteq> STATE) rs @ concat (map line objs))"
  using assms by (rule sortRecords_succeeds)

text \<open>Three changes of one object, given out of order, and a record of a second object.\<close>

definition shuffled :: "types_Record list" where
  "shuffled = [state_rec 1 13 12, state_rec 2 21 20, state_rec 1 11 0, state_rec 1 12 11]"

definition shuffled_line :: "string \<Rightarrow> types_Record list" where
  "shuffled_line obj = (if obj = [char_of (1 :: nat)] then [state_rec 1 11 0, state_rec 1 12 11, state_rec 1 13 12]
     else [state_rec 2 21 20])"

lemma restore_plain: "restoreInsolarID plain_lib b = (if IsEmpty b then [] else map (\<lambda>w. char_of (unat w)) b)"
  by (simp add: restoreInsolarID_def plain_lib_def)

lemma char_of_eq_small: "n < 256 \<Longrightarrow> m < 256 \<Longrightarrow> (char_of n = (char_of m :: char)) = (n = (m :: nat))"
  by (metis of_char_of mod_less)

lemmas plain_simps = restore_plain IsEmpty_def state_rec_def char_of_eq_small

lemma shuffled_life:
  "\<forall>obj \<in> objkey plain_lib ` set (state_records shuffled).
     lifeline plain_lib (shuffled_line obj) \<and> mset (shuffled_line obj) = mset (records_of plain_lib obj shuffled)"
  by (simp add: shuffled_def shuffled_line_def state_records_def records_of_def lifeline_def plain_simps)

lemma shuffled_unique: "refs_unique plain_lib shuffled"
  by (auto simp: refs_unique_def records_of_def shuffled_def plain_simps)

lemmas sort_eval = sortRecords_def initRecordsMapsByObj_def put_nested_def map_get_def map_keys_def
  range_reverse_def sort_object_def Let_def plain_simps

lemma shuffled_sorted:
  "sortRecords plain_lib range_reverse shuffled =
     Inr [state_rec 2 21 20, state_rec 1 11 0, state_rec 1 12 11, state_rec 1 13 12]"
  by (simp add: shuffled_def sort_eval)


theorem sortRecords_complete_witness:
  "\<exists>objs. distinct objs \<and> sortRecords plain_lib range_insertion shuffled =
     Inr (filter (\<lambda>r. tr_Type r \<noteq> STATE) shuffled @ concat (map shuffled_line objs))"
  using sortRecords_complete [OF range_ok_insertion shuffled_life] by blast

text \<open>
  Without unique references the length check of \<open>sortRecords\<close> does not protect the result: here
  the third record is lost and the second is returned twice.
\<close>

theorem sortRecords_loses_record:
  "sortRecords plain_lib range_insertion [state_rec 1 11 0, state_rec 1 11 11, state_rec 1 12 9] =
     Inr [state_rec 1 11 0, state_rec 1 11 11, state_rec 1 11 11]"
  by (simp add: sort_eval range_insertion_def)

section \<open>Correctness of Transform\<close>

text \<open>The canonical records of one jet, in the order the platform sent them.\<close>

definition canonical :: "insolar_lib \<Rightarrow> bytes \<Rightarrow> ex_Record list \<Rightarrow> types_Record list" where
  "canonical L jid rs =
     concat (map (\<lambda>r. if er_JetID r = jid then (case transferToCanonicalRecord L r of
        Inr c \<Rightarrow> [c] | Inl _ \<Rightarrow> []) else []) rs)"

lemma map_get_put: "map_get k (map_put k' v m) = (if k = k' then v else map_get k m)"
  by (simp add: map_get_def)

lemma get_records_loop_canonical:
  "get_records_loop L rs res = Inr m \<Longrightarrow> map_get jid m = map_get jid res @ canonical L jid rs"
proof (induction rs arbitrary: res)
  case (Cons r rs)
  then show ?case
    by (auto simp: canonical_def map_get_put split: sum.splits if_splits)
qed (simp add: canonical_def)

lemma map_get_add_missing: "map_get jid (add_missing_jets jets m) = map_get jid m"
  unfolding add_missing_jets_def
  by (induction jets arbitrary: m) (auto simp: map_get_def)

lemma map_get_no_records: "map_get jid (foldl (\<lambda>res jet. map_put (jc_JetID jet) [] res) m jets) =
    (if jid \<in> jc_JetID ` set jets then [] else map_get jid m)"
  by (induction jets arbitrary: m) (auto simp: map_get_put)

lemma getRecords_canonical:
  assumes "getRecords L (Some d) = Inr m" "pp_Pulse d = Some pulse"
  shows "map_get jid m = canonical L jid (pp_Records d)"
proof (cases "pp_Records d")
  case Nil
  moreover have "map_get jid ([] :: jet_map) = []" by (simp add: map_get_def)
  ultimately show ?thesis using assms
    by (auto simp: getRecords_def map_get_no_records canonical_def)
next
  case (Cons r rs)
  with assms have "get_records_loop L (pp_Records d) [] = Inr m" by (simp add: getRecords_def)
  from get_records_loop_canonical [OF this, of jid] show ?thesis by (simp add: map_get_def)
qed

text \<open>What a jet drop says of the jet it was made from.\<close>

definition drop_of ::
  "insolar_lib \<Rightarrow> FullPulse \<Rightarrow> ex_Record list \<Rightarrow> JetDropContinue \<Rightarrow> types_JetDrop \<Rightarrow> bool" where
  "drop_of L pulse rs jet d \<longleftrightarrow>
     (let ms = tj_MainSection d; start = ms_Start ms
      in tj_Hash d = jc_Hash jet \<and> dc_PrevDropHash (ms_DropContinue ms) = jc_PrevDropHashes jet \<and>
         ds_PulseData start = getPulseData L pulse \<and>
         (if JetIsValid L (jc_JetID jet) then JetIDToString L (jc_JetID jet) else Done []) =
           Done (ds_JetDropPrefix start) \<and>
         ds_JetDropPrefixLength start = length (ds_JetDropPrefix start) \<and>
         mset (ms_Records ms) = mset (canonical L (jc_JetID jet) rs) \<and>
         (\<forall>obj. records_of L obj (canonical L (jc_JetID jet) rs) \<noteq> [] \<longrightarrow>
            lifeline L (records_of L obj (ms_Records ms))))"

lemma getJetDrop_drop_of:
  assumes "getJetDrop L ro (jc_JetID jet) (canonical L (jc_JetID jet) rs) (getPulseData L pulse)
      (jc_Hash jet) (jc_PrevDropHashes jet) = Done (Some d)"
    and "range_ok ro" and "refs_unique L (canonical L (jc_JetID jet) rs)"
  shows "drop_of L pulse rs jet d"
proof -
  from assms(1) obtain pfx recs where
    p: "(if JetIsValid L (jc_JetID jet) then JetIDToString L (jc_JetID jet) else Done []) = Done pfx"
    and r: "sortRecords L ro (canonical L (jc_JetID jet) rs) = Inr recs"
    and d: "tj_MainSection d = \<lparr>ms_Start = \<lparr>ds_PulseData = getPulseData L pulse, ds_JetDropPrefix = pfx,
              ds_JetDropPrefixLength = length pfx\<rparr>,
            ms_DropContinue = \<lparr>dc_PrevDropHash = jc_PrevDropHashes jet\<rparr>, ms_Records = recs\<rparr>"
      "tj_Hash d = jc_Hash jet"
    by (cases "sortRecords L ro (canonical L (jc_JetID jet) rs)")
      (auto simp: getJetDrop_def bind_outcome_Done_iff)
  from sortRecords_sound [OF assms(2,3) r] p d show ?thesis
    by (simp add: drop_of_def Let_def)
qed

lemma jet_drops_loop_sound:
  assumes m: "\<And>jid. map_get jid m = canonical L jid rs"
    and ok: "\<And>k. range_ok (ros k)" and uniq: "\<And>jid. refs_unique L (canonical L jid rs)"
  shows "jet_drops_loop L ros k (getPulseData L pulse) m jets result = Done out \<Longrightarrow>
    \<exists>kept ds. out = result @ ds \<and> subseq kept jets \<and> list_all2 (drop_of L pulse rs) kept ds"
proof (induction jets arbitrary: k result)
  case Nil
  then show ?case by auto
next
  case (Cons jet jets)
  from Cons.prems obtain d where
    d: "getJetDrop L (ros k) (jc_JetID jet) (canonical L (jc_JetID jet) rs) (getPulseData L pulse)
         (jc_Hash jet) (jc_PrevDropHashes jet) = Done d"
    and rest: "jet_drops_loop L ros (Suc k) (getPulseData L pulse) m jets
         (case d of None \<Rightarrow> result | Some d \<Rightarrow> result @ [d]) = Done out"
    by (auto simp: bind_outcome_Done_iff m)
  from Cons.IH [OF rest] obtain kept ds where IH: "subseq kept jets" "list_all2 (drop_of L pulse rs) kept ds"
    "out = (case d of None \<Rightarrow> result | Some d \<Rightarrow> result @ [d]) @ ds" by blast
  show ?case
  proof (cases d)
    case None
    with IH show ?thesis by (intro exI [of _ kept] exI [of _ ds]) (simp add: list_emb_Cons)
  next
    case (Some x)
    with d have "drop_of L pulse rs jet x" using getJetDrop_drop_of [OF _ ok uniq] by simp
    with IH Some show ?thesis by (intro exI [of _ "jet # kept"] exI [of _ "x # ds"]) simp
  qed
qed


text \<open>The records of every object of a jet can be arranged in a lifeline.\<close>

definition sortable :: "insolar_lib \<Rightarrow> types_Record list \<Rightarrow> bool" where
  "sortable L rs \<longleftrightarrow> (\<forall>obj \<in> objkey L ` set (state_records rs).
     \<exists>c. lifeline L c \<and> mset c = mset (records_of L obj rs))"

lemma sortable_unique: "sortable L rs \<Longrightarrow> refs_unique L rs"
  unfolding refs_unique_def
proof
  fix obj
  assume s: "sortable L rs"
  show "distinct (map (refkey L) (records_of L obj rs))"
  proof (cases "records_of L obj rs = []")
    case False
    then have "obj \<in> objkey L ` set (state_records rs)"
      by (auto simp: records_of_state filter_empty_conv)
    with s obtain c where "lifeline L c" "mset c = mset (records_of L obj rs)"
      by (auto simp: sortable_def)
    then show ?thesis by (metis lifeline_def mset_eq_imp_distinct_iff mset_map)
  qed simp
qed

lemma sortable_sorts: "sortable L rs \<Longrightarrow> range_ok ro \<Longrightarrow> \<exists>out. sortRecords L ro rs = Inr out"
  unfolding sortable_def by (drule bchoice) (metis sortRecords_succeeds)

lemma get_records_loop_ok:
  "\<forall>r \<in> set rs. \<forall>e. transferToCanonicalRecord L r = Inl e \<longrightarrow> e = UnsupportedRecordTypeError \<Longrightarrow>
   \<exists>m. get_records_loop L rs res = Inr m"
  by (induction rs arbitrary: res) (auto split: sum.splits)

lemma transfer_error:
  "transferToCanonicalRecord L r = Inl e \<Longrightarrow> Marshal L r = Inr raw \<Longrightarrow> e = UnsupportedRecordTypeError"
  by (cases "er_Virtual r") (auto simp: transferToCanonicalRecord_def Let_def)

lemma getRecords_ok:
  assumes "\<And>r. r \<in> set (pp_Records d) \<Longrightarrow> \<exists>raw. Marshal L r = Inr raw"
  shows "\<exists>m. getRecords L (Some d) = Inr m"
proof -
  have "\<exists>m. get_records_loop L (pp_Records d) [] = Inr m"
    using assms transfer_error by (intro get_records_loop_ok) blast
  then show ?thesis by (auto simp: getRecords_def split: list.splits option.splits)
qed

lemma jet_drops_loop_complete:
  assumes m: "\<And>jid. map_get jid m = canonical L jid rs" and ok: "\<And>k. range_ok (ros k)"
    and jets: "\<And>jet. jet \<in> J \<Longrightarrow> sortable L (canonical L (jc_JetID jet) rs) \<and>
      unat (Depth L (jc_JetID jet)) \<le> 8 * length (Prefix L (jc_JetID jet))"
  shows "set js \<subseteq> J \<Longrightarrow> \<exists>ds. jet_drops_loop L ros k (getPulseData L pulse) m js result = Done (result @ ds)
    \<and> list_all2 (drop_of L pulse rs) js ds"
proof (induction js arbitrary: k result)
  case (Cons jet js)
  then have j: "sortable L (canonical L (jc_JetID jet) rs)"
    "unat (Depth L (jc_JetID jet)) \<le> 8 * length (Prefix L (jc_JetID jet))"
    using jets [of jet] by auto
  from sortable_sorts [OF j(1) ok] obtain out where out: "sortRecords L (ros k) (canonical L (jc_JetID jet) rs) = Inr out" ..
  obtain x where x: "getJetDrop L (ros k) (jc_JetID jet) (canonical L (jc_JetID jet) rs) (getPulseData L pulse)
      (jc_Hash jet) (jc_PrevDropHashes jet) = Done (Some x)"
    using j(2) out by (cases "JetIsValid L (jc_JetID jet)") (auto simp: getJetDrop_def JetIDToString_eq)
  have "drop_of L pulse rs jet x" using getJetDrop_drop_of [OF x ok sortable_unique [OF j(1)]] .
  moreover from Cons.prems Cons.IH [of "Suc k" "result @ [x]"] obtain ds where
    "jet_drops_loop L ros (Suc k) (getPulseData L pulse) m js (result @ [x]) = Done ((result @ [x]) @ ds)"
    "list_all2 (drop_of L pulse rs) js ds" by auto
  ultimately show ?case by (intro exI [of _ "x # ds"]) (simp add: m x)
qed simp

lemma Transform_succeeds:
  assumes "pp_Pulse d = Some pulse" and "\<And>k. range_ok (ros k)"
    and "\<And>r. r \<in> set (pp_Records d) \<Longrightarrow> \<exists>raw. Marshal L r = Inr raw"
    and "\<And>jet. jet \<in> set (fp_Jets pulse) \<Longrightarrow> sortable L (canonical L (jc_JetID jet) (pp_Records d)) \<and>
      unat (Depth L (jc_JetID jet)) \<le> 8 * length (Prefix L (jc_JetID jet))"
  shows "\<exists>drops. Transform L ros (Some d) = Done (Inr drops) \<and>
    list_all2 (drop_of L pulse (pp_Records d)) (fp_Jets pulse) drops"
proof -
  obtain m where m: "getRecords L (Some d) = Inr m" using getRecords_ok [OF assms(3)] ..
  have "map_get jid (add_missing_jets (fp_Jets pulse) m) = canonical L jid (pp_Records d)" for jid
    using getRecords_canonical [OF m assms(1)] by (simp add: map_get_add_missing)
  from jet_drops_loop_complete [where ros = ros and J = "set (fp_Jets pulse)" and js = "fp_Jets pulse" and k = 0
      and pulse = pulse and result = "[]", OF this assms(2,4) order_refl] m assms(1)
  show ?thesis by (auto simp: Transform_def Let_def)
qed

text \<open>C16: if the records marshal, the jets' depths fit their prefixes and every object's records form a
  lifeline, the pulse is transformed without panic or error and every jet of it yields its drop.\<close>

theorem Transform_complete:
  assumes "pp_Pulse d = Some pulse" and "\<And>k. range_ok (ros k)"
    and "\<And>r. r \<in> set (pp_Records d) \<Longrightarrow> \<exists>raw. Marshal L r = Inr raw"
    and "\<And>jet. jet \<in> set (fp_Jets pulse) \<Longrightarrow> sortable L (canonical L (jc_JetID jet) (pp_Records d)) \<and>
      unat (Depth L (jc_JetID jet)) \<le> 8 * length (Prefix L (jc_JetID jet))"
  shows "\<exists>drops. Transform L ros (Some d) = Done (Inr drops) \<and>
    list_all2 (drop_of L pulse (pp_Records d)) (fp_Jets pulse) drops"
  by (rule Transform_succeeds [OF assms])

definition one_pulse :: FullPulse where
  "one_pulse = \<lparr>fp_PulseNumber = 65600, fp_PulseTimestamp = 5000000000, fp_NextPulseNumber = 65610,
     fp_PrevPulseNumber = 65590, fp_Jets = [\<lparr>jc_JetID = [2], jc_Hash = [7], jc_PrevDropHashes = [[6]]\<rparr>]\<rparr>"

definition one_record :: ex_Record where
  "one_record = \<lparr>er_RecordNumber = 1, er_ID = [9], er_ObjectID = [3], er_JetID = [2],
     er_Virtual = Virtual_Activate [4] [5] [1], er_ShouldIterateFrom = None, er_Rest = [8]\<rparr>"

definition one_data :: PlatformPulseData where
  "one_data = \<lparr>pp_Pulse = Some one_pulse, pp_Records = [one_record]\<rparr>"

lemma canonical_one:
  "canonical plain_lib jid (pp_Records one_data) = (if jid = [2] then
     [\<lparr>tr_Type = STATE, tr_Ref = [9], tr_ObjectReference = [3], tr_PrototypeReference = [4],
       tr_PrevRecordReference = [], tr_RecordPayload = [5], tr_Hash = [9], tr_RawData = [8], tr_Order = 1\<rparr>] else [])"
  by (simp add: canonical_def one_data_def one_record_def transferToCanonicalRecord_def plain_lib_def Let_def)

lemma one_sortable: "sortable plain_lib (canonical plain_lib jid (pp_Records one_data))"
  by (auto simp: sortable_def canonical_one state_records_def records_of_def lifeline_def)

theorem Transform_complete_witness:
  "\<exists>drops. Transform plain_lib (\<lambda>_. range_insertion) (Some one_data) = Done (Inr drops) \<and> length drops = 1"
proof -
  have "\<exists>drops. Transform plain_lib (\<lambda>_. range_insertion) (Some one_data) = Done (Inr drops) \<and>
      list_all2 (drop_of plain_lib one_pulse (pp_Records one_data)) (fp_Jets one_pulse) drops"
  proof (rule Transform_complete)
    fix jet
    assume "jet \<in> set (fp_Jets one_pulse)"
    then show "sortable plain_lib (canonical plain_lib (jc_JetID jet) (pp_Records one_data)) \<and>
      unat (Depth plain_lib (jc_JetID jet)) \<le> 8 * length (Prefix plain_lib (jc_JetID jet))"
      using one_sortable by (simp add: one_pulse_def plain_lib_def)
  qed (simp_all add: one_data_def plain_lib_def)
  then show ?thesis by (auto simp: one_pulse_def dest!: list_all2_lengthD)
qed

lemma one_drops:
  "Transform plain_lib (\<lambda>_. range_insertion) (Some one_data) =
     Done (Inr [\<lparr>tj_MainSection = \<lparr>ms_Start = \<lparr>ds_PulseData = getPulseData plain_lib one_pulse,
         ds_JetDropPrefix = ''00000010'', ds_JetDropPrefixLength = 8\<rparr>,
       ms_DropContinue = \<lparr>dc_PrevDropHash = [[6]]\<rparr>,
       ms_Records = canonical plain_lib [2] (pp_Records one_data)\<rparr>,
       tj_Sections = [], tj_RawData = [], tj_Hash = [7]\<rparr>])"
proof -
  have "JetIDToString plain_lib [2] = Done ''00000010''"
    by (simp add: JetIDToString_eq plain_lib_def jet_bit_def upt_conv_Cons nth_Cons')
  moreover have "sortRecords plain_lib range_insertion (canonical plain_lib [2] (pp_Records one_data)) =
      Inr (canonical plain_lib [2] (pp_Records one_data))"
    by (simp add: canonical_one sort_eval range_insertion_def)
  moreover have "JetIsValid plain_lib = (\<lambda>_. True)" by (simp add: plain_lib_def)
  moreover have "getRecords plain_lib (Some one_data) = Inr [([2], canonical plain_lib [2] (pp_Records one_data))]"
    by (simp add: getRecords_def canonical_one) (simp add: one_data_def one_record_def
        transferToCanonicalRecord_def plain_lib_def Let_def map_get_def)
  ultimately show ?thesis
    by (simp add: Transform_def one_data_def one_pulse_def add_missing_jets_def map_get_def getJetDrop_def Let_def)
qed


end
