(* ===== verification/Transformer_Loop.thy ===== *)
theory Transformer_Loop
  imports Transformer
begin

text \<open>The goroutine of \<open>MainNetTransformer\<close> (\<open>etl/transformer/mainnet_impl.go\<close>): a select between the
  extractor's channel and the stop signal, a loop that sends the jet drops of a pulse one by one, and a check
  of the stop signal between two rounds.  The goroutine, the extractor, the consumer of the jet drops and the
  callers of \<open>Stop\<close> interleave, so the model is a step relation; the loop itself is cut at its blocking
  channel operations.  The invariant proved of every reachable state says that the jet drops leave the
  transformer in the order of the pulses, without loss and without duplicates.\<close>

section \<open>State\<close>

text \<open>Where the goroutine is: in the select of \<open>run\<close>, in the loop that sends (with the drops still to
  send), about to put the stop signal back, in \<open>needStop\<close>, or past its end.\<close>

datatype transformer_pc =
    AtSelect
  | Sending "types_JetDrop list"
  | StopResend
  | CheckStop
  | Finished
  | Panicked panic

text \<open>The three channels of the structure with their buffers, the capacity \<open>queueLen\<close> of the output, and two
  histories: the pulses taken from the extractor with the drops they gave, and what the consumer has received.\<close>

record MainNetTransformer =
  mt_stopSignal :: "bool list"
  mt_extractorChan :: "PlatformPulseData option list"
  mt_transformerChan :: "types_JetDrop list"
  mt_queueLen :: nat
  mt_pc :: transformer_pc
  mt_taken :: "(PlatformPulseData option \<times> types_JetDrop list) list"
  mt_delivered :: "types_JetDrop list"

definition NewMainNetTransformer :: "PlatformPulseData option list \<Rightarrow> nat \<Rightarrow> MainNetTransformer" where
  "NewMainNetTransformer ch queueLen =
     \<lparr>mt_stopSignal = [], mt_extractorChan = ch, mt_transformerChan = [], mt_queueLen = queueLen,
      mt_pc = AtSelect, mt_taken = [], mt_delivered = []\<rparr>"

section \<open>Operations\<close>

text \<open>The first case of the select in \<open>run\<close>: the pulse is transformed; an error is only logged, an empty
  result only warned about, and a result is left to the sending loop.\<close>

definition run_pulse :: "insolar_lib \<Rightarrow> (nat \<Rightarrow> string range_order) \<Rightarrow> PlatformPulseData option \<Rightarrow>
    MainNetTransformer \<Rightarrow> MainNetTransformer" where
  "run_pulse L ros jd t = (case Transform L ros jd of
     Panic p \<Rightarrow> t\<lparr>mt_pc := Panicked p\<rparr>
   | Done (Inl e) \<Rightarrow> t\<lparr>mt_pc := CheckStop, mt_taken := mt_taken t @ [(jd, [])]\<rparr>
   | Done (Inr drops) \<Rightarrow> (if drops = [] then t\<lparr>mt_pc := CheckStop, mt_taken := mt_taken t @ [(jd, [])]\<rparr>
       else t\<lparr>mt_pc := Sending drops, mt_taken := mt_taken t @ [(jd, drops)]\<rparr>))"

text \<open>\<open>needStop\<close>: a non-blocking receive from the stop signal.\<close>

definition needStop :: "MainNetTransformer \<Rightarrow> bool \<times> MainNetTransformer" where
  "needStop t = (case mt_stopSignal t of [] \<Rightarrow> (False, t) | _ # rest \<Rightarrow> (True, t\<lparr>mt_stopSignal := rest\<rparr>))"

text \<open>One step of the system.  The last four rules are the environment: the extractor offers a pulse, the
  consumer receives a drop from the buffer or, when the goroutine is blocked in a send, straight from its
  hand (the only way for an unbuffered channel), and \<open>Stop\<close> puts its signal.\<close>

inductive run_step :: "insolar_lib \<Rightarrow> MainNetTransformer \<Rightarrow> MainNetTransformer \<Rightarrow> bool" for L where
  recv: "mt_pc t = AtSelect \<Longrightarrow> mt_extractorChan t = jd # rest \<Longrightarrow> (\<And>k. range_ok (ros k)) \<Longrightarrow>
    run_step L t (run_pulse L ros jd (t\<lparr>mt_extractorChan := rest\<rparr>))"
| stop_recv: "mt_pc t = AtSelect \<Longrightarrow> mt_stopSignal t = s # rest \<Longrightarrow>
    run_step L t (t\<lparr>mt_stopSignal := rest, mt_pc := StopResend\<rparr>)"
| stop_resend: "mt_pc t = StopResend \<Longrightarrow> length (mt_stopSignal t) < 1 \<Longrightarrow>
    run_step L t (t\<lparr>mt_stopSignal := mt_stopSignal t @ [True], mt_pc := CheckStop\<rparr>)"
| send: "mt_pc t = Sending (d # ds) \<Longrightarrow> length (mt_transformerChan t) < mt_queueLen t \<Longrightarrow>
    run_step L t (t\<lparr>mt_transformerChan := mt_transformerChan t @ [d], mt_pc := Sending ds\<rparr>)"
| sent: "mt_pc t = Sending [] \<Longrightarrow> run_step L t (t\<lparr>mt_pc := CheckStop\<rparr>)"
| check: "mt_pc t = CheckStop \<Longrightarrow> needStop t = (stop, t') \<Longrightarrow>
    run_step L t (t'\<lparr>mt_pc := (if stop then Finished else AtSelect)\<rparr>)"
| offer: "run_step L t (t\<lparr>mt_extractorChan := mt_extractorChan t @ [jd]\<rparr>)"
| consume: "mt_transformerChan t = d # rest \<Longrightarrow>
    run_step L t (t\<lparr>mt_transformerChan := rest, mt_delivered := mt_delivered t @ [d]\<rparr>)"
| handoff: "mt_pc t = Sending (d # ds) \<Longrightarrow> mt_transformerChan t = [] \<Longrightarrow>
    run_step L t (t\<lparr>mt_delivered := mt_delivered t @ [d], mt_pc := Sending ds\<rparr>)"
| Stop: "length (mt_stopSignal t) < 1 \<Longrightarrow>
    run_step L t (t\<lparr>mt_stopSignal := mt_stopSignal t @ [True]\<rparr>)"

section \<open>The order of the jet drops\<close>

definition pending :: "transformer_pc \<Rightarrow> types_JetDrop list" where
  "pending pc = (case pc of Sending ds \<Rightarrow> ds | _ \<Rightarrow> [])"

text \<open>What a pulse contributes: the drops of a successful transformation, nothing otherwise.\<close>

definition gives :: "insolar_lib \<Rightarrow> PlatformPulseData option \<Rightarrow> types_JetDrop list \<Rightarrow> bool" where
  "gives L jd drops \<longleftrightarrow> (\<exists>ros. (\<forall>k. range_ok (ros k)) \<and>
     (Transform L ros jd = Done (Inr drops) \<or> (\<exists>e. Transform L ros jd = Done (Inl e)) \<and> drops = []))"

definition transformer_inv :: "insolar_lib \<Rightarrow> nat \<Rightarrow> MainNetTransformer \<Rightarrow> bool" where
  "transformer_inv L n t \<longleftrightarrow> mt_queueLen t = n \<and> length (mt_transformerChan t) \<le> n \<and> length (mt_stopSignal t) \<le> 1 \<and>
     mt_delivered t @ mt_transformerChan t @ pending (mt_pc t) = concat (map snd (mt_taken t)) \<and>
     (\<forall>(jd, drops) \<in> set (mt_taken t). gives L jd drops)"

lemma transformer_inv_init: "transformer_inv L n (NewMainNetTransformer ch n)"
  by (simp add: transformer_inv_def NewMainNetTransformer_def pending_def)

lemma run_pulse_inv:
  assumes "transformer_inv L n t" and "mt_pc t = AtSelect" and "\<And>k. range_ok (ros k)"
  shows "transformer_inv L n (run_pulse L ros jd t)"
proof (cases "Transform L ros jd")
  case (Done r)
  then have "gives L jd (case r of Inl _ \<Rightarrow> [] | Inr ds \<Rightarrow> ds)"
    using assms(3) by (auto simp: gives_def split: sum.splits)
  with Done assms show ?thesis
    by (auto simp: run_pulse_def transformer_inv_def pending_def split: sum.splits)
qed (use assms in \<open>auto simp: run_pulse_def transformer_inv_def pending_def\<close>)

lemma transformer_inv_step: "run_step L t t' \<Longrightarrow> transformer_inv L n t \<Longrightarrow> transformer_inv L n t'"
proof (induction rule: run_step.induct)
  case (recv t jd rest ros)
  then have "transformer_inv L n (t\<lparr>mt_extractorChan := rest\<rparr>)" by (simp add: transformer_inv_def)
  with recv show ?case by (intro run_pulse_inv) simp_all
next
  case (check t stop t')
  then show ?case by (auto simp: needStop_def transformer_inv_def pending_def split: list.splits)
qed (auto simp: transformer_inv_def pending_def)

lemma transformer_inv_reachable:
  "(run_step L)\<^sup>*\<^sup>* (NewMainNetTransformer ch n) t \<Longrightarrow> transformer_inv L n t"
  by (induction rule: rtranclp_induct) (auto intro: transformer_inv_init transformer_inv_step)

text \<open>C18: in every reachable state, the jet drops the consumer has received, followed by those in the channel and
  those the goroutine still holds, are exactly the drops of the transformed pulses in the order in which the
  pulses were taken: none is lost, duplicated or reordered, and the channel never exceeds its capacity.\<close>

theorem transformer_fifo:
  assumes "(run_step L)\<^sup>*\<^sup>* (NewMainNetTransformer ch n) t"
  shows "mt_delivered t @ mt_transformerChan t @ pending (mt_pc t) = concat (map snd (mt_taken t)) \<and>
    (\<forall>(jd, drops) \<in> set (mt_taken t). gives L jd drops) \<and> length (mt_transformerChan t) \<le> n"
  using transformer_inv_reachable [OF assms] by (simp_all add: transformer_inv_def)

section \<open>Stopping\<close>

text \<open>The goroutine ends once a stop signal is buffered and its current pulse is sent, whatever the extractor
  still offers: from the select it may take the signal, put it back and find it in \<open>needStop\<close>.\<close>

lemma drain: "mt_pc t = Sending ds \<Longrightarrow>
  \<exists>t'. (run_step L)\<^sup>*\<^sup>* t t' \<and> mt_pc t' = CheckStop \<and> mt_stopSignal t' = mt_stopSignal t \<and>
    mt_delivered t' @ mt_transformerChan t' = mt_delivered t @ mt_transformerChan t @ ds"
proof (induction "length (mt_transformerChan t) + 2 * length ds" arbitrary: t ds rule: less_induct)
  case less
  show ?case
  proof (cases ds)
    case Nil
    with less.prems show ?thesis
      by (intro exI [of _ "t\<lparr>mt_pc := CheckStop\<rparr>"]) (auto intro: run_step.sent)
  next
    case (Cons d ds')
    show ?thesis
    proof (cases "mt_transformerChan t")
      case Nil
      let ?u = "t\<lparr>mt_delivered := mt_delivered t @ [d], mt_pc := Sending ds'\<rparr>"
      have "run_step L t ?u" using less.prems Cons Nil by (simp add: run_step.handoff)
      moreover from less.hyps [of ?u ds'] Cons Nil
      obtain t' where "(run_step L)\<^sup>*\<^sup>* ?u t'" "mt_pc t' = CheckStop" "mt_stopSignal t' = mt_stopSignal t"
        "mt_delivered t' @ mt_transformerChan t' = (mt_delivered t @ [d]) @ ds'" by auto
      ultimately show ?thesis using Cons Nil by (metis append.assoc append_Cons append_Nil converse_rtranclp_into_rtranclp)
    next
      case (Cons e rest)
      let ?u = "t\<lparr>mt_transformerChan := rest, mt_delivered := mt_delivered t @ [e]\<rparr>"
      have "run_step L t ?u" using Cons by (simp add: run_step.consume)
      moreover from less.hyps [of ?u ds] Cons less.prems
      obtain t' where "(run_step L)\<^sup>*\<^sup>* ?u t'" "mt_pc t' = CheckStop" "mt_stopSignal t' = mt_stopSignal t"
        "mt_delivered t' @ mt_transformerChan t' = (mt_delivered t @ [e]) @ rest @ ds" by auto
      ultimately show ?thesis using Cons by (metis append.assoc append_Cons append_Nil converse_rtranclp_into_rtranclp)
    qed
  qed
qed

lemma stop_from_check: "mt_pc t = CheckStop \<Longrightarrow> mt_stopSignal t = s # rest \<Longrightarrow>
  run_step L t (t\<lparr>mt_stopSignal := rest, mt_pc := Finished\<rparr>)"
  using run_step.check [of t True "t\<lparr>mt_stopSignal := rest\<rparr>" L] by (simp add: needStop_def)

lemma stop_from_select:
  assumes "mt_pc t = AtSelect" and "mt_stopSignal t = [s]"
  shows "(run_step L)\<^sup>*\<^sup>* t (t\<lparr>mt_stopSignal := [], mt_pc := Finished\<rparr>)"
proof -
  let ?u = "t\<lparr>mt_stopSignal := [], mt_pc := StopResend\<rparr>"
  let ?v = "?u\<lparr>mt_stopSignal := [True], mt_pc := CheckStop\<rparr>"
  have "run_step L t ?u" using run_step.stop_recv [OF assms] by simp
  moreover have "run_step L ?u ?v" using run_step.stop_resend [of ?u L] by simp
  moreover have "run_step L ?v (?v\<lparr>mt_stopSignal := [], mt_pc := Finished\<rparr>)" by (rule stop_from_check) simp_all
  ultimately show ?thesis by (auto intro: converse_rtranclp_into_rtranclp)
qed

lemma stop_finishes_helper:
  assumes "mt_stopSignal t = [s]" and "mt_pc t = AtSelect \<or> mt_pc t = CheckStop \<or> mt_pc t = Sending ds"
  shows "\<exists>t'. (run_step L)\<^sup>*\<^sup>* t t' \<and> mt_pc t' = Finished \<and>
    mt_delivered t' @ mt_transformerChan t' = mt_delivered t @ mt_transformerChan t @ pending (mt_pc t)"
  using assms(2)
proof (elim disjE)
  assume "mt_pc t = AtSelect"
  with stop_from_select [OF this assms(1), of L] show ?thesis
    by (intro exI [of _ "t\<lparr>mt_stopSignal := [], mt_pc := Finished\<rparr>"]) (simp add: pending_def)
next
  assume "mt_pc t = CheckStop"
  with stop_from_check [OF this assms(1), of L] show ?thesis
    by (intro exI [of _ "t\<lparr>mt_stopSignal := [], mt_pc := Finished\<rparr>"]) (simp add: pending_def r_into_rtranclp)
next
  assume pc: "mt_pc t = Sending ds"
  with drain [OF this] obtain u where u: "(run_step L)\<^sup>*\<^sup>* t u" "mt_pc u = CheckStop" "mt_stopSignal u = [s]"
    "mt_delivered u @ mt_transformerChan u = mt_delivered t @ mt_transformerChan t @ ds"
    using assms(1) by metis
  from stop_from_check [OF u(2,3), of L] u pc show ?thesis
    by (intro exI [of _ "u\<lparr>mt_stopSignal := [], mt_pc := Finished\<rparr>"]) (simp add: pending_def rtranclp.rtrancl_into_rtrancl)
qed

text \<open>Once one \<open>Stop\<close> has put its signal, the goroutine can end from wherever it is in its loop, and the
  drops of the pulse it is sending are all handed over before it does.\<close>

theorem stop_finishes:
  assumes "(run_step L)\<^sup>*\<^sup>* (NewMainNetTransformer ch n) t" and "mt_stopSignal t \<noteq> []"
    and "mt_pc t \<in> {AtSelect, CheckStop} \<union> range Sending"
  shows "\<exists>t'. (run_step L)\<^sup>*\<^sup>* t t' \<and> mt_pc t' = Finished \<and>
    mt_delivered t' @ mt_transformerChan t' = concat (map snd (mt_taken t))"
proof -
  from transformer_inv_reachable [OF assms(1)] assms(2) obtain s where "mt_stopSignal t = [s]"
    by (cases "mt_stopSignal t") (auto simp: transformer_inv_def)
  with stop_finishes_helper [of t] assms(3) transformer_inv_reachable [OF assms(1)] show ?thesis
    by (fastforce simp: transformer_inv_def)
qed

text \<open>A second \<open>Stop\<close> between the two halves of the resend fills the buffer of one for good: the goroutine
  blocks in \<open>m.stopSignal <- true\<close> and no step of the system frees it.\<close>

lemma double_stop_blocks:
  assumes "(run_step L)\<^sup>*\<^sup>* t t'" and "mt_pc t = StopResend" and "length (mt_stopSignal t) = 1"
  shows "mt_pc t' = StopResend \<and> length (mt_stopSignal t') = 1"
  using assms by (induction rule: rtranclp_induct) (auto elim!: run_step.cases)

lemma recv_one:
  "run_step plain_lib (NewMainNetTransformer [Some one_data] 1)
     (run_pulse plain_lib (\<lambda>_. range_insertion) (Some one_data) (NewMainNetTransformer [] 1))"
  using run_step.recv [of "NewMainNetTransformer [Some one_data] 1" "Some one_data" "[]" "\<lambda>_. range_insertion" plain_lib]
  by (simp add: NewMainNetTransformer_def)

lemma run_one: "\<exists>d. run_pulse plain_lib (\<lambda>_. range_insertion) (Some one_data) (NewMainNetTransformer [] 1) =
  (NewMainNetTransformer [] 1)\<lparr>mt_pc := Sending [d], mt_taken := [(Some one_data, [d])]\<rparr>"
  by (simp add: run_pulse_def one_drops NewMainNetTransformer_def)

theorem transformer_fifo_witness:
  "\<exists>t. (run_step plain_lib)\<^sup>*\<^sup>* (NewMainNetTransformer [Some one_data] 1) t \<and> length (mt_taken t) = 1 \<and>
     mt_delivered t @ mt_transformerChan t @ pending (mt_pc t) = concat (map snd (mt_taken t))"
  using transformer_fifo [OF r_into_rtranclp [of "run_step plain_lib", OF recv_one]] recv_one run_one
  by (intro exI [of _ "run_pulse plain_lib (\<lambda>_. range_insertion) (Some one_data) (NewMainNetTransformer [] 1)"])
     (auto simp: r_into_rtranclp)

lemma stopped_one: "\<exists>t d. (run_step plain_lib)\<^sup>*\<^sup>* (NewMainNetTransformer [Some one_data] 1) t \<and>
  mt_stopSignal t = [True] \<and> mt_pc t = Sending [d] \<and> mt_taken t = [(Some one_data, [d])]"
proof -
  from run_one obtain d where d: "run_pulse plain_lib (\<lambda>_. range_insertion) (Some one_data) (NewMainNetTransformer [] 1) =
    (NewMainNetTransformer [] 1)\<lparr>mt_pc := Sending [d], mt_taken := [(Some one_data, [d])]\<rparr>" (is "?r = ?u") by blast
  let ?v = "?u\<lparr>mt_stopSignal := [True]\<rparr>"
  have "run_step plain_lib ?u ?v" using run_step.Stop [of ?u plain_lib] by (simp add: NewMainNetTransformer_def)
  with recv_one d have "(run_step plain_lib)\<^sup>*\<^sup>* (NewMainNetTransformer [Some one_data] 1) ?v"
    by (auto intro: converse_rtranclp_into_rtranclp)
  then show ?thesis by (intro exI [of _ ?v] exI [of _ d]) simp
qed

theorem stop_finishes_witness:
  "\<exists>t d. (run_step plain_lib)\<^sup>*\<^sup>* (NewMainNetTransformer [Some one_data] 1) t \<and> mt_pc t = Finished \<and>
     mt_delivered t @ mt_transformerChan t = [d]"
proof -
  from stopped_one obtain t d where t: "(run_step plain_lib)\<^sup>*\<^sup>* (NewMainNetTransformer [Some one_data] 1) t"
    "mt_stopSignal t = [True]" "mt_pc t = Sending [d]" "mt_taken t = [(Some one_data, [d])]" by blast
  with stop_finishes [OF t(1)] obtain t' where "(run_step plain_lib)\<^sup>*\<^sup>* t t'" "mt_pc t' = Finished"
    "mt_delivered t' @ mt_transformerChan t' = [d]" by auto
  with t(1) show ?thesis by (meson rtranclp_trans)
qed

end
