(* ===== verification/Completeness.thy ===== *)
theory Completeness
  imports Types_Models
begin

text \<open>\<open>pulseIsComplete\<close> of \<open>etl/controller/pulsemaintainer.go\<close>: does the set of jets received for a pulse
  make up the whole jet tree?  The function never builds the tree: it asks, for every jet and every ancestor of
  it, for a jet under the sibling.  The theorems say what that decides: the answer does not depend on the
  iteration order of the map, a positive answer means that every branch of the tree ends in a received jet, and
  for the prefix-free sets of a real pulse the two are equivalent.  A pulse that has the root jet and any other
  jet makes the function panic.\<close>

section \<open>The code\<close>

text \<open>The closure \<open>invertLastSymbol\<close>; slicing the empty string from index -1 panics.\<close>

definition invertLastSymbol :: "string \<Rightarrow> string outcome" where
  "invertLastSymbol s = (if s = [] then Panic IndexOutOfRange
     else Done (butlast s @ (if last s = CHR ''1'' then ''0'' else ''1'')))"

text \<open>The search of the inner loops: a jet whose name starts with the given string.\<close>

fun find_sibling :: "string \<Rightarrow> string list \<Rightarrow> bool" where
  "find_sibling inverted [] = False"
| "find_sibling inverted (jetID2 # rest) =
     (if Index jetID2 inverted = 0 then True else find_sibling inverted rest)"

text \<open>The loop labelled \<open>Main\<close>; \<open>k\<close> numbers the executions of the inner loop for the range order.\<close>

fun main_loop :: "string range_order \<Rightarrow> string list \<Rightarrow> nat \<Rightarrow> string list \<Rightarrow> bool outcome" where
  "main_loop ro d k [] = Done True"
| "main_loop ro d k (jetID # rest) =
     bind_outcome (invertLastSymbol jetID) (\<lambda>jetIDInvertedLast.
       if jetIDInvertedLast \<in> set d then main_loop ro d k rest
       else if find_sibling jetIDInvertedLast (ro (Suc k) d) then main_loop ro d (Suc k) rest
       else Done False)"

text \<open>The loop labelled \<open>ParentIterator\<close>, from \<open>i\<close> down to 1, with the memo \<open>checkedJetIDs\<close>; the result is
  \<open>None\<close> for the early \<open>return false\<close>.\<close>

fun parent_iterator :: "string range_order \<Rightarrow> string list \<Rightarrow> nat \<Rightarrow> string \<Rightarrow> nat \<Rightarrow> string set
    \<Rightarrow> string set option outcome" where
  "parent_iterator ro d k jetID 0 checkedJetIDs = Done (Some checkedJetIDs)"
| "parent_iterator ro d k jetID (Suc i) checkedJetIDs =
     bind_outcome (invertLastSymbol (take (Suc i) jetID)) (\<lambda>jetIDParentInverted.
       if jetIDParentInverted \<in> checkedJetIDs then parent_iterator ro d k jetID i checkedJetIDs
       else if find_sibling jetIDParentInverted (ro (k + i) d)
         then parent_iterator ro d k jetID i (insert jetIDParentInverted checkedJetIDs)
       else Done None)"

fun parents_loop :: "string range_order \<Rightarrow> string list \<Rightarrow> nat \<Rightarrow> string set \<Rightarrow> string list \<Rightarrow> bool outcome" where
  "parents_loop ro d k checkedJetIDs [] = Done True"
| "parents_loop ro d k checkedJetIDs (jetID # rest) =
     bind_outcome (parent_iterator ro d k jetID (length jetID - 1) checkedJetIDs) (\<lambda>r. case r of
       None \<Rightarrow> Done False
     | Some checked \<Rightarrow> parents_loop ro d (k + length jetID) checked rest)"

definition pulseIsComplete :: "string range_order \<Rightarrow> types_Pulse \<Rightarrow> string list \<Rightarrow> bool outcome" where
  "pulseIsComplete ro p d =
     (if length d = 0 then Done False
      else if length d = 1 \<and> [] \<in> set d then Done True
      else bind_outcome (main_loop ro d 0 (ro 0 d)) (\<lambda>ok.
        if ok then parents_loop ro d (Suc (length d)) {} (ro (Suc (length d)) d) else Done False))"

section \<open>What it decides\<close>

text \<open>The sibling of a non-empty jet, and the test on one ancestor.\<close>

definition inv_last :: "string \<Rightarrow> string" where
  "inv_last s = butlast s @ (if last s = CHR ''1'' then ''0'' else ''1'')"

definition has_under :: "string list \<Rightarrow> string \<Rightarrow> bool" where
  "has_under d s \<longleftrightarrow> (\<exists>y \<in> set d. prefix s y)"

text \<open>Every ancestor of every jet, the jet included, has a jet under its sibling.\<close>

definition balanced :: "string list \<Rightarrow> bool" where
  "balanced d \<longleftrightarrow> (\<forall>x \<in> set d. \<forall>i \<in> {1..length x}. has_under d (inv_last (take i x)))"

text \<open>The intention: every sufficiently deep branch of the tree passes through a received jet.\<close>

definition covers :: "string set \<Rightarrow> bool" where
  "covers d \<longleftrightarrow> (\<forall>b. bitstring b \<longrightarrow> (\<forall>x \<in> d. length x \<le> length b) \<longrightarrow> (\<exists>x \<in> d. prefix x b))"

lemma covers_mono: "covers d \<Longrightarrow> d \<subseteq> d' \<Longrightarrow> covers d'"
  unfolding covers_def by blast

definition prefix_free :: "string list \<Rightarrow> bool" where
  "prefix_free d \<longleftrightarrow> (\<forall>x \<in> set d. \<forall>y \<in> set d. prefix x y \<longrightarrow> x = y)"

lemma invertLastSymbol_eq: "s \<noteq> [] \<Longrightarrow> invertLastSymbol s = Done (inv_last s)"
  by (simp add: invertLastSymbol_def inv_last_def)

lemma find_sibling_iff: "find_sibling s js \<longleftrightarrow> (\<exists>y \<in> set js. prefix s y)"
  by (induction js) (simp_all add: go_simps)

lemma find_sibling_range [simp]: "range_ok ro \<Longrightarrow> find_sibling s (ro k d) \<longleftrightarrow> has_under d s"
  by (simp add: find_sibling_iff has_under_def range_simps)

lemma main_loop_eq:
  "range_ok ro \<Longrightarrow> [] \<notin> set js \<Longrightarrow> main_loop ro d k js = Done (\<forall>x \<in> set js. has_under d (inv_last x))"
proof (induction js arbitrary: k)
  case (Cons x js)
  have "inv_last x \<in> set d \<Longrightarrow> has_under d (inv_last x)" by (auto simp: has_under_def)
  with Cons show ?case by (auto simp: invertLastSymbol_eq)
qed simp

lemma parent_iterator_eq:
  "range_ok ro \<Longrightarrow> n < length x \<Longrightarrow> \<forall>s \<in> checked. has_under d s \<Longrightarrow>
   parent_iterator ro d k x n checked = Done (if \<forall>i \<in> {1..n}. has_under d (inv_last (take i x))
     then Some (checked \<union> (\<lambda>i. inv_last (take i x)) ` {1..n}) else None)"
proof (induction n arbitrary: checked)
  case (Suc n)
  let ?s = "inv_last (take (Suc n) x)"
  have e: "invertLastSymbol (take (Suc n) x) = Done ?s" using Suc.prems by (intro invertLastSymbol_eq) auto
  have u: "{1..Suc n} = insert (Suc n) {1..n}" by auto
  consider "?s \<in> checked" | "?s \<notin> checked" "has_under d ?s" | "?s \<notin> checked" "\<not> has_under d ?s" by blast
  then show ?case
  proof cases
    case 1
    then show ?thesis unfolding u using Suc by (auto simp: e insert_absorb)
  next
    case 2
    then show ?thesis unfolding u using Suc.prems Suc.IH [of "insert ?s checked"] by (simp add: e)
  next
    case 3
    then show ?thesis unfolding u using Suc.prems by (simp add: e)
  qed
qed simp

lemma parents_loop_eq:
  "range_ok ro \<Longrightarrow> [] \<notin> set js \<Longrightarrow> \<forall>s \<in> checked. has_under d s \<Longrightarrow>
   parents_loop ro d k checked js =
     Done (\<forall>x \<in> set js. \<forall>i \<in> {1..length x - 1}. has_under d (inv_last (take i x)))"
proof (induction js arbitrary: k checked)
  case (Cons x js)
  let ?ok = "\<forall>i \<in> {1..length x - 1}. has_under d (inv_last (take i x))"
  have n: "length x - 1 < length x" using Cons.prems by (cases x) auto
  show ?case
  proof (cases ?ok)
    case True
    then show ?thesis
      using Cons.prems Cons.IH [of "checked \<union> (\<lambda>i. inv_last (take i x)) ` {1..length x - 1}"]
      by (simp only: parents_loop.simps parent_iterator_eq [OF Cons.prems(1) n Cons.prems(3)]) (simp add: ball_Un)
  next
    case False
    then show ?thesis by (simp only: parents_loop.simps parent_iterator_eq [OF Cons.prems(1) n Cons.prems(3)]) auto
  qed
qed simp

lemma balanced_split:
  assumes "[] \<notin> set d"
  shows "balanced d \<longleftrightarrow> (\<forall>x \<in> set d. has_under d (inv_last x)) \<and>
    (\<forall>x \<in> set d. \<forall>i \<in> {1..length x - 1}. has_under d (inv_last (take i x)))"
proof -
  have "{1..length x} = insert (length x) {1..length x - 1}" if "x \<in> set d" for x
  proof -
    have "x \<noteq> []" using that assms by blast
    then have "Suc 0 \<le> length x" by (simp add: Suc_le_eq)
    then show ?thesis by auto
  qed
  then show ?thesis unfolding balanced_def by (metis (no_types, lifting) insert_iff order_refl take_all_iff)
qed

lemma pulseIsComplete_eq:
  assumes "range_ok ro" and "[] \<notin> set d"
  shows "pulseIsComplete ro p d = Done (d \<noteq> [] \<and> balanced d)"
  using assms by (simp add: pulseIsComplete_def main_loop_eq parents_loop_eq balanced_split range_simps)

lemma main_loop_root: "[] \<in> set js \<Longrightarrow> main_loop ro d k js \<noteq> Done True"
  by (induction js arbitrary: k) (auto simp: invertLastSymbol_def bind_outcome_Done_iff)

lemma pulseIsComplete_root:
  assumes "range_ok ro" and "[] \<in> set d" and "distinct d" and "d \<noteq> [[]]"
  shows "pulseIsComplete ro p d \<noteq> Done True"
proof -
  have "length d \<noteq> 1" using assms by (cases d) auto
  moreover have "[] \<in> set (ro 0 d)" using assms by (simp add: range_simps)
  ultimately show ?thesis using main_loop_root [of "ro 0 d" ro d 0]
    by (auto simp: pulseIsComplete_def bind_outcome_Done_iff)
qed

section \<open>A complete pulse covers the tree\<close>

text \<open>If no jet is a prefix of the branch, follow the branch as long as some jet lies under it: where it leaves
  the last such jet, the sibling test gives a jet that follows it one step further.\<close>

lemma inv_last_flip:
  assumes "k < length y" and "k < length b" and "take k y = take k b" and "y ! k \<noteq> b ! k"
    and "bitstring y" and "bitstring b"
  shows "inv_last (take (Suc k) y) = take (Suc k) b"
proof -
  have "is_bit (y ! k)" "is_bit (b ! k)" using assms by (auto simp: bitstring_def list_all_length)
  then show ?thesis using assms by (auto simp: inv_last_def take_Suc_conv_app_nth is_bit_def)
qed

lemma bitstring_butlast: "bitstring s \<Longrightarrow> bitstring (butlast s)"
  by (simp add: butlast_conv_take)

lemma bitstring_inv_last: "bitstring s \<Longrightarrow> bitstring (inv_last (take i s))"
  by (simp add: inv_last_def bitstring_butlast)

lemma balanced_covers:
  assumes "d \<noteq> []" and "balanced d" and "\<forall>x \<in> set d. bitstring x"
  shows "covers (set d)"
  unfolding covers_def
proof (intro allI impI, rule ccontr)
  fix b
  assume b: "bitstring b" "\<forall>x \<in> set d. length x \<le> length b" and none: "\<not> (\<exists>x \<in> set d. prefix x b)"
  let ?P = "\<lambda>k. k \<le> length b \<and> has_under d (take k b)"
  have "?P 0" using assms(1) by (auto simp: has_under_def neq_Nil_conv)
  then obtain k where k: "?P k" and max: "\<And>j. ?P j \<Longrightarrow> j \<le> k"
    using Greatest_le_nat [of ?P _ "length b"] GreatestI_nat [of ?P 0 "length b"] by blast
  from k obtain y where y: "y \<in> set d" "prefix (take k b) y" by (auto simp: has_under_def)
  have "\<not> prefix y b" using none y by blast
  then have "k < length y"
    using y k by (metis append_Nil2 length_take min.absorb2 not_less prefixE prefix_length_le
        append_eq_conv_conj take_is_prefix take_all_iff)
  moreover have "length y \<le> length b" using b y by blast
  moreover have "take k y = take k b" using y k by (metis append_eq_conv_conj length_take min.absorb2 prefixE)
  moreover have "y ! k \<noteq> b ! k"
  proof
    assume "y ! k = b ! k"
    then have "take (Suc k) y = take (Suc k) b" using calculation by (simp add: take_Suc_conv_app_nth)
    then have "?P (Suc k)" using y calculation by (auto simp: has_under_def intro!: bexI [of _ y]) (metis take_is_prefix)
    then show False using max by force
  qed
  ultimately have "inv_last (take (Suc k) y) = take (Suc k) b" "Suc k \<in> {1..length y}" "Suc k \<le> length b"
    using inv_last_flip assms(3) b y by auto
  with assms(2) y have "?P (Suc k)" unfolding balanced_def by (metis (no_types, lifting))
  then show False using max by force
qed

lemma prefix_free_covers_balanced:
  assumes "covers (set d)" and "prefix_free d" and "\<forall>x \<in> set d. bitstring x"
  shows "balanced d"
  unfolding balanced_def
proof (intro ballI)
  fix x i
  assume x: "x \<in> set d" and i: "i \<in> {1..length x}"
  let ?w = "inv_last (take i x)" and ?n = "sum_list (map length d)"
  have w: "bitstring ?w" using x assms(3) by (simp add: bitstring_inv_last)
  let ?b = "?w @ replicate ?n (CHR ''0'')"
  have "bitstring (replicate m (CHR ''0''))" for m by (induction m) simp_all
  then have "bitstring ?b" using w by simp
  have "length y \<le> ?n" if "y \<in> set d" for y using that by (simp add: member_le_sum_list)
  then have "\<forall>y \<in> set d. length y \<le> length ?b" by (auto simp: trans_le_add2)
  with \<open>bitstring ?b\<close> obtain z where z: "z \<in> set d" "prefix z ?b" using assms(1) unfolding covers_def by blast
  show "has_under d ?w"
  proof (cases "prefix ?w z")
    case True
    with z show ?thesis by (auto simp: has_under_def)
  next
    case False
    with z(2) have "prefix z ?w" "z \<noteq> ?w" using prefix_same_cases [of z ?b ?w] by auto
    then have "prefix z (butlast ?w)"
      by (metis append_butlast_last_id prefix_order.antisym prefix_snoc Nil_prefix)
    also have "butlast ?w = take (i - 1) x" using i x by (simp add: inv_last_def butlast_take)
    finally have "prefix z x" "length z \<le> i - 1" using i
      by (auto intro: prefix_order.trans take_is_prefix dest: prefix_length_le)
    moreover from this have "z = x" using assms(2) x z by (auto simp: prefix_free_def)
    ultimately show ?thesis using i by auto
  qed
qed

lemma prefix_free_root: "prefix_free d \<Longrightarrow> distinct d \<Longrightarrow> [] \<in> set d \<Longrightarrow> d = [[]]"
proof (cases d)
  case (Cons x xs)
  assume d: "prefix_free d" "distinct d" "[] \<in> set d"
  have "y = []" if "y \<in> set d" for y using d(1,3) that unfolding prefix_free_def by (metis Nil_prefix)
  with Cons d(2) show ?thesis by (cases xs) auto
qed simp

lemma covers_Nil: "\<not> covers {}"
  by (auto simp: covers_def intro: exI [of _ "[]"])

lemma pulseIsComplete_covers:
  assumes "pulseIsComplete ro p d = Done True" and "range_ok ro" and "\<forall>x \<in> set d. bitstring x"
  shows "covers (set d)"
proof (cases "[] \<in> set d")
  case True
  then show ?thesis unfolding covers_def by (metis Nil_prefix)
next
  case False
  then show ?thesis using assms pulseIsComplete_eq [OF assms(2) False, of p] by (auto intro: balanced_covers)
qed

text \<open>Whatever jets have been received (bit strings, in any map order), a pulse is declared complete only if
  every branch of the jet tree passes through one of them.\<close>

theorem complete_covers:
  assumes "pulseIsComplete ro p d = Done True" and "range_ok ro" and "\<forall>x \<in> set d. bitstring x"
  shows "covers (set d)"
  by (rule pulseIsComplete_covers [OF assms])

lemma pulseIsComplete_iff_covers:
  assumes "range_ok ro" and "distinct d" and "prefix_free d" and "\<forall>x \<in> set d. bitstring x"
  shows "pulseIsComplete ro p d = Done (covers (set d))"
proof (cases "[] \<in> set d")
  case True
  with assms have "d = [[]]" by (intro prefix_free_root)
  then show ?thesis by (auto simp: pulseIsComplete_def covers_def)
next
  case False
  then show ?thesis
    using pulseIsComplete_eq [OF assms(1) False, of p] prefix_free_covers_balanced [OF _ assms(3,4)]
      balanced_covers [OF _ _ assms(4)] covers_Nil by (cases "covers (set d)") auto
qed

text \<open>C7: for the jets of one pulse (no jet lies under another) the function always returns and its answer is
  exactly whether they cover the tree: in particular it does not depend on the iteration order of the map.\<close>

theorem complete_iff_covers:
  assumes "range_ok ro" and "distinct d" and "prefix_free d" and "\<forall>x \<in> set d. bitstring x"
  shows "pulseIsComplete ro p d = Done (covers (set d))"
  by (rule pulseIsComplete_iff_covers [OF assms])

text \<open>A set that holds the root jet and another jet is never complete; the function panics on it or answers
  no, depending on the order in which the map is visited.\<close>

theorem root_with_others_panics:
  assumes "range_ok ro" and "[] \<in> set d" and "distinct d" and "d \<noteq> [[]]"
  shows "pulseIsComplete ro p d \<in> {Done False, Panic IndexOutOfRange}"
proof -
  have main: "main_loop ro d k js \<in> {Done True, Done False, Panic IndexOutOfRange}" for k js
    by (induction js arbitrary: k) (auto simp: invertLastSymbol_def)
  show ?thesis
    using main [of 0 "ro 0 d"] main_loop_root [of "ro 0 d" ro d 0] pulseIsComplete_root [OF assms, of p] assms(1,2)
    by (auto simp: pulseIsComplete_def range_simps split: if_splits)
qed

section \<open>Witnesses\<close>

definition sample_pulse :: types_Pulse where
  "sample_pulse = \<lparr>tp_PulseNo = 65610, tp_EpochPulseNo = 1, tp_PulseTimestamp = 5, tp_NextPulseNumber = 65620,
     tp_PrevPulseNumber = 65600\<rparr>"

definition split_jets :: "string list" where
  "split_jets = [''00'', ''1'', ''01'']"

lemma split_jets_facts: "distinct split_jets" "prefix_free split_jets" "\<forall>x \<in> set split_jets. bitstring x"
  by (simp_all add: split_jets_def prefix_free_def)

lemma split_jets_complete: "pulseIsComplete range_reverse sample_pulse split_jets = Done True"
  by (simp add: pulseIsComplete_def split_jets_def range_reverse_def invertLastSymbol_def Index_def)

theorem complete_covers_witness: "pulseIsComplete range_reverse sample_pulse split_jets = Done True \<and> covers (set split_jets)"
  using complete_covers [OF split_jets_complete range_ok_reverse split_jets_facts(3)] split_jets_complete by blast

theorem complete_iff_covers_witness:
  "pulseIsComplete range_insertion sample_pulse split_jets = Done (covers (set split_jets))"
  by (rule complete_iff_covers [OF range_ok_insertion split_jets_facts])

lemma root_panics: "pulseIsComplete range_insertion sample_pulse [[], ''1''] = Panic IndexOutOfRange"
  by (simp add: pulseIsComplete_def range_insertion_def invertLastSymbol_def)

theorem root_with_others_panics_witness:
  "pulseIsComplete range_insertion sample_pulse [[], ''1''] \<in> {Done False, Panic IndexOutOfRange}"
  by (rule root_with_others_panics) simp_all

end
