(* ===== verification/Missed_Data.thy ===== *)
theory Missed_Data
  imports Prelude
begin

text \<open>\<open>etl/controller/misseddata.go\<close>: the pool of pulse ranges that were already requested from the platform, which
  keeps the controller from asking for the same range again before a time to live has passed.  \<open>deleteExpired\<close>
  removes from a slice while it ranges over it, so the model keeps the backing array and the length of the slice
  apart: the loop reads the array the \<open>range\<close> clause captured, the body shrinks the slice.\<close>

section \<open>State\<close>

text \<open>Instants and durations are counts of nanoseconds.\<close>

record missedData =
  md_ts :: int
  md_fromPulse :: int
  md_toPulse :: int

definition zero_missedData :: missedData where
  "zero_missedData = \<lparr>md_ts = 0, md_fromPulse = 0, md_toPulse = 0\<rparr>"

record MissedDataManager =
  missedDataPool :: "missedData list"
  mdm_ttl :: int
  mdm_cleanPeriod :: int

definition NewMissedDataManager :: "int \<Rightarrow> int \<Rightarrow> MissedDataManager" where
  "NewMissedDataManager ttl cleanPeriod = \<lparr>missedDataPool = [], mdm_ttl = ttl, mdm_cleanPeriod = cleanPeriod\<rparr>"

section \<open>Operations\<close>

text \<open>The loop of \<open>Add\<close>: is the range inside one that was requested before?\<close>

fun already_reload :: "int \<Rightarrow> int \<Rightarrow> missedData list \<Rightarrow> bool" where
  "already_reload fromPulse toPulse [] = False"
| "already_reload fromPulse toPulse (missed # rest) =
     (if md_fromPulse missed \<le> fromPulse \<and> md_toPulse missed \<ge> toPulse then True
      else already_reload fromPulse toPulse rest)"

definition Add :: "int \<Rightarrow> int \<Rightarrow> int \<Rightarrow> MissedDataManager \<Rightarrow> bool \<times> MissedDataManager" where
  "Add now fromPulse toPulse mdm =
     (if already_reload fromPulse toPulse (missedDataPool mdm) then (False, mdm)
      else (True, mdm\<lparr>missedDataPool := missedDataPool mdm @
        [\<lparr>md_ts = now, md_fromPulse = fromPulse, md_toPulse = toPulse\<rparr>]\<rparr>))"

text \<open>\<open>time.Since\<close> saturates at the bounds of a 64 bit duration.\<close>

definition Since :: "int \<Rightarrow> int \<Rightarrow> int" where
  "Since now ts = max (- (2 ^ 63)) (min (2 ^ 63 - 1) (now - ts))"

definition isExpired :: "int \<Rightarrow> int \<Rightarrow> int \<Rightarrow> bool" where
  "isExpired ttl now ts \<longleftrightarrow> Since now ts > ttl"

text \<open>The loop of \<open>deleteExpired\<close> from index \<open>i\<close> with \<open>k\<close> rounds to go, on the backing array \<open>arr\<close> and the
  current length \<open>len\<close> of the slice; \<open>now i\<close> is the clock read in round \<open>i\<close>.\<close>

fun delete_loop :: "int \<Rightarrow> (nat \<Rightarrow> int) \<Rightarrow> nat \<Rightarrow> nat \<Rightarrow> missedData list \<times> nat \<Rightarrow> missedData list \<times> nat" where
  "delete_loop ttl now i 0 (arr, len) = (arr, len)"
| "delete_loop ttl now i (Suc k) (arr, len) =
     (let missed = arr ! i
      in if i < len \<and> isExpired ttl (now i) (md_ts missed)
         then delete_loop ttl now (Suc i) k (arr[i := arr ! (len - 1), len - 1 := zero_missedData], len - 1)
         else delete_loop ttl now (Suc i) k (arr, len))"

definition deleteExpired :: "(nat \<Rightarrow> int) \<Rightarrow> MissedDataManager \<Rightarrow> MissedDataManager" where
  "deleteExpired now mdm =
     (let (arr, len) = delete_loop (mdm_ttl mdm) now 0 (length (missedDataPool mdm))
            (missedDataPool mdm, length (missedDataPool mdm))
      in mdm\<lparr>missedDataPool := take len arr\<rparr>)"

text \<open>The goroutine of \<open>Start\<close>: a clean-up per tick until the stop signal arrives.\<close>

datatype mdm_event = TickerC "nat \<Rightarrow> int" | Stopped

fun mdm_loop :: "mdm_event list \<Rightarrow> MissedDataManager \<Rightarrow> MissedDataManager" where
  "mdm_loop [] mdm = mdm"
| "mdm_loop (TickerC now # es) mdm = mdm_loop es (deleteExpired now mdm)"
| "mdm_loop (Stopped # es) mdm = mdm"

section \<open>Requests are not repeated\<close>

definition reloaded :: "int \<Rightarrow> int \<Rightarrow> MissedDataManager \<Rightarrow> bool" where
  "reloaded f t mdm \<longleftrightarrow> (\<exists>m \<in> set (missedDataPool mdm). md_fromPulse m \<le> f \<and> t \<le> md_toPulse m)"

lemma already_reload_iff: "already_reload f t pool \<longleftrightarrow> (\<exists>m \<in> set pool. md_fromPulse m \<le> f \<and> t \<le> md_toPulse m)"
  by (induction pool) auto

text \<open>C36: \<open>Add\<close> answers yes exactly for a range that no pooled range contains, and afterwards the range, and
  every range inside it, is refused.\<close>

theorem Add_once:
  "fst (Add now f t mdm) = (\<not> reloaded f t mdm) \<and>
   (\<forall>now' f' t'. f \<le> f' \<longrightarrow> t' \<le> t \<longrightarrow>
      Add now' f' t' (snd (Add now f t mdm)) = (False, snd (Add now f t mdm)))"
proof -
  have r: "already_reload f' t' (missedDataPool (snd (Add now f t mdm)))" if "f \<le> f'" "t' \<le> t" for f' t'
    using that by (auto simp: Add_def already_reload_iff intro: order_trans)
  have "fst (Add now f t mdm) = (\<not> reloaded f t mdm)" by (simp add: Add_def already_reload_iff reloaded_def)
  with r show ?thesis by (simp add: Add_def [of now' f' t' for now' f' t'])
qed

section \<open>Expiry\<close>

lemma mset_swap_remove:
  assumes "i < length xs"
  shows "mset (butlast (xs[i := last xs])) = mset xs - {#xs ! i#}"
proof -
  from assms obtain ys z where xs: "xs = ys @ [z]" by (metis append_butlast_last_id length_0_conv not_less_zero)
  show ?thesis
  proof (cases "i < length ys")
    case True
    then show ?thesis by (simp add: xs list_update_append mset_update nth_append)
  next
    case False
    with assms xs have "i = length ys" by simp
    then show ?thesis by (simp add: xs)
  qed
qed

text \<open>The loop on the slice alone: what array and length say is the list cut at the length.\<close>

fun pool_loop :: "int \<Rightarrow> (nat \<Rightarrow> int) \<Rightarrow> nat \<Rightarrow> nat \<Rightarrow> missedData list \<Rightarrow> missedData list" where
  "pool_loop ttl now i 0 pool = pool"
| "pool_loop ttl now i (Suc k) pool =
     pool_loop ttl now (Suc i) k
       (if i < length pool \<and> isExpired ttl (now i) (md_ts (pool ! i)) then butlast (pool[i := last pool]) else pool)"

lemma delete_loop_pool:
  "len \<le> length arr \<Longrightarrow> (case delete_loop ttl now i k (arr, len) of (arr', len') \<Rightarrow> take len' arr') =
     pool_loop ttl now i k (take len arr)"
proof (induction k arbitrary: i arr len)
  case (Suc k)
  show ?case
  proof (cases "i < len \<and> isExpired ttl (now i) (md_ts (arr ! i))")
    case True
    let ?arr = "arr[i := arr ! (len - 1), len - 1 := zero_missedData]"
    have "take (len - 1) ?arr = butlast ((take len arr)[i := last (take len arr)])"
    proof (rule nth_equalityI)
      show "length (take (len - 1) ?arr) = length (butlast ((take len arr)[i := last (take len arr)]))"
        using Suc.prems by simp
      have "last (take len arr) = arr ! (len - 1)" using True Suc.prems by (subst last_conv_nth) auto
      then show "take (len - 1) ?arr ! m = butlast ((take len arr)[i := last (take len arr)]) ! m"
        if "m < length (take (len - 1) ?arr)" for m
        using that True Suc.prems by (simp add: nth_butlast nth_list_update)
    qed
    then show ?thesis using True Suc.prems Suc.IH [of "len - 1" ?arr "Suc i"] by (simp add: Let_def min_absorb2)
  next
    case False
    then show ?thesis using Suc.prems Suc.IH [of len arr "Suc i"] by (auto simp: Let_def min_absorb2)
  qed
qed simp

lemma deleteExpired_pool:
  "deleteExpired now mdm = mdm\<lparr>missedDataPool :=
     pool_loop (mdm_ttl mdm) now 0 (length (missedDataPool mdm)) (missedDataPool mdm)\<rparr>"
  using delete_loop_pool [of "length (missedDataPool mdm)" "missedDataPool mdm" "mdm_ttl mdm" now 0
      "length (missedDataPool mdm)"]
  by (auto simp: deleteExpired_def split: prod.splits)

text \<open>Time only moves forward, so an entry that was expired in one round is expired in the next ones.\<close>

lemma isExpired_mono: "isExpired ttl t ts \<Longrightarrow> t \<le> t' \<Longrightarrow> isExpired ttl t' ts"
  by (auto simp: isExpired_def Since_def)

lemma pool_loop_sub: "mset (pool_loop ttl now i k pool) \<subseteq># mset pool"
proof (induction k arbitrary: i pool)
  case (Suc k)
  have "mset (butlast (pool[i := last pool])) \<subseteq># mset pool" if "i < length pool"
    using mset_swap_remove [OF that] by simp
  then show ?case using Suc by (auto intro: subset_mset.order_trans)
qed simp

lemma pool_loop_live:
  "mono now \<Longrightarrow> i + k \<le> n \<Longrightarrow> filter_mset (\<lambda>m. \<not> isExpired ttl (now n) (md_ts m)) (mset (pool_loop ttl now i k pool)) =
     filter_mset (\<lambda>m. \<not> isExpired ttl (now n) (md_ts m)) (mset pool)"
proof (induction k arbitrary: i pool)
  case (Suc k)
  let ?live = "filter_mset (\<lambda>m. \<not> isExpired ttl (now n) (md_ts m))"
  show ?case
  proof (cases "i < length pool \<and> isExpired ttl (now i) (md_ts (pool ! i))")
    case True
    then have e: "isExpired ttl (now n) (md_ts (pool ! i))" using Suc.prems by (meson isExpired_mono monoD add_leD1 le_trans)
    have "?live (mset (butlast (pool[i := last pool]))) = ?live (mset pool - {#pool ! i#})"
      using True by (simp only: mset_swap_remove)
    also have "\<dots> = ?live (mset pool)" using e by simp
    finally show ?thesis using True Suc.prems Suc.IH [of "Suc i" "butlast (pool[i := last pool])"] by simp
  next
    case False
    then show ?thesis using Suc by (auto simp del: mset_filter)
  qed
qed simp

lemma pool_loop_half:
  "(\<And>n. t0 \<le> now n) \<Longrightarrow> length pool \<le> i + k \<Longrightarrow>
   length (filter (\<lambda>m. isExpired ttl t0 (md_ts m)) (take i pool)) \<le> d \<Longrightarrow>
   length (filter (\<lambda>m. isExpired ttl t0 (md_ts m)) (pool_loop ttl now i k pool)) + length (pool_loop ttl now i k pool)
     \<le> d + length pool"
proof (induction k arbitrary: i pool d)
  case (Suc k)
  let ?e = "\<lambda>m. isExpired ttl t0 (md_ts m)"
  show ?case
  proof (cases "i < length pool \<and> isExpired ttl (now i) (md_ts (pool ! i))")
    case True
    let ?p = "butlast (pool[i := last pool])"
    have "i \<le> length pool - 1" using True by linarith
    then have "take i ?p = take i pool" by (simp add: butlast_conv_take min_def)
    then have "length (filter ?e (take (Suc i) ?p)) \<le> Suc d"
      using Suc.prems(3) by (cases "i < length ?p") (auto simp: take_Suc_conv_app_nth)
    moreover have "length ?p \<le> Suc i + k" "Suc (length ?p) = length pool" using Suc.prems True by auto
    ultimately show ?thesis using Suc.IH [of ?p "Suc i" "Suc d"] Suc.prems True by simp
  next
    case False
    have "length (filter ?e (take (Suc i) pool)) \<le> d"
    proof (cases "i < length pool")
      case True
      with False have "\<not> isExpired ttl (now i) (md_ts (pool ! i))" by blast
      then have "\<not> ?e (pool ! i)" using Suc.prems(1) isExpired_mono by blast
      then show ?thesis using Suc.prems True by (simp add: take_Suc_conv_app_nth)
    qed (use Suc.prems in simp)
    then show ?thesis using False Suc.prems Suc.IH [of pool "Suc i" d] by auto
  qed
qed simp

text \<open>A clean-up removes only entries that have expired by the time it ends: it invents no entry and keeps
  every live one, as often as it is in the pool.\<close>

theorem deleteExpired_keeps_live:
  assumes "mono now"
  shows "mset (missedDataPool (deleteExpired now mdm)) \<subseteq># mset (missedDataPool mdm) \<and>
    filter_mset (\<lambda>m. \<not> isExpired (mdm_ttl mdm) (now (length (missedDataPool mdm))) (md_ts m))
        (mset (missedDataPool (deleteExpired now mdm))) =
    filter_mset (\<lambda>m. \<not> isExpired (mdm_ttl mdm) (now (length (missedDataPool mdm))) (md_ts m))
        (mset (missedDataPool mdm))"
  using pool_loop_live [OF assms, of 0] pool_loop_sub by (simp add: deleteExpired_pool)

lemma deleteExpired_half:
  assumes "\<And>n. t0 \<le> now n"
  shows "length (filter (\<lambda>m. isExpired (mdm_ttl mdm) t0 (md_ts m)) (missedDataPool (deleteExpired now mdm))) +
    length (missedDataPool (deleteExpired now mdm)) \<le> length (missedDataPool mdm)"
  using pool_loop_half [OF assms, of "missedDataPool mdm" 0 "length (missedDataPool mdm)" "mdm_ttl mdm" 0]
  by (simp add: deleteExpired_pool)

lemma mdm_loop_ttl: "mdm_ttl (mdm_loop (map TickerC nows) mdm) = mdm_ttl mdm"
  by (induction nows arbitrary: mdm) (simp_all add: deleteExpired_pool)

lemma deleteExpired_ttl [simp]: "mdm_ttl (deleteExpired now mdm) = mdm_ttl mdm"
  by (simp add: deleteExpired_pool)

lemma mdm_loop_snoc:
  "mdm_loop (map TickerC (nows @ [now])) mdm = deleteExpired now (mdm_loop (map TickerC nows) mdm)"
  by (induction nows arbitrary: mdm) simp_all

lemma length_filter_mset_mono: "mset xs \<subseteq># mset ys \<Longrightarrow> length (filter P xs) \<le> length (filter P ys)"
  by (metis mset_filter multiset_filter_mono size_mset size_mset_mono)

lemma mdm_loop_expired:
  assumes "\<forall>now \<in> set nows. \<forall>n. t0 \<le> now n"
  shows "length nows * length (filter (\<lambda>m. isExpired (mdm_ttl mdm) t0 (md_ts m)) (missedDataPool (mdm_loop (map TickerC nows) mdm)))
      + length (missedDataPool (mdm_loop (map TickerC nows) mdm)) \<le> length (missedDataPool mdm)"
  using assms
proof (induction nows rule: rev_induct)
  case (snoc now nows)
  let ?e = "\<lambda>m. isExpired (mdm_ttl mdm) t0 (md_ts m)" and ?u = "mdm_loop (map TickerC nows) mdm"
  let ?v = "deleteExpired now ?u"
  have h: "length (filter ?e (missedDataPool ?v)) + length (missedDataPool ?v) \<le> length (missedDataPool ?u)"
    using deleteExpired_half [of t0 now ?u] snoc.prems by (simp add: mdm_loop_ttl)
  have "length (filter ?e (missedDataPool ?v)) \<le> length (filter ?e (missedDataPool ?u))"
    by (intro length_filter_mset_mono) (simp add: deleteExpired_pool pool_loop_sub)
  then have "length nows * length (filter ?e (missedDataPool ?v)) \<le> length nows * length (filter ?e (missedDataPool ?u))"
    by (rule mult_le_mono2)
  moreover have "length nows * length (filter ?e (missedDataPool ?u)) + length (missedDataPool ?u) \<le> length (missedDataPool mdm)"
    using snoc by simp
  ultimately have "length nows * length (filter ?e (missedDataPool ?v)) + length (filter ?e (missedDataPool ?v)) +
      length (missedDataPool ?v) \<le> length (missedDataPool mdm)"
    using h by linarith
  then show ?case by (simp only: mdm_loop_snoc length_append_singleton mult_Suc add_ac)
qed simp

text \<open>One clean-up may leave expired entries behind, because an entry moved into a freed place is not looked at
  again, but the passes of the goroutine get rid of them: after \<open>k\<close> ticks at most a share of 1 in \<open>k + 1\<close> of
  the pool's entries that were expired at the start is left, hence none after as many ticks as the pool has entries.\<close>

theorem ticks_clear_expired:
  assumes "\<forall>now \<in> set nows. \<forall>n. t0 \<le> now n"
  shows "(length nows + 1) * length (filter (\<lambda>m. isExpired (mdm_ttl mdm) t0 (md_ts m))
      (missedDataPool (mdm_loop (map TickerC nows) mdm))) \<le> length (missedDataPool mdm)"
proof -
  have "length (filter (\<lambda>m. isExpired (mdm_ttl mdm) t0 (md_ts m)) (missedDataPool (mdm_loop (map TickerC nows) mdm)))
      \<le> length (missedDataPool (mdm_loop (map TickerC nows) mdm))" by (rule length_filter_le)
  with mdm_loop_expired [OF assms, of mdm] show ?thesis unfolding distrib_right mult_1 by linarith
qed

section \<open>Witnesses\<close>

definition old_pool :: MissedDataManager where
  "old_pool = \<lparr>missedDataPool = [\<lparr>md_ts = 1, md_fromPulse = 10, md_toPulse = 20\<rparr>, \<lparr>md_ts = 2, md_fromPulse = 20, md_toPulse = 30\<rparr>,
     \<lparr>md_ts = 95, md_fromPulse = 30, md_toPulse = 40\<rparr>, \<lparr>md_ts = 3, md_fromPulse = 40, md_toPulse = 50\<rparr>],
     mdm_ttl = 50, mdm_cleanPeriod = 5\<rparr>"

text \<open>One pass over three expired entries and a live one: an expired entry survives.\<close>

lemma one_pass_leaves_expired:
  "missedDataPool (deleteExpired (\<lambda>_. 100) old_pool) =
     [\<lparr>md_ts = 3, md_fromPulse = 40, md_toPulse = 50\<rparr>, \<lparr>md_ts = 95, md_fromPulse = 30, md_toPulse = 40\<rparr>]"
  by (simp add: deleteExpired_def old_pool_def isExpired_def Since_def numeral_nat)

theorem deleteExpired_keeps_live_witness:
  "mset (missedDataPool (deleteExpired (\<lambda>_. 100) old_pool)) \<subseteq># mset (missedDataPool old_pool)"
  using deleteExpired_keeps_live [of "\<lambda>_. 100" old_pool] by (simp add: mono_def)

theorem ticks_clear_expired_witness:
  "length (filter (\<lambda>m. isExpired 50 100 (md_ts m))
     (missedDataPool (mdm_loop (map TickerC (replicate 4 (\<lambda>_. 100))) old_pool))) = 0"
proof -
  have "mdm_ttl old_pool = 50" "length (missedDataPool old_pool) = 4" by (simp_all add: old_pool_def)
  with ticks_clear_expired [of "replicate 4 (\<lambda>_. 100)" 100 old_pool]
  have "5 * length (filter (\<lambda>m. isExpired 50 100 (md_ts m))
     (missedDataPool (mdm_loop (map TickerC (replicate 4 (\<lambda>_. 100))) old_pool))) \<le> 4" by simp
  then show ?thesis by linarith
qed

theorem Add_once_witness:
  "fst (Add 7 12 18 old_pool) = (\<not> reloaded 12 18 old_pool) \<and> fst (Add 7 12 18 (snd (Add 7 12 18 old_pool))) = False"
  using Add_once [of 7 12 18 old_pool] by auto

end
