(* ===== verification/Database.thy ===== *)
theory Database
  imports Types_Models
begin

text \<open>The database as the storage sees it.  The tables, the primary and foreign keys and the meaning of a query are
  those of \<open>migrations/migrations.go\<close> and of SQL; the library \<open>gorm\<close> and the server behind it are a parameter, the
  record \<open>gorm\<close> of the calls the storage makes.  The locale \<open>gorm_db\<close> states their documented behaviour: a call may
  always fail, a call that fails or only reads leaves the tables alone, and a call that succeeds has the effect of its
  SQL statement.  \<open>healthy_db\<close> adds that a statement which violates no constraint succeeds.  Both are interpreted on
  a relational implementation.\<close>

section \<open>Tables\<close>

record database =
  db_pulses :: "models_Pulse set"
  db_jet_drops :: "models_JetDrop set"
  db_records :: "models_Record set"

definition jd_key :: "models_JetDrop \<Rightarrow> string \<times> int" where
  "jd_key j = (mj_JetID j, mj_PulseNumber j)"

definition rec_jd_key :: "models_Record \<Rightarrow> string \<times> int" where
  "rec_jd_key r = (mr_JetID r, mr_PulseNumber r)"

text \<open>The constraints the migration declares: the three primary keys, and the foreign keys from jet drops to pulses
  and from records to jet drops.\<close>

definition constraints :: "database \<Rightarrow> bool" where
  "constraints t \<longleftrightarrow> finite (db_pulses t) \<and> finite (db_jet_drops t) \<and> finite (db_records t) \<and>
     inj_on mp_PulseNumber (db_pulses t) \<and> inj_on jd_key (db_jet_drops t) \<and> inj_on mr_Reference (db_records t) \<and>
     mj_PulseNumber ` db_jet_drops t \<subseteq> mp_PulseNumber ` db_pulses t \<and>
     rec_jd_key ` db_records t \<subseteq> jd_key ` db_jet_drops t"

section \<open>Queries\<close>

text \<open>A query under construction: the conjunction of its conditions, the order, limit and offset, negative when
  absent.\<close>

record 'r query =
  q_where :: "'r \<Rightarrow> bool"
  q_le :: "'r \<Rightarrow> 'r \<Rightarrow> bool"
  q_limit :: int
  q_offset :: int

definition Model :: "'r query" where
  "Model = \<lparr>q_where = (\<lambda>_. True), q_le = (\<lambda>_ _. True), q_limit = -1, q_offset = -1\<rparr>"

definition Where :: "('r \<Rightarrow> bool) \<Rightarrow> 'r query \<Rightarrow> 'r query" where
  "Where P q = q\<lparr>q_where := (\<lambda>r. q_where q r \<and> P r)\<rparr>"

text \<open>A further \<open>Order\<close> decides between rows the earlier ones leave equal.\<close>

definition Order :: "('r \<Rightarrow> 'r \<Rightarrow> bool) \<Rightarrow> 'r query \<Rightarrow> 'r query" where
  "Order le q = q\<lparr>q_le := (\<lambda>a b. q_le q a b \<and> (q_le q b a \<longrightarrow> le a b))\<rparr>"

definition Limit :: "int \<Rightarrow> 'r query \<Rightarrow> 'r query" where
  "Limit n q = q\<lparr>q_limit := n\<rparr>"

definition Offset :: "int \<Rightarrow> 'r query \<Rightarrow> 'r query" where
  "Offset n q = q\<lparr>q_offset := n\<rparr>"

definition page :: "int \<Rightarrow> int \<Rightarrow> 'a list \<Rightarrow> 'a list" where
  "page limit offset rows =
     (let rest = (if offset \<ge> 0 then drop (nat offset) rows else rows)
      in if limit \<ge> 0 then take (nat limit) rest else rest)"

text \<open>The answers SQL allows for a query on a table: some ordering of the selected rows that respects the order of the
  query, cut to the page.\<close>

definition selects :: "'r query \<Rightarrow> 'r set \<Rightarrow> 'r list \<Rightarrow> bool" where
  "selects q tab rows \<longleftrightarrow> (\<exists>all. distinct all \<and> set all = {r \<in> tab. q_where q r} \<and> sorted_wrt (q_le q) all \<and>
     rows = page (q_limit q) (q_offset q) all)"

lemmas query_simps = Model_def Where_def Order_def Limit_def Offset_def

lemma selects_where: "selects q tab rows \<Longrightarrow> r \<in> set rows \<Longrightarrow> r \<in> tab \<and> q_where q r"
  by (auto simp: selects_def page_def Let_def split: if_splits dest: in_set_takeD in_set_dropD)

lemma selects_distinct: "selects q tab rows \<Longrightarrow> distinct rows"
  by (auto simp: selects_def page_def Let_def)

lemma sorted_wrt_page: "sorted_wrt R all \<Longrightarrow> sorted_wrt R (page l off all)"
  by (auto simp: page_def Let_def sorted_wrt_take sorted_wrt_drop)

lemma selects_sorted: "selects q tab rows \<Longrightarrow> sorted_wrt (q_le q) rows"
  by (auto simp: selects_def sorted_wrt_page)

lemma selects_all:
  "selects q tab rows \<Longrightarrow> q_limit q < 0 \<Longrightarrow> q_offset q < 0 \<Longrightarrow> set rows = {r \<in> tab. q_where q r}"
  by (auto simp: selects_def page_def)

section \<open>Operations that may fail\<close>

type_synonym ('db, 'a) dbop = "'db \<Rightarrow> (error + 'a) \<times> 'db"

definition return_db :: "'a \<Rightarrow> ('db, 'a) dbop" where
  "return_db a db = (Inr a, db)"

definition fail_db :: "error \<Rightarrow> ('db, 'a) dbop" where
  "fail_db e db = (Inl e, db)"

definition bind_db :: "('db, 'a) dbop \<Rightarrow> ('a \<Rightarrow> ('db, 'b) dbop) \<Rightarrow> ('db, 'b) dbop" where
  "bind_db m f db = (case m db of (Inl e, db') \<Rightarrow> (Inl e, db') | (Inr a, db') \<Rightarrow> f a db')"

text \<open>\<open>if err := ...; err != nil { return errors.Wrap(err, msg) }\<close>\<close>

definition wrap_db :: "string \<Rightarrow> ('db, 'a) dbop \<Rightarrow> ('db, 'a) dbop" where
  "wrap_db msg m db = (case m db of (Inl e, db') \<Rightarrow> (Inl (Wrap e msg), db') | (Inr a, db') \<Rightarrow> (Inr a, db'))"

lemma bind_db_Inr:
  "bind_db m f db = (Inr b, db') \<longleftrightarrow> (\<exists>a db1. m db = (Inr a, db1) \<and> f a db1 = (Inr b, db'))"
  by (auto simp: bind_db_def split: prod.splits sum.splits)

lemma bind_db_Inl:
  "bind_db m f db = (Inl e, db') \<longleftrightarrow>
     m db = (Inl e, db') \<or> (\<exists>a db1. m db = (Inr a, db1) \<and> f a db1 = (Inl e, db'))"
  by (auto simp: bind_db_def split: prod.splits sum.splits)

lemma wrap_db_Inr: "wrap_db msg m db = (Inr a, db') \<longleftrightarrow> m db = (Inr a, db')"
  by (auto simp: wrap_db_def split: prod.splits sum.splits)

lemma wrap_db_Inl: "wrap_db msg m db = (Inl e, db') \<longleftrightarrow> (\<exists>e0. m db = (Inl e0, db') \<and> e = Wrap e0 msg)"
  by (auto simp: wrap_db_def split: prod.splits sum.splits)

lemma return_db_iff [simp]: "return_db a db = (r, db') \<longleftrightarrow> r = Inr a \<and> db' = db"
  by (auto simp: return_db_def)

lemma fail_db_iff [simp]: "fail_db e db = (r, db') \<longleftrightarrow> r = Inl e \<and> db' = db"
  by (auto simp: fail_db_def)

lemmas dbop_iffs = bind_db_Inr bind_db_Inl wrap_db_Inr wrap_db_Inl

section \<open>The calls to gorm\<close>

text \<open>\<open>UpdatePulse n u\<close> is \<open>Model(&Pulse{PulseNumber: n}).Update(u)\<close>: it writes the non-zero fields of \<open>u\<close> and returns the
  number of rows.  \<open>UpdatePulseAmounts\<close> is the \<open>UpdateColumns\<close> of the two counters.  A model whose primary key is the
  zero value puts no condition on the update.\<close>

record 'db gorm =
  Transaction :: "('db, unit) dbop \<Rightarrow> ('db, unit) dbop"
  CreateJetDrop :: "models_JetDrop \<Rightarrow> ('db, unit) dbop"
  SaveJetDrop :: "models_JetDrop \<Rightarrow> ('db, unit) dbop"
  SaveRecord :: "models_Record \<Rightarrow> ('db, unit) dbop"
  UpdatePulseAmounts :: "int \<Rightarrow> int \<Rightarrow> int \<Rightarrow> ('db, unit) dbop"
  CreatePulse :: "models_Pulse \<Rightarrow> ('db, unit) dbop"
  UpdatePulse :: "int \<Rightarrow> models_Pulse \<Rightarrow> ('db, int) dbop"
  FirstPulse :: "models_Pulse query \<Rightarrow> ('db, models_Pulse) dbop"
  FirstRecord :: "models_Record query \<Rightarrow> ('db, models_Record) dbop"
  FindPulses :: "models_Pulse query \<Rightarrow> ('db, models_Pulse list) dbop"
  FindRecords :: "models_Record query \<Rightarrow> ('db, models_Record list) dbop"
  FindJetDrops :: "models_JetDrop query \<Rightarrow> ('db, models_JetDrop list) dbop"
  FindJetDrop :: "models_JetDrop query \<Rightarrow> ('db, models_JetDrop) dbop"
  CountPulses :: "models_Pulse query \<Rightarrow> ('db, int) dbop"
  CountRecords :: "models_Record query \<Rightarrow> ('db, int) dbop"
  CountJetDrops :: "models_JetDrop query \<Rightarrow> ('db, int) dbop"
  FindPulseJoin :: "(models_Pulse \<times> models_Record) query \<Rightarrow> ('db, models_Pulse) dbop"
  CountJoin :: "(models_Pulse \<times> models_Record) query \<Rightarrow> ('db, int) dbop"

section \<open>The effect of the statements\<close>

definition keyed :: "int \<Rightarrow> models_Pulse \<Rightarrow> bool" where
  "keyed n p \<longleftrightarrow> n = 0 \<or> mp_PulseNumber p = n"

definition map_pulses :: "(models_Pulse \<Rightarrow> bool) \<Rightarrow> (models_Pulse \<Rightarrow> models_Pulse) \<Rightarrow> database \<Rightarrow> database" where
  "map_pulses P f t = t\<lparr>db_pulses := (\<lambda>p. if P p then f p else p) ` db_pulses t\<rparr>"

definition put_jet_drop :: "models_JetDrop \<Rightarrow> database \<Rightarrow> database" where
  "put_jet_drop j t = t\<lparr>db_jet_drops := insert j {j' \<in> db_jet_drops t. jd_key j' \<noteq> jd_key j}\<rparr>"

definition put_record :: "models_Record \<Rightarrow> database \<Rightarrow> database" where
  "put_record r t = t\<lparr>db_records := insert r {r' \<in> db_records t. mr_Reference r' \<noteq> mr_Reference r}\<rparr>"

definition add_amounts :: "int \<Rightarrow> int \<Rightarrow> models_Pulse \<Rightarrow> models_Pulse" where
  "add_amounts jds recs p =
     p\<lparr>mp_JetDropAmount := mp_JetDropAmount p + jds, mp_RecordAmount := mp_RecordAmount p + recs\<rparr>"

text \<open>\<open>INSERT ... ON CONFLICT (pulse_number) DO UPDATE SET prev_pulse_number, next_pulse_number, timestamp\<close>\<close>

definition excluded :: "models_Pulse \<Rightarrow> models_Pulse \<Rightarrow> models_Pulse" where
  "excluded new old = old\<lparr>mp_PrevPulseNumber := mp_PrevPulseNumber new,
     mp_NextPulseNumber := mp_NextPulseNumber new, mp_Timestamp := mp_Timestamp new\<rparr>"

definition upsert_pulse :: "models_Pulse \<Rightarrow> database \<Rightarrow> database" where
  "upsert_pulse p t = (if mp_PulseNumber p \<in> mp_PulseNumber ` db_pulses t
     then map_pulses (\<lambda>q. mp_PulseNumber q = mp_PulseNumber p) (excluded p) t
     else t\<lparr>db_pulses := insert p (db_pulses t)\<rparr>)"

text \<open>\<open>Update\<close> with a structure writes its non-zero fields.\<close>

definition nonzero :: "int \<Rightarrow> int \<Rightarrow> int" where
  "nonzero new old = (if new = 0 then old else new)"

definition update_fields :: "models_Pulse \<Rightarrow> models_Pulse \<Rightarrow> models_Pulse" where
  "update_fields u p = p\<lparr>mp_PulseNumber := nonzero (mp_PulseNumber u) (mp_PulseNumber p),
     mp_PrevPulseNumber := nonzero (mp_PrevPulseNumber u) (mp_PrevPulseNumber p),
     mp_NextPulseNumber := nonzero (mp_NextPulseNumber u) (mp_NextPulseNumber p),
     mp_IsComplete := mp_IsComplete u \<or> mp_IsComplete p, mp_IsSequential := mp_IsSequential u \<or> mp_IsSequential p,
     mp_Timestamp := nonzero (mp_Timestamp u) (mp_Timestamp p),
     mp_JetDropAmount := nonzero (mp_JetDropAmount u) (mp_JetDropAmount p),
     mp_RecordAmount := nonzero (mp_RecordAmount u) (mp_RecordAmount p)\<rparr>"

text \<open>The rows of the join of pulses and records on the pulse number.\<close>

definition joined :: "database \<Rightarrow> (models_Pulse \<times> models_Record) set" where
  "joined t = {(p, r). p \<in> db_pulses t \<and> r \<in> db_records t \<and> mr_PulseNumber r = mp_PulseNumber p}"

text \<open>\<open>First\<close>: the selected row with the least primary key, here in the order of \<open>pk\<close>.\<close>

definition is_first :: "('r \<Rightarrow> 'k) \<Rightarrow> ('k \<Rightarrow> 'k \<Rightarrow> bool) \<Rightarrow> 'r query \<Rightarrow> 'r set \<Rightarrow> 'r \<Rightarrow> bool" where
  "is_first pk le q tab r \<longleftrightarrow> r \<in> tab \<and> q_where q r \<and> (\<forall>r' \<in> tab. q_where q r' \<longrightarrow> le (pk r) (pk r'))"

text \<open>An order a server can sort by: total and transitive.\<close>

definition order_ok :: "('r \<Rightarrow> 'r \<Rightarrow> bool) \<Rightarrow> bool" where
  "order_ok le \<longleftrightarrow> (\<forall>a b. le a b \<or> le b a) \<and> (\<forall>a b c. le a b \<longrightarrow> le b c \<longrightarrow> le a c)"

lemma order_ok_key [intro!]: "order_ok (\<lambda>a b. f a \<le> (f b :: 'k :: linorder))" "order_ok (\<lambda>a b. f b \<le> (f a :: 'k :: linorder))"
  by (auto simp: order_ok_def)

lemma order_ok_Model [simp]: "order_ok (q_le Model)"
  by (simp add: order_ok_def Model_def)

lemma order_ok_Where [simp]: "order_ok (q_le (Where P q)) = order_ok (q_le q)"
  by (simp add: Where_def)

lemma order_ok_Limit [simp]: "order_ok (q_le (Limit n q)) = order_ok (q_le q)" "order_ok (q_le (Offset n q)) = order_ok (q_le q)"
  by (simp_all add: Limit_def Offset_def)

lemma order_ok_Order: "order_ok (q_le q) \<Longrightarrow> order_ok le \<Longrightarrow> order_ok (q_le (Order le q))"
  unfolding order_ok_def Order_def by simp blast

section \<open>Documented behaviour\<close>

text \<open>\<open>writes T op eff\<close>: if the call succeeds, the tables and the result are as \<open>eff\<close> says; if it fails they are
  unchanged.  \<open>answers T op ok none\<close>: the call changes nothing, an answer satisfies \<open>ok\<close>, and a "record not found"
  means \<open>none\<close>.\<close>

definition writes :: "('db \<Rightarrow> database) \<Rightarrow> ('db, 'a) dbop \<Rightarrow> (database \<Rightarrow> 'a \<Rightarrow> database \<Rightarrow> bool) \<Rightarrow> bool" where
  "writes T op eff \<longleftrightarrow> (\<forall>db db' e. op db = (Inl e, db') \<longrightarrow> T db' = T db) \<and>
     (\<forall>db db' a. op db = (Inr a, db') \<longrightarrow> eff (T db) a (T db'))"

definition answers :: "('db \<Rightarrow> database) \<Rightarrow> ('db, 'a) dbop \<Rightarrow> (database \<Rightarrow> 'a \<Rightarrow> bool) \<Rightarrow> (database \<Rightarrow> bool) \<Rightarrow> bool" where
  "answers T op ok none \<longleftrightarrow> (\<forall>db. T (snd (op db)) = T db) \<and>
     (\<forall>db db' a. op db = (Inr a, db') \<longrightarrow> ok (T db) a) \<and>
     (\<forall>db db'. op db = (Inl RecordNotFound, db') \<longrightarrow> none (T db))"

definition none_of :: "'r query \<Rightarrow> 'r set \<Rightarrow> bool" where
  "none_of q tab \<longleftrightarrow> (\<forall>r \<in> tab. \<not> q_where q r)"

locale gorm_db =
  fixes G :: "'db gorm" and T :: "'db \<Rightarrow> database"
  assumes transaction_ok: "Transaction G f db = (Inr u, db') \<Longrightarrow>
      \<exists>db1 db2. T db1 = T db \<and> f db1 = (Inr u, db2) \<and> T db' = T db2"
    and transaction_rollback: "Transaction G f db = (Inl e, db') \<Longrightarrow> T db' = T db"
    and create_jet_drop: "writes T (CreateJetDrop G j) (\<lambda>t _ t'. jd_key j \<notin> jd_key ` db_jet_drops t \<and>
      mj_PulseNumber j \<in> mp_PulseNumber ` db_pulses t \<and> t' = put_jet_drop j t)"
    and save_jet_drop: "writes T (SaveJetDrop G j) (\<lambda>t _ t'. mj_PulseNumber j \<in> mp_PulseNumber ` db_pulses t \<and>
      t' = put_jet_drop j t)"
    and save_record: "writes T (SaveRecord G r) (\<lambda>t _ t'. rec_jd_key r \<in> jd_key ` db_jet_drops t \<and> t' = put_record r t)"
    and update_amounts: "writes T (UpdatePulseAmounts G n jds recs) (\<lambda>t _ t'. t' = map_pulses (keyed n) (add_amounts jds recs) t)"
    and create_pulse: "writes T (CreatePulse G p) (\<lambda>t _ t'. mp_PulseNumber p \<noteq> 0 \<and> t' = upsert_pulse p t)"
    and update_pulse: "mp_PulseNumber up = 0 \<Longrightarrow> writes T (UpdatePulse G n up) (\<lambda>t k t'. t' = map_pulses (keyed n) (update_fields up) t \<and>
      k = int (card {p \<in> db_pulses t. keyed n p}))"
    and first_pulse: "answers T (FirstPulse G pq) (\<lambda>t. is_first mp_PulseNumber (\<le>) pq (db_pulses t)) (\<lambda>t. none_of pq (db_pulses t))"
    and first_record: "answers T (FirstRecord G rq) (\<lambda>t r. r \<in> db_records t \<and> q_where rq r) (\<lambda>t. none_of rq (db_records t))"
    and find_pulses: "order_ok (q_le pq) \<Longrightarrow> answers T (FindPulses G pq) (\<lambda>t. selects pq (db_pulses t)) (\<lambda>t. none_of pq (db_pulses t))"
    and find_records: "order_ok (q_le rq) \<Longrightarrow> answers T (FindRecords G rq) (\<lambda>t. selects rq (db_records t)) (\<lambda>t. none_of rq (db_records t))"
    and find_jet_drops: "order_ok (q_le jq) \<Longrightarrow>
      answers T (FindJetDrops G jq) (\<lambda>t. selects jq (db_jet_drops t)) (\<lambda>t. none_of jq (db_jet_drops t))"
    and find_jet_drop: "answers T (FindJetDrop G jq) (\<lambda>t j. j \<in> db_jet_drops t \<and> q_where jq j) (\<lambda>t. none_of jq (db_jet_drops t))"
    and count_pulses: "answers T (CountPulses G pq) (\<lambda>t n. n = int (card {p \<in> db_pulses t. q_where pq p})) (\<lambda>_. True)"
    and count_records: "answers T (CountRecords G rq) (\<lambda>t n. n = int (card {r \<in> db_records t. q_where rq r})) (\<lambda>_. True)"
    and count_jet_drops: "answers T (CountJetDrops G jq) (\<lambda>t n. n = int (card {j \<in> db_jet_drops t. q_where jq j})) (\<lambda>_. True)"
    and find_pulse_join: "answers T (FindPulseJoin G xq) (\<lambda>t p. \<exists>r. (p, r) \<in> joined t \<and> q_where xq (p, r)) (\<lambda>t. none_of xq (joined t))"
    and count_join: "answers T (CountJoin G xq) (\<lambda>t n. n = int (card {x \<in> joined t. q_where xq x})) (\<lambda>_. True)"

text \<open>A server that is up: a statement fails only for a constraint, a value that does not fit its column, or, with
  \<open>First\<close> and \<open>Find\<close> into a structure, because there is no row.  A zero primary key is not written by an insert.\<close>

locale healthy_db = gorm_db +
  assumes transaction_fails: "Transaction G f db = (Inl e, db') \<Longrightarrow> \<exists>db1 db2. T db1 = T db \<and> f db1 = (Inl e, db2)"
    and create_jet_drop_fails: "CreateJetDrop G j db = (Inl e, db') \<Longrightarrow> mj_PulseNumber j = 0 \<or>
      jd_key j \<in> jd_key ` db_jet_drops (T db) \<or> mj_PulseNumber j \<notin> mp_PulseNumber ` db_pulses (T db)"
    and save_jet_drop_fails: "SaveJetDrop G j db = (Inl e, db') \<Longrightarrow> mj_PulseNumber j = 0 \<or>
      mj_PulseNumber j \<notin> mp_PulseNumber ` db_pulses (T db)"
    and save_record_fails: "SaveRecord G r db = (Inl e, db') \<Longrightarrow> mr_Reference r = [] \<or>
      rec_jd_key r \<notin> jd_key ` db_jet_drops (T db)"
    and update_amounts_fails: "UpdatePulseAmounts G n jds recs db = (Inl e, db') \<Longrightarrow> \<exists>p \<in> db_pulses (T db). keyed n p \<and>
      \<not> (int64_range (mp_JetDropAmount p + jds) \<and> int64_range (mp_RecordAmount p + recs))"
    and create_pulse_fails: "CreatePulse G p db = (Inl e, db') \<Longrightarrow> mp_PulseNumber p = 0"
    and update_pulse_ok: "mp_PulseNumber up = 0 \<Longrightarrow> \<exists>k db'. UpdatePulse G n up db = (Inr k, db')"
    and first_pulse_fails: "FirstPulse G pq db = (Inl e, db') \<Longrightarrow> e = RecordNotFound"
    and find_pulses_ok: "\<exists>ps db'. FindPulses G pq db = (Inr ps, db')"
    and count_pulses_ok: "\<exists>n db'. CountPulses G pq db = (Inr n, db')"

section \<open>A relational implementation\<close>

text \<open>The tables as lists; a statement checks its constraints and changes them, a query filters and sorts.\<close>

record tables =
  t_pulses :: "models_Pulse list"
  t_jet_drops :: "models_JetDrop list"
  t_records :: "models_Record list"

definition tables_db :: "tables \<Rightarrow> database" where
  "tables_db s = \<lparr>db_pulses = set (t_pulses s), db_jet_drops = set (t_jet_drops s), db_records = set (t_records s)\<rparr>"

fun insort_le :: "('r \<Rightarrow> 'r \<Rightarrow> bool) \<Rightarrow> 'r \<Rightarrow> 'r list \<Rightarrow> 'r list" where
  "insort_le le x [] = [x]"
| "insort_le le x (y # ys) = (if le x y then x # y # ys else y # insort_le le x ys)"

definition sort_le :: "('r \<Rightarrow> 'r \<Rightarrow> bool) \<Rightarrow> 'r list \<Rightarrow> 'r list" where
  "sort_le le xs = foldr (insort_le le) xs []"

definition rel_find :: "'r query \<Rightarrow> 'r list \<Rightarrow> 'r list" where
  "rel_find q rows = page (q_limit q) (q_offset q) (sort_le (q_le q) (remdups (filter (q_where q) rows)))"

definition rel_first :: "('r \<Rightarrow> 'r \<Rightarrow> bool) \<Rightarrow> 'r query \<Rightarrow> 'r list \<Rightarrow> error + 'r" where
  "rel_first le q rows = (case sort_le le (filter (q_where q) rows) of [] \<Rightarrow> Inl RecordNotFound | r # _ \<Rightarrow> Inr r)"

definition rel_count :: "'r query \<Rightarrow> 'r list \<Rightarrow> int" where
  "rel_count q rows = int (length (remdups (filter (q_where q) rows)))"

definition rel_map :: "int \<Rightarrow> (models_Pulse \<Rightarrow> models_Pulse) \<Rightarrow> tables \<Rightarrow> tables" where
  "rel_map n f s = s\<lparr>t_pulses := map (\<lambda>p. if keyed n p then f p else p) (t_pulses s)\<rparr>"

definition rel_join :: "tables \<Rightarrow> (models_Pulse \<times> models_Record) list" where
  "rel_join s = [(p, r). p \<leftarrow> t_pulses s, r \<leftarrow> t_records s, mr_PulseNumber r = mp_PulseNumber p]"

definition rel_put_jet_drop :: "models_JetDrop \<Rightarrow> tables \<Rightarrow> tables" where
  "rel_put_jet_drop j s = s\<lparr>t_jet_drops := j # filter (\<lambda>j'. jd_key j' \<noteq> jd_key j) (t_jet_drops s)\<rparr>"

definition rel_put_record :: "models_Record \<Rightarrow> tables \<Rightarrow> tables" where
  "rel_put_record r s = s\<lparr>t_records := r # filter (\<lambda>r'. mr_Reference r' \<noteq> mr_Reference r) (t_records s)\<rparr>"

definition rel_upsert :: "models_Pulse \<Rightarrow> tables \<Rightarrow> tables" where
  "rel_upsert p s = (if mp_PulseNumber p \<in> mp_PulseNumber ` set (t_pulses s)
     then s\<lparr>t_pulses := map (\<lambda>q. if mp_PulseNumber q = mp_PulseNumber p then excluded p q else q) (t_pulses s)\<rparr>
     else s\<lparr>t_pulses := p # t_pulses s\<rparr>)"

definition rel_gorm :: "tables gorm" where
  "rel_gorm = \<lparr>
     Transaction = (\<lambda>f s. case f s of (Inl e, _) \<Rightarrow> (Inl e, s) | (Inr u, s') \<Rightarrow> (Inr u, s')),
     CreateJetDrop = (\<lambda>j s. if mj_PulseNumber j = 0 \<or> jd_key j \<in> jd_key ` set (t_jet_drops s) \<or>
         mj_PulseNumber j \<notin> mp_PulseNumber ` set (t_pulses s)
       then (Inl (Err ''constraint''), s) else (Inr (), rel_put_jet_drop j s)),
     SaveJetDrop = (\<lambda>j s. if mj_PulseNumber j = 0 \<or> mj_PulseNumber j \<notin> mp_PulseNumber ` set (t_pulses s)
       then (Inl (Err ''constraint''), s) else (Inr (), rel_put_jet_drop j s)),
     SaveRecord = (\<lambda>r s. if mr_Reference r = [] \<or> rec_jd_key r \<notin> jd_key ` set (t_jet_drops s)
       then (Inl (Err ''constraint''), s) else (Inr (), rel_put_record r s)),
     UpdatePulseAmounts = (\<lambda>n jds recs s. (Inr (), rel_map n (add_amounts jds recs) s)),
     CreatePulse = (\<lambda>p s. if mp_PulseNumber p = 0 then (Inl (Err ''constraint''), s) else (Inr (), rel_upsert p s)),
     UpdatePulse = (\<lambda>n u s. (Inr (rel_count (Where (keyed n) Model) (t_pulses s)), rel_map n (update_fields u) s)),
     FirstPulse = (\<lambda>q s. (rel_first (\<lambda>a b. mp_PulseNumber a \<le> mp_PulseNumber b) q (t_pulses s), s)),
     FirstRecord = (\<lambda>q s. (rel_first (\<lambda>_ _. True) q (t_records s), s)),
     FindPulses = (\<lambda>q s. (Inr (rel_find q (t_pulses s)), s)),
     FindRecords = (\<lambda>q s. (Inr (rel_find q (t_records s)), s)),
     FindJetDrops = (\<lambda>q s. (Inr (rel_find q (t_jet_drops s)), s)),
     FindJetDrop = (\<lambda>q s. (rel_first (\<lambda>_ _. True) q (t_jet_drops s), s)),
     CountPulses = (\<lambda>q s. (Inr (rel_count q (t_pulses s)), s)),
     CountRecords = (\<lambda>q s. (Inr (rel_count q (t_records s)), s)),
     CountJetDrops = (\<lambda>q s. (Inr (rel_count q (t_jet_drops s)), s)),
     FindPulseJoin = (\<lambda>q s. (map_sum id fst (rel_first (\<lambda>_ _. True) q (rel_join s)), s)),
     CountJoin = (\<lambda>q s. (Inr (rel_count q (rel_join s)), s))\<rparr>"

lemma set_insort_le [simp]: "set (insort_le le x xs) = insert x (set xs)"
  by (induction xs) auto

lemma set_sort_le [simp]: "set (sort_le le xs) = set xs"
  by (induction xs) (simp_all add: sort_le_def)

lemma mset_insort_le: "mset (insort_le le x xs) = add_mset x (mset xs)"
  by (induction xs) simp_all

lemma mset_sort_le: "mset (sort_le le xs) = mset xs"
  by (induction xs) (simp_all add: sort_le_def mset_insort_le)

lemma distinct_sort_le [simp]: "distinct (sort_le le xs) = distinct xs"
  by (metis mset_eq_imp_distinct_iff mset_sort_le)

lemma sorted_insort_le: "order_ok le \<Longrightarrow> sorted_wrt le xs \<Longrightarrow> sorted_wrt le (insort_le le x xs)"
proof (induction xs)
  case (Cons y ys)
  show ?case
  proof (cases "le x y")
    case True
    then have "le x z" if "z \<in> set ys" for z using that Cons.prems unfolding order_ok_def by auto
    with True Cons.prems show ?thesis by simp
  next
    case False
    then have "le y x" using Cons.prems unfolding order_ok_def by blast
    with False Cons show ?thesis by simp
  qed
qed simp

lemma sorted_sort_le: "order_ok le \<Longrightarrow> sorted_wrt le (sort_le le xs)"
  by (induction xs) (simp_all add: sort_le_def sorted_insort_le)

lemma selects_rel_find: "order_ok (q_le q) \<Longrightarrow> selects q (set rows) (rel_find q rows)"
  unfolding selects_def rel_find_def
  by (intro exI [of _ "sort_le (q_le q) (remdups (filter (q_where q) rows))"]) (auto simp: sorted_sort_le)

lemma rel_first_Inr: "rel_first le q rows = Inr r \<Longrightarrow> order_ok le \<Longrightarrow>
  r \<in> set rows \<and> q_where q r \<and> (\<forall>r' \<in> set rows. q_where q r' \<longrightarrow> le r r')"
proof -
  assume f: "rel_first le q rows = Inr r" and le: "order_ok le"
  then obtain rs where rs: "sort_le le (filter (q_where q) rows) = r # rs"
    by (auto simp: rel_first_def split: list.splits)
  have s: "set (r # rs) = {x \<in> set rows. q_where q x}" using rs set_sort_le [of le "filter (q_where q) rows"] by auto
  have "\<forall>x \<in> set rs. le r x" using sorted_sort_le [OF le, of "filter (q_where q) rows"] rs by simp
  moreover have "le r r" using le by (auto simp: order_ok_def)
  ultimately show ?thesis using s by auto
qed

lemma rel_first_Inl: "rel_first le q rows = Inl e \<Longrightarrow> e = RecordNotFound \<and> none_of q (set rows)"
proof -
  assume "rel_first le q rows = Inl e"
  then have "sort_le le (filter (q_where q) rows) = []" "e = RecordNotFound"
    by (auto simp: rel_first_def split: list.splits)
  then show ?thesis by (metis (no_types, lifting) empty_iff filter_empty_conv list.set(1) none_of_def set_empty set_sort_le)
qed

lemma rel_count_card: "rel_count q rows = int (card {r \<in> set rows. q_where q r})"
  by (simp add: rel_count_def length_remdups_card_conv)

lemma set_rel_join: "set (rel_join s) = joined (tables_db s)"
  by (auto simp: rel_join_def joined_def tables_db_def)

lemma order_ok_True [simp]: "order_ok (\<lambda>_ _. True)"
  by (simp add: order_ok_def)

lemma map_sum_Inr: "map_sum id f x = Inr b \<longleftrightarrow> (\<exists>a. x = Inr a \<and> b = f a)"
  by (cases x) auto

lemma map_sum_Inl: "map_sum id f x = Inl b \<longleftrightarrow> x = Inl b"
  by (cases x) auto

lemma rel_first_join: "rel_first (\<lambda>_ _. True) q (rel_join s) = Inr (p, r) \<Longrightarrow> (p, r) \<in> joined (tables_db s) \<and> q_where q (p, r)"
  using rel_first_Inr [of "\<lambda>_ _. True" q "rel_join s"] by (simp add: set_rel_join)

lemmas rel_simps = rel_gorm_def tables_db_def writes_def answers_def is_first_def

interpretation rel: healthy_db rel_gorm tables_db
proof
  show "Transaction rel_gorm f db = (Inr u, db') \<Longrightarrow>
      \<exists>db1 db2. tables_db db1 = tables_db db \<and> f db1 = (Inr u, db2) \<and> tables_db db' = tables_db db2" for f u db db'
    by (auto simp: rel_gorm_def split: prod.splits sum.splits)
qed (auto simp: rel_simps put_jet_drop_def rel_put_jet_drop_def put_record_def rel_put_record_def rel_map_def map_pulses_def
    upsert_pulse_def rel_upsert_def rel_count_card Where_def Model_def selects_rel_find map_sum_Inr map_sum_Inl
    set_rel_join [unfolded tables_db_def] order_ok_key
    dest: rel_first_Inr rel_first_Inl rel_first_join [unfolded tables_db_def] split: prod.splits sum.splits if_splits)

end
