(* ===== verification/Storage.thy ===== *)
theory Storage
  imports Database "HOL-Library.List_Lexorder" "HOL-Library.Char_ord"
begin

text \<open>\<open>etl/storage/storage.go\<close> and \<open>etl/storage/helper.go\<close>: every method of \<open>Storage\<close> over the parameter \<open>gorm\<close>, in the
  order of the file.  Timers are left out.  The properties are proved from the laws of \<open>gorm_db\<close>, and of
  \<open>healthy_db\<close> where a call has to succeed: saving a jet drop is atomic and repeatable and counts every drop once, the
  columns a pulse gets from the controller survive a later save of the pulse, and the previous and next numbers of the
  pulses in an answer are those of pulses that are in the database.\<close>

section \<open>Writing\<close>

fun save_records :: "'db gorm \<Rightarrow> models_Record list \<Rightarrow> ('db, unit) dbop" where
  "save_records G [] = return_db ()"
| "save_records G (record # records) =
     bind_db (wrap_db ''error while saving record'' (SaveRecord G record)) (\<lambda>_. save_records G records)"

definition initJD :: "'db gorm \<Rightarrow> models_JetDrop \<Rightarrow> models_Record list \<Rightarrow> int \<Rightarrow> ('db, unit) dbop" where
  "initJD G jetDrop records pulseNumber = Transaction G
     (bind_db (wrap_db ''error while saving jetDrop'' (CreateJetDrop G jetDrop)) (\<lambda>_.
      bind_db (save_records G records) (\<lambda>_.
      wrap_db ''error to update pulse data'' (UpdatePulseAmounts G pulseNumber 1 (int (length records))))))"

definition updateJD :: "'db gorm \<Rightarrow> models_JetDrop \<Rightarrow> models_Record list \<Rightarrow> ('db, unit) dbop" where
  "updateJD G jetDrop records = Transaction G
     (bind_db (wrap_db ''error while saving jetDrop'' (SaveJetDrop G jetDrop)) (\<lambda>_. save_records G records))"

definition SaveJetDropData :: "'db gorm \<Rightarrow> models_JetDrop \<Rightarrow> models_Record list \<Rightarrow> int \<Rightarrow> ('db, unit) dbop" where
  "SaveJetDropData G jetDrop records pulseNumber db =
     (case initJD G jetDrop records pulseNumber db of
        (Inr u, db') \<Rightarrow> (Inr u, db')
      | (Inl err, db') \<Rightarrow>
          if Contains (Error err) ''error while saving jetDrop'' then updateJD G jetDrop records db'
          else (Inl err, db'))"

definition SavePulse :: "'db gorm \<Rightarrow> models_Pulse \<Rightarrow> ('db, unit) dbop" where
  "SavePulse G pulse = wrap_db ''error while saving pulse'' (CreatePulse G pulse)"

definition CompletePulse :: "'db gorm \<Rightarrow> int \<Rightarrow> ('db, unit) dbop" where
  "CompletePulse G pulseNumber = Transaction G
     (bind_db (wrap_db ''error while updating pulse completeness''
        (UpdatePulse G pulseNumber (emptyPulse\<lparr>mp_IsComplete := True\<rparr>))) (\<lambda>rowsAffected.
      if rowsAffected = 0
      then fail_db (Err (''try to complete not existing pulse with number '' @ Itoa pulseNumber))
      else if rowsAffected \<noteq> 1
      then fail_db (Err (''several rows were affected by update for pulse with number '' @ Itoa pulseNumber @
        '' to complete, it was not expected''))
      else return_db ()))"

definition SequencePulse :: "'db gorm \<Rightarrow> int \<Rightarrow> ('db, unit) dbop" where
  "SequencePulse G pulseNumber = Transaction G
     (bind_db (wrap_db ''error while updating pulse to sequential''
        (UpdatePulse G pulseNumber (emptyPulse\<lparr>mp_IsSequential := True\<rparr>))) (\<lambda>rowsAffected.
      if rowsAffected = 0
      then fail_db (Err (''try to sequence not existing pulse with number '' @ Itoa pulseNumber))
      else if rowsAffected \<noteq> 1
      then fail_db (Err (''several rows were affected by update for pulse with number '' @ Itoa pulseNumber @
        '' to sequential, it was not expected''))
      else return_db ()))"

section \<open>Building queries\<close>

definition GetRecord :: "'db gorm \<Rightarrow> bytes \<Rightarrow> ('db, models_Record) dbop" where
  "GetRecord G ref = FirstRecord G (Where (\<lambda>r. mr_Reference r = ref) Model)"

definition index_format :: error where
  "index_format = Err ''query parameter 'index' should have the '<pulse_number>:<order>' format''"

definition CheckIndex :: "string \<Rightarrow> error + (int \<times> int)" where
  "CheckIndex i =
     (let index = Split CHR '':'' i
      in if length index \<noteq> 2 then Inl index_format
         else case ParseInt (index ! 0) of
           None \<Rightarrow> Inl index_format
         | Some pulseNumber \<Rightarrow> (case ParseInt (index ! 1) of
             None \<Rightarrow> Inl index_format
           | Some order \<Rightarrow> Inr (pulseNumber, order)))"

text \<open>\<open>if x != nil { query = query.Where(..., *x) }\<close>\<close>

definition where_opt :: "('v \<Rightarrow> 'r \<Rightarrow> bool) \<Rightarrow> 'v option \<Rightarrow> 'r query \<Rightarrow> 'r query" where
  "where_opt P v query = (case v of None \<Rightarrow> query | Some x \<Rightarrow> Where (P x) query)"

definition filterByPulse :: "models_Record query \<Rightarrow> int option \<Rightarrow> int option \<Rightarrow> models_Record query" where
  "filterByPulse query pulseNumberLt pulseNumberGt =
     where_opt (\<lambda>n r. mr_PulseNumber r < n) pulseNumberLt
       (where_opt (\<lambda>n r. mr_PulseNumber r > n) pulseNumberGt query)"

text \<open>The column \<open>pulse_number\<close> is that of the pulses or of the jet drops.\<close>

definition filterByPulseNumber ::
  "('r \<Rightarrow> int) \<Rightarrow> 'r query \<Rightarrow> int option \<Rightarrow> int option \<Rightarrow> int option \<Rightarrow> int option \<Rightarrow> 'r query" where
  "filterByPulseNumber pulse_number query pulseNumberLte pulseNumberLt pulseNumberGte pulseNumberGt =
     where_opt (\<lambda>n r. pulse_number r > n) pulseNumberGt
       (where_opt (\<lambda>n r. pulse_number r \<ge> n) pulseNumberGte
         (where_opt (\<lambda>n r. pulse_number r < n) pulseNumberLt
           (where_opt (\<lambda>n r. pulse_number r \<le> n) pulseNumberLte query)))"

text \<open>The two conditions share a pair of parentheses, so they make one disjunction.\<close>

definition filterRecordsByIndex :: "models_Record query \<Rightarrow> string \<Rightarrow> bool \<Rightarrow> error + models_Record query" where
  "filterRecordsByIndex query fromIndex sortByIndexAsc =
     (case CheckIndex fromIndex of
        Inl err \<Rightarrow> Inl err
      | Inr (pulseNumber, order) \<Rightarrow> Inr (
          if sortByIndexAsc
          then Where (\<lambda>r. mr_PulseNumber r > pulseNumber \<or> mr_PulseNumber r = pulseNumber \<and> mr_Order r \<ge> order) query
          else Where (\<lambda>r. mr_PulseNumber r < pulseNumber \<or> mr_PulseNumber r = pulseNumber \<and> mr_Order r \<le> order) query))"

definition filterByTimestamp :: "('r \<Rightarrow> int) \<Rightarrow> 'r query \<Rightarrow> int option \<Rightarrow> int option \<Rightarrow> 'r query" where
  "filterByTimestamp timestamp query timestampLte timestampGte =
     where_opt (\<lambda>n r. timestamp r \<le> n) timestampLte (where_opt (\<lambda>n r. timestamp r \<ge> n) timestampGte query)"

definition asc :: "('r \<Rightarrow> 'k :: linorder) \<Rightarrow> 'r \<Rightarrow> 'r \<Rightarrow> bool" where
  "asc column a b \<longleftrightarrow> column a \<le> column b"

definition desc :: "('r \<Rightarrow> 'k :: linorder) \<Rightarrow> 'r \<Rightarrow> 'r \<Rightarrow> bool" where
  "desc column a b \<longleftrightarrow> column b \<le> column a"

definition sortRecordsByDirection :: "models_Record query \<Rightarrow> bool \<Rightarrow> models_Record query" where
  "sortRecordsByDirection query sortByIndexAsc =
     (if sortByIndexAsc then Order (asc mr_Order) (Order (asc mr_PulseNumber) query)
      else Order (desc mr_Order) (Order (desc mr_PulseNumber) query))"

definition storage_getRecords :: "'db gorm \<Rightarrow> models_Record query \<Rightarrow> int \<Rightarrow> int \<Rightarrow> ('db, models_Record list \<times> int) dbop" where
  "storage_getRecords G query limit offset =
     bind_db (FindRecords G (Offset offset (Limit limit query))) (\<lambda>records.
     bind_db (CountRecords G query) (\<lambda>total. return_db (records, total)))"

definition getPulses :: "'db gorm \<Rightarrow> models_Pulse query \<Rightarrow> int \<Rightarrow> int \<Rightarrow> ('db, models_Pulse list \<times> int) dbop" where
  "getPulses G query limit offset =
     bind_db (FindPulses G (Offset offset (Limit limit query))) (\<lambda>pulses.
     bind_db (CountPulses G query) (\<lambda>total. return_db (pulses, total)))"

section \<open>Reading records and pulses\<close>

text \<open>\<open>%v\<close> of a byte slice.\<close>

fun fmt_elems :: "bytes \<Rightarrow> string" where
  "fmt_elems [] = []"
| "fmt_elems [b] = Itoa (uint b)"
| "fmt_elems (b # bs) = Itoa (uint b) @ '' '' @ fmt_elems bs"

definition fmt_bytes :: "bytes \<Rightarrow> string" where
  "fmt_bytes b = ''['' @ fmt_elems b @ '']''"

definition GetLifeline :: "'db gorm \<Rightarrow> bytes \<Rightarrow> string option \<Rightarrow> int option \<Rightarrow> int option \<Rightarrow> int option \<Rightarrow> int option
    \<Rightarrow> int \<Rightarrow> int \<Rightarrow> bool \<Rightarrow> ('db, models_Record list \<times> int) dbop" where
  "GetLifeline G objRef fromIndex pulseNumberLt pulseNumberGt timestampLte timestampGte limit offset sortByIndexAsc =
     (let query = Where (\<lambda>r. mr_Type r = models_State) (Where (\<lambda>r. mr_ObjectReference r = objRef) Model);
          query = filterByPulse query pulseNumberLt pulseNumberGt;
          query = filterByTimestamp mr_Timestamp query timestampLte timestampGte
      in case (case fromIndex of None \<Rightarrow> Inr query | Some i \<Rightarrow> filterRecordsByIndex query i sortByIndexAsc) of
           Inl err \<Rightarrow> fail_db err
         | Inr query \<Rightarrow> wrap_db (''error while select records for object '' @ fmt_bytes objRef @ '' from db'')
             (storage_getRecords G (sortRecordsByDirection query sortByIndexAsc) limit offset))"

definition updateNextPulse :: "'db gorm \<Rightarrow> models_Pulse \<Rightarrow> 'db \<Rightarrow> models_Pulse \<times> 'db" where
  "updateNextPulse G pulse db =
     (case FirstPulse G (Where (\<lambda>p. mp_PrevPulseNumber p = mp_PulseNumber pulse) Model) db of
        (Inl err, db') \<Rightarrow> (pulse\<lparr>mp_NextPulseNumber := -1\<rparr>, db')
      | (Inr nextPulse, db') \<Rightarrow> (pulse\<lparr>mp_NextPulseNumber := mp_PulseNumber nextPulse\<rparr>, db'))"

definition updatePrevPulse :: "'db gorm \<Rightarrow> models_Pulse \<Rightarrow> 'db \<Rightarrow> models_Pulse \<times> 'db" where
  "updatePrevPulse G pulse db =
     (case FirstPulse G (Where (\<lambda>p. mp_PulseNumber p = mp_PrevPulseNumber pulse) Model) db of
        (Inl err, db') \<Rightarrow> (pulse\<lparr>mp_PrevPulseNumber := -1\<rparr>, db')
      | (Inr prevPulse, db') \<Rightarrow> (pulse, db'))"

definition GetPulse :: "'db gorm \<Rightarrow> int \<Rightarrow> ('db, models_Pulse) dbop" where
  "GetPulse G pulseNumber =
     bind_db (FirstPulse G (Where (\<lambda>p. mp_PulseNumber p = pulseNumber) Model)) (\<lambda>pulse db.
       case updateNextPulse G pulse db of (pulse, db) \<Rightarrow>
       case updatePrevPulse G pulse db of (pulse, db) \<Rightarrow> (Inr pulse, db))"

text \<open>The loop of the ascending answer, \<open>for i := pulsesLen - 1; i > 0; i--\<close>, and that of the descending one,
  \<open>for i := 0; i < pulsesLen-1; i++\<close>, here from \<open>i\<close> with \<open>k\<close> rounds to go.\<close>

fun fix_asc :: "nat \<Rightarrow> models_Pulse list \<Rightarrow> models_Pulse list" where
  "fix_asc 0 pulses = pulses"
| "fix_asc (Suc i) pulses =
     (if mp_PrevPulseNumber (pulses ! Suc i) = mp_PulseNumber (pulses ! i)
      then fix_asc i (pulses[i := (pulses ! i)\<lparr>mp_NextPulseNumber := mp_PulseNumber (pulses ! Suc i)\<rparr>])
      else fix_asc i (pulses[Suc i := (pulses ! Suc i)\<lparr>mp_PrevPulseNumber := -1\<rparr>,
        i := (pulses ! i)\<lparr>mp_NextPulseNumber := -1\<rparr>]))"

fun fix_desc :: "nat \<Rightarrow> nat \<Rightarrow> models_Pulse list \<Rightarrow> models_Pulse list" where
  "fix_desc i 0 pulses = pulses"
| "fix_desc i (Suc k) pulses =
     (if mp_PrevPulseNumber (pulses ! i) = mp_PulseNumber (pulses ! Suc i)
      then fix_desc (Suc i) k (pulses[Suc i := (pulses ! Suc i)\<lparr>mp_NextPulseNumber := mp_PulseNumber (pulses ! i)\<rparr>])
      else fix_desc (Suc i) k (pulses[Suc i := (pulses ! Suc i)\<lparr>mp_NextPulseNumber := -1\<rparr>,
        i := (pulses ! i)\<lparr>mp_PrevPulseNumber := -1\<rparr>]))"

text \<open>\<open>pulses[i] = s.updatePrevPulse(pulses[i])\<close>\<close>

definition update_at :: "(models_Pulse \<Rightarrow> 'db \<Rightarrow> models_Pulse \<times> 'db) \<Rightarrow> nat \<Rightarrow> models_Pulse list \<Rightarrow> 'db
    \<Rightarrow> models_Pulse list \<times> 'db" where
  "update_at f i pulses db = (case f (pulses ! i) db of (p, db') \<Rightarrow> (pulses[i := p], db'))"

definition GetPulses :: "'db gorm \<Rightarrow> int option \<Rightarrow> int option \<Rightarrow> int option \<Rightarrow> int option \<Rightarrow> int option \<Rightarrow> int option
    \<Rightarrow> int option \<Rightarrow> bool \<Rightarrow> int \<Rightarrow> int \<Rightarrow> ('db, models_Pulse list \<times> int) dbop" where
  "GetPulses G fromPulse timestampLte timestampGte pulseNumberLte pulseNumberLt pulseNumberGte pulseNumberGt
     sortByAsc limit offset =
     (let query = filterByTimestamp mp_Timestamp Model timestampLte timestampGte;
          query = filterByPulseNumber mp_PulseNumber query pulseNumberLte pulseNumberLt pulseNumberGte pulseNumberGt;
          query = (if sortByAsc then Order (asc mp_PulseNumber) query else Order (desc mp_PulseNumber) query);
          query = where_opt (\<lambda>n p. mp_PulseNumber p \<le> n) fromPulse query
      in bind_db (wrap_db ''error while select pulses from db'' (getPulses G query limit offset)) (\<lambda>(pulses, total) db.
           let pulsesLen = length pulses
           in if sortByAsc then
                let pulses = fix_asc (pulsesLen - 1) pulses
                in if pulsesLen > 0 then
                     case update_at (updatePrevPulse G) 0 pulses db of (pulses, db) \<Rightarrow>
                     case update_at (updateNextPulse G) (pulsesLen - 1) pulses db of (pulses, db) \<Rightarrow> (Inr (pulses, total), db)
                   else (Inr (pulses, total), db)
              else
                let pulses = fix_desc 0 (pulsesLen - 1) pulses
                in if pulsesLen > 0 then
                     case update_at (updateNextPulse G) 0 pulses db of (pulses, db) \<Rightarrow>
                     case update_at (updatePrevPulse G) (pulsesLen - 1) pulses db of (pulses, db) \<Rightarrow> (Inr (pulses, total), db)
                   else (Inr (pulses, total), db)))"

definition GetRecordsByJetDrop :: "'db gorm \<Rightarrow> JetDropID \<Rightarrow> string option \<Rightarrow> string option \<Rightarrow> int \<Rightarrow> int
    \<Rightarrow> ('db, models_Record list \<times> int) dbop" where
  "GetRecordsByJetDrop G jetDropID fromIndex recordType limit offset =
     (let query = Where (\<lambda>r. mr_JetID r = ji_JetID jetDropID) (Where (\<lambda>r. mr_PulseNumber r = ji_PulseNumber jetDropID) Model);
          query = where_opt (\<lambda>t r. mr_Type r = t) recordType query
      in case (case fromIndex of None \<Rightarrow> Inr query | Some i \<Rightarrow> filterRecordsByIndex query i True) of
           Inl err \<Rightarrow> fail_db err
         | Inr query \<Rightarrow> wrap_db (''error while select records for pulse '' @ Itoa (ji_PulseNumber jetDropID) @
             '', jet '' @ ji_JetID jetDropID @ '' from db'')
             (storage_getRecords G (sortRecordsByDirection query True) limit offset))"

section \<open>Reading for the controller\<close>

definition GetIncompletePulses :: "'db gorm \<Rightarrow> ('db, models_Pulse list) dbop" where
  "GetIncompletePulses G = FindPulses G (Where (\<lambda>p. mp_IsComplete p = False) Model)"

text \<open>The structure the query fills is returned with the error: without a row it is the zero value.\<close>

definition GetPulseByPrev :: "'db gorm \<Rightarrow> models_Pulse \<Rightarrow> 'db \<Rightarrow> (models_Pulse \<times> error option) \<times> 'db" where
  "GetPulseByPrev G prevPulse db =
     (case FirstPulse G (Where (\<lambda>p. mp_PrevPulseNumber p = mp_PulseNumber prevPulse) Model) db of
        (Inl err, db') \<Rightarrow> ((emptyPulse, Some err), db')
      | (Inr pulse, db') \<Rightarrow> ((pulse, None), db'))"

definition GetSequentialPulse :: "'db gorm \<Rightarrow> ('db, models_Pulse) dbop" where
  "GetSequentialPulse G =
     bind_db (FindPulses G (Limit 1 (Order (desc mp_PulseNumber) (Where (\<lambda>p. mp_IsSequential p = True) Model)))) (\<lambda>pulses.
       if length pulses = 0 then return_db emptyPulse else return_db (pulses ! 0))"

definition GetNextSavedPulse :: "'db gorm \<Rightarrow> models_Pulse \<Rightarrow> bool \<Rightarrow> ('db, models_Pulse) dbop" where
  "GetNextSavedPulse G fromPulseNumber completedOnly =
     (let db = Where (\<lambda>p. mp_PulseNumber p > mp_PulseNumber fromPulseNumber) Model;
          db = (if completedOnly then Where (\<lambda>p. mp_IsComplete p = True) db else db)
      in bind_db (FindPulses G (Limit 1 (Order (asc mp_PulseNumber) db))) (\<lambda>pulses.
           if length pulses = 0 then return_db emptyPulse else return_db (pulses ! 0)))"

definition GetJetDrops :: "'db gorm \<Rightarrow> models_Pulse \<Rightarrow> ('db, models_JetDrop list) dbop" where
  "GetJetDrops G pulse = FindJetDrops G (Where (\<lambda>j. mj_PulseNumber j = mp_PulseNumber pulse) Model)"

section \<open>Reading jet drops\<close>

definition GetJetDropsWithParams :: "'db gorm \<Rightarrow> models_Pulse \<Rightarrow> JetDropID option \<Rightarrow> int \<Rightarrow> int
    \<Rightarrow> ('db, models_JetDrop list \<times> int) dbop" where
  "GetJetDropsWithParams G pulse fromJetDropID limit offset =
     (let q = Order (asc mj_JetID) (Where (\<lambda>j. mj_PulseNumber j = mp_PulseNumber pulse) Model);
          q = where_opt (\<lambda>i j. mj_JetID j \<ge> ji_JetID i) fromJetDropID q
      in bind_db (FindJetDrops G (Offset offset (Limit limit q))) (\<lambda>jetDrops.
         bind_db (CountJetDrops G q) (\<lambda>total. return_db (jetDrops, total))))"

definition GetJetDropByID :: "'db gorm \<Rightarrow> JetDropID
    \<Rightarrow> ('db, models_JetDrop \<times> models_JetDrop list \<times> models_JetDrop list) dbop" where
  "GetJetDropByID G jid =
     bind_db (FindJetDrop G (Where (\<lambda>j. mj_PulseNumber j = ji_PulseNumber jid \<and> mj_JetID j = ji_JetID jid) Model)) (\<lambda>jetDrop.
     bind_db (FirstPulse G (Where (\<lambda>p. mp_PulseNumber p = ji_PulseNumber jid) Model)) (\<lambda>pulse db.
       case updateNextPulse G pulse db of (pulse, db) \<Rightarrow>
       (let siblings = Siblings jetDrop
        in bind_db (if mp_NextPulseNumber pulse \<noteq> -1
             then FindJetDrops G (Where (\<lambda>j. mj_PulseNumber j = mp_NextPulseNumber pulse \<and> mj_JetID j \<in> set siblings) Model)
             else return_db []) (\<lambda>nextJetDrops.
           bind_db (FindJetDrops G (Where (\<lambda>j. mj_PulseNumber j = mp_PrevPulseNumber pulse \<and> mj_JetID j \<in> set siblings) Model))
             (\<lambda>prevJetDrops. return_db (jetDrop, prevJetDrops, nextJetDrops))) db)))"

text \<open>\<open>helper.go\<close>\<close>

definition GetJetIDParents :: "string \<Rightarrow> string list" where
  "GetJetIDParents jetID =
     (let parents = map (\<lambda>i. take (i + 1) jetID) [0..<length jetID] in [[]] @ parents)"

text \<open>The pattern match of SQL: \<open>%\<close> for any text, \<open>_\<close> for one character, a backslash to quote.\<close>

fun sql_like :: "string \<Rightarrow> string \<Rightarrow> bool" where
  "sql_like [] s = (s = [])"
| "sql_like (p # ps) [] = (p = CHR ''%'' \<and> sql_like ps [])"
| "sql_like (p # ps) (c # s) =
     (if p = CHR ''%'' then sql_like ps (c # s) \<or> sql_like (p # ps) s
      else if p = CHR ''_'' then sql_like ps s
      else if p = CHR 0x5C then (case ps of [] \<Rightarrow> False | q # qs \<Rightarrow> c = q \<and> sql_like qs s)
      else c = p \<and> sql_like ps s)"

definition GetJetDropsByJetID :: "'db gorm \<Rightarrow> string \<Rightarrow> int option \<Rightarrow> int option \<Rightarrow> int option \<Rightarrow> int option \<Rightarrow> int \<Rightarrow> bool
    \<Rightarrow> ('db, models_JetDrop list \<times> int) dbop" where
  "GetJetDropsByJetID G jetID pulseNumberLte pulseNumberLt pulseNumberGte pulseNumberGt limit sortByPnAsc =
     (let q = Where (\<lambda>j. mj_JetID j \<in> set (GetJetIDParents jetID) \<or> sql_like (jetID @ ''%'') (mj_JetID j)) Model;
          q = filterByPulseNumber mj_PulseNumber q pulseNumberLte pulseNumberLt pulseNumberGte pulseNumberGt;
          q = (if sortByPnAsc then Order (desc mj_JetID) (Order (asc mj_PulseNumber) q)
               else Order (asc mj_JetID) (Order (desc mj_PulseNumber) q))
      in bind_db (FindJetDrops G (Limit limit q)) (\<lambda>jetDrops.
         bind_db (CountJetDrops G q) (\<lambda>total. return_db (jetDrops, total))))"

section \<open>Reading for the exporter\<close>

text \<open>Both error branches return the pulse filled so far and no error.\<close>

definition GetNextCompletePulseFilterByPrototypeReference ::
  "'db gorm \<Rightarrow> int \<Rightarrow> bytes list \<Rightarrow> 'db \<Rightarrow> models_Pulse \<times> 'db" where
  "GetNextCompletePulseFilterByPrototypeReference G prevPulse prototypes db =
     (let q = Where (\<lambda>(p, r). mr_PrototypeReference r \<in> set prototypes)
            (Where (\<lambda>(p, r). mp_IsComplete p = True) (Where (\<lambda>(p, r). mp_PrevPulseNumber p = prevPulse) Model))
      in case FindPulseJoin G (Limit (-1) q) db of
           (Inl err, db) \<Rightarrow> (emptyPulse, db)
         | (Inr pulse, db) \<Rightarrow> (case CountJoin G q db of
             (Inl err, db) \<Rightarrow> (pulse, db)
           | (Inr amount, db) \<Rightarrow> (pulse\<lparr>mp_RecordAmount := amount\<rparr>, db)))"

end
