(* ===== verification/Storage_Write.thy ===== *)
theory Storage_Write
  imports Storage
begin

text \<open>What the writing methods of the storage do to the tables: the effect of every success, no effect of any failure,
  and the invariants they keep: the constraints of the schema and the counters of a pulse.\<close>

section \<open>Effects on the tables\<close>

text \<open>The records a list of saves leaves behind: of two with the same reference, the later.\<close>

fun kept :: "models_Record list \<Rightarrow> models_Record list" where
  "kept [] = []"
| "kept (r # rs) = (if mr_Reference r \<in> mr_Reference ` set rs then kept rs else r # kept rs)"

definition put_records :: "models_Record list \<Rightarrow> database \<Rightarrow> database" where
  "put_records rs t = t\<lparr>db_records := {r \<in> db_records t. mr_Reference r \<notin> mr_Reference ` set rs} \<union> set (kept rs)\<rparr>"

definition saved :: "models_JetDrop \<Rightarrow> models_Record list \<Rightarrow> database \<Rightarrow> database" where
  "saved j rs t = put_records rs (put_jet_drop j t)"

definition counted_save :: "models_JetDrop \<Rightarrow> models_Record list \<Rightarrow> int \<Rightarrow> database \<Rightarrow> database" where
  "counted_save j rs n t = map_pulses (keyed n) (add_amounts 1 (int (length rs))) (saved j rs t)"

lemma kept_subset: "set (kept rs) \<subseteq> set rs"
  by (induction rs) auto

lemma kept_refs: "mr_Reference ` set (kept rs) = mr_Reference ` set rs"
  by (induction rs) (auto simp: insert_absorb)

lemma kept_inj: "inj_on mr_Reference (set (kept rs))"
proof (induction rs)
  case (Cons r rs)
  have "mr_Reference r \<notin> mr_Reference ` (set (kept rs) - {r})" if "mr_Reference r \<notin> mr_Reference ` set rs"
    using that kept_refs [of rs] by blast
  with Cons show ?case by simp
qed simp

lemma kept_distinct: "distinct (map mr_Reference rs) \<Longrightarrow> kept rs = rs"
  by (induction rs) auto

lemma put_record_Cons: "put_records rs (put_record r t) = put_records (r # rs) t"
proof -
  have "{r' \<in> insert r {r' \<in> db_records t. mr_Reference r' \<noteq> mr_Reference r}. mr_Reference r' \<notin> mr_Reference ` set rs} \<union> set (kept rs) =
      {r' \<in> db_records t. mr_Reference r' \<notin> mr_Reference ` set (r # rs)} \<union> set (kept (r # rs))"
    by auto
  then show ?thesis by (simp add: put_records_def put_record_def)
qed

lemma put_jet_drop_simps [simp]:
  "db_pulses (put_jet_drop j t) = db_pulses t" "db_records (put_jet_drop j t) = db_records t"
  "db_jet_drops (put_jet_drop j t) = insert j {j' \<in> db_jet_drops t. jd_key j' \<noteq> jd_key j}"
  by (simp_all add: put_jet_drop_def)

lemma put_records_simps [simp]:
  "db_pulses (put_records rs t) = db_pulses t" "db_jet_drops (put_records rs t) = db_jet_drops t"
  "db_records (put_records rs t) = {r \<in> db_records t. mr_Reference r \<notin> mr_Reference ` set rs} \<union> set (kept rs)"
  by (simp_all add: put_records_def)

lemma put_record_simps [simp]:
  "db_pulses (put_record r t) = db_pulses t" "db_jet_drops (put_record r t) = db_jet_drops t"
  by (simp_all add: put_record_def)

lemma map_pulses_simps [simp]:
  "db_pulses (map_pulses P f t) = (\<lambda>p. if P p then f p else p) ` db_pulses t"
  "db_jet_drops (map_pulses P f t) = db_jet_drops t" "db_records (map_pulses P f t) = db_records t"
  by (simp_all add: map_pulses_def)

lemma put_records_Nil [simp]: "put_records [] t = t"
  by (simp add: put_records_def)

lemma keys_put_jet_drop [simp]: "jd_key ` db_jet_drops (put_jet_drop j t) = insert (jd_key j) (jd_key ` db_jet_drops t)"
  by auto

context gorm_db
begin

lemma save_records_effect:
  "save_records G rs db = (Inr u, db') \<Longrightarrow> T db' = put_records rs (T db) \<and>
     (\<forall>r \<in> set rs. rec_jd_key r \<in> jd_key ` db_jet_drops (T db))"
proof (induction rs arbitrary: db)
  case (Cons r rs)
  then obtain db1 where d: "SaveRecord G r db = (Inr (), db1)" "save_records G rs db1 = (Inr u, db')"
    by (auto simp: dbop_iffs)
  have "rec_jd_key r \<in> jd_key ` db_jet_drops (T db)" "T db1 = put_record r (T db)"
    using save_record d(1) by (fastforce simp: writes_def)+
  then show ?case using Cons.IH [OF d(2)] by (simp add: put_record_Cons)
qed simp

lemma initJD_effect:
  assumes "initJD G j rs n db = (Inr u, db')"
  shows "jd_key j \<notin> jd_key ` db_jet_drops (T db) \<and> mj_PulseNumber j \<in> mp_PulseNumber ` db_pulses (T db) \<and>
    (\<forall>r \<in> set rs. rec_jd_key r \<in> insert (jd_key j) (jd_key ` db_jet_drops (T db))) \<and> T db' = counted_save j rs n (T db)"
proof -
  from transaction_ok [OF assms [unfolded initJD_def]] obtain db1 db2 db3 db4 where
    t: "T db1 = T db" "T db' = T db2" and c: "CreateJetDrop G j db1 = (Inr (), db3)" and
    s: "save_records G rs db3 = (Inr (), db4)" and
    a: "UpdatePulseAmounts G n 1 (int (length rs)) db4 = (Inr (), db2)" by (auto simp: dbop_iffs)
  have 3: "T db3 = put_jet_drop j (T db)" "jd_key j \<notin> jd_key ` db_jet_drops (T db)"
    "mj_PulseNumber j \<in> mp_PulseNumber ` db_pulses (T db)"
    using create_jet_drop c t by (fastforce simp: writes_def)+
  have "T db2 = map_pulses (keyed n) (add_amounts 1 (int (length rs))) (T db4)"
    using update_amounts a by (fastforce simp: writes_def)
  with save_records_effect [OF s] 3 t show ?thesis
    by (auto simp: counted_save_def saved_def simp del: put_jet_drop_simps(3))
qed

lemma updateJD_effect:
  assumes "updateJD G j rs db = (Inr u, db')"
  shows "mj_PulseNumber j \<in> mp_PulseNumber ` db_pulses (T db) \<and>
    (\<forall>r \<in> set rs. rec_jd_key r \<in> insert (jd_key j) (jd_key ` db_jet_drops (T db))) \<and> T db' = saved j rs (T db)"
proof -
  from transaction_ok [OF assms [unfolded updateJD_def]] obtain db1 db2 db3 where
    t: "T db1 = T db" "T db' = T db2" and c: "SaveJetDrop G j db1 = (Inr (), db3)" and
    s: "save_records G rs db3 = (Inr (), db2)" by (auto simp: dbop_iffs)
  have "T db3 = put_jet_drop j (T db)" "mj_PulseNumber j \<in> mp_PulseNumber ` db_pulses (T db)"
    using save_jet_drop c t by (fastforce simp: writes_def)+
  with save_records_effect [OF s] t show ?thesis by (auto simp: saved_def simp del: put_jet_drop_simps(3))
qed

lemma initJD_rollback: "initJD G j rs n db = (Inl e, db') \<Longrightarrow> T db' = T db"
  unfolding initJD_def by (rule transaction_rollback)

lemma updateJD_rollback: "updateJD G j rs db = (Inl e, db') \<Longrightarrow> T db' = T db"
  unfolding updateJD_def by (rule transaction_rollback)

text \<open>The two ways to succeed: the drop was created and counted, or it was saved without being counted.\<close>

lemma SaveJetDropData_cases:
  assumes "SaveJetDropData G j rs n db = (Inr u, db')"
  shows "mj_PulseNumber j \<in> mp_PulseNumber ` db_pulses (T db) \<and>
    (\<forall>r \<in> set rs. rec_jd_key r \<in> insert (jd_key j) (jd_key ` db_jet_drops (T db))) \<and>
    (jd_key j \<notin> jd_key ` db_jet_drops (T db) \<and> T db' = counted_save j rs n (T db) \<or> T db' = saved j rs (T db))"
proof (cases "initJD G j rs n db")
  case (Pair r db1)
  then show ?thesis
  proof (cases r)
    case (Inl e)
    with Pair assms have "updateJD G j rs db1 = (Inr u, db')" by (auto simp: SaveJetDropData_def split: if_splits)
    from updateJD_effect [OF this] initJD_rollback [OF Pair [unfolded Inl]] show ?thesis by auto
  next
    case (Inr v)
    with Pair assms have "db1 = db'" by (auto simp: SaveJetDropData_def)
    with initJD_effect [OF Pair [unfolded Inr]] show ?thesis by auto
  qed
qed

lemma SaveJetDropData_rollback: "SaveJetDropData G j rs n db = (Inl e, db') \<Longrightarrow> T db' = T db"
  using initJD_rollback updateJD_rollback
  by (auto simp: SaveJetDropData_def split: prod.splits sum.splits if_splits)

lemma SavePulse_effect: "SavePulse G p db = (Inr u, db') \<Longrightarrow> mp_PulseNumber p \<noteq> 0 \<and> T db' = upsert_pulse p (T db)"
  using create_pulse by (fastforce simp: SavePulse_def wrap_db_Inr writes_def)

lemma SavePulse_rollback: "SavePulse G p db = (Inl e, db') \<Longrightarrow> T db' = T db"
  using create_pulse by (fastforce simp: SavePulse_def wrap_db_Inl writes_def)

text \<open>The two updates of a flag differ in the flag only.\<close>

lemma update_one_row:
  assumes "Transaction G (bind_db (wrap_db msg (UpdatePulse G n up)) (\<lambda>rows.
      if rows = 0 then fail_db e0 else if rows \<noteq> 1 then fail_db e1 else return_db ())) db = (Inr v, db')"
    and "mp_PulseNumber up = 0"
  shows "card {p \<in> db_pulses (T db). keyed n p} = 1 \<and> T db' = map_pulses (keyed n) (update_fields up) (T db)"
proof -
  from transaction_ok [OF assms(1)] obtain db1 db2 where
    t: "T db1 = T db" "T db' = T db2" and u: "UpdatePulse G n up db1 = (Inr 1, db2)"
    by (auto simp: dbop_iffs split: if_splits)
  have "\<And>db db' a. UpdatePulse G n up db = (Inr a, db') \<Longrightarrow> T db' = map_pulses (keyed n) (update_fields up) (T db) \<and>
      a = int (card {p \<in> db_pulses (T db). keyed n p})"
    using update_pulse [OF assms(2), of n] unfolding writes_def by blast
  from this [OF u] t show ?thesis by simp
qed

end

lemma update_fields_complete:
  "update_fields (emptyPulse\<lparr>mp_IsComplete := True\<rparr>) = (\<lambda>p. p\<lparr>mp_IsComplete := True\<rparr>)"
  by (simp add: fun_eq_iff update_fields_def emptyPulse_def nonzero_def)

lemma update_fields_sequential:
  "update_fields (emptyPulse\<lparr>mp_IsSequential := True\<rparr>) = (\<lambda>p. p\<lparr>mp_IsSequential := True\<rparr>)"
  by (simp add: fun_eq_iff update_fields_def emptyPulse_def nonzero_def)

lemma flag_updates_keyless:
  "mp_PulseNumber (emptyPulse\<lparr>mp_IsComplete := True\<rparr>) = 0" "mp_PulseNumber (emptyPulse\<lparr>mp_IsSequential := True\<rparr>) = 0"
  by (simp_all add: emptyPulse_def)

lemma pulse_unique: "constraints t \<Longrightarrow> p \<in> db_pulses t \<Longrightarrow> q \<in> db_pulses t \<Longrightarrow> mp_PulseNumber p = mp_PulseNumber q \<Longrightarrow> p = q"
  unfolding constraints_def by (metis inj_onD)

lemma card_keyed: "constraints t \<Longrightarrow> n \<noteq> 0 \<Longrightarrow>
  card {p \<in> db_pulses t. keyed n p} = (if n \<in> mp_PulseNumber ` db_pulses t then 1 else 0)"
proof -
  assume c: "constraints t" and n: "n \<noteq> 0"
  show ?thesis
  proof (cases "n \<in> mp_PulseNumber ` db_pulses t")
    case True
    then obtain p where p: "p \<in> db_pulses t" "mp_PulseNumber p = n" by auto
    then have "{p \<in> db_pulses t. keyed n p} = {p}" using c n by (auto simp: keyed_def constraints_def dest: inj_onD)
    with True show ?thesis by simp
  next
    case False
    then have "{p \<in> db_pulses t. keyed n p} = {}" using n by (auto simp: keyed_def)
    with False show ?thesis by (simp only: card.empty if_False)
  qed
qed

section \<open>Saving on a server that is up\<close>

text \<open>What the processor hands over: records of the drop itself, with references.\<close>

definition drop_records :: "models_JetDrop \<Rightarrow> models_Record list \<Rightarrow> bool" where
  "drop_records j rs \<longleftrightarrow> (\<forall>r \<in> set rs. rec_jd_key r = jd_key j \<and> mr_Reference r \<noteq> [])"

definition amounts_fit :: "models_JetDrop \<Rightarrow> models_Record list \<Rightarrow> database \<Rightarrow> bool" where
  "amounts_fit j rs t \<longleftrightarrow> (\<forall>p \<in> db_pulses t. mp_PulseNumber p = mj_PulseNumber j \<longrightarrow>
     int64_range (mp_JetDropAmount p + 1) \<and> int64_range (mp_RecordAmount p + int (length rs)))"

context healthy_db
begin

lemma save_records_succeeds:
  "\<forall>r \<in> set rs. mr_Reference r \<noteq> [] \<and> rec_jd_key r \<in> jd_key ` db_jet_drops (T db) \<Longrightarrow>
   \<exists>db'. save_records G rs db = (Inr (), db')"
proof (induction rs arbitrary: db)
  case (Cons r rs)
  obtain a db1 where s: "SaveRecord G r db = (a, db1)" by (cases "SaveRecord G r db")
  then obtain u where a: "a = Inr u" using save_record_fails [of r db] Cons.prems by (cases a) auto
  then have "T db1 = put_record r (T db)" using save_record s by (fastforce simp: writes_def)
  with Cons obtain db' where "save_records G rs db1 = (Inr (), db')" by force
  with s a show ?case by (auto simp: bind_db_def wrap_db_def)
qed simp

lemma initJD_succeeds:
  assumes "jd_key j \<notin> jd_key ` db_jet_drops (T db)" and "mj_PulseNumber j \<in> mp_PulseNumber ` db_pulses (T db)"
    and "mj_PulseNumber j \<noteq> 0" and "drop_records j rs" and "amounts_fit j rs (T db)"
  shows "\<exists>db'. initJD G j rs (mj_PulseNumber j) db = (Inr (), db') \<and> T db' = counted_save j rs (mj_PulseNumber j) (T db)"
proof -
  obtain r db' where i: "initJD G j rs (mj_PulseNumber j) db = (r, db')" by (cases "initJD G j rs (mj_PulseNumber j) db")
  show ?thesis
  proof (cases r)
    case (Inr u)
    with i initJD_effect [of j rs "mj_PulseNumber j" db u db'] show ?thesis by auto
  next
    case (Inl e)
    from transaction_fails [OF i [unfolded Inl initJD_def]] obtain db1 db2 where t: "T db1 = T db"
      and f: "bind_db (wrap_db ''error while saving jetDrop'' (CreateJetDrop G j)) (\<lambda>_. bind_db (save_records G rs) (\<lambda>_.
        wrap_db ''error to update pulse data'' (UpdatePulseAmounts G (mj_PulseNumber j) 1 (int (length rs))))) db1 = (Inl e, db2)"
      by blast
    obtain a db3 where c: "CreateJetDrop G j db1 = (a, db3)" by (cases "CreateJetDrop G j db1")
    then obtain u where "a = Inr u" using create_jet_drop_fails [of j db1] assms t by (cases a) auto
    with c have c: "CreateJetDrop G j db1 = (Inr (), db3)" by simp
    have t3: "T db3 = put_jet_drop j (T db)" using create_jet_drop c t by (fastforce simp: writes_def)
    obtain db4 where s: "save_records G rs db3 = (Inr (), db4)"
      using save_records_succeeds [of rs db3] assms(4) t3 by (auto simp: drop_records_def)
    have t4: "db_pulses (T db4) = db_pulses (T db)" using save_records_effect [OF s] t3 by simp
    from f c s obtain e0 where "UpdatePulseAmounts G (mj_PulseNumber j) 1 (int (length rs)) db4 = (Inl e0, db2)"
      by (auto simp: dbop_iffs)
    from update_amounts_fails [OF this] t4 assms(3,5) have False by (auto simp: amounts_fit_def keyed_def)
    then show ?thesis ..
  qed
qed

lemma updateJD_succeeds:
  assumes "mj_PulseNumber j \<in> mp_PulseNumber ` db_pulses (T db)" and "mj_PulseNumber j \<noteq> 0" and "drop_records j rs"
  shows "\<exists>db'. updateJD G j rs db = (Inr (), db') \<and> T db' = saved j rs (T db)"
proof -
  obtain r db' where i: "updateJD G j rs db = (r, db')" by (cases "updateJD G j rs db")
  show ?thesis
  proof (cases r)
    case (Inr u)
    with i updateJD_effect [of j rs db u db'] show ?thesis by auto
  next
    case (Inl e)
    from transaction_fails [OF i [unfolded Inl updateJD_def]] obtain db1 db2 where t: "T db1 = T db"
      and f: "bind_db (wrap_db ''error while saving jetDrop'' (SaveJetDrop G j)) (\<lambda>_. save_records G rs) db1 = (Inl e, db2)"
      by blast
    obtain a db3 where c: "SaveJetDrop G j db1 = (a, db3)" by (cases "SaveJetDrop G j db1")
    then obtain u where "a = Inr u" using save_jet_drop_fails [of j db1] assms t by (cases a) auto
    with c have c: "SaveJetDrop G j db1 = (Inr (), db3)" by simp
    have t3: "T db3 = put_jet_drop j (T db)" using save_jet_drop c t by (fastforce simp: writes_def)
    obtain db4 where s: "save_records G rs db3 = (Inr (), db4)"
      using save_records_succeeds [of rs db3] assms(3) t3 by (auto simp: drop_records_def)
    with f c show ?thesis by (auto simp: dbop_iffs)
  qed
qed

lemma SaveJetDropData_succeeds:
  assumes "mj_PulseNumber j \<in> mp_PulseNumber ` db_pulses (T db)" and "mj_PulseNumber j \<noteq> 0" and "drop_records j rs"
    and "jd_key j \<notin> jd_key ` db_jet_drops (T db) \<Longrightarrow> amounts_fit j rs (T db)"
  shows "\<exists>db'. SaveJetDropData G j rs (mj_PulseNumber j) db = (Inr (), db') \<and>
    T db' = (if jd_key j \<in> jd_key ` db_jet_drops (T db) then saved j rs (T db)
      else counted_save j rs (mj_PulseNumber j) (T db))"
proof (cases "jd_key j \<in> jd_key ` db_jet_drops (T db)")
  case False
  with initJD_succeeds [OF False assms(1-3) assms(4) [OF False]] show ?thesis by (auto simp: SaveJetDropData_def)
next
  case True
  obtain r db' where i: "initJD G j rs (mj_PulseNumber j) db = (r, db')" by (cases "initJD G j rs (mj_PulseNumber j) db")
  then obtain e where e: "r = Inl e" using initJD_effect [of j rs "mj_PulseNumber j" db _ db'] True by (cases r) auto
  from transaction_fails [OF i [unfolded e initJD_def]] obtain db1 db2 where t: "T db1 = T db"
    and f: "bind_db (wrap_db ''error while saving jetDrop'' (CreateJetDrop G j)) (\<lambda>_. bind_db (save_records G rs) (\<lambda>_.
      wrap_db ''error to update pulse data'' (UpdatePulseAmounts G (mj_PulseNumber j) 1 (int (length rs))))) db1 = (Inl e, db2)"
    by blast
  have "CreateJetDrop G j db1 \<noteq> (Inr a, db3)" for a db3 using create_jet_drop [of j] True t by (fastforce simp: writes_def)
  with f obtain e0 where "e = Wrap e0 ''error while saving jetDrop''" by (auto simp: dbop_iffs)
  then have "Contains (Error e) ''error while saving jetDrop''" by (simp add: Contains_wrapped)
  moreover have "T db' = T db" using initJD_rollback i e by blast
  ultimately show ?thesis using updateJD_succeeds [of j db' rs] assms True i e by (simp add: SaveJetDropData_def)
qed

end

section \<open>Invariants\<close>

lemma saved_twice: "saved j rs (saved j rs t) = saved j rs t"
proof -
  have "{j' \<in> insert j {j' \<in> D. jd_key j' \<noteq> jd_key j}. jd_key j' \<noteq> jd_key j} = {j' \<in> D. jd_key j' \<noteq> jd_key j}" for D
    by auto
  moreover have "{r \<in> {r \<in> R. mr_Reference r \<notin> mr_Reference ` set rs} \<union> set (kept rs). mr_Reference r \<notin> mr_Reference ` set rs} =
      {r \<in> R. mr_Reference r \<notin> mr_Reference ` set rs}" for R
    using kept_subset [of rs] by auto
  ultimately show ?thesis unfolding saved_def put_records_def put_jet_drop_def by simp
qed

lemma saved_map_pulses: "saved j rs (map_pulses P f t) = map_pulses P f (saved j rs t)"
  by (simp add: saved_def put_records_def put_jet_drop_def map_pulses_def)

lemma saved_simps [simp]: "db_pulses (saved j rs t) = db_pulses t"
  "jd_key ` db_jet_drops (saved j rs t) = insert (jd_key j) (jd_key ` db_jet_drops t)"
  by (auto simp: saved_def)

lemma constraints_saved:
  assumes c: "constraints t" and p: "mj_PulseNumber j \<in> mp_PulseNumber ` db_pulses t"
    and r: "\<forall>r \<in> set rs. rec_jd_key r \<in> insert (jd_key j) (jd_key ` db_jet_drops t)"
  shows "constraints (saved j rs t)"
proof -
  have "inj_on jd_key (insert j {j' \<in> db_jet_drops t. jd_key j' \<noteq> jd_key j})"
    using c by (auto simp: constraints_def inj_on_def)
  moreover have "inj_on mr_Reference ({r \<in> db_records t. mr_Reference r \<notin> mr_Reference ` set rs} \<union> set (kept rs))"
    using c kept_inj [of rs] kept_subset [of rs] by (auto simp: constraints_def inj_on_Un intro: inj_on_subset)
  moreover have "rec_jd_key ` db_records (saved j rs t) \<subseteq> jd_key ` db_jet_drops (saved j rs t)"
    unfolding saved_simps using c r kept_subset [of rs] by (auto simp: saved_def constraints_def)
  ultimately show ?thesis using c p by (auto simp: saved_def constraints_def)
qed

lemma numbers_map_pulses:
  "(\<And>p. mp_PulseNumber (f p) = mp_PulseNumber p) \<Longrightarrow> mp_PulseNumber ` db_pulses (map_pulses P f t) = mp_PulseNumber ` db_pulses t"
  by (simp add: image_comp o_def if_distrib [of mp_PulseNumber] cong: if_cong del: if_image_distrib)

lemma constraints_map_pulses:
  assumes "constraints t" and "\<And>p. mp_PulseNumber (f p) = mp_PulseNumber p"
  shows "constraints (map_pulses P f t)"
proof -
  let ?g = "\<lambda>p. if P p then f p else p"
  have n: "mp_PulseNumber (?g p) = mp_PulseNumber p" for p using assms(2) by simp
  have "mp_PulseNumber ` ?g ` db_pulses t = mp_PulseNumber ` db_pulses t"
    using numbers_map_pulses [of f, OF assms(2)] by simp
  moreover have "inj_on mp_PulseNumber (?g ` db_pulses t)"
    using assms(1) by (intro inj_on_imageI) (simp add: o_def n constraints_def)
  ultimately show ?thesis using assms(1) by (simp add: constraints_def)
qed

lemma constraints_upsert: "constraints t \<Longrightarrow> constraints (upsert_pulse p t)"
proof (cases "mp_PulseNumber p \<in> mp_PulseNumber ` db_pulses t")
  case True
  assume "constraints t"
  then have "constraints (map_pulses (\<lambda>q. mp_PulseNumber q = mp_PulseNumber p) (excluded p) t)"
    by (rule constraints_map_pulses) (simp add: excluded_def)
  with True show ?thesis by (simp add: upsert_pulse_def)
next
  case False
  assume "constraints t"
  with False show ?thesis by (auto simp: constraints_def upsert_pulse_def)
qed

text \<open>The counters of a pulse are the numbers of its rows in the other two tables.\<close>

definition counted :: "database \<Rightarrow> bool" where
  "counted t \<longleftrightarrow> (\<forall>p \<in> db_pulses t.
     mp_JetDropAmount p = int (card {j \<in> db_jet_drops t. mj_PulseNumber j = mp_PulseNumber p}) \<and>
     mp_RecordAmount p = int (card {r \<in> db_records t. mr_PulseNumber r = mp_PulseNumber p}))"

lemma card_by_key: "inj_on f A \<Longrightarrow> (\<And>a. a \<in> A \<Longrightarrow> P a = Q (f a)) \<Longrightarrow> card {a \<in> A. P a} = card {k \<in> f ` A. Q k}"
proof -
  assume i: "inj_on f A" and q: "\<And>a. a \<in> A \<Longrightarrow> P a = Q (f a)"
  have "f ` {a \<in> A. P a} = {k \<in> f ` A. Q k}" using q by auto
  moreover have "inj_on f {a \<in> A. P a}" using i by (rule inj_on_subset) auto
  ultimately show ?thesis by (metis card_image)
qed

lemma card_jet_drops: "constraints t \<Longrightarrow>
  card {j \<in> db_jet_drops t. mj_PulseNumber j = n} = card {k \<in> jd_key ` db_jet_drops t. snd k = n}"
  by (rule card_by_key) (simp_all add: constraints_def jd_key_def)

lemma counted_resave:
  assumes "constraints t" and "constraints (saved j rs t)" and "counted t" and "jd_key j \<in> jd_key ` db_jet_drops t"
    and "\<forall>r \<in> set rs. rec_jd_key r = jd_key j \<and> (\<exists>r' \<in> db_records t. mr_Reference r' = mr_Reference r \<and> rec_jd_key r' = jd_key j)"
  shows "counted (saved j rs t)"
proof -
  have j: "card {j' \<in> db_jet_drops (saved j rs t). mj_PulseNumber j' = n} = card {j \<in> db_jet_drops t. mj_PulseNumber j = n}" for n
    using assms(1,2,4) by (simp only: card_jet_drops saved_simps insert_absorb)
  let ?f = "\<lambda>r. (mr_Reference r, rec_jd_key r)"
  have f: "card {r \<in> db_records u. mr_PulseNumber r = n} = card {k \<in> ?f ` db_records u. snd (snd k) = n}" if "constraints u" for u n
    using that by (intro card_by_key) (auto simp: constraints_def rec_jd_key_def inj_on_def)
  have "?f ` db_records (saved j rs t) = ?f ` db_records t"
  proof
    show "?f ` db_records (saved j rs t) \<subseteq> ?f ` db_records t"
    proof
      fix k
      assume "k \<in> ?f ` db_records (saved j rs t)"
      then obtain r where r: "r \<in> db_records t \<or> r \<in> set rs" "k = ?f r"
        using kept_subset [of rs] by (auto simp: saved_def)
      show "k \<in> ?f ` db_records t"
      proof (cases "r \<in> db_records t")
        case True
        with r show ?thesis by blast
      next
        case False
        with r assms(5) obtain r' where "r' \<in> db_records t" "?f r' = k" by auto
        then show ?thesis by blast
      qed
    qed
    show "?f ` db_records t \<subseteq> ?f ` db_records (saved j rs t)"
    proof
      fix k
      assume "k \<in> ?f ` db_records t"
      then obtain r where r: "r \<in> db_records t" "k = ?f r" by blast
      show "k \<in> ?f ` db_records (saved j rs t)"
      proof (cases "mr_Reference r \<in> mr_Reference ` set rs")
        case True
        then obtain r' where r': "r' \<in> set (kept rs)" "mr_Reference r' = mr_Reference r"
          using kept_refs [of rs] by (metis (no_types, lifting) imageE)
        have k: "rec_jd_key r' = jd_key j" using r' assms(5) kept_subset [of rs] by auto
        from r' assms(5) kept_subset [of rs] obtain r'' where r'': "r'' \<in> db_records t" "mr_Reference r'' = mr_Reference r"
          "rec_jd_key r'' = jd_key j" by fastforce
        have "r'' = r" using assms(1) r''(1,2) r(1) by (auto simp: constraints_def dest: inj_onD)
        with k r'' have "rec_jd_key r' = rec_jd_key r" by simp
        with r r' show ?thesis by (auto simp: saved_def intro!: image_eqI [of _ _ r'])
      next
        case False
        with r show ?thesis by (auto simp: saved_def)
      qed
    qed
  qed
  then have "card {r \<in> db_records (saved j rs t). mr_PulseNumber r = n} = card {r \<in> db_records t. mr_PulseNumber r = n}" for n
    using f [OF assms(1)] f [OF assms(2)] by simp
  with j assms(3) show ?thesis by (simp add: counted_def)
qed

lemma counted_new:
  assumes c: "constraints t" and "counted t" and "jd_key j \<notin> jd_key ` db_jet_drops t" and nz: "mj_PulseNumber j \<noteq> 0"
    and d: "distinct (map mr_Reference rs)" and fresh: "\<forall>r \<in> set rs. mr_Reference r \<notin> mr_Reference ` db_records t"
    and own: "\<forall>r \<in> set rs. rec_jd_key r = jd_key j"
  shows "counted (counted_save j rs (mj_PulseNumber j) t)"
proof -
  let ?n = "mj_PulseNumber j"
  have D: "db_jet_drops (saved j rs t) = insert j (db_jet_drops t)" "j \<notin> db_jet_drops t"
    using assms(3) by (auto simp: saved_def) (metis imageI)
  have R: "db_records (saved j rs t) = db_records t \<union> set rs" "db_records t \<inter> set rs = {}"
    using fresh by (auto simp: saved_def kept_distinct [OF d]) (metis imageI)
  have fin: "finite (db_jet_drops t)" "finite (db_records t)" using c by (simp_all add: constraints_def)
  have "{j' \<in> insert j (db_jet_drops t). mj_PulseNumber j' = n} = (if ?n = n then insert j else id) {j' \<in> db_jet_drops t. mj_PulseNumber j' = n}" for n
    by auto
  then have J: "card {j' \<in> insert j (db_jet_drops t). mj_PulseNumber j' = n} =
      (if ?n = n then 1 else 0) + card {j' \<in> db_jet_drops t. mj_PulseNumber j' = n}" for n
    using D(2) fin by simp
  have pn: "mr_PulseNumber r = ?n" if "r \<in> set rs" for r using own that by (auto simp: rec_jd_key_def jd_key_def)
  have "{r \<in> db_records t \<union> set rs. mr_PulseNumber r = n} =
      {r \<in> db_records t. mr_PulseNumber r = n} \<union> (if ?n = n then set rs else {})" for n
    using pn by auto
  moreover have "card (set rs) = length rs" using d by (metis distinct_card distinct_map)
  ultimately have K: "card {r \<in> db_records t \<union> set rs. mr_PulseNumber r = n} =
      card {r \<in> db_records t. mr_PulseNumber r = n} + (if ?n = n then length rs else 0)" for n
    using R(2) fin by (auto simp: card_Un_disjoint disjoint_iff)
  have "mp_JetDropAmount p = int (card {j' \<in> insert j (db_jet_drops t). mj_PulseNumber j' = mp_PulseNumber p}) \<and>
      mp_RecordAmount p = int (card {r \<in> db_records t \<union> set rs. mr_PulseNumber r = mp_PulseNumber p})"
    if "p \<in> (\<lambda>p. if keyed ?n p then add_amounts 1 (int (length rs)) p else p) ` db_pulses t" for p
    using that assms(2) nz unfolding J K by (auto simp: keyed_def add_amounts_def counted_def)
  then show ?thesis by (simp add: counted_def counted_save_def D(1) R(1))
qed

section \<open>The properties\<close>

text \<open>C5: saving a jet drop with its records is atomic.  If the method returns an error, no table has changed.  If it
  returns nil, the jet drop and the records are in their tables, replacing the rows with the same key, no other row of
  the two tables has changed, and the counters of the pulse are increased only if the jet drop was not there before.\<close>

theorem SaveJetDropData_atomic:
  assumes "gorm_db G T"
  shows "case SaveJetDropData G j rs n db of
      (Inl e, db') \<Rightarrow> T db' = T db
    | (Inr u, db') \<Rightarrow> T db' = saved j rs (T db) \<or>
        jd_key j \<notin> jd_key ` db_jet_drops (T db) \<and> T db' = counted_save j rs n (T db)"
  using gorm_db.SaveJetDropData_cases [OF assms, of j rs n db] gorm_db.SaveJetDropData_rollback [OF assms, of j rs n db]
  by (auto split: prod.splits sum.splits)

text \<open>On a server that is up, saving the records of a drop whose pulse is saved succeeds, and the counters are
  increased exactly when the drop is new.\<close>

theorem SaveJetDropData_counts_once:
  assumes "healthy_db G T" and "mj_PulseNumber j \<in> mp_PulseNumber ` db_pulses (T db)" and "mj_PulseNumber j \<noteq> 0"
    and "drop_records j rs" and "amounts_fit j rs (T db)"
  shows "\<exists>db'. SaveJetDropData G j rs (mj_PulseNumber j) db = (Inr (), db') \<and>
    T db' = (if jd_key j \<in> jd_key ` db_jet_drops (T db) then saved j rs (T db)
      else counted_save j rs (mj_PulseNumber j) (T db))"
  by (rule healthy_db.SaveJetDropData_succeeds [OF assms])

text \<open>Saving the same jet drop again, as a reload of its pulse does, succeeds and changes nothing.\<close>

theorem SaveJetDropData_idempotent:
  assumes "healthy_db G T" and "mj_PulseNumber j \<noteq> 0" and "drop_records j rs"
    and "SaveJetDropData G j rs (mj_PulseNumber j) db = (Inr u, db1)"
  shows "\<exists>db2. SaveJetDropData G j rs (mj_PulseNumber j) db1 = (Inr (), db2) \<and> T db2 = T db1"
proof -
  have g: "gorm_db G T" using assms(1) by (rule healthy_db.axioms)
  note c = gorm_db.SaveJetDropData_cases [OF g assms(4)]
  then have k: "jd_key j \<in> jd_key ` db_jet_drops (T db1)"
    by (auto simp: counted_save_def simp del: saved_simps(2)) (auto simp: saved_def)
  have "mp_PulseNumber ` db_pulses (T db1) = mp_PulseNumber ` db_pulses (T db)"
    using c numbers_map_pulses [of "add_amounts 1 (int (length rs))" "keyed (mj_PulseNumber j)" "saved j rs (T db)"]
    by (auto simp: counted_save_def add_amounts_def simp del: map_pulses_simps)
  with c have "mj_PulseNumber j \<in> mp_PulseNumber ` db_pulses (T db1)" by simp
  from healthy_db.SaveJetDropData_succeeds [OF assms(1) this assms(2,3)] k obtain db2 where
    "SaveJetDropData G j rs (mj_PulseNumber j) db1 = (Inr (), db2)" "T db2 = saved j rs (T db1)" by auto
  moreover have "saved j rs (T db1) = T db1" using c by (auto simp: counted_save_def saved_map_pulses saved_twice)
  ultimately show ?thesis by auto
qed


definition keeps_state :: "models_Pulse \<Rightarrow> database \<Rightarrow> models_Pulse \<Rightarrow> bool" where
  "keeps_state p t q \<longleftrightarrow> mp_PulseNumber q = mp_PulseNumber p \<and> mp_PrevPulseNumber q = mp_PrevPulseNumber p \<and>
     mp_NextPulseNumber q = mp_NextPulseNumber p \<and> mp_Timestamp q = mp_Timestamp p \<and>
     (\<forall>old \<in> db_pulses t. mp_PulseNumber old = mp_PulseNumber p \<longrightarrow> mp_IsComplete q = mp_IsComplete old \<and>
       mp_IsSequential q = mp_IsSequential old \<and> mp_JetDropAmount q = mp_JetDropAmount old \<and>
       mp_RecordAmount q = mp_RecordAmount old)"

lemma filter_image_key: "(\<And>a. k (g a) = k a) \<Longrightarrow> {x \<in> g ` A. P (k x)} = g ` {a \<in> A. P (k a)}"
  by auto

definition upserted :: "models_Pulse \<Rightarrow> models_Pulse \<Rightarrow> models_Pulse" where
  "upserted p q = (if mp_PulseNumber q = mp_PulseNumber p then excluded p q else q)"

lemma upserted_number: "mp_PulseNumber (upserted p q) = mp_PulseNumber q"
  by (simp add: upserted_def excluded_def)

lemma upsert_pulses: "db_pulses (upsert_pulse p t) = (if mp_PulseNumber p \<in> mp_PulseNumber ` db_pulses t
  then upserted p ` db_pulses t else insert p (db_pulses t))"
  by (simp add: upsert_pulse_def upserted_def [abs_def])

lemma upsert_others: "{q \<in> db_pulses (upsert_pulse p t). mp_PulseNumber q \<noteq> mp_PulseNumber p} =
  {q \<in> db_pulses t. mp_PulseNumber q \<noteq> mp_PulseNumber p}"
proof (cases "mp_PulseNumber p \<in> mp_PulseNumber ` db_pulses t")
  case True
  then show ?thesis
    using filter_image_key [of mp_PulseNumber "upserted p", OF upserted_number, of "db_pulses t" "\<lambda>n. n \<noteq> mp_PulseNumber p"]
    by (auto simp: upsert_pulses upserted_def)
next
  case False
  then show ?thesis by (auto simp: upsert_pulses)
qed

lemma upsert_own:
  assumes "constraints t"
  shows "\<exists>q. {q' \<in> db_pulses (upsert_pulse p t). mp_PulseNumber q' = mp_PulseNumber p} = {q} \<and> keeps_state p t q"
proof (cases "mp_PulseNumber p \<in> mp_PulseNumber ` db_pulses t")
  case True
  then obtain old where old: "old \<in> db_pulses t" "mp_PulseNumber old = mp_PulseNumber p" by auto
  have uniq: "q = old" if "q \<in> db_pulses t" "mp_PulseNumber q = mp_PulseNumber p" for q
    using pulse_unique [OF assms] old that by metis
  have "{q \<in> db_pulses t. mp_PulseNumber q = mp_PulseNumber p} = {old}" using old uniq by blast
  then have "{q \<in> db_pulses (upsert_pulse p t). mp_PulseNumber q = mp_PulseNumber p} = {upserted p old}"
    using filter_image_key [of mp_PulseNumber "upserted p", OF upserted_number, of "db_pulses t" "\<lambda>n. n = mp_PulseNumber p"] True
    by (simp add: upsert_pulses)
  moreover have "keeps_state p t (upserted p old)"
    unfolding keeps_state_def using uniq old(2) by (auto simp: upserted_def excluded_def)
  ultimately show ?thesis by blast
next
  case False
  then have "{q' \<in> db_pulses (upsert_pulse p t). mp_PulseNumber q' = mp_PulseNumber p} = {p}"
    by (auto simp: upsert_pulses) (metis imageI)
  moreover have "keeps_state p t p" using False unfolding keeps_state_def by (metis imageI)
  ultimately show ?thesis by blast
qed

text \<open>Saving a pulse stores the numbers and the time it is given and never takes back what the explorer itself has
  recorded: completeness, sequence and the counters of a pulse that is already there stay, other pulses are untouched,
  and on an error nothing changes.\<close>

theorem SavePulse_keeps_state:
  assumes "gorm_db G T" and "constraints (T db)"
  shows "case SavePulse G p db of
      (Inl e, db') \<Rightarrow> T db' = T db
    | (Inr u, db') \<Rightarrow> (\<exists>q. {q' \<in> db_pulses (T db'). mp_PulseNumber q' = mp_PulseNumber p} = {q} \<and> keeps_state p (T db) q) \<and>
        {q \<in> db_pulses (T db'). mp_PulseNumber q \<noteq> mp_PulseNumber p} = {q \<in> db_pulses (T db). mp_PulseNumber q \<noteq> mp_PulseNumber p} \<and>
        db_jet_drops (T db') = db_jet_drops (T db) \<and> db_records (T db') = db_records (T db)"
proof (cases "SavePulse G p db")
  case (Pair r db')
  show ?thesis
  proof (cases r)
    case (Inl e)
    with Pair gorm_db.SavePulse_rollback [OF assms(1), of p db] show ?thesis by simp
  next
    case (Inr u)
    then have "T db' = upsert_pulse p (T db)" using Pair gorm_db.SavePulse_effect [OF assms(1), of p db] by simp
    moreover have "db_jet_drops (upsert_pulse p t) = db_jet_drops t" "db_records (upsert_pulse p t) = db_records t" for t
      by (simp_all add: upsert_pulse_def)
    ultimately show ?thesis using Pair Inr upsert_own [OF assms(2), of p] upsert_others [of p "T db"] by simp
  qed
qed

lemma update_flag_spec:
  assumes "healthy_db G T" and "constraints (T db)" and "n \<noteq> 0" and "mp_PulseNumber up = 0"
    and op: "op = Transaction G (bind_db (wrap_db msg (UpdatePulse G n up)) (\<lambda>rows.
      if rows = 0 then fail_db e0 else if rows \<noteq> 1 then fail_db e1 else return_db ()))"
  shows "if n \<in> mp_PulseNumber ` db_pulses (T db)
    then \<exists>db'. op db = (Inr (), db') \<and> T db' = map_pulses (\<lambda>p. mp_PulseNumber p = n) (update_fields up) (T db)
    else \<exists>db'. op db = (Inl e0, db') \<and> T db' = T db"
proof -
  have g: "gorm_db G T" using assms(1) by (rule healthy_db.axioms)
  have k: "(keyed n) = (\<lambda>p. mp_PulseNumber p = n)" using assms(3) by (auto simp: keyed_def)
  obtain r db' where r: "op db = (r, db')" by (cases "op db")
  show ?thesis
  proof (cases r)
    case (Inr v)
    with gorm_db.update_one_row [OF g r [unfolded op Inr] assms(4)] card_keyed [OF assms(2,3)] r k
    show ?thesis by (auto split: if_splits)
  next
    case (Inl e)
    from healthy_db.transaction_fails [OF assms(1) r [unfolded op Inl]] obtain db1 db2 where t: "T db1 = T db"
      and f: "bind_db (wrap_db msg (UpdatePulse G n up)) (\<lambda>rows.
        if rows = 0 then fail_db e0 else if rows \<noteq> 1 then fail_db e1 else return_db ()) db1 = (Inl e, db2)" by blast
    from healthy_db.update_pulse_ok [OF assms(1,4), of n db1] obtain rows db3 where u: "UpdatePulse G n up db1 = (Inr rows, db3)" by blast
    have "\<And>db db' a. UpdatePulse G n up db = (Inr a, db') \<Longrightarrow> a = int (card {p \<in> db_pulses (T db). keyed n p})"
      using gorm_db.update_pulse [OF g assms(4), of n] unfolding writes_def by blast
    from this [OF u] t card_keyed [OF assms(2,3)] have "rows = (if n \<in> mp_PulseNumber ` db_pulses (T db) then 1 else 0)" by simp
    with f u gorm_db.transaction_rollback [OF g r [unfolded op Inl]] r Inl show ?thesis by (auto simp: dbop_iffs split: if_splits)
  qed
qed

text \<open>On a server that is up, completing a pulse number other than 0 sets the flag of that pulse and changes nothing
  else; for a number without a pulse it is an error and changes nothing.\<close>

theorem CompletePulse_spec:
  assumes "healthy_db G T" and "constraints (T db)" and "n \<noteq> 0"
  shows "if n \<in> mp_PulseNumber ` db_pulses (T db)
    then \<exists>db'. CompletePulse G n db = (Inr (), db') \<and>
      T db' = map_pulses (\<lambda>p. mp_PulseNumber p = n) (\<lambda>p. p\<lparr>mp_IsComplete := True\<rparr>) (T db)
    else \<exists>db'. CompletePulse G n db = (Inl (Err (''try to complete not existing pulse with number '' @ Itoa n)), db') \<and> T db' = T db"
  by (rule update_flag_spec [OF assms flag_updates_keyless(1) CompletePulse_def, unfolded update_fields_complete])

text \<open>The same holds of marking a pulse as sequential.\<close>

theorem SequencePulse_spec:
  assumes "healthy_db G T" and "constraints (T db)" and "n \<noteq> 0"
  shows "if n \<in> mp_PulseNumber ` db_pulses (T db)
    then \<exists>db'. SequencePulse G n db = (Inr (), db') \<and>
      T db' = map_pulses (\<lambda>p. mp_PulseNumber p = n) (\<lambda>p. p\<lparr>mp_IsSequential := True\<rparr>) (T db)
    else \<exists>db'. SequencePulse G n db = (Inl (Err (''try to sequence not existing pulse with number '' @ Itoa n)), db') \<and> T db' = T db"
  by (rule update_flag_spec [OF assms flag_updates_keyless(2) SequencePulse_def, unfolded update_fields_sequential])

text \<open>A pulse number of 0 leaves the update without a condition: with one pulse in the table, completing pulse 0
  completes that pulse and reports success.\<close>

definition only_pulse :: models_Pulse where
  "only_pulse = emptyPulse\<lparr>mp_PulseNumber := 65537, mp_PrevPulseNumber := 65527\<rparr>"

lemma CompletePulse_zero:
  "\<exists>s'. CompletePulse rel_gorm 0 \<lparr>t_pulses = [only_pulse], t_jet_drops = [], t_records = []\<rparr> = (Inr (), s') \<and>
     t_pulses s' = [only_pulse\<lparr>mp_IsComplete := True\<rparr>]"
  by (simp add: CompletePulse_def rel_gorm_def bind_db_def wrap_db_def return_db_def rel_count_def rel_map_def keyed_def Where_def
      Model_def update_fields_complete)

section \<open>Witnesses\<close>

definition one_drop :: models_JetDrop where
  "one_drop = emptyJetDrop\<lparr>mj_PulseNumber := 65537, mj_JetID := ''01'', mj_RecordAmount := 1\<rparr>"

definition one_rec :: models_Record where
  "one_rec = \<lparr>mr_Reference = [1], mr_Type = models_State, mr_ObjectReference = [2], mr_PrototypeReference = [3], mr_Payload = [],
     mr_PrevRecordReference = [], mr_Hash = [], mr_RawData = [], mr_JetID = ''01'', mr_PulseNumber = 65537, mr_Order = 0,
     mr_Timestamp = 5\<rparr>"

definition one_pulse_tables :: tables where
  "one_pulse_tables = \<lparr>t_pulses = [only_pulse], t_jet_drops = [], t_records = []\<rparr>"

lemma one_pulse_facts: "mj_PulseNumber one_drop \<in> mp_PulseNumber ` db_pulses (tables_db one_pulse_tables)" "mj_PulseNumber one_drop \<noteq> 0"
  "drop_records one_drop [one_rec]" "amounts_fit one_drop [one_rec] (tables_db one_pulse_tables)" "constraints (tables_db one_pulse_tables)"
  "counted (tables_db one_pulse_tables)" "jd_key one_drop \<notin> jd_key ` db_jet_drops (tables_db one_pulse_tables)"
  by (simp_all add: one_drop_def only_pulse_def one_pulse_tables_def tables_db_def drop_records_def one_rec_def jd_key_def
      rec_jd_key_def amounts_fit_def emptyPulse_def int64_range_def constraints_def counted_def emptyJetDrop_def)

theorem SaveJetDropData_atomic_witness:
  "\<exists>e db'. SaveJetDropData rel_gorm one_drop [one_rec] 65537 \<lparr>t_pulses = [], t_jet_drops = [], t_records = []\<rparr> = (Inl e, db') \<and>
     tables_db db' = tables_db \<lparr>t_pulses = [], t_jet_drops = [], t_records = []\<rparr>"
proof -
  obtain e db' where r: "SaveJetDropData rel_gorm one_drop [one_rec] 65537 \<lparr>t_pulses = [], t_jet_drops = [], t_records = []\<rparr> = (Inl e, db')"
    by (simp add: SaveJetDropData_def initJD_def updateJD_def rel_gorm_def bind_db_def wrap_db_def Contains_wrapped)
  with SaveJetDropData_atomic [OF rel.gorm_db_axioms, where j = one_drop and rs = "[one_rec]" and n = 65537
      and db = "\<lparr>t_pulses = [], t_jet_drops = [], t_records = []\<rparr>"]
  show ?thesis by simp
qed

theorem SaveJetDropData_counts_once_witness:
  "\<exists>db'. SaveJetDropData rel_gorm one_drop [one_rec] (mj_PulseNumber one_drop) one_pulse_tables = (Inr (), db') \<and>
     tables_db db' = counted_save one_drop [one_rec] (mj_PulseNumber one_drop) (tables_db one_pulse_tables)"
  using SaveJetDropData_counts_once [OF rel.healthy_db_axioms one_pulse_facts(1-4)] one_pulse_facts(7) by simp

lemma one_save: "\<exists>db1. SaveJetDropData rel_gorm one_drop [one_rec] (mj_PulseNumber one_drop) one_pulse_tables = (Inr (), db1)"
  using rel.SaveJetDropData_succeeds [OF one_pulse_facts(1-4)] by blast

theorem SaveJetDropData_idempotent_witness:
  "\<exists>db1 db2. SaveJetDropData rel_gorm one_drop [one_rec] (mj_PulseNumber one_drop) one_pulse_tables = (Inr (), db1) \<and>
     SaveJetDropData rel_gorm one_drop [one_rec] (mj_PulseNumber one_drop) db1 = (Inr (), db2) \<and> tables_db db2 = tables_db db1"
  using one_save SaveJetDropData_idempotent [OF rel.healthy_db_axioms one_pulse_facts(2,3)] by blast


theorem SavePulse_keeps_state_witness:
  "\<exists>db'. SavePulse rel_gorm only_pulse one_pulse_tables = (Inr (), db') \<and>
     (\<exists>q. {q' \<in> db_pulses (tables_db db'). mp_PulseNumber q' = mp_PulseNumber only_pulse} = {q})"
proof -
  obtain db' where "SavePulse rel_gorm only_pulse one_pulse_tables = (Inr (), db')"
    by (simp add: SavePulse_def wrap_db_def rel_gorm_def only_pulse_def)
  with SavePulse_keeps_state [OF rel.gorm_db_axioms one_pulse_facts(5), of only_pulse] show ?thesis by auto
qed

theorem CompletePulse_spec_witness:
  "\<exists>db'. CompletePulse rel_gorm 65537 one_pulse_tables = (Inr (), db') \<and>
     db_pulses (tables_db db') = {only_pulse\<lparr>mp_IsComplete := True\<rparr>}"
proof -
  have p: "db_pulses (tables_db one_pulse_tables) = {only_pulse}" "mp_PulseNumber only_pulse = 65537"
    by (simp_all add: one_pulse_tables_def tables_db_def only_pulse_def)
  with CompletePulse_spec [OF rel.healthy_db_axioms one_pulse_facts(5), of 65537] obtain db' where
    "CompletePulse rel_gorm 65537 one_pulse_tables = (Inr (), db')"
    "tables_db db' = map_pulses (\<lambda>p. mp_PulseNumber p = 65537) (\<lambda>p. p\<lparr>mp_IsComplete := True\<rparr>) (tables_db one_pulse_tables)" by auto
  with p show ?thesis by simp
qed

theorem SequencePulse_spec_witness:
  "\<exists>e db'. SequencePulse rel_gorm 7 one_pulse_tables = (Inl e, db') \<and> tables_db db' = tables_db one_pulse_tables"
  using SequencePulse_spec [OF rel.healthy_db_axioms one_pulse_facts(5), of 7]
  by (auto simp: one_pulse_tables_def tables_db_def only_pulse_def)

end
