(* ===== verification/Storage_Read.thy ===== *)
theory Storage_Read
  imports Storage_Write
begin

text \<open>What the reading methods of the storage answer: the rows the parameters ask for, in order and cut to the page, the
  neighbours of a pulse, the relatives of a jet, and the index format of the record queries.\<close>

section \<open>Neighbours of a pulse\<close>

text \<open>The two loops of \<open>GetPulses\<close> in closed form.\<close>

definition linked :: "models_Pulse list \<Rightarrow> (nat \<Rightarrow> bool) \<Rightarrow> (nat \<Rightarrow> bool) \<Rightarrow> (nat \<Rightarrow> nat) \<Rightarrow> (nat \<Rightarrow> nat) \<Rightarrow> nat \<Rightarrow> models_Pulse" where
  "linked ps has_prev has_next before after i = (ps ! i)\<lparr>
     mp_PrevPulseNumber := (if has_prev i \<and> mp_PrevPulseNumber (ps ! i) \<noteq> mp_PulseNumber (ps ! before i)
       then -1 else mp_PrevPulseNumber (ps ! i)),
     mp_NextPulseNumber := (if has_next i then if mp_PrevPulseNumber (ps ! after i) = mp_PulseNumber (ps ! i)
         then mp_PulseNumber (ps ! after i) else -1
       else mp_NextPulseNumber (ps ! i))\<rparr>"

lemma linked_simps [simp]:
  "mp_PulseNumber (linked ps hp hn b a i) = mp_PulseNumber (ps ! i)"
  "mp_PrevPulseNumber (linked ps hp hn b a i) = (if hp i \<and> mp_PrevPulseNumber (ps ! i) \<noteq> mp_PulseNumber (ps ! b i)
       then -1 else mp_PrevPulseNumber (ps ! i))"
  "mp_NextPulseNumber (linked ps hp hn b a i) = (if hn i then if mp_PrevPulseNumber (ps ! a i) = mp_PulseNumber (ps ! i)
         then mp_PulseNumber (ps ! a i) else -1 else mp_NextPulseNumber (ps ! i))"
  by (simp_all add: linked_def)

lemma fix_asc_nth:
  "n < length ps \<Longrightarrow> i < length ps \<Longrightarrow> length (fix_asc n ps) = length ps \<and>
   fix_asc n ps ! i = linked ps (\<lambda>i. 0 < i \<and> i \<le> n) (\<lambda>i. i < n) (\<lambda>i. i - 1) Suc i"
proof (induction n arbitrary: ps)
  case 0
  then show ?case by (simp add: linked_def)
next
  case (Suc n)
  let ?ok = "mp_PrevPulseNumber (ps ! Suc n) = mp_PulseNumber (ps ! n)"
  define qs where "qs = (if ?ok then ps[n := (ps ! n)\<lparr>mp_NextPulseNumber := mp_PulseNumber (ps ! Suc n)\<rparr>]
    else ps[Suc n := (ps ! Suc n)\<lparr>mp_PrevPulseNumber := -1\<rparr>, n := (ps ! n)\<lparr>mp_NextPulseNumber := -1\<rparr>])"
  have q: "mp_PulseNumber (qs ! i) = mp_PulseNumber (ps ! i)"
    "mp_PrevPulseNumber (qs ! i) = (if i = Suc n \<and> \<not> ?ok then -1 else mp_PrevPulseNumber (ps ! i))"
    "mp_NextPulseNumber (qs ! i) = (if i = n then if ?ok then mp_PulseNumber (ps ! Suc n) else -1 else mp_NextPulseNumber (ps ! i))"
    "(qs ! i)\<lparr>mp_PrevPulseNumber := x, mp_NextPulseNumber := y\<rparr> = (ps ! i)\<lparr>mp_PrevPulseNumber := x, mp_NextPulseNumber := y\<rparr>" for i x y
    using Suc.prems by (cases "i = n"; cases "i = Suc n"; simp add: qs_def)+
  have l: "length qs = length ps" "fix_asc (Suc n) ps = fix_asc n qs" by (simp_all add: qs_def)
  from Suc.IH [of qs] Suc.prems have "length (fix_asc (Suc n) ps) = length ps"
    "fix_asc (Suc n) ps ! i = linked qs (\<lambda>i. 0 < i \<and> i \<le> n) (\<lambda>i. i < n) (\<lambda>i. i - 1) Suc i" using l by simp_all
  moreover have "linked qs (\<lambda>i. 0 < i \<and> i \<le> n) (\<lambda>i. i < n) (\<lambda>i. i - 1) Suc i =
      linked ps (\<lambda>i. 0 < i \<and> i \<le> Suc n) (\<lambda>i. i < Suc n) (\<lambda>i. i - 1) Suc i"
  proof -
    consider "i < n" | "i = n" | "i = Suc n" | "i > Suc n" by linarith
    then show ?thesis
      by cases (auto simp: linked_def q)
  qed
  ultimately show ?case by simp
qed

lemma fix_desc_nth:
  "i + k < length ps \<Longrightarrow> j < length ps \<Longrightarrow> length (fix_desc i k ps) = length ps \<and>
   fix_desc i k ps ! j = linked ps (\<lambda>j. i \<le> j \<and> j < i + k) (\<lambda>j. i < j \<and> j \<le> i + k) Suc (\<lambda>j. j - 1) j"
proof (induction k arbitrary: i ps)
  case 0
  then show ?case by (simp add: linked_def)
next
  case (Suc k)
  let ?ok = "mp_PrevPulseNumber (ps ! i) = mp_PulseNumber (ps ! Suc i)"
  define qs where "qs = (if ?ok then ps[Suc i := (ps ! Suc i)\<lparr>mp_NextPulseNumber := mp_PulseNumber (ps ! i)\<rparr>]
    else ps[Suc i := (ps ! Suc i)\<lparr>mp_NextPulseNumber := -1\<rparr>, i := (ps ! i)\<lparr>mp_PrevPulseNumber := -1\<rparr>])"
  have q: "mp_PulseNumber (qs ! j) = mp_PulseNumber (ps ! j)"
    "mp_PrevPulseNumber (qs ! j) = (if j = i \<and> \<not> ?ok then -1 else mp_PrevPulseNumber (ps ! j))"
    "mp_NextPulseNumber (qs ! j) = (if j = Suc i then if ?ok then mp_PulseNumber (ps ! i) else -1 else mp_NextPulseNumber (ps ! j))"
    "(qs ! j)\<lparr>mp_PrevPulseNumber := x, mp_NextPulseNumber := y\<rparr> = (ps ! j)\<lparr>mp_PrevPulseNumber := x, mp_NextPulseNumber := y\<rparr>" for j x y
    using Suc.prems by (cases "j = i"; cases "j = Suc i"; simp add: qs_def)+
  have l: "length qs = length ps" "fix_desc i (Suc k) ps = fix_desc (Suc i) k qs" by (simp_all add: qs_def)
  from Suc.IH [of "Suc i" qs] Suc.prems have "length (fix_desc i (Suc k) ps) = length ps"
    "fix_desc i (Suc k) ps ! j = linked qs (\<lambda>j. Suc i \<le> j \<and> j < Suc i + k) (\<lambda>j. Suc i < j \<and> j \<le> Suc i + k) Suc (\<lambda>j. j - 1) j"
    using l by simp_all
  moreover have "linked qs (\<lambda>j. Suc i \<le> j \<and> j < Suc i + k) (\<lambda>j. Suc i < j \<and> j \<le> Suc i + k) Suc (\<lambda>j. j - 1) j =
      linked ps (\<lambda>j. i \<le> j \<and> j < i + Suc k) (\<lambda>j. i < j \<and> j \<le> i + Suc k) Suc (\<lambda>j. j - 1) j"
  proof -
    consider "j < i" | "j = i" | "j = Suc i" | "j > Suc i" by linarith
    then show ?thesis
      by cases (auto simp: linked_def q)
  qed
  ultimately show ?case by simp
qed

text \<open>A correct previous number is the stored one if such a pulse is saved, a correct next number that of a saved pulse which
  names this one as its previous; -1 says that the number is not known.\<close>

definition prev_ok :: "database \<Rightarrow> models_Pulse \<Rightarrow> int \<Rightarrow> bool" where
  "prev_ok t row v \<longleftrightarrow> v = -1 \<or> v = mp_PrevPulseNumber row \<and> (\<exists>q \<in> db_pulses t. mp_PulseNumber q = v)"

definition next_ok :: "database \<Rightarrow> models_Pulse \<Rightarrow> int \<Rightarrow> bool" where
  "next_ok t row w \<longleftrightarrow> w = -1 \<or> (\<exists>q \<in> db_pulses t. mp_PulseNumber q = w \<and> mp_PrevPulseNumber q = mp_PulseNumber row)"

text \<open>Apart from its two neighbours the pulse is the stored one.\<close>

definition unlinked :: "models_Pulse \<Rightarrow> models_Pulse" where
  "unlinked p = p\<lparr>mp_PrevPulseNumber := 0, mp_NextPulseNumber := 0\<rparr>"

definition link_ok :: "database \<Rightarrow> models_Pulse \<Rightarrow> models_Pulse \<Rightarrow> bool" where
  "link_ok t row out \<longleftrightarrow> unlinked out = unlinked row \<and> prev_ok t row (mp_PrevPulseNumber out) \<and> next_ok t row (mp_NextPulseNumber out)"

lemma unlinked_number: "unlinked a = unlinked b \<Longrightarrow> mp_PulseNumber a = mp_PulseNumber b"
  by (metis unlinked_def models_Pulse.select_convs(1) models_Pulse.surjective models_Pulse.update_convs(2,3))

text \<open>The pulses at the positions \<open>P\<close> have a correct previous number already, those at \<open>N\<close> a correct next one.\<close>

definition half_linked :: "database \<Rightarrow> models_Pulse list \<Rightarrow> nat set \<Rightarrow> nat set \<Rightarrow> models_Pulse list \<Rightarrow> bool" where
  "half_linked t rows P N f \<longleftrightarrow> length f = length rows \<and> (\<forall>i < length rows.
     unlinked (f ! i) = unlinked (rows ! i) \<and>
     (if i \<in> P then prev_ok t (rows ! i) (mp_PrevPulseNumber (f ! i))
      else mp_PrevPulseNumber (f ! i) = mp_PrevPulseNumber (rows ! i)) \<and>
     (i \<in> N \<longrightarrow> next_ok t (rows ! i) (mp_NextPulseNumber (f ! i))))"

lemma half_linked_done:
  "half_linked t rows P N f \<Longrightarrow> {..<length rows} \<subseteq> P \<Longrightarrow> {..<length rows} \<subseteq> N \<Longrightarrow> list_all2 (link_ok t) rows f"
  unfolding half_linked_def list_all2_conv_all_nth link_ok_def by (metis lessThan_iff subsetD)

lemma half_linked_linked:
  assumes rows: "set rows \<subseteq> db_pulses t" and len: "length f = length rows"
    and f: "\<And>i. i < length rows \<Longrightarrow> f ! i = linked rows hp hn b a i"
    and hp: "\<And>i. hp i \<Longrightarrow> b i < length rows" and hn: "\<And>i. i < length rows \<Longrightarrow> hn i \<Longrightarrow> a i < length rows"
  shows "half_linked t rows {i. hp i} {i. hn i} f"
proof -
  have in_db: "rows ! k \<in> db_pulses t" if "k < length rows" for k using that rows by auto
  have "prev_ok t (rows ! i) (mp_PrevPulseNumber (linked rows hp hn b a i))" if "hp i" for i
    using in_db [OF hp [OF that]] that by (auto simp: prev_ok_def)
  moreover have "next_ok t (rows ! i) (mp_NextPulseNumber (linked rows hp hn b a i))" if "i < length rows" "hn i" for i
    using in_db [OF hn [OF that]] that by (auto simp: next_ok_def)
  moreover have "unlinked (linked rows hp hn b a i) = unlinked (rows ! i)" for i by (simp add: linked_def unlinked_def)
  ultimately show ?thesis unfolding half_linked_def using len by (simp add: f)
qed

context gorm_db
begin

lemma updatePrevPulse_spec:
  assumes "updatePrevPulse G p db = (p', db')"
  shows "T db' = T db \<and> unlinked p' = unlinked p \<and> mp_NextPulseNumber p' = mp_NextPulseNumber p \<and>
    prev_ok (T db) p (mp_PrevPulseNumber p')"
proof -
  let ?q = "Where (\<lambda>q. mp_PulseNumber q = mp_PrevPulseNumber p) Model"
  note a = first_pulse [of ?q, unfolded answers_def]
  have "T (snd (FirstPulse G ?q db)) = T db" using a by blast
  moreover have "is_first mp_PulseNumber (\<le>) ?q (db_pulses (T db)) q" if "FirstPulse G ?q db = (Inr q, d)" for q d
    using a that by blast
  ultimately show ?thesis using assms
    by (auto simp: updatePrevPulse_def is_first_def Where_def Model_def prev_ok_def unlinked_def split: prod.splits sum.splits)
qed

lemma updateNextPulse_spec:
  assumes "updateNextPulse G p db = (p', db')"
  shows "T db' = T db \<and> unlinked p' = unlinked p \<and> mp_PrevPulseNumber p' = mp_PrevPulseNumber p \<and>
    next_ok (T db) p (mp_NextPulseNumber p')"
proof -
  let ?q = "Where (\<lambda>q. mp_PrevPulseNumber q = mp_PulseNumber p) Model"
  note a = first_pulse [of ?q, unfolded answers_def]
  have "T (snd (FirstPulse G ?q db)) = T db" using a by blast
  moreover have "is_first mp_PulseNumber (\<le>) ?q (db_pulses (T db)) q" if "FirstPulse G ?q db = (Inr q, d)" for q d
    using a that by blast
  ultimately show ?thesis using assms
    by (auto simp: updateNextPulse_def is_first_def Where_def Model_def next_ok_def unlinked_def split: prod.splits sum.splits)
qed

lemma half_linked_prev:
  assumes "half_linked (T db) rows P N f" and "i \<notin> P" and "i < length rows"
    and "update_at (updatePrevPulse G) i f db = (f', db')"
  shows "T db' = T db \<and> half_linked (T db) rows (insert i P) N f'"
proof -
  from assms(4) obtain p' where u: "updatePrevPulse G (f ! i) db = (p', db')" and f': "f' = f[i := p']"
    by (auto simp: update_at_def split: prod.splits)
  have "prev_ok (T db) (rows ! i) (mp_PrevPulseNumber p')"
    using updatePrevPulse_spec [OF u] assms(1-3) by (auto simp: half_linked_def prev_ok_def)
  with updatePrevPulse_spec [OF u] assms(1,3) f' show ?thesis by (auto simp: half_linked_def nth_list_update)
qed

lemma half_linked_next:
  assumes "half_linked (T db) rows P N f" and "i < length rows"
    and "update_at (updateNextPulse G) i f db = (f', db')"
  shows "T db' = T db \<and> half_linked (T db) rows P (insert i N) f'"
proof -
  from assms(3) obtain p' where u: "updateNextPulse G (f ! i) db = (p', db')" and f': "f' = f[i := p']"
    by (auto simp: update_at_def split: prod.splits)
  have "mp_PulseNumber (f ! i) = mp_PulseNumber (rows ! i)"
    using assms(1,2) unfolding half_linked_def by (blast intro: unlinked_number)
  then have "next_ok (T db) (rows ! i) (mp_NextPulseNumber p')"
    using updateNextPulse_spec [OF u] by (simp add: next_ok_def)
  with updateNextPulse_spec [OF u] assms(1,2) f' show ?thesis
    unfolding half_linked_def by (simp add: nth_list_update)
qed

end

section \<open>Pages of rows\<close>

lemma where_opt_simps [simp]:
  "q_where (where_opt P v q) r \<longleftrightarrow> q_where q r \<and> (\<forall>x. v = Some x \<longrightarrow> P x r)"
  "q_le (where_opt P v q) = q_le q" "q_limit (where_opt P v q) = q_limit q" "q_offset (where_opt P v q) = q_offset q"
  by (auto simp: where_opt_def Where_def split: option.splits)

lemma Where_simps [simp]:
  "q_where (Where P q) r \<longleftrightarrow> q_where q r \<and> P r" "q_le (Where P q) = q_le q"
  "q_limit (Where P q) = q_limit q" "q_offset (Where P q) = q_offset q"
  by (simp_all add: Where_def)

lemma Model_simps [simp]: "q_where Model r" "q_le Model = (\<lambda>_ _. True)" "q_limit Model = -1" "q_offset Model = -1"
  by (simp_all add: Model_def)

lemma Limit_simps [simp]:
  "q_where (Limit n q) = q_where q" "q_le (Limit n q) = q_le q" "q_limit (Limit n q) = n" "q_offset (Limit n q) = q_offset q"
  "q_where (Offset n q) = q_where q" "q_le (Offset n q) = q_le q" "q_offset (Offset n q) = n" "q_limit (Offset n q) = q_limit q"
  by (simp_all add: Limit_def Offset_def)

lemma Order_simps [simp]:
  "q_where (Order le q) = q_where q" "q_limit (Order le q) = q_limit q" "q_offset (Order le q) = q_offset q"
  "q_le (Order le q) a b \<longleftrightarrow> q_le q a b \<and> (q_le q b a \<longrightarrow> le a b)"
  by (simp_all add: Order_def)

lemma order_ok_asc [simp]: "order_ok (asc f)" "order_ok (desc f)"
  by (auto simp: order_ok_def asc_def desc_def)

text \<open>The conditions of the parameters on a pulse number and on a time.\<close>

definition number_in :: "int option \<Rightarrow> int option \<Rightarrow> int option \<Rightarrow> int option \<Rightarrow> int \<Rightarrow> bool" where
  "number_in lte lt gte gt n \<longleftrightarrow> (\<forall>x. lte = Some x \<longrightarrow> n \<le> x) \<and> (\<forall>x. lt = Some x \<longrightarrow> n < x) \<and>
     (\<forall>x. gte = Some x \<longrightarrow> x \<le> n) \<and> (\<forall>x. gt = Some x \<longrightarrow> x < n)"

lemma filterByPulseNumber_where [simp]:
  "q_where (filterByPulseNumber col q lte lt gte gt) r \<longleftrightarrow> q_where q r \<and> number_in lte lt gte gt (col r)"
  "q_le (filterByPulseNumber col q lte lt gte gt) = q_le q"
  by (auto simp: filterByPulseNumber_def number_in_def)

lemma filterByTimestamp_where [simp]:
  "q_where (filterByTimestamp col q lte gte) r \<longleftrightarrow> q_where q r \<and> number_in lte None gte None (col r)"
  "q_le (filterByTimestamp col q lte gte) = q_le q"
  by (auto simp: filterByTimestamp_def number_in_def)

lemma filterByPulse_where [simp]:
  "q_where (filterByPulse q lt gt) r \<longleftrightarrow> q_where q r \<and> number_in None lt None gt (mr_PulseNumber r)"
  "q_le (filterByPulse q lt gt) = q_le q"
  by (auto simp: filterByPulse_def number_in_def)

text \<open>\<open>rows_are P le limit offset tab rows n\<close>: the rows are a page of the selected ones in order, \<open>n\<close> is the number of all.\<close>

definition rows_are :: "('r \<Rightarrow> bool) \<Rightarrow> ('r \<Rightarrow> 'r \<Rightarrow> bool) \<Rightarrow> int \<Rightarrow> int \<Rightarrow> 'r set \<Rightarrow> 'r list \<Rightarrow> int \<Rightarrow> bool" where
  "rows_are P le limit offset tab rows n \<longleftrightarrow> (\<exists>all. distinct all \<and> set all = {r \<in> tab. P r} \<and> sorted_wrt le all \<and>
     rows = page limit offset all \<and> n = int (length all))"

lemma rows_areI:
  assumes "selects (Offset off (Limit l q)) tab rows" and "n = int (card {r \<in> tab. q_where q r})"
    and "\<And>r. P r = q_where q r" and "\<And>a b. q_le q a b \<Longrightarrow> le a b"
  shows "rows_are P le l off tab rows n"
proof -
  from assms(1) obtain all where a: "distinct all" "set all = {r \<in> tab. q_where q r}" "sorted_wrt (q_le q) all" "rows = page l off all"
    by (auto simp: selects_def)
  moreover have "int (length all) = n" using assms(2) a(1,2) by (metis distinct_card)
  moreover have "sorted_wrt le all" using sorted_wrt_mono_rel [OF _ a(3)] assms(4) by blast
  ultimately show ?thesis unfolding rows_are_def assms(3) by auto
qed

lemma rows_are_subset: "rows_are P le l off tab rows n \<Longrightarrow> set rows \<subseteq> {r \<in> tab. P r}"
  by (auto simp: rows_are_def page_def Let_def split: if_splits dest: in_set_takeD in_set_dropD)

lemma answers_read: "answers T op ok none \<Longrightarrow> op db = (r, db') \<Longrightarrow> T db' = T db"
  unfolding answers_def by (metis snd_conv)

lemma answers_ok: "answers T op ok none \<Longrightarrow> op db = (Inr a, db') \<Longrightarrow> ok (T db) a"
  unfolding answers_def by blast

context gorm_db
begin

lemma getPulses_spec:
  assumes "getPulses G q l off db = (Inr (rows, n), db')" and "order_ok (q_le q)"
    and "\<And>r. P r = q_where q r" and "\<And>a b. q_le q a b \<Longrightarrow> le a b"
  shows "T db' = T db \<and> rows_are P le l off (db_pulses (T db)) rows n"
proof -
  from assms(1) obtain db1 where f: "FindPulses G (Offset off (Limit l q)) db = (Inr rows, db1)"
    and c: "CountPulses G q db1 = (Inr n, db')" by (auto simp: getPulses_def dbop_iffs)
  have o: "order_ok (q_le (Offset off (Limit l q)))" using assms(2) by simp
  have "T db1 = T db" using answers_read [OF find_pulses [OF o] f] .
  moreover have "selects (Offset off (Limit l q)) (db_pulses (T db)) rows" using answers_ok [OF find_pulses [OF o] f] .
  ultimately show ?thesis
    using answers_read [OF count_pulses c] answers_ok [OF count_pulses c] rows_areI [of off l q _ rows n P le] assms(3,4) by simp
qed

lemma storage_getRecords_spec:
  assumes "storage_getRecords G q l off db = (Inr (rows, n), db')" and "order_ok (q_le q)"
    and "\<And>r. P r = q_where q r" and "\<And>a b. q_le q a b \<Longrightarrow> le a b"
  shows "T db' = T db \<and> rows_are P le l off (db_records (T db)) rows n"
proof -
  from assms(1) obtain db1 where f: "FindRecords G (Offset off (Limit l q)) db = (Inr rows, db1)"
    and c: "CountRecords G q db1 = (Inr n, db')" by (auto simp: storage_getRecords_def dbop_iffs)
  have o: "order_ok (q_le (Offset off (Limit l q)))" using assms(2) by simp
  have "T db1 = T db" using answers_read [OF find_records [OF o] f] .
  moreover have "selects (Offset off (Limit l q)) (db_records (T db)) rows" using answers_ok [OF find_records [OF o] f] .
  ultimately show ?thesis
    using answers_read [OF count_records c] answers_ok [OF count_records c] rows_areI [of off l q _ rows n P le] assms(3,4) by simp
qed

lemma fix_asc_links:
  assumes "set rows \<subseteq> db_pulses (T db)" and "rows \<noteq> []"
    and "update_at (updatePrevPulse G) 0 (fix_asc (length rows - 1) rows) db = (a, db1)"
    and "update_at (updateNextPulse G) (length rows - 1) a db1 = (b, db2)"
  shows "T db2 = T db \<and> list_all2 (link_ok (T db)) rows b"
proof -
  let ?n = "length rows - 1"
  have n: "?n < length rows" using assms(2) by simp
  have "half_linked (T db) rows {i. 0 < i \<and> i \<le> ?n} {i. i < ?n} (fix_asc ?n rows)"
    using fix_asc_nth [OF n] n by (intro half_linked_linked [where b = "\<lambda>i. i - 1" and a = Suc, OF assms(1)]) auto
  from half_linked_prev [OF this _ _ assms(3)] assms(2) have 1: "T db1 = T db"
    "half_linked (T db) rows (insert 0 {i. 0 < i \<and> i \<le> ?n}) {i. i < ?n} a" by auto
  from half_linked_next [OF 1(2) [folded 1(1)] n assms(4)] 1(1) have 2: "T db2 = T db"
    "half_linked (T db) rows (insert 0 {i. 0 < i \<and> i \<le> ?n}) (insert ?n {i. i < ?n}) b" by auto
  have "{..<length rows} \<subseteq> insert ?n {i. i < ?n}" "{..<length rows} \<subseteq> insert 0 {i. 0 < i \<and> i \<le> ?n}" by auto
  with half_linked_done [OF 2(2)] 2(1) show ?thesis by blast
qed

lemma fix_desc_links:
  assumes "set rows \<subseteq> db_pulses (T db)" and "rows \<noteq> []"
    and "update_at (updateNextPulse G) 0 (fix_desc 0 (length rows - 1) rows) db = (a, db1)"
    and "update_at (updatePrevPulse G) (length rows - 1) a db1 = (b, db2)"
  shows "T db2 = T db \<and> list_all2 (link_ok (T db)) rows b"
proof -
  let ?n = "length rows - 1"
  have n: "?n < length rows" "0 < length rows" using assms(2) by simp_all
  have "half_linked (T db) rows {i. 0 \<le> i \<and> i < 0 + ?n} {i. 0 < i \<and> i \<le> 0 + ?n} (fix_desc 0 ?n rows)"
    using fix_desc_nth [of 0 ?n rows] n by (intro half_linked_linked [where b = Suc and a = "\<lambda>i. i - 1", OF assms(1)]) auto
  from half_linked_next [OF this n(2) assms(3)] have 1: "T db1 = T db"
    "half_linked (T db) rows {i. i < ?n} (insert 0 {i. 0 < i \<and> i \<le> ?n}) a" by auto
  from half_linked_prev [OF 1(2) [folded 1(1)] _ n(1) assms(4)] 1(1) have 2: "T db2 = T db"
    "half_linked (T db) rows (insert ?n {i. i < ?n}) (insert 0 {i. 0 < i \<and> i \<le> ?n}) b" by auto
  have "{..<length rows} \<subseteq> insert ?n {i. i < ?n}" "{..<length rows} \<subseteq> insert 0 {i. 0 < i \<and> i \<le> ?n}" by auto
  with half_linked_done [OF 2(2)] 2(1) show ?thesis by blast
qed

lemma GetPulses_spec:
  assumes "GetPulses G fp tlte tgte lte lt gte gt up l off db = (Inr (out, n), db')"
  shows "T db' = T db \<and> (\<exists>rows. rows_are (\<lambda>p. number_in tlte None tgte None (mp_Timestamp p) \<and>
      number_in lte lt gte gt (mp_PulseNumber p) \<and> number_in fp None None None (mp_PulseNumber p))
      (if up then asc mp_PulseNumber else desc mp_PulseNumber) l off (db_pulses (T db)) rows n \<and>
    list_all2 (link_ok (T db)) rows out)"
proof -
  define q :: "models_Pulse query" where "q = (let query = filterByTimestamp mp_Timestamp Model tlte tgte;
          query = filterByPulseNumber mp_PulseNumber query lte lt gte gt;
          query = (if up then Order (asc mp_PulseNumber) query else Order (desc mp_PulseNumber) query)
      in where_opt (\<lambda>n p. mp_PulseNumber p \<le> n) fp query)"
  have qw: "(number_in tlte None tgte None (mp_Timestamp p) \<and> number_in lte lt gte gt (mp_PulseNumber p) \<and>
      number_in fp None None None (mp_PulseNumber p)) = q_where q p" for p
    by (auto simp: q_def Let_def number_in_def)
  have ql: "q_le q a b = (if up then asc mp_PulseNumber else desc mp_PulseNumber) a b" for a b
    by (simp add: q_def Let_def)
  then have qo: "order_ok (q_le q)" by (simp add: ql [abs_def])
  from assms obtain rows db1 where g: "getPulses G q l off db = (Inr (rows, n), db1)" and
    rest: "(if up then let pulses = fix_asc (length rows - 1) rows in if length rows > 0 then
        case update_at (updatePrevPulse G) 0 pulses db1 of (pulses, db) \<Rightarrow>
        case update_at (updateNextPulse G) (length rows - 1) pulses db of (pulses, db) \<Rightarrow> (Inr (pulses, n), db)
        else (Inr (pulses, n), db1)
      else let pulses = fix_desc 0 (length rows - 1) rows in if length rows > 0 then
        case update_at (updateNextPulse G) 0 pulses db1 of (pulses, db) \<Rightarrow>
        case update_at (updatePrevPulse G) (length rows - 1) pulses db of (pulses, db) \<Rightarrow> (Inr (pulses, n), db)
        else (Inr (pulses, n), db1)) = (Inr (out, n) :: error + _, db')"
    unfolding GetPulses_def Let_def q_def
    by (auto simp: bind_db_Inr wrap_db_Inr simp del: length_greater_0_conv split: if_splits prod.splits)
  from getPulses_spec [OF g qo qw, of "if up then asc mp_PulseNumber else desc mp_PulseNumber"] ql
  have t: "T db1 = T db" and r: "rows_are (\<lambda>p. number_in tlte None tgte None (mp_Timestamp p) \<and> number_in lte lt gte gt (mp_PulseNumber p) \<and>
      number_in fp None None None (mp_PulseNumber p)) (if up then asc mp_PulseNumber else desc mp_PulseNumber) l off (db_pulses (T db)) rows n"
    by auto
  have s: "set rows \<subseteq> db_pulses (T db1)" using rows_are_subset [OF r] t by auto
  have "T db' = T db1 \<and> list_all2 (link_ok (T db1)) rows out"
    using rest fix_asc_links [OF s] fix_desc_links [OF s]
    by (cases "rows = []"; cases up) (auto simp: Let_def split: prod.splits)
  with t r show ?thesis by auto
qed

end

section \<open>Lifelines\<close>

text \<open>The order of the records: by pulse and by the position in it, ascending or descending.\<close>

definition rec_le :: "bool \<Rightarrow> models_Record \<Rightarrow> models_Record \<Rightarrow> bool" where
  "rec_le up a b \<longleftrightarrow> (if up then mr_PulseNumber a < mr_PulseNumber b \<or> mr_PulseNumber a = mr_PulseNumber b \<and> mr_Order a \<le> mr_Order b
     else mr_PulseNumber b < mr_PulseNumber a \<or> mr_PulseNumber b = mr_PulseNumber a \<and> mr_Order b \<le> mr_Order a)"

definition from_index :: "string option \<Rightarrow> bool \<Rightarrow> models_Record \<Rightarrow> bool" where
  "from_index fromIndex up r \<longleftrightarrow> (case fromIndex of None \<Rightarrow> True | Some i \<Rightarrow> (case CheckIndex i of
     Inl _ \<Rightarrow> False
   | Inr (p, n) \<Rightarrow> if up then p < mr_PulseNumber r \<or> p = mr_PulseNumber r \<and> n \<le> mr_Order r
       else mr_PulseNumber r < p \<or> mr_PulseNumber r = p \<and> mr_Order r \<le> n))"

definition on_lifeline :: "bytes \<Rightarrow> string option \<Rightarrow> int option \<Rightarrow> int option \<Rightarrow> int option \<Rightarrow> int option \<Rightarrow> bool \<Rightarrow> models_Record \<Rightarrow> bool" where
  "on_lifeline objRef fromIndex lt gt tlte tgte up r \<longleftrightarrow> mr_ObjectReference r = objRef \<and> mr_Type r = models_State \<and>
     number_in None lt None gt (mr_PulseNumber r) \<and> number_in tlte None tgte None (mr_Timestamp r) \<and> from_index fromIndex up r"

lemma sortRecords_le: "q_le q = (\<lambda>_ _. True) \<Longrightarrow> q_le (sortRecordsByDirection q up) a b = rec_le up a b"
  by (auto simp: sortRecordsByDirection_def rec_le_def asc_def desc_def)

lemma sortRecords_where [simp]: "q_where (sortRecordsByDirection q up) = q_where q"
  by (simp add: sortRecordsByDirection_def)

lemma order_ok_rec_le [simp]: "order_ok (rec_le up)"
  by (auto simp: order_ok_def rec_le_def)

lemma filterRecordsByIndex_spec:
  assumes "(case fromIndex of None \<Rightarrow> Inr q | Some i \<Rightarrow> filterRecordsByIndex q i up) = Inr q'"
  shows "q_where q' r = (q_where q r \<and> from_index fromIndex up r) \<and> q_le q' = q_le q"
  using assms by (auto simp: filterRecordsByIndex_def from_index_def split: option.splits sum.splits if_splits)

lemma filterRecordsByIndex_error:
  assumes "(case fromIndex of None \<Rightarrow> Inr q | Some i \<Rightarrow> filterRecordsByIndex q i up) = Inl e"
  shows "\<exists>i. fromIndex = Some i \<and> CheckIndex i = Inl e"
  using assms by (auto simp: filterRecordsByIndex_def split: option.splits sum.splits prod.splits if_splits)

context gorm_db
begin

lemma GetLifeline_spec:
  assumes "GetLifeline G objRef fromIndex lt gt tlte tgte l off up db = (Inr (rows, n), db')"
  shows "T db' = T db \<and> rows_are (on_lifeline objRef fromIndex lt gt tlte tgte up) (rec_le up) l off (db_records (T db)) rows n"
proof -
  let ?q = "filterByTimestamp mr_Timestamp (filterByPulse
    (Where (\<lambda>r. mr_Type r = models_State) (Where (\<lambda>r. mr_ObjectReference r = objRef) Model)) lt gt) tlte tgte"
  from assms obtain q where q: "(case fromIndex of None \<Rightarrow> Inr ?q | Some i \<Rightarrow> filterRecordsByIndex ?q i up) = Inr q"
    and g: "storage_getRecords G (sortRecordsByDirection q up) l off db = (Inr (rows, n), db')"
    by (auto simp: GetLifeline_def Let_def wrap_db_Inr split: sum.splits)
  note f = filterRecordsByIndex_spec [OF q]
  then have le: "q_le (sortRecordsByDirection q up) a b = rec_le up a b" for a b by (intro sortRecords_le) simp
  show ?thesis
    using f le by (intro storage_getRecords_spec [OF g]) (auto simp: on_lifeline_def le [abs_def])
qed

lemma GetRecordsByJetDrop_spec:
  assumes "GetRecordsByJetDrop G jid fromIndex recordType l off db = (Inr (rows, n), db')"
  shows "T db' = T db \<and> rows_are (\<lambda>r. rec_jd_key r = (ji_JetID jid, ji_PulseNumber jid) \<and> (\<forall>ty. recordType = Some ty \<longrightarrow> mr_Type r = ty) \<and>
    from_index fromIndex True r) (rec_le True) l off (db_records (T db)) rows n"
proof -
  let ?q = "where_opt (\<lambda>ty r. mr_Type r = ty) recordType
    (Where (\<lambda>r. mr_JetID r = ji_JetID jid) (Where (\<lambda>r. mr_PulseNumber r = ji_PulseNumber jid) Model))"
  from assms obtain q where q: "(case fromIndex of None \<Rightarrow> Inr ?q | Some i \<Rightarrow> filterRecordsByIndex ?q i True) = Inr q"
    and g: "storage_getRecords G (sortRecordsByDirection q True) l off db = (Inr (rows, n), db')"
    by (auto simp: GetRecordsByJetDrop_def Let_def wrap_db_Inr split: sum.splits)
  note f = filterRecordsByIndex_spec [OF q]
  then have le: "q_le (sortRecordsByDirection q True) a b = rec_le True a b" for a b by (intro sortRecords_le) simp
  show ?thesis
    using f le by (intro storage_getRecords_spec [OF g]) (auto simp: rec_jd_key_def le [abs_def])
qed

end

section \<open>Relatives of a jet\<close>

lemma sql_like_any: "sql_like ''%'' s"
  by (induction s) simp_all

lemma sql_like_prefix: "bitstring p \<Longrightarrow> sql_like (p @ ''%'') s \<longleftrightarrow> prefix p s"
proof (induction p arbitrary: s)
  case Nil
  then show ?case using sql_like_any by simp
next
  case (Cons c p)
  then have "c = CHR ''0'' \<or> c = CHR ''1''" by (simp add: is_bit_def)
  with Cons show ?case by (cases s) auto
qed

lemma GetJetIDParents_eq: "GetJetIDParents jetID = map (\<lambda>i. take i jetID) [0..<Suc (length jetID)]"
proof -
  have "map (\<lambda>i. take i jetID) [0..<Suc (length jetID)] = take 0 jetID # map (\<lambda>i. take i jetID) (map Suc [0..<length jetID])"
    by (simp only: map_Suc_upt upt_conv_Cons list.map zero_less_Suc)
  then show ?thesis by (simp add: GetJetIDParents_def o_def)
qed

lemma GetJetIDParents_set: "set (GetJetIDParents jetID) = {p. prefix p jetID}"
proof
  show "set (GetJetIDParents jetID) \<subseteq> {p. prefix p jetID}" by (auto simp: GetJetIDParents_eq take_is_prefix)
  show "{p. prefix p jetID} \<subseteq> set (GetJetIDParents jetID)"
  proof
    fix p
    assume "p \<in> {p. prefix p jetID}"
    then have "p = take (length p) jetID" "length p < Suc (length jetID)"
      by (auto simp: prefix_def dest: prefix_length_le)
    then show "p \<in> set (GetJetIDParents jetID)" unfolding GetJetIDParents_eq by (metis atLeast0LessThan image_eqI lessThan_iff set_map set_upt)
  qed
qed

lemma Offset_absent: "q_offset q = -1 \<Longrightarrow> Offset (-1) (Limit l q) = Limit l q"
  by (cases q) (simp add: Offset_def Limit_def)

definition jd_le :: "bool \<Rightarrow> models_JetDrop \<Rightarrow> models_JetDrop \<Rightarrow> bool" where
  "jd_le up a b \<longleftrightarrow> (if up then mj_PulseNumber a < mj_PulseNumber b \<or> mj_PulseNumber a = mj_PulseNumber b \<and> mj_JetID b \<le> mj_JetID a
     else mj_PulseNumber b < mj_PulseNumber a \<or> mj_PulseNumber b = mj_PulseNumber a \<and> mj_JetID a \<le> mj_JetID b)"

lemma order_ok_jd_le [simp]: "order_ok (jd_le up)"
  unfolding order_ok_def jd_le_def by (cases up) (auto intro: order_trans linear)

context gorm_db
begin

lemma find_count_jet_drops:
  assumes "bind_db (FindJetDrops G (Offset off (Limit l q))) (\<lambda>jetDrops. bind_db (CountJetDrops G q) (\<lambda>n. return_db (jetDrops, n))) db
      = (Inr (rows, n), db')"
    and "order_ok (q_le q)" and "\<And>r. P r = q_where q r" and "\<And>a b. q_le q a b \<Longrightarrow> le a b"
  shows "T db' = T db \<and> rows_are P le l off (db_jet_drops (T db)) rows n"
proof -
  from assms(1) obtain db1 where f: "FindJetDrops G (Offset off (Limit l q)) db = (Inr rows, db1)"
    and c: "CountJetDrops G q db1 = (Inr n, db')" by (auto simp: dbop_iffs)
  have o: "order_ok (q_le (Offset off (Limit l q)))" using assms(2) by simp
  have "T db1 = T db" using answers_read [OF find_jet_drops [OF o] f] .
  moreover have "selects (Offset off (Limit l q)) (db_jet_drops (T db)) rows" using answers_ok [OF find_jet_drops [OF o] f] .
  ultimately show ?thesis
    using answers_read [OF count_jet_drops c] answers_ok [OF count_jet_drops c] rows_areI [of off l q _ rows n P le] assms(3,4) by simp
qed

lemma GetJetDropsByJetID_spec:
  assumes "GetJetDropsByJetID G jetID lte lt gte gt l up db = (Inr (rows, n), db')" and "bitstring jetID"
  shows "T db' = T db \<and> rows_are (\<lambda>j. (prefix (mj_JetID j) jetID \<or> prefix jetID (mj_JetID j)) \<and>
    number_in lte lt gte gt (mj_PulseNumber j)) (jd_le up) l (-1) (db_jet_drops (T db)) rows n"
proof -
  define q :: "models_JetDrop query" where "q = (let q = filterByPulseNumber mj_PulseNumber
      (Where (\<lambda>j. mj_JetID j \<in> set (GetJetIDParents jetID) \<or> sql_like (jetID @ ''%'') (mj_JetID j)) Model) lte lt gte gt
    in if up then Order (desc mj_JetID) (Order (asc mj_PulseNumber) q) else Order (asc mj_JetID) (Order (desc mj_PulseNumber) q))"
  have "q_offset q = -1" by (simp add: q_def Let_def filterByPulseNumber_def)
  with assms(1) have a: "bind_db (FindJetDrops G (Offset (-1) (Limit l q))) (\<lambda>jetDrops. bind_db (CountJetDrops G q)
      (\<lambda>n. return_db (jetDrops, n))) db = (Inr (rows, n), db')"
    unfolding Offset_absent [OF \<open>q_offset q = -1\<close>] by (simp add: GetJetDropsByJetID_def q_def Let_def)
  have le: "q_le q x y = jd_le up x y" for x y by (auto simp: q_def Let_def jd_le_def asc_def desc_def)
  then have "q_le q = jd_le up" by blast
  then have o: "order_ok (q_le q)" by simp
  show ?thesis
  proof (rule find_count_jet_drops [OF a o])
    show "((prefix (mj_JetID r) jetID \<or> prefix jetID (mj_JetID r)) \<and> number_in lte lt gte gt (mj_PulseNumber r)) = q_where q r" for r
      using assms(2) by (auto simp: q_def Let_def GetJetIDParents_set sql_like_prefix)
  qed (simp add: le)
qed

lemma GetJetDropsWithParams_spec:
  assumes "GetJetDropsWithParams G pulse fromJetDropID l off db = (Inr (rows, n), db')"
  shows "T db' = T db \<and> rows_are (\<lambda>j. mj_PulseNumber j = mp_PulseNumber pulse \<and> (\<forall>i. fromJetDropID = Some i \<longrightarrow> ji_JetID i \<le> mj_JetID j))
    (asc mj_JetID) l off (db_jet_drops (T db)) rows n"
proof -
  let ?q = "where_opt (\<lambda>i j. mj_JetID j \<ge> ji_JetID i) fromJetDropID
    (Order (asc mj_JetID) (Where (\<lambda>j. mj_PulseNumber j = mp_PulseNumber pulse) Model))"
  have le: "q_le ?q x y = asc mj_JetID x y" for x y by simp
  show ?thesis
    by (rule find_count_jet_drops [where q = ?q, OF assms [unfolded GetJetDropsWithParams_def Let_def]])
       (auto simp: le order_ok_Order)
qed

lemma find_first_row:
  assumes "FindPulses G (Limit 1 q) db = (Inr ps, db')" and "q_le q = le" and "order_ok le" and "q_offset q = -1"
  shows "T db' = T db \<and> (if {r \<in> db_pulses (T db). q_where q r} = {} then ps = []
    else \<exists>p. ps = [p] \<and> p \<in> db_pulses (T db) \<and> q_where q p \<and> (\<forall>r \<in> db_pulses (T db). q_where q r \<longrightarrow> le p r))"
proof -
  have o: "order_ok (q_le (Limit 1 q))" using assms by simp
  have refl: "le r r" for r using assms(3) by (auto simp: order_ok_def)
  from answers_ok [OF find_pulses [OF o] assms(1)] assms(2,4) obtain all where
    a: "set all = {r \<in> db_pulses (T db). q_where q r}" "sorted_wrt le all" "ps = page 1 (-1) all"
    by (auto simp: selects_def)
  have t: "T db' = T db" using answers_read [OF find_pulses [OF o] assms(1)] .
  show ?thesis
  proof (cases all)
    case Nil
    with a t show ?thesis by (simp add: page_def)
  next
    case (Cons p rest)
    have "le p r" if "r \<in> set all" for r using that a(2) Cons refl by auto
    moreover have "p \<in> {r \<in> db_pulses (T db). q_where q r}" using a(1) Cons by auto
    moreover have "ps = [p]" using a(3) Cons by (simp add: page_def)
    ultimately show ?thesis using t a(1) by auto
  qed
qed

lemma GetNextSavedPulse_spec:
  assumes "GetNextSavedPulse G from_p completedOnly db = (Inr p, db')"
  shows "T db' = T db \<and> (let later = {q \<in> db_pulses (T db). mp_PulseNumber from_p < mp_PulseNumber q \<and> (completedOnly \<longrightarrow> mp_IsComplete q)}
    in if later = {} then p = emptyPulse else p \<in> later \<and> (\<forall>q \<in> later. mp_PulseNumber p \<le> mp_PulseNumber q))"
proof -
  define q :: "models_Pulse query" where "q = Order (asc mp_PulseNumber) (let db = Where (\<lambda>p. mp_PulseNumber p > mp_PulseNumber from_p) Model
    in if completedOnly then Where (\<lambda>p. mp_IsComplete p = True) db else db)"
  have w: "q_where q r = (mp_PulseNumber from_p < mp_PulseNumber r \<and> (completedOnly \<longrightarrow> mp_IsComplete r))" for r
    by (simp add: q_def Let_def)
  have le: "q_le q = asc mp_PulseNumber" by (auto simp: q_def Let_def fun_eq_iff)
  have off: "q_offset q = -1" by (simp add: q_def Let_def)
  from assms obtain ps where f: "FindPulses G (Limit 1 q) db = (Inr ps, db')" and p: "p = (if ps = [] then emptyPulse else ps ! 0)"
    by (auto simp: GetNextSavedPulse_def q_def Let_def dbop_iffs split: if_splits)
  from find_first_row [OF f le _ off] p show ?thesis unfolding w by (auto simp: Let_def asc_def split: if_splits)
qed

lemma GetSequentialPulse_spec:
  assumes "GetSequentialPulse G db = (Inr p, db')"
  shows "T db' = T db \<and> (let seq = {q \<in> db_pulses (T db). mp_IsSequential q}
    in if seq = {} then p = emptyPulse else p \<in> seq \<and> (\<forall>q \<in> seq. mp_PulseNumber q \<le> mp_PulseNumber p))"
proof -
  define q :: "models_Pulse query" where "q = Order (desc mp_PulseNumber) (Where (\<lambda>p. mp_IsSequential p = True) Model)"
  have w: "q_where q r = mp_IsSequential r" for r by (simp add: q_def)
  have le: "q_le q = desc mp_PulseNumber" by (auto simp: q_def fun_eq_iff)
  have off: "q_offset q = -1" by (simp add: q_def)
  from assms obtain ps where f: "FindPulses G (Limit 1 q) db = (Inr ps, db')" and p: "p = (if ps = [] then emptyPulse else ps ! 0)"
    by (auto simp: GetSequentialPulse_def q_def dbop_iffs split: if_splits)
  from find_first_row [OF f le _ off] p show ?thesis unfolding w by (auto simp: Let_def desc_def split: if_splits)
qed

lemma GetPulseByPrev_spec:
  assumes "GetPulseByPrev G prevPulse db = ((p, err), db')"
  shows "T db' = T db \<and> (case err of
      None \<Rightarrow> p \<in> db_pulses (T db) \<and> mp_PrevPulseNumber p = mp_PulseNumber prevPulse
    | Some e \<Rightarrow> p = emptyPulse \<and> (e = RecordNotFound \<longrightarrow> (\<forall>q \<in> db_pulses (T db). mp_PrevPulseNumber q \<noteq> mp_PulseNumber prevPulse)))"
proof -
  let ?q = "Where (\<lambda>p. mp_PrevPulseNumber p = mp_PulseNumber prevPulse) Model"
  note a = first_pulse [of ?q]
  obtain r d where r: "FirstPulse G ?q db = (r, d)" by (cases "FirstPulse G ?q db")
  have t: "T d = T db" using answers_read [OF a r] .
  show ?thesis
  proof (cases r)
    case (Inl e)
    have "none_of ?q (db_pulses (T db))" if "e = RecordNotFound" using a r Inl that unfolding answers_def by blast
    with Inl assms r t show ?thesis by (auto simp: GetPulseByPrev_def none_of_def)
  next
    case (Inr x)
    with answers_ok [OF a r [unfolded Inr]] assms r t show ?thesis by (auto simp: GetPulseByPrev_def is_first_def)
  qed
qed

lemma GetNextComplete_spec:
  assumes "GetNextCompletePulseFilterByPrototypeReference G prev protos db = (p, db')"
  shows "T db' = T db \<and> (p = emptyPulse \<or> (\<exists>q \<in> db_pulses (T db). mp_PrevPulseNumber q = prev \<and> mp_IsComplete q \<and>
    (\<exists>r \<in> db_records (T db). mr_PulseNumber r = mp_PulseNumber q \<and> mr_PrototypeReference r \<in> set protos) \<and>
    p\<lparr>mp_RecordAmount := 0\<rparr> = q\<lparr>mp_RecordAmount := 0\<rparr>))"
proof -
  let ?q = "Where (\<lambda>(p, r). mr_PrototypeReference r \<in> set protos)
    (Where (\<lambda>(p, r). mp_IsComplete p = True) (Where (\<lambda>(p, r). mp_PrevPulseNumber p = prev) Model))"
  note f = find_pulse_join [of "Limit (-1) ?q"] and c = count_join [of ?q]
  obtain r d where r: "FindPulseJoin G (Limit (-1) ?q) db = (r, d)" by (cases "FindPulseJoin G (Limit (-1) ?q) db")
  have t: "T d = T db" using answers_read [OF f r] .
  show ?thesis
  proof (cases r)
    case (Inl e)
    with assms r t show ?thesis by (simp add: GetNextCompletePulseFilterByPrototypeReference_def)
  next
    case (Inr q)
    from answers_ok [OF f r [unfolded Inr]] have q: "q \<in> db_pulses (T db)" "mp_PrevPulseNumber q = prev" "mp_IsComplete q"
      "\<exists>r \<in> db_records (T db). mr_PulseNumber r = mp_PulseNumber q \<and> mr_PrototypeReference r \<in> set protos"
      by (auto simp: joined_def)
    obtain n d' where n: "CountJoin G ?q d = (n, d')" by (cases "CountJoin G ?q d")
    have "T d' = T db" using answers_read [OF c n] t by simp
    moreover have "p\<lparr>mp_RecordAmount := 0\<rparr> = q\<lparr>mp_RecordAmount := 0\<rparr>" "db' = d'"
      using assms r Inr n by (auto simp: GetNextCompletePulseFilterByPrototypeReference_def split: sum.splits)
    ultimately show ?thesis using q by auto
  qed
qed

end

section \<open>The properties\<close>

text \<open>The number of the pulse after \<open>n\<close>, and the number \<open>v\<close> if that pulse is saved; -1 otherwise.\<close>

definition next_of :: "database \<Rightarrow> int \<Rightarrow> int" where
  "next_of t n = (let later = mp_PulseNumber ` {q \<in> db_pulses t. mp_PrevPulseNumber q = n} in if later = {} then -1 else Min later)"

definition known :: "database \<Rightarrow> int \<Rightarrow> int" where
  "known t v = (if v \<in> mp_PulseNumber ` db_pulses t then v else -1)"

context healthy_db
begin

lemma first_pulse_total:
  "\<exists>db'. T db' = T db \<and> (if \<exists>q \<in> db_pulses (T db). P q
     then \<exists>q. FirstPulse G (Where P Model) db = (Inr q, db') \<and> q \<in> db_pulses (T db) \<and> P q \<and>
       (\<forall>q' \<in> db_pulses (T db). P q' \<longrightarrow> mp_PulseNumber q \<le> mp_PulseNumber q')
     else FirstPulse G (Where P Model) db = (Inl RecordNotFound, db'))"
proof -
  note a = first_pulse [of "Where P Model"]
  obtain r d where r: "FirstPulse G (Where P Model) db = (r, d)" by (cases "FirstPulse G (Where P Model) db")
  have t: "T d = T db" using answers_read [OF a r] .
  show ?thesis
  proof (cases r)
    case (Inl e)
    with first_pulse_fails r have e: "e = RecordNotFound" by blast
    have "none_of (Where P Model) (db_pulses (T db))" using a r Inl e unfolding answers_def by blast
    with Inl e r t show ?thesis by (intro exI [of _ d]) (auto simp: none_of_def)
  next
    case (Inr q)
    with answers_ok [OF a r [unfolded Inr]] r t show ?thesis by (intro exI [of _ d]) (auto simp: is_first_def)
  qed
qed

lemma updateNextPulse_total:
  assumes "finite (db_pulses (T db))"
  shows "\<exists>db'. T db' = T db \<and> updateNextPulse G p db = (p\<lparr>mp_NextPulseNumber := next_of (T db) (mp_PulseNumber p)\<rparr>, db')"
proof -
  let ?P = "\<lambda>q. mp_PrevPulseNumber q = mp_PulseNumber p"
  let ?later = "mp_PulseNumber ` {q \<in> db_pulses (T db). ?P q}"
  from first_pulse_total [of db ?P] obtain d where t: "T d = T db" and
    d: "if \<exists>q \<in> db_pulses (T db). ?P q
     then \<exists>q. FirstPulse G (Where ?P Model) db = (Inr q, d) \<and> q \<in> db_pulses (T db) \<and> ?P q \<and>
       (\<forall>q' \<in> db_pulses (T db). ?P q' \<longrightarrow> mp_PulseNumber q \<le> mp_PulseNumber q')
     else FirstPulse G (Where ?P Model) db = (Inl RecordNotFound, d)" by blast
  show ?thesis
  proof (cases "\<exists>q \<in> db_pulses (T db). ?P q")
    case False
    then have "next_of (T db) (mp_PulseNumber p) = -1" by (auto simp: next_of_def)
    with d False t show ?thesis by (intro exI [of _ d]) (simp add: updateNextPulse_def)
  next
    case True
    with d obtain q where f: "FirstPulse G (Where ?P Model) db = (Inr q, d)"
      and q: "mp_PulseNumber q \<in> ?later" "\<forall>n \<in> ?later. mp_PulseNumber q \<le> n" by auto
    have "Min ?later = mp_PulseNumber q" using q assms by (intro Min_eqI) auto
    moreover have "?later \<noteq> {}" using q by blast
    ultimately have "next_of (T db) (mp_PulseNumber p) = mp_PulseNumber q" unfolding next_of_def Let_def by presburger
    with f t show ?thesis by (intro exI [of _ d]) (simp add: updateNextPulse_def)
  qed
qed

lemma updatePrevPulse_total:
  "\<exists>db'. T db' = T db \<and> updatePrevPulse G p db = (p\<lparr>mp_PrevPulseNumber := known (T db) (mp_PrevPulseNumber p)\<rparr>, db')"
proof -
  from first_pulse_total [of db "\<lambda>q. mp_PulseNumber q = mp_PrevPulseNumber p"] obtain d where t: "T d = T db" and
    d: "if \<exists>q \<in> db_pulses (T db). mp_PulseNumber q = mp_PrevPulseNumber p
     then \<exists>q. FirstPulse G (Where (\<lambda>q. mp_PulseNumber q = mp_PrevPulseNumber p) Model) db = (Inr q, d)
     else FirstPulse G (Where (\<lambda>q. mp_PulseNumber q = mp_PrevPulseNumber p) Model) db = (Inl RecordNotFound, d)" by metis
  have e: "(\<exists>q \<in> db_pulses (T db). mp_PulseNumber q = mp_PrevPulseNumber p) = (mp_PrevPulseNumber p \<in> mp_PulseNumber ` db_pulses (T db))" by force
  show ?thesis using d t unfolding e by (intro exI [of _ d]) (auto simp: updatePrevPulse_def known_def)
qed

end

text \<open>On a server that is up, asking for a pulse returns the stored pulse, its previous number if that pulse is saved and
  -1 otherwise, and as its next number the least saved pulse that follows it, -1 if there is none; a number that is not
  saved is "record not found".\<close>

theorem GetPulse_neighbours:
  assumes "healthy_db G T" and "constraints (T db)"
  shows "if n \<in> mp_PulseNumber ` db_pulses (T db)
    then \<exists>p db'. p \<in> db_pulses (T db) \<and> mp_PulseNumber p = n \<and> T db' = T db \<and> GetPulse G n db = (Inr (p\<lparr>
      mp_PrevPulseNumber := known (T db) (mp_PrevPulseNumber p), mp_NextPulseNumber := next_of (T db) n\<rparr>), db')
    else \<exists>db'. GetPulse G n db = (Inl RecordNotFound, db') \<and> T db' = T db"
proof -
  have e: "(\<exists>q \<in> db_pulses (T db). mp_PulseNumber q = n) = (n \<in> mp_PulseNumber ` db_pulses (T db))" by force
  from healthy_db.first_pulse_total [OF assms(1), of db "\<lambda>q. mp_PulseNumber q = n"] obtain d where t: "T d = T db" and
    d: "if n \<in> mp_PulseNumber ` db_pulses (T db)
     then \<exists>q. FirstPulse G (Where (\<lambda>q. mp_PulseNumber q = n) Model) db = (Inr q, d) \<and> q \<in> db_pulses (T db) \<and> mp_PulseNumber q = n
     else FirstPulse G (Where (\<lambda>q. mp_PulseNumber q = n) Model) db = (Inl RecordNotFound, d)" unfolding e by (auto split: if_splits)
  show ?thesis
  proof (cases "n \<in> mp_PulseNumber ` db_pulses (T db)")
    case False
    with d t show ?thesis by (auto simp: GetPulse_def bind_db_def)
  next
    case True
    with d obtain p where p: "FirstPulse G (Where (\<lambda>q. mp_PulseNumber q = n) Model) db = (Inr p, d)" "p \<in> db_pulses (T db)"
      "mp_PulseNumber p = n" by auto
    have "finite (db_pulses (T d))" using assms(2) t by (simp add: constraints_def)
    from healthy_db.updateNextPulse_total [OF assms(1) this, of p] obtain d1 where
      d1: "T d1 = T db" "updateNextPulse G p d = (p\<lparr>mp_NextPulseNumber := next_of (T db) n\<rparr>, d1)" using t p(3) by auto
    from healthy_db.updatePrevPulse_total [OF assms(1), of d1 "p\<lparr>mp_NextPulseNumber := next_of (T db) n\<rparr>"] d1(1)
    obtain d2 where d2: "T d2 = T db" "updatePrevPulse G (p\<lparr>mp_NextPulseNumber := next_of (T db) n\<rparr>) d1 =
      (p\<lparr>mp_NextPulseNumber := next_of (T db) n, mp_PrevPulseNumber := known (T db) (mp_PrevPulseNumber p)\<rparr>, d2)" by auto
    have "GetPulse G n db = (Inr (p\<lparr>mp_PrevPulseNumber := known (T db) (mp_PrevPulseNumber p), mp_NextPulseNumber := next_of (T db) n\<rparr>), d2)"
      using p(1) d1(2) d2(2) by (simp add: GetPulse_def bind_db_def)
    with True p d2(1) show ?thesis by auto
  qed
qed

text \<open>C26: the answer to a query for pulses is a page of exactly the pulses the parameters select, in the order asked for, with
  the number of all of them; every pulse in it has its stored fields, a previous number that is its stored one and saved,
  or -1, and a next number that is a saved pulse naming this one as its previous, or -1.  The tables stay as they are.\<close>

theorem GetPulses_correct:
  assumes "gorm_db G T" and "GetPulses G fp tlte tgte lte lt gte gt up l off db = (Inr (out, n), db')"
  shows "T db' = T db \<and> (\<exists>rows. rows_are (\<lambda>p. number_in tlte None tgte None (mp_Timestamp p) \<and>
      number_in lte lt gte gt (mp_PulseNumber p) \<and> number_in fp None None None (mp_PulseNumber p))
      (if up then asc mp_PulseNumber else desc mp_PulseNumber) l off (db_pulses (T db)) rows n \<and>
    list_all2 (link_ok (T db)) rows out)"
  by (rule gorm_db.GetPulses_spec [OF assms])

text \<open>The answer to a query for a lifeline is a page of the state records of the object that the parameters select, from
  the given index on and sorted by pulse and position in the direction asked for, with the number of all of them.\<close>

theorem GetLifeline_correct:
  assumes "gorm_db G T" and "GetLifeline G objRef fromIndex lt gt tlte tgte l off up db = (Inr (rows, n), db')"
  shows "T db' = T db \<and> rows_are (on_lifeline objRef fromIndex lt gt tlte tgte up) (rec_le up) l off (db_records (T db)) rows n"
  by (rule gorm_db.GetLifeline_spec [OF assms])

text \<open>C28: the jet drops answered for a jet are those of the jet, of its ancestors and of its descendants whose pulse number is in
  range, by pulse and jet, cut to the limit.\<close>

theorem GetJetDropsByJetID_correct:
  assumes "gorm_db G T" and "GetJetDropsByJetID G jetID lte lt gte gt l up db = (Inr (rows, n), db')" and "bitstring jetID"
  shows "T db' = T db \<and> rows_are (\<lambda>j. (prefix (mj_JetID j) jetID \<or> prefix jetID (mj_JetID j)) \<and>
    number_in lte lt gte gt (mj_PulseNumber j)) (jd_le up) l (-1) (db_jet_drops (T db)) rows n"
  by (rule gorm_db.GetJetDropsByJetID_spec [OF assms])

text \<open>An index written as pulse number, colon and order is read back as these two numbers, for every pair of 64 bit numbers.\<close>

theorem CheckIndex_roundtrip:
  assumes "int64_range p" and "int64_range n"
  shows "CheckIndex (Itoa p @ '':'' @ Itoa n) = Inr (p, n)"
  using assms by (simp add: CheckIndex_def go_simps)

section \<open>Witnesses\<close>

definition pulse_no :: "int \<Rightarrow> int \<Rightarrow> models_Pulse" where
  "pulse_no n prev = emptyPulse\<lparr>mp_PulseNumber := n, mp_PrevPulseNumber := prev, mp_NextPulseNumber := n + 10, mp_Timestamp := n\<rparr>"

definition three_pulses :: tables where
  "three_pulses = \<lparr>t_pulses = [pulse_no 30 20, pulse_no 10 5, pulse_no 20 10],
     t_jet_drops = [emptyJetDrop\<lparr>mj_PulseNumber := 10, mj_JetID := ''0''\<rparr>, emptyJetDrop\<lparr>mj_PulseNumber := 10, mj_JetID := ''11''\<rparr>],
     t_records = [one_rec\<lparr>mr_JetID := ''0'', mr_PulseNumber := 10\<rparr>]\<rparr>"

lemmas pulse_no_simps = pulse_no_def emptyPulse_def

lemma three_constraints: "constraints (tables_db three_pulses)"
  by (simp add: constraints_def tables_db_def three_pulses_def pulse_no_simps emptyJetDrop_def one_rec_def jd_key_def rec_jd_key_def)

theorem GetPulse_neighbours_witness:
  "\<exists>p db'. GetPulse rel_gorm 20 three_pulses = (Inr (p\<lparr>mp_PrevPulseNumber := 10, mp_NextPulseNumber := 30\<rparr>), db') \<and> mp_PulseNumber p = 20"
proof -
  have ps: "db_pulses (tables_db three_pulses) = {pulse_no 30 20, pulse_no 10 5, pulse_no 20 10}"
    by (auto simp: tables_db_def three_pulses_def)
  have n: "20 \<in> mp_PulseNumber ` db_pulses (tables_db three_pulses)" unfolding ps by (simp add: pulse_no_simps)
  have "{q \<in> db_pulses (tables_db three_pulses). mp_PrevPulseNumber q = 20} = {pulse_no 30 20}"
    unfolding ps by (auto simp: pulse_no_simps)
  then have nx: "next_of (tables_db three_pulses) 20 = 30" by (simp add: next_of_def pulse_no_simps)
  from GetPulse_neighbours [OF rel.healthy_db_axioms three_constraints, of 20] n nx obtain p db' where
    p: "p \<in> db_pulses (tables_db three_pulses)" "mp_PulseNumber p = 20" and
    g: "GetPulse rel_gorm 20 three_pulses = (Inr (p\<lparr>mp_PrevPulseNumber := known (tables_db three_pulses) (mp_PrevPulseNumber p),
      mp_NextPulseNumber := 30\<rparr>), db')" by auto
  have "p = pulse_no 20 10" using p unfolding ps by (auto simp: pulse_no_simps)
  then have "mp_PrevPulseNumber p = 10" by (simp add: pulse_no_simps)
  moreover have "known (tables_db three_pulses) 10 = 10" unfolding known_def ps by (simp add: pulse_no_simps)
  ultimately have "known (tables_db three_pulses) (mp_PrevPulseNumber p) = 10" by simp
  with g p show ?thesis by auto
qed

lemmas rel_eval = rel_gorm_def bind_db_def wrap_db_def return_db_def rel_find_def rel_first_def rel_count_def sort_le_def page_def
  Model_def Where_def Limit_def Offset_def Order_def asc_def desc_def where_opt_def filterByPulseNumber_def filterByTimestamp_def

lemma two_pulses_found: "\<exists>out db'. GetPulses rel_gorm None None None None (Some 30) None None True 2 0 three_pulses = (Inr (out, 2), db')"
  by (simp add: GetPulses_def getPulses_def three_pulses_def rel_eval pulse_no_simps Let_def update_at_def updatePrevPulse_def
      updateNextPulse_def)

theorem GetPulses_correct_witness:
  "\<exists>out db'. GetPulses rel_gorm None None None None (Some 30) None None True 2 0 three_pulses = (Inr (out, 2), db') \<and>
     (\<exists>rows. list_all2 (link_ok (tables_db three_pulses)) rows out)"
  using two_pulses_found GetPulses_correct [OF rel.gorm_db_axioms] by blast

lemma lifeline_found: "\<exists>rows n db'. GetLifeline rel_gorm [2] None None None None None 10 0 False three_pulses = (Inr (rows, n), db')"
  by (simp add: GetLifeline_def storage_getRecords_def rel_gorm_def bind_db_def wrap_db_def return_db_def Let_def)

theorem GetLifeline_correct_witness:
  "\<exists>rows n db'. GetLifeline rel_gorm [2] None None None None None 10 0 False three_pulses = (Inr (rows, n), db') \<and>
     rows_are (on_lifeline [2] None None None None None False) (rec_le False) 10 0 (db_records (tables_db three_pulses)) rows n"
  using lifeline_found GetLifeline_correct [OF rel.gorm_db_axioms] by blast

lemma relatives_found: "\<exists>rows n db'. GetJetDropsByJetID rel_gorm ''1'' None None None None 10 True three_pulses = (Inr (rows, n), db')"
  by (simp add: GetJetDropsByJetID_def rel_gorm_def bind_db_def wrap_db_def return_db_def Let_def)

theorem GetJetDropsByJetID_correct_witness:
  "\<exists>rows n db'. GetJetDropsByJetID rel_gorm ''1'' None None None None 10 True three_pulses = (Inr (rows, n), db') \<and>
     rows_are (\<lambda>j. (prefix (mj_JetID j) ''1'' \<or> prefix ''1'' (mj_JetID j)) \<and> number_in None None None None (mj_PulseNumber j))
       (jd_le True) 10 (-1) (db_jet_drops (tables_db three_pulses)) rows n"
proof -
  have "bitstring ''1''" by simp
  with relatives_found GetJetDropsByJetID_correct [OF rel.gorm_db_axioms] show ?thesis by blast
qed

theorem CheckIndex_roundtrip_witness: "CheckIndex (Itoa 65537 @ '':'' @ Itoa 3) = Inr (65537, 3)"
  by (rule CheckIndex_roundtrip) (simp_all add: int64_range_def)

end
