(* ===== verification/Controller.thy ===== *)
theory Controller
  imports Completeness Missed_Data Storage_Read
begin

text \<open>\<open>etl/controller/controller.go\<close> and the rest of \<open>etl/controller/pulsemaintainer.go\<close>: the register of jets received for
  incomplete pulses, the maintainer that completes pulses or asks for their data again, and the sequencer that follows
  the chain of complete pulses.  The controller reaches the database through the interface \<open>interfaces.Storage\<close>, here the
  record \<open>Storage_iface\<close> with the laws of the locale \<open>pulse_store\<close>; the storage of this repository satisfies them.\<close>

section \<open>The interface to the storage\<close>

record 'st Storage_iface =
  s_SavePulse :: "models_Pulse \<Rightarrow> ('st, unit) dbop"
  s_SaveJetDropData :: "models_JetDrop \<Rightarrow> models_Record list \<Rightarrow> int \<Rightarrow> ('st, unit) dbop"
  s_CompletePulse :: "int \<Rightarrow> ('st, unit) dbop"
  s_SequencePulse :: "int \<Rightarrow> ('st, unit) dbop"
  s_GetIncompletePulses :: "('st, models_Pulse list) dbop"
  s_GetSequentialPulse :: "('st, models_Pulse) dbop"
  s_GetPulseByPrev :: "models_Pulse \<Rightarrow> 'st \<Rightarrow> (models_Pulse \<times> error option) \<times> 'st"
  s_GetNextSavedPulse :: "models_Pulse \<Rightarrow> bool \<Rightarrow> ('st, models_Pulse) dbop"
  s_GetJetDrops :: "models_Pulse \<Rightarrow> ('st, models_JetDrop list) dbop"

text \<open>\<open>storage.NewStorage(db)\<close> as an \<open>interfaces.Storage\<close>.\<close>

definition NewStorage :: "'db gorm \<Rightarrow> 'db Storage_iface" where
  "NewStorage G = \<lparr>s_SavePulse = SavePulse G, s_SaveJetDropData = SaveJetDropData G, s_CompletePulse = CompletePulse G,
     s_SequencePulse = SequencePulse G, s_GetIncompletePulses = GetIncompletePulses G,
     s_GetSequentialPulse = GetSequentialPulse G, s_GetPulseByPrev = GetPulseByPrev G,
     s_GetNextSavedPulse = GetNextSavedPulse G, s_GetJetDrops = GetJetDrops G\<rparr>"

section \<open>State\<close>

record controller_cfg =
  cfg_PulsePeriod :: int
  cfg_SequentialPeriod :: int
  cfg_ReloadPeriod :: int
  cfg_ReloadCleanPeriod :: int

text \<open>The inner map of the register has no values: it is the list of its keys.  \<open>ct_loads\<close> is the history of the calls to
  \<open>extractor.LoadJetDrops\<close>, whose result is only logged.\<close>

record 'st Controller =
  ct_cfg :: controller_cfg
  ct_jetDropRegister :: "(types_Pulse, string list) gomap"
  ct_missedDataManager :: MissedDataManager
  ct_sequentialPulse :: models_Pulse
  ct_incompletePulseCounter :: int
  ct_platformVersion :: int
  ct_storage :: 'st
  ct_loads :: "(int \<times> int) list"

definition NewController :: "controller_cfg \<Rightarrow> 'st \<Rightarrow> int \<Rightarrow> 'st Controller" where
  "NewController cfg storage pv = \<lparr>ct_cfg = cfg, ct_jetDropRegister = [],
     ct_missedDataManager = NewMissedDataManager (10 ^ 9 * cfg_ReloadPeriod cfg) (10 ^ 9 * cfg_ReloadCleanPeriod cfg),
     ct_sequentialPulse = emptyPulse, ct_incompletePulseCounter = 0, ct_platformVersion = pv, ct_storage = storage, ct_loads = []\<rparr>"

section \<open>Operations\<close>

definition add_jet :: "string \<Rightarrow> string list \<Rightarrow> string list" where
  "add_jet jetID jets = (if jetID \<in> set jets then jets else jets @ [jetID])"

definition SetJetDropData :: "types_Pulse \<Rightarrow> string \<Rightarrow> 'st Controller \<Rightarrow> 'st Controller" where
  "SetJetDropData pulse jetID c =
     (let register = (if map_of (ct_jetDropRegister c) pulse = None then map_put pulse [] (ct_jetDropRegister c)
            else ct_jetDropRegister c)
      in c\<lparr>ct_jetDropRegister := map_put pulse (add_jet jetID (the (map_of register pulse))) register\<rparr>)"

text \<open>The key the controller builds for a pulse of the database leaves the epoch and the time of the pulse at zero.\<close>

definition register_key :: "models_Pulse \<Rightarrow> types_Pulse" where
  "register_key p = \<lparr>tp_PulseNo = mp_PulseNumber p, tp_EpochPulseNo = 0, tp_PulseTimestamp = 0,
     tp_NextPulseNumber = mp_NextPulseNumber p, tp_PrevPulseNumber = mp_PrevPulseNumber p\<rparr>"

fun set_incomplete_loop :: "'st Storage_iface \<Rightarrow> models_Pulse list \<Rightarrow> 'st Controller \<Rightarrow> error option \<times> 'st Controller" where
  "set_incomplete_loop S [] c = (None, c)"
| "set_incomplete_loop S (p # ps) c =
     (let key = register_key p;
          c = c\<lparr>ct_jetDropRegister := map_put key [] (ct_jetDropRegister c)\<rparr>
      in case s_GetJetDrops S p (ct_storage c) of
           (Inl err, st) \<Rightarrow> (Some (Wrap err (''can't get jetDrops for pulse '' @ Itoa (mp_PulseNumber p) @ '' from storage'')),
             c\<lparr>ct_storage := st\<rparr>)
         | (Inr jetDrops, st) \<Rightarrow>
             set_incomplete_loop S ps (fold (\<lambda>jd. SetJetDropData key (mj_JetID jd)) jetDrops (c\<lparr>ct_storage := st\<rparr>)))"

definition setIncompletePulses :: "'st Storage_iface \<Rightarrow> 'st Controller \<Rightarrow> error option \<times> 'st Controller" where
  "setIncompletePulses S c = (case s_GetIncompletePulses S (ct_storage c) of
     (Inl err, st) \<Rightarrow> (Some (Wrap err ''can't get not complete pulses from storage''), c\<lparr>ct_storage := st\<rparr>)
   | (Inr pulses, st) \<Rightarrow> set_incomplete_loop S pulses (c\<lparr>ct_storage := st\<rparr>))"

definition setSeqPulse :: "'st Storage_iface \<Rightarrow> 'st Controller \<Rightarrow> error option \<times> 'st Controller" where
  "setSeqPulse S c = (case s_GetSequentialPulse S (ct_storage c) of
     (Inl err, st) \<Rightarrow> (Some (Wrap err ''can't get sequential pulse from storage''),
       c\<lparr>ct_storage := st, ct_sequentialPulse := emptyPulse\<rparr>)
   | (Inr pulse, st) \<Rightarrow> (None, c\<lparr>ct_storage := st,
       ct_sequentialPulse := (if pulse = emptyPulse then emptyPulse\<lparr>mp_PulseNumber := 0\<rparr> else pulse)\<rparr>))"

text \<open>\<open>Start\<close> up to the launch of its goroutines.\<close>

definition controller_Start :: "'st Storage_iface \<Rightarrow> 'st Controller \<Rightarrow> error option \<times> 'st Controller" where
  "controller_Start S c = (case setIncompletePulses S c of
     (Some err, c) \<Rightarrow> (Some err, c)
   | (None, c) \<Rightarrow> setSeqPulse S c)"

definition reloadData :: "insolar_lib \<Rightarrow> int \<Rightarrow> int \<Rightarrow> int \<Rightarrow> 'st Controller \<Rightarrow> 'st Controller" where
  "reloadData L now fromPulseNumber toPulseNumber c =
     (let fromPulseNumber = (if fromPulseNumber = 0 then uint (MinTimePulse L) - 1 else fromPulseNumber)
      in case Add now fromPulseNumber toPulseNumber (ct_missedDataManager c) of
           (True, mdm) \<Rightarrow> c\<lparr>ct_missedDataManager := mdm, ct_loads := ct_loads c @ [(fromPulseNumber, toPulseNumber)]\<rparr>
         | (False, mdm) \<Rightarrow> c\<lparr>ct_missedDataManager := mdm\<rparr>)"

text \<open>One round of the loop of \<open>eraseJetDropRegister\<close> over the copy of the register.\<close>

definition erase_entry :: "insolar_lib \<Rightarrow> 'st Storage_iface \<Rightarrow> string range_order \<Rightarrow> int \<Rightarrow> types_Pulse \<times> string list
    \<Rightarrow> 'st Controller \<Rightarrow> 'st Controller outcome" where
  "erase_entry L S ro now e c = (case e of (p, d) \<Rightarrow>
     bind_outcome (pulseIsComplete ro p d) (\<lambda>complete.
       if complete then
         (case s_CompletePulse S (tp_PulseNo p) (ct_storage c) of
            (Inl err, st) \<Rightarrow> Done (c\<lparr>ct_storage := st\<rparr>)
          | (Inr u, st) \<Rightarrow> Done (c\<lparr>ct_storage := st, ct_jetDropRegister := map_del p (ct_jetDropRegister c)\<rparr>))
       else if ct_platformVersion c \<noteq> 1 then Done (reloadData L now (tp_PrevPulseNumber p) (tp_PulseNo p) c)
       else Done c))"

fun erase_loop :: "insolar_lib \<Rightarrow> 'st Storage_iface \<Rightarrow> (nat \<Rightarrow> string range_order) \<Rightarrow> (nat \<Rightarrow> int) \<Rightarrow> nat
    \<Rightarrow> (types_Pulse \<times> string list) list \<Rightarrow> 'st Controller \<Rightarrow> 'st Controller outcome" where
  "erase_loop L S ros now k [] c = Done c"
| "erase_loop L S ros now k (e # es) c =
     bind_outcome (erase_entry L S (ros k) (now k) e c) (erase_loop L S ros now (Suc k) es)"

fun clean_loop :: "types_Pulse list \<Rightarrow> 'st Controller \<Rightarrow> 'st Controller" where
  "clean_loop [] c = c"
| "clean_loop (p # ps) c = clean_loop ps
     (if mp_PulseNumber (ct_sequentialPulse c) > tp_PulseNo p
      then c\<lparr>ct_jetDropRegister := map_del p (ct_jetDropRegister c)\<rparr> else c)"

definition cleanJetDropRegister :: "types_Pulse range_order \<Rightarrow> 'st Controller \<Rightarrow> 'st Controller" where
  "cleanJetDropRegister ro c = clean_loop (ro 0 (map_keys (ct_jetDropRegister c))) c"

definition erase_counter :: "types_Pulse range_order \<Rightarrow> 'st Controller \<Rightarrow> 'st Controller" where
  "erase_counter ro c =
     (if ct_platformVersion c = 1 then
        let c = (if ct_incompletePulseCounter c = 1000
                 then (cleanJetDropRegister ro c)\<lparr>ct_incompletePulseCounter := 0\<rparr> else c)
        in c\<lparr>ct_incompletePulseCounter := ct_incompletePulseCounter c + 1\<rparr>
      else c)"

text \<open>The copy is taken under the lock; its entries are visited in the order of the map.\<close>

definition register_copy :: "types_Pulse range_order \<Rightarrow> 'st Controller \<Rightarrow> (types_Pulse \<times> string list) list" where
  "register_copy ro c = map (\<lambda>p. (p, the (map_of (ct_jetDropRegister c) p))) (ro 0 (map_keys (ct_jetDropRegister c)))"

definition eraseJetDropRegister :: "insolar_lib \<Rightarrow> 'st Storage_iface \<Rightarrow> types_Pulse range_order \<Rightarrow> (nat \<Rightarrow> string range_order)
    \<Rightarrow> (nat \<Rightarrow> int) \<Rightarrow> 'st Controller \<Rightarrow> 'st Controller outcome" where
  "eraseJetDropRegister L S ro ros now c =
     bind_outcome (erase_loop L S ros now 0 (register_copy ro c) c) (\<lambda>c. Done (erase_counter ro c))"

text \<open>One round of \<open>pulseSequence\<close>, run under the lock of the sequential pulse; the first component is the time to wait
  before the next one.  A failed \<open>GetNextSavedPulse\<close> ends the round whatever its error: with "record not found" the pulse
  it returns is empty.\<close>

definition pulseSequence :: "insolar_lib \<Rightarrow> 'st Storage_iface \<Rightarrow> int \<Rightarrow> 'st Controller \<Rightarrow> int \<times> 'st Controller" where
  "pulseSequence L S now c =
     (let waitTime = cfg_SequentialPeriod (ct_cfg c)
      in case s_GetPulseByPrev S (ct_sequentialPulse c) (ct_storage c) of ((nextSequential, err), st) \<Rightarrow>
         (let c = c\<lparr>ct_storage := st\<rparr>
          in if err \<noteq> None \<and> err \<noteq> Some RecordNotFound then (waitTime, c)
             else if mp_IsComplete nextSequential then
               (case s_SequencePulse S (mp_PulseNumber nextSequential) (ct_storage c) of
                  (Inl err, st) \<Rightarrow> (waitTime, c\<lparr>ct_storage := st\<rparr>)
                | (Inr u, st) \<Rightarrow> (0, c\<lparr>ct_storage := st, ct_sequentialPulse := nextSequential\<rparr>))
             else
               (let completed = (ct_platformVersion c = 1)
                in case s_GetNextSavedPulse S (ct_sequentialPulse c) completed (ct_storage c) of
                     (Inl err, st) \<Rightarrow> (waitTime, c\<lparr>ct_storage := st\<rparr>)
                   | (Inr toPulse, st) \<Rightarrow>
                       if toPulse = emptyPulse then (waitTime, c\<lparr>ct_storage := st\<rparr>)
                       else (waitTime, reloadData L now (mp_PulseNumber (ct_sequentialPulse c)) (mp_PrevPulseNumber toPulse)
                              (c\<lparr>ct_storage := st\<rparr>)))))"

section \<open>The contract of the storage\<close>

text \<open>What the controller and the processor rely on, stated over the tables \<open>V st\<close> of a storage state.\<close>

locale pulse_store =
  fixes S :: "'st Storage_iface" and V :: "'st \<Rightarrow> database"
  assumes save_pulse: "writes V (s_SavePulse S p) (\<lambda>t _ t'. mp_PulseNumber p \<noteq> 0 \<and> t' = upsert_pulse p t)"
    and save_data: "writes V (s_SaveJetDropData S j rs n) (\<lambda>t _ t'. mj_PulseNumber j \<in> mp_PulseNumber ` db_pulses t \<and>
      (\<forall>r \<in> set rs. rec_jd_key r \<in> insert (jd_key j) (jd_key ` db_jet_drops t)) \<and> (t' = saved j rs t \<or> t' = counted_save j rs n t))"
    and complete_pulse: "writes V (s_CompletePulse S n) (\<lambda>t _ t'. t' = map_pulses (keyed n) (\<lambda>p. p\<lparr>mp_IsComplete := True\<rparr>) t)"
    and sequence_pulse: "writes V (s_SequencePulse S n) (\<lambda>t _ t'. t' = map_pulses (keyed n) (\<lambda>p. p\<lparr>mp_IsSequential := True\<rparr>) t)"
    and incomplete_pulses: "answers V (s_GetIncompletePulses S) (\<lambda>t ps. set ps = {p \<in> db_pulses t. \<not> mp_IsComplete p}) (\<lambda>_. True)"
    and sequential_pulse: "answers V (s_GetSequentialPulse S) (\<lambda>t p. let seq = {q \<in> db_pulses t. mp_IsSequential q}
      in if seq = {} then p = emptyPulse else p \<in> seq \<and> (\<forall>q \<in> seq. mp_PulseNumber q \<le> mp_PulseNumber p)) (\<lambda>_. True)"
    and pulse_by_prev: "s_GetPulseByPrev S prevPulse st = ((p, err), st') \<Longrightarrow> V st' = V st \<and> (case err of
        None \<Rightarrow> p \<in> db_pulses (V st) \<and> mp_PrevPulseNumber p = mp_PulseNumber prevPulse
      | Some e \<Rightarrow> p = emptyPulse \<and> (e = RecordNotFound \<longrightarrow> (\<forall>q \<in> db_pulses (V st). mp_PrevPulseNumber q \<noteq> mp_PulseNumber prevPulse)))"
    and next_saved_pulse: "answers V (s_GetNextSavedPulse S from_p completed)
      (\<lambda>t p. let later = {q \<in> db_pulses t. mp_PulseNumber from_p < mp_PulseNumber q \<and> (completed \<longrightarrow> mp_IsComplete q)}
        in if later = {} then p = emptyPulse else p \<in> later \<and> (\<forall>q \<in> later. mp_PulseNumber p \<le> mp_PulseNumber q)) (\<lambda>_. True)"
    and jet_drops: "answers V (s_GetJetDrops S p) (\<lambda>t js. set js = {j \<in> db_jet_drops t. mj_PulseNumber j = mp_PulseNumber p}) (\<lambda>_. True)"

lemma writesI: "(\<And>db db' e. op db = (Inl e, db') \<Longrightarrow> T db' = T db) \<Longrightarrow> (\<And>db db' a. op db = (Inr a, db') \<Longrightarrow> eff (T db) a (T db'))
  \<Longrightarrow> writes T op eff"
  by (auto simp: writes_def)

lemma writes_ok: "writes T op eff \<Longrightarrow> op db = (Inr a, db') \<Longrightarrow> eff (T db) a (T db')"
  by (auto simp: writes_def)

lemma writes_fail: "writes T op eff \<Longrightarrow> op db = (Inl e, db') \<Longrightarrow> T db' = T db"
  by (auto simp: writes_def)

lemma answersI: "(\<And>db db' r. op db = (r, db') \<Longrightarrow> T db' = T db) \<Longrightarrow> (\<And>db db' a. op db = (Inr a, db') \<Longrightarrow> ok (T db) a)
  \<Longrightarrow> answers T op ok (\<lambda>_. True)"
  unfolding answers_def by (metis surjective_pairing)

context gorm_db
begin

lemma CompletePulse_writes: "writes T (CompletePulse G n) (\<lambda>t _ t'. t' = map_pulses (keyed n) (\<lambda>p. p\<lparr>mp_IsComplete := True\<rparr>) t)"
  using update_one_row [OF _ flag_updates_keyless(1)] transaction_rollback
  by (intro writesI) (auto simp: CompletePulse_def update_fields_complete)

lemma SequencePulse_writes: "writes T (SequencePulse G n) (\<lambda>t _ t'. t' = map_pulses (keyed n) (\<lambda>p. p\<lparr>mp_IsSequential := True\<rparr>) t)"
  using update_one_row [OF _ flag_updates_keyless(2)] transaction_rollback
  by (intro writesI) (auto simp: SequencePulse_def update_fields_sequential)

lemma GetIncompletePulses_answers:
  "answers T (GetIncompletePulses G) (\<lambda>t ps. set ps = {p \<in> db_pulses t. \<not> mp_IsComplete p}) (\<lambda>_. True)"
proof -
  let ?q = "Where (\<lambda>p. mp_IsComplete p = False) Model"
  have o: "order_ok (q_le ?q)" by simp
  note a = find_pulses [OF o]
  show ?thesis unfolding GetIncompletePulses_def
    using answers_read [OF a] selects_all [OF answers_ok [OF a]] by (intro answersI) auto
qed

lemma GetJetDrops_answers:
  "answers T (GetJetDrops G p) (\<lambda>t js. set js = {j \<in> db_jet_drops t. mj_PulseNumber j = mp_PulseNumber p}) (\<lambda>_. True)"
proof -
  let ?q = "Where (\<lambda>j. mj_PulseNumber j = mp_PulseNumber p) Model"
  have o: "order_ok (q_le ?q)" by simp
  note a = find_jet_drops [OF o]
  show ?thesis unfolding GetJetDrops_def
    using answers_read [OF a] selects_all [OF answers_ok [OF a]] by (intro answersI) auto
qed

lemma find_pulses_read: "order_ok (q_le q) \<Longrightarrow> bind_db (FindPulses G q) (\<lambda>ps. if length ps = 0 then return_db x else return_db (ps ! 0)) db = (r, db')
  \<Longrightarrow> T db' = T db"
  using answers_read [OF find_pulses, of q db] by (auto simp: bind_db_def return_db_def split: prod.splits sum.splits if_splits)

lemma GetSequentialPulse_answers:
  "answers T (GetSequentialPulse G) (\<lambda>t p. let seq = {q \<in> db_pulses t. mp_IsSequential q}
     in if seq = {} then p = emptyPulse else p \<in> seq \<and> (\<forall>q \<in> seq. mp_PulseNumber q \<le> mp_PulseNumber p)) (\<lambda>_. True)"
proof (rule answersI)
  show "GetSequentialPulse G db = (r, db') \<Longrightarrow> T db' = T db" for db db' r
    unfolding GetSequentialPulse_def by (erule find_pulses_read [rotated]) (simp add: order_ok_Order)
qed (use GetSequentialPulse_spec in blast)

lemma GetNextSavedPulse_answers:
  "answers T (GetNextSavedPulse G from_p completed) (\<lambda>t p. let later = {q \<in> db_pulses t. mp_PulseNumber from_p < mp_PulseNumber q \<and> (completed \<longrightarrow> mp_IsComplete q)}
     in if later = {} then p = emptyPulse else p \<in> later \<and> (\<forall>q \<in> later. mp_PulseNumber p \<le> mp_PulseNumber q)) (\<lambda>_. True)"
proof (rule answersI)
  show "GetNextSavedPulse G from_p completed db = (r, db') \<Longrightarrow> T db' = T db" for db db' r
    unfolding GetNextSavedPulse_def Let_def by (erule find_pulses_read [rotated]) (simp add: order_ok_Order)
qed (use GetNextSavedPulse_spec in blast)

end

text \<open>The storage of this repository keeps the contract whenever the database keeps its own.\<close>

sublocale gorm_db \<subseteq> store: pulse_store "NewStorage G" T
proof
  show "writes T (s_SavePulse (NewStorage G) p) (\<lambda>t _ t'. mp_PulseNumber p \<noteq> 0 \<and> t' = upsert_pulse p t)" for p
    using SavePulse_effect SavePulse_rollback by (intro writesI) (auto simp: NewStorage_def)
  show "writes T (s_SaveJetDropData (NewStorage G) j rs n) (\<lambda>t _ t'. mj_PulseNumber j \<in> mp_PulseNumber ` db_pulses t \<and>
      (\<forall>r \<in> set rs. rec_jd_key r \<in> insert (jd_key j) (jd_key ` db_jet_drops t)) \<and> (t' = saved j rs t \<or> t' = counted_save j rs n t))" for j rs n
  proof (rule writesI)
    fix db db' e
    assume "s_SaveJetDropData (NewStorage G) j rs n db = (Inl e, db')"
    then show "T db' = T db" using SaveJetDropData_rollback by (simp add: NewStorage_def)
  next
    fix db db' a
    assume "s_SaveJetDropData (NewStorage G) j rs n db = (Inr a, db')"
    then have "SaveJetDropData G j rs n db = (Inr a, db')" by (simp add: NewStorage_def)
    from SaveJetDropData_cases [OF this] show "mj_PulseNumber j \<in> mp_PulseNumber ` db_pulses (T db) \<and>
      (\<forall>r \<in> set rs. rec_jd_key r \<in> insert (jd_key j) (jd_key ` db_jet_drops (T db))) \<and>
      (T db' = saved j rs (T db) \<or> T db' = counted_save j rs n (T db))" by blast
  qed
  show "s_GetPulseByPrev (NewStorage G) prevPulse st = ((p, err), st') \<Longrightarrow> T st' = T st \<and> (case err of
        None \<Rightarrow> p \<in> db_pulses (T st) \<and> mp_PrevPulseNumber p = mp_PulseNumber prevPulse
      | Some e \<Rightarrow> p = emptyPulse \<and> (e = RecordNotFound \<longrightarrow> (\<forall>q \<in> db_pulses (T st). mp_PrevPulseNumber q \<noteq> mp_PulseNumber prevPulse)))" for prevPulse st p err st'
    using GetPulseByPrev_spec by (simp add: NewStorage_def)
qed (simp_all only: NewStorage_def Storage_iface.select_convs CompletePulse_writes SequencePulse_writes GetIncompletePulses_answers GetSequentialPulse_answers
    GetNextSavedPulse_answers GetJetDrops_answers)

context gorm_db
begin

lemma storage_contract: "pulse_store (NewStorage G) T"
  by (rule store.pulse_store_axioms)

end

end
