(* ===== verification/Processor.thy ===== *)
theory Processor
  imports Controller
begin

text \<open>\<open>etl/processor/processor.go\<close>: \<open>process\<close> turns a canonical jet drop into rows, saves the pulse, then the drop with its
  records, and only then tells the controller; \<open>Start\<close> and \<open>Stop\<close> run a feeder and a pool of workers around an unbuffered
  channel of tasks.  The pool is a step relation; its properties are the conservation of tasks, that the feeder never
  sends on a closed channel, and the two ways in which a worker that puts a failed task back ends badly.\<close>

section \<open>Processing a jet drop\<close>

definition fmt_bool :: "bool \<Rightarrow> string" where
  "fmt_bool b = (if b then ''true'' else ''false'')"

text \<open>\<open>%+v\<close> of a \<open>models.Pulse\<close>.\<close>

definition fmt_pulse :: "models_Pulse \<Rightarrow> string" where
  "fmt_pulse p = ''{PulseNumber:'' @ Itoa (mp_PulseNumber p) @ '' PrevPulseNumber:'' @ Itoa (mp_PrevPulseNumber p) @
     '' NextPulseNumber:'' @ Itoa (mp_NextPulseNumber p) @ '' IsComplete:'' @ fmt_bool (mp_IsComplete p) @
     '' IsSequential:'' @ fmt_bool (mp_IsSequential p) @ '' Timestamp:'' @ Itoa (mp_Timestamp p) @
     '' JetDropAmount:'' @ Itoa (mp_JetDropAmount p) @ '' RecordAmount:'' @ Itoa (mp_RecordAmount p) @ ''}''"

definition process_pulse :: "types_JetDrop \<Rightarrow> models_Pulse" where
  "process_pulse jd = (let pd = ds_PulseData (ms_Start (tj_MainSection jd)) in
     emptyPulse\<lparr>mp_PulseNumber := tp_PulseNo pd, mp_PrevPulseNumber := tp_PrevPulseNumber pd,
       mp_NextPulseNumber := tp_NextPulseNumber pd, mp_IsComplete := False, mp_Timestamp := tp_PulseTimestamp pd\<rparr>)"

definition process_jetdrop :: "types_JetDrop \<Rightarrow> models_JetDrop" where
  "process_jetdrop jd =
     (let ms = tj_MainSection jd;
          pd = ds_PulseData (ms_Start ms);
          hashes = dc_PrevDropHash (ms_DropContinue ms);
          firstPrevHash = (if length hashes > 0 then hashes ! 0 else []);
          secondPrevHash = (if length hashes > 1 then hashes ! 1 else [])
      in \<lparr>mj_PulseNumber = tp_PulseNo pd, mj_JetID = ds_JetDropPrefix (ms_Start ms), mj_FirstPrevHash = firstPrevHash,
          mj_SecondPrevHash = secondPrevHash, mj_Hash = tj_Hash jd, mj_RawData = tj_RawData jd,
          mj_Timestamp = tp_PulseTimestamp pd, mj_RecordAmount = int (length (ms_Records ms))\<rparr>)"

fun process_records :: "models_JetDrop \<Rightarrow> nat \<Rightarrow> types_Record list \<Rightarrow> models_Record list" where
  "process_records mjd i [] = []"
| "process_records mjd i (r # rs) =
     \<lparr>mr_Reference = ReferenceFromTypes (tr_Ref r), mr_Type = RecordTypeFromTypes (tr_Type r),
      mr_ObjectReference = ReferenceFromTypes (tr_ObjectReference r),
      mr_PrototypeReference = ReferenceFromTypes (tr_PrototypeReference r), mr_Payload = tr_RecordPayload r,
      mr_PrevRecordReference = ReferenceFromTypes (tr_PrevRecordReference r), mr_Hash = tr_Hash r, mr_RawData = tr_RawData r,
      mr_JetID = mj_JetID mjd, mr_PulseNumber = mj_PulseNumber mjd, mr_Order = int i, mr_Timestamp = mj_Timestamp mjd\<rparr>
     # process_records mjd (Suc i) rs"

text \<open>The three effects of \<open>process\<close>, between which other goroutines run.\<close>

definition process_save_pulse :: "'st Storage_iface \<Rightarrow> types_JetDrop \<Rightarrow> 'st Controller \<Rightarrow> error option \<times> 'st Controller" where
  "process_save_pulse S jd c = (case s_SavePulse S (process_pulse jd) (ct_storage c) of
     (Inl err, st) \<Rightarrow> (Some (Err (''cannot save pulse data: '' @ Error err @ ''. pulse = '' @ fmt_pulse (process_pulse jd))),
       c\<lparr>ct_storage := st\<rparr>)
   | (Inr u, st) \<Rightarrow> (None, c\<lparr>ct_storage := st\<rparr>))"

definition process_save_data :: "'st Storage_iface \<Rightarrow> types_JetDrop \<Rightarrow> 'st Controller \<Rightarrow> error option \<times> 'st Controller" where
  "process_save_data S jd c =
     (let mjd = process_jetdrop jd; mrs = process_records mjd 0 (ms_Records (tj_MainSection jd))
      in case s_SaveJetDropData S mjd mrs (mp_PulseNumber (process_pulse jd)) (ct_storage c) of
           (Inl err, st) \<Rightarrow> (Some (Err (''cannot save jetDrop data: '' @ Error err @ ''. jetDrop:{jetID: '' @ mj_JetID mjd @
             '', pulseNumber: '' @ Itoa (mj_PulseNumber mjd) @ ''}, record amount = '' @ Itoa (int (length mrs)))),
             c\<lparr>ct_storage := st\<rparr>)
         | (Inr u, st) \<Rightarrow> (None, c\<lparr>ct_storage := st\<rparr>))"

definition process_register :: "types_JetDrop \<Rightarrow> 'st Controller \<Rightarrow> 'st Controller" where
  "process_register jd c = SetJetDropData (ds_PulseData (ms_Start (tj_MainSection jd))) (mj_JetID (process_jetdrop jd)) c"

definition process :: "'st Storage_iface \<Rightarrow> types_JetDrop \<Rightarrow> 'st Controller \<Rightarrow> error option \<times> 'st Controller" where
  "process S jd c = (case process_save_pulse S jd c of
     (Some err, c) \<Rightarrow> (Some err, c)
   | (None, c) \<Rightarrow> (case process_save_data S jd c of
       (Some err, c) \<Rightarrow> (Some err, c)
     | (None, c) \<Rightarrow> (None, process_register jd c)))"

section \<open>The rows of a drop\<close>

lemma process_records_length [simp]: "length (process_records mjd i rs) = length rs"
  by (induction rs arbitrary: i) simp_all

lemma process_records_nth: "k < length rs \<Longrightarrow> process_records mjd i rs ! k =
  hd (process_records mjd (i + k) [rs ! k])"
  by (induction rs arbitrary: i k) (auto simp: nth_Cons split: nat.splits)

text \<open>The rows of a drop have the order of its records: the k-th row is the k-th record under the jet, the pulse and
  the time of the drop, numbered k, so sorting the rows by their order column gives the drop back.\<close>

theorem process_records_order:
  assumes "k < length rs"
  shows "\<exists>row. process_records mjd 0 rs ! k = row \<and> mr_Order row = int k \<and> mr_Reference row = tr_Ref (rs ! k) \<and>
    mr_Payload row = tr_RecordPayload (rs ! k) \<and> mr_PrevRecordReference row = tr_PrevRecordReference (rs ! k) \<and>
    mr_Type row = RecordTypeFromTypes (tr_Type (rs ! k)) \<and> rec_jd_key row = jd_key mjd \<and> mr_Timestamp row = mj_Timestamp mjd"
  by (simp add: process_records_nth [OF assms] ReferenceFromTypes_def rec_jd_key_def jd_key_def)

lemma process_records_keys: "r \<in> set (process_records mjd i rs) \<Longrightarrow> rec_jd_key r = jd_key mjd"
  by (induction rs arbitrary: i) (auto simp: rec_jd_key_def jd_key_def)

lemma process_records_refs: "map mr_Reference (process_records mjd i rs) = map tr_Ref rs"
  by (induction rs arbitrary: i) (simp_all add: ReferenceFromTypes_def)

context pulse_store
begin

lemma process_save_pulse_spec:
  assumes "process_save_pulse S jd c = (err, c')"
  shows "V (ct_storage c') = (if err = None then upsert_pulse (process_pulse jd) (V (ct_storage c)) else V (ct_storage c)) \<and>
    (err = None \<longrightarrow> mp_PulseNumber (process_pulse jd) \<noteq> 0) \<and> c' = c\<lparr>ct_storage := ct_storage c'\<rparr>"
  using assms writes_ok [OF save_pulse] writes_fail [OF save_pulse]
  by (fastforce simp: process_save_pulse_def split: prod.splits sum.splits)

lemma process_save_data_spec:
  assumes "process_save_data S jd c = (err, c')"
  shows "c' = c\<lparr>ct_storage := ct_storage c'\<rparr> \<and> (let mjd = process_jetdrop jd; mrs = process_records mjd 0 (ms_Records (tj_MainSection jd)) in
    (if err = None then mj_PulseNumber mjd \<in> mp_PulseNumber ` db_pulses (V (ct_storage c)) \<and>
        (V (ct_storage c') = saved mjd mrs (V (ct_storage c)) \<or>
         V (ct_storage c') = counted_save mjd mrs (mj_PulseNumber mjd) (V (ct_storage c)))
      else V (ct_storage c') = V (ct_storage c)))"
proof -
  let ?j = "process_jetdrop jd" and ?n = "mp_PulseNumber (process_pulse jd)"
  let ?rs = "process_records ?j 0 (ms_Records (tj_MainSection jd))"
  have n: "?n = mj_PulseNumber ?j" by (simp add: process_pulse_def process_jetdrop_def Let_def)
  obtain r st where s: "s_SaveJetDropData S ?j ?rs ?n (ct_storage c) = (r, st)" by (cases "s_SaveJetDropData S ?j ?rs ?n (ct_storage c)")
  show ?thesis
  proof (cases r)
    case (Inl e)
    with assms s writes_fail [OF save_data s [unfolded Inl]] show ?thesis by (auto simp: process_save_data_def Let_def)
  next
    case (Inr u)
    with assms s writes_ok [OF save_data s [unfolded Inr]] show ?thesis by (auto simp: process_save_data_def Let_def n)
  qed
qed

end

text \<open>C20: a drop reaches the register of the controller only after its pulse, its row and all of its records are in the
  database; if \<open>process\<close> returns an error the register is untouched and the drop's tables too.\<close>

theorem process_registers_last:
  assumes "pulse_store S V" and "process S jd c = (err, c')"
  shows "if err = None
    then ct_jetDropRegister c' = ct_jetDropRegister (process_register jd c) \<and>
      process_jetdrop jd \<in> db_jet_drops (V (ct_storage c')) \<and>
      set (kept (process_records (process_jetdrop jd) 0 (ms_Records (tj_MainSection jd)))) \<subseteq> db_records (V (ct_storage c')) \<and>
      tp_PulseNo (ds_PulseData (ms_Start (tj_MainSection jd))) \<in> mp_PulseNumber ` db_pulses (V (ct_storage c'))
    else ct_jetDropRegister c' = ct_jetDropRegister c \<and> db_jet_drops (V (ct_storage c')) = db_jet_drops (V (ct_storage c)) \<and>
      db_records (V (ct_storage c')) = db_records (V (ct_storage c))"
proof -
  obtain e1 c1 where 1: "process_save_pulse S jd c = (e1, c1)" by (cases "process_save_pulse S jd c")
  note s1 = pulse_store.process_save_pulse_spec [OF assms(1) 1]
  have up: "db_jet_drops (upsert_pulse p t) = db_jet_drops t" "db_records (upsert_pulse p t) = db_records t" for p t
    by (simp_all add: upsert_pulse_def)
  have j: "mj_PulseNumber (process_jetdrop jd) = tp_PulseNo (ds_PulseData (ms_Start (tj_MainSection jd)))"
    by (simp add: process_jetdrop_def Let_def)
  show ?thesis
  proof (cases e1)
    case (Some e)
    have "ct_jetDropRegister c1 = ct_jetDropRegister c" using s1 by (metis Controller.select_convs(2) Controller.surjective Controller.update_convs(7))
    moreover have "err = Some e" "c' = c1" using Some assms(2) 1 by (auto simp: process_def)
    ultimately show ?thesis using s1 Some by simp
  next
    case None
    obtain e2 c2 where 2: "process_save_data S jd c1 = (e2, c2)" by (cases "process_save_data S jd c1")
    note s2 = pulse_store.process_save_data_spec [OF assms(1) 2]
    have reg: "ct_jetDropRegister c2 = ct_jetDropRegister c"
      using s1 s2 by (metis Controller.select_convs(2) Controller.surjective Controller.update_convs(7))
    show ?thesis
    proof (cases e2)
      case (Some e)
      then have "err = Some e" "c' = c2" using None assms(2) 1 2 by (auto simp: process_def)
      with None Some s1 s2 reg show ?thesis by (simp add: up)
    next
      case n2: None
      let ?j = "process_jetdrop jd" and ?rs = "process_records (process_jetdrop jd) 0 (ms_Records (tj_MainSection jd))"
      from s2 n2 have pn: "mj_PulseNumber ?j \<in> mp_PulseNumber ` db_pulses (V (ct_storage c1))" and
        d: "V (ct_storage c2) = saved ?j ?rs (V (ct_storage c1)) \<or>
          V (ct_storage c2) = counted_save ?j ?rs (mj_PulseNumber ?j) (V (ct_storage c1))" by (auto simp: Let_def)
      have c': "c' = process_register jd c2" "err = None" using None n2 assms(2) 1 2 by (simp_all add: process_def)
      have "mp_PulseNumber ` db_pulses (V (ct_storage c2)) = mp_PulseNumber ` db_pulses (V (ct_storage c1))"
        using d numbers_map_pulses [of "add_amounts 1 (int (length ?rs))" "keyed (mj_PulseNumber ?j)" "saved ?j ?rs (V (ct_storage c1))"]
        by (auto simp: counted_save_def add_amounts_def simp del: map_pulses_simps)
      with d pn c' reg j show ?thesis
        by (auto simp: process_register_def SetJetDropData_def Let_def counted_save_def saved_def)
    qed
  qed
qed

section \<open>The pool of workers\<close>

definition workers_count :: "int \<Rightarrow> int" where
  "workers_count workers = (if workers < 1 then 1 else workers)"

datatype 'jd worker_pc = Idle | Processing 'jd | PuttingBack 'jd | Returned | Crashed panic

text \<open>The feeder: waiting for a drop, holding one, holding one and the mutex while it sends, or past its end.\<close>

datatype 'jd feeder_pc = Waiting | Holding 'jd | SendingTask 'jd | FeederDone

text \<open>\<open>pl_closed\<close> is the state of \<open>taskC\<close>; the mutex is held only by a feeder in \<open>SendingTask\<close>, since the other critical sections
  do not block.  \<open>pl_taken\<close>, \<open>pl_done\<close> and \<open>pl_dropped\<close> are histories: the drops taken from \<open>jdC\<close>, those processed without
  error, and those the feeder threw away because the processor was stopped.\<close>

record 'jd pool =
  pl_jdC :: "'jd list"
  pl_jdC_closed :: bool
  pl_active :: bool
  pl_closed :: bool
  pl_feeder :: "'jd feeder_pc"
  pl_workers :: "'jd worker_pc list"
  pl_taken :: "'jd list"
  pl_done :: "'jd list"
  pl_dropped :: "'jd list"

definition pool_Start :: "int \<Rightarrow> 'jd pool" where
  "pool_Start workers = \<lparr>pl_jdC = [], pl_jdC_closed = False, pl_active = True, pl_closed = False, pl_feeder = Waiting,
     pl_workers = replicate (nat (workers_count workers)) Idle, pl_taken = [], pl_done = [], pl_dropped = []\<rparr>"

text \<open>The critical section shared by \<open>Stop\<close> and the feeder at the end of \<open>jdC\<close>.\<close>

definition deactivate :: "'jd pool \<Rightarrow> 'jd pool" where
  "deactivate p = (if pl_active p then p\<lparr>pl_active := False, pl_closed := True\<rparr> else p)"

inductive pool_step :: "'jd pool \<Rightarrow> 'jd pool \<Rightarrow> bool" where
  arrive: "\<not> pl_jdC_closed p \<Longrightarrow> pool_step p (p\<lparr>pl_jdC := pl_jdC p @ [jd]\<rparr>)"
| close_jdC: "pool_step p (p\<lparr>pl_jdC_closed := True\<rparr>)"
| feeder_recv: "pl_feeder p = Waiting \<Longrightarrow> pl_jdC p = jd # rest \<Longrightarrow>
    pool_step p (p\<lparr>pl_jdC := rest, pl_feeder := Holding jd, pl_taken := pl_taken p @ [jd]\<rparr>)"
| feeder_end: "pl_feeder p = Waiting \<Longrightarrow> pl_jdC p = [] \<Longrightarrow> pl_jdC_closed p \<Longrightarrow>
    pool_step p ((deactivate p)\<lparr>pl_feeder := FeederDone\<rparr>)"
| feeder_lock: "pl_feeder p = Holding jd \<Longrightarrow> pl_active p \<Longrightarrow> pool_step p (p\<lparr>pl_feeder := SendingTask jd\<rparr>)"
| feeder_drop: "pl_feeder p = Holding jd \<Longrightarrow> \<not> pl_active p \<Longrightarrow>
    pool_step p (p\<lparr>pl_feeder := Waiting, pl_dropped := pl_dropped p @ [jd]\<rparr>)"
| feeder_send: "pl_feeder p = SendingTask jd \<Longrightarrow> \<not> pl_closed p \<Longrightarrow> i < length (pl_workers p) \<Longrightarrow> pl_workers p ! i = Idle \<Longrightarrow>
    pool_step p (p\<lparr>pl_feeder := Waiting, pl_workers := (pl_workers p)[i := Processing jd]\<rparr>)"
| worker_ok: "i < length (pl_workers p) \<Longrightarrow> pl_workers p ! i = Processing jd \<Longrightarrow>
    pool_step p (p\<lparr>pl_workers := (pl_workers p)[i := Idle], pl_done := pl_done p @ [jd]\<rparr>)"
| worker_fail: "i < length (pl_workers p) \<Longrightarrow> pl_workers p ! i = Processing jd \<Longrightarrow>
    pool_step p (p\<lparr>pl_workers := (pl_workers p)[i := PuttingBack jd]\<rparr>)"
| worker_put_back: "i < length (pl_workers p) \<Longrightarrow> k < length (pl_workers p) \<Longrightarrow> pl_workers p ! i = PuttingBack jd \<Longrightarrow>
    pl_workers p ! k = Idle \<Longrightarrow> \<not> pl_closed p \<Longrightarrow>
    pool_step p (p\<lparr>pl_workers := (pl_workers p)[i := Idle, k := Processing jd]\<rparr>)"
| worker_put_back_closed: "i < length (pl_workers p) \<Longrightarrow> pl_workers p ! i = PuttingBack jd \<Longrightarrow> pl_closed p \<Longrightarrow>
    pool_step p (p\<lparr>pl_workers := (pl_workers p)[i := Crashed SendOnClosedChannel]\<rparr>)"
| worker_return: "i < length (pl_workers p) \<Longrightarrow> pl_workers p ! i = Idle \<Longrightarrow> pl_closed p \<Longrightarrow>
    pool_step p (p\<lparr>pl_workers := (pl_workers p)[i := Returned]\<rparr>)"
| stop: "(\<And>jd. pl_feeder p \<noteq> SendingTask jd) \<Longrightarrow> pool_step p (deactivate p)"

inductive_cases pool_stepE: "pool_step p p'"

text \<open>The tasks in the hands of the feeder and of the workers.\<close>

fun in_feeder :: "'jd feeder_pc \<Rightarrow> 'jd multiset" where
  "in_feeder (Holding jd) = {#jd#}"
| "in_feeder (SendingTask jd) = {#jd#}"
| "in_feeder _ = {#}"

fun in_worker :: "'jd worker_pc \<Rightarrow> 'jd multiset" where
  "in_worker (Processing jd) = {#jd#}"
| "in_worker (PuttingBack jd) = {#jd#}"
| "in_worker _ = {#}"

definition in_workers :: "'jd worker_pc list \<Rightarrow> 'jd multiset" where
  "in_workers ws = sum_list (map in_worker ws)"

definition crashed :: "'jd worker_pc list \<Rightarrow> bool" where
  "crashed ws \<longleftrightarrow> (\<exists>e. Crashed e \<in> set ws)"

definition pool_inv :: "'jd pool \<Rightarrow> bool" where
  "pool_inv p \<longleftrightarrow> pl_closed p = (\<not> pl_active p) \<and> (\<forall>jd. pl_feeder p = SendingTask jd \<longrightarrow> pl_active p) \<and>
     (crashed (pl_workers p) \<or>
       mset (pl_taken p) = mset (pl_done p) + mset (pl_dropped p) + in_feeder (pl_feeder p) + in_workers (pl_workers p)) \<and>
     (crashed (pl_workers p) \<longrightarrow> pl_closed p) \<and> (pl_dropped p \<noteq> [] \<longrightarrow> \<not> pl_active p)"

lemma in_workers_update:
  "i < length ws \<Longrightarrow> in_workers (ws[i := w]) + in_worker (ws ! i) = in_workers ws + in_worker w"
  unfolding in_workers_def by (induction ws arbitrary: i) (auto simp: nth_Cons split: nat.splits)

lemma in_workers_same: "i < length ws \<Longrightarrow> in_worker w = in_worker (ws ! i) \<Longrightarrow> in_workers (ws[i := w]) = in_workers ws"
  using in_workers_update [of i ws w] by simp

lemma in_workers_add: "i < length ws \<Longrightarrow> ws ! i = Idle \<Longrightarrow> in_workers (ws[i := w]) = in_workers ws + in_worker w"
  using in_workers_update [of i ws w] by simp

lemma in_workers_remove: "i < length ws \<Longrightarrow> in_worker (ws ! i) = {#jd#} \<Longrightarrow> in_worker w = {#} \<Longrightarrow>
  in_workers ws = add_mset jd (in_workers (ws[i := w]))"
  using in_workers_update [of i ws w] by simp

lemma crashed_nth: "crashed ws \<longleftrightarrow> (\<exists>i < length ws. \<exists>e. ws ! i = Crashed e)"
  by (auto simp: crashed_def in_set_conv_nth)

lemma crashed_update: "i < length ws \<Longrightarrow> (\<And>e. ws ! i \<noteq> Crashed e) \<Longrightarrow>
  crashed (ws[i := w]) \<longleftrightarrow> crashed ws \<or> (\<exists>e. w = Crashed e)"
  unfolding crashed_nth by (force simp: nth_list_update)

lemma in_workers_idle: "in_workers (replicate k Idle) = {#}"
  by (induction k) (simp_all add: in_workers_def)

lemma pool_inv_Start: "pool_inv (pool_Start n)"
  by (auto simp: pool_inv_def pool_Start_def crashed_def in_workers_idle)

lemma pool_inv_step: "pool_step p p' \<Longrightarrow> pool_inv p \<Longrightarrow> pool_inv p'"
proof (induction rule: pool_step.induct)
  case (feeder_send p jd i)
  then show ?case by (auto simp: pool_inv_def crashed_update in_workers_add)
next
  case (worker_ok i p jd)
  then have "in_workers (pl_workers p) = add_mset jd (in_workers ((pl_workers p)[i := Idle]))" by (intro in_workers_remove) simp_all
  with worker_ok show ?case by (auto simp: pool_inv_def crashed_update)
next
  case (worker_fail i p jd)
  then show ?case by (auto simp: pool_inv_def crashed_update in_workers_same)
next
  case (worker_put_back i p k jd)
  let ?ws = "pl_workers p"
  have "i \<noteq> k" using worker_put_back by auto
  then have "in_workers (?ws[i := Idle, k := Processing jd]) = in_workers (?ws[i := Idle]) + {#jd#}"
    using worker_put_back by (subst in_workers_add) simp_all
  moreover have "in_workers ?ws = add_mset jd (in_workers (?ws[i := Idle]))" using worker_put_back by (intro in_workers_remove) simp_all
  moreover have "crashed (?ws[i := Idle, k := Processing jd]) = crashed ?ws"
    using worker_put_back \<open>i \<noteq> k\<close> by (simp add: crashed_update)
  ultimately show ?case using worker_put_back by (auto simp: pool_inv_def)
next
  case (worker_put_back_closed i p jd)
  then show ?case by (auto simp: pool_inv_def crashed_update)
next
  case (worker_return i p)
  then show ?case by (auto simp: pool_inv_def crashed_update in_workers_same)
qed (auto simp: pool_inv_def deactivate_def)

lemma pool_inv_reachable: "pool_step\<^sup>*\<^sup>* (pool_Start n) p \<Longrightarrow> pool_inv p"
  by (induction rule: rtranclp_induct) (auto intro: pool_inv_Start pool_inv_step)

text \<open>C21: in every reachable state of the pool the feeder never sends on a closed channel, drops are thrown away only once
  the processor is stopped, and as long as no worker has crashed every drop taken from the transformer is accounted
  for: processed, thrown away after the stop, or in the hands of the feeder or of exactly one worker.\<close>

theorem pool_conserves_tasks:
  assumes "pool_step\<^sup>*\<^sup>* (pool_Start n) p"
  shows "(\<forall>jd. pl_feeder p = SendingTask jd \<longrightarrow> \<not> pl_closed p) \<and> (pl_dropped p \<noteq> [] \<longrightarrow> \<not> pl_active p) \<and>
    (crashed (pl_workers p) \<or>
      mset (pl_taken p) = mset (pl_done p) + mset (pl_dropped p) + in_feeder (pl_feeder p) + in_workers (pl_workers p))"
  using pool_inv_reachable [OF assms] by (auto simp: pool_inv_def)

text \<open>The pool can get stuck: when every worker holds a failed task it wants to put back, nobody receives, and if the feeder
  is inside its critical section \<open>Stop\<close> cannot take the mutex either.\<close>

definition stuck :: "'jd pool \<Rightarrow> bool" where
  "stuck p \<longleftrightarrow> \<not> pl_closed p \<and> (\<exists>jd. pl_feeder p = SendingTask jd) \<and> (\<forall>w \<in> set (pl_workers p). \<exists>jd. w = PuttingBack jd)"

lemma stuck_step: "pool_step p p' \<Longrightarrow> stuck p \<Longrightarrow> stuck p' \<and> pl_workers p' = pl_workers p \<and> pl_feeder p' = pl_feeder p"
  by (elim pool_stepE) (auto simp: stuck_def all_set_conv_all_nth deactivate_def)

text \<open>C22: once every worker holds a failed task and the feeder waits to send the next one, nothing ever moves again:
  the workers and the feeder stay where they are in every later state, and stopping the processor has no effect.\<close>

theorem pool_deadlock:
  assumes "pool_step\<^sup>*\<^sup>* p p'" and "stuck p"
  shows "stuck p' \<and> pl_workers p' = pl_workers p \<and> pl_feeder p' = pl_feeder p"
  using assms by (induction rule: rtranclp_induct) (auto dest: stuck_step)

section \<open>Witnesses\<close>

text \<open>One worker, a failing task and a second drop: the stuck state is reachable.\<close>

definition stuck_pool :: "nat pool" where
  "stuck_pool = (pool_Start 1)\<lparr>pl_feeder := SendingTask 8, pl_workers := [PuttingBack 7], pl_taken := [7, 8]\<rparr>"

lemma pool_Start_one: "pl_workers (pool_Start 1) = [Idle]"
  by (simp add: pool_Start_def workers_count_def)

lemma stuck_reachable: "pool_step\<^sup>*\<^sup>* (pool_Start 1) stuck_pool"
proof -
  let ?p0 = "pool_Start 1 :: nat pool"
  let ?p1 = "?p0\<lparr>pl_jdC := [7]\<rparr>"
  let ?p2 = "?p0\<lparr>pl_jdC := [7, 8]\<rparr>"
  let ?p3 = "?p0\<lparr>pl_jdC := [8], pl_feeder := Holding 7, pl_taken := [7]\<rparr>"
  let ?p4 = "?p3\<lparr>pl_feeder := SendingTask 7\<rparr>"
  let ?p5 = "?p4\<lparr>pl_feeder := Waiting, pl_workers := [Processing 7]\<rparr>"
  let ?p6 = "?p5\<lparr>pl_workers := [PuttingBack 7]\<rparr>"
  let ?p7 = "?p6\<lparr>pl_jdC := [], pl_feeder := Holding 8, pl_taken := [7, 8]\<rparr>"
  let ?p8 = "?p7\<lparr>pl_feeder := SendingTask 8\<rparr>"
  note s = pool_Start_def workers_count_def
  have "pool_step ?p0 ?p1" using arrive [of ?p0 7] by (simp add: s)
  moreover have "pool_step ?p1 ?p2" using arrive [of ?p1 8] by (simp add: s)
  moreover have "pool_step ?p2 ?p3" using feeder_recv [of ?p2 7 "[8]"] by (simp add: s)
  moreover have "pool_step ?p3 ?p4" using feeder_lock [of ?p3 7] by (simp add: s)
  moreover have "pool_step ?p4 ?p5" using feeder_send [of ?p4 7 0] by (simp add: s)
  moreover have "pool_step ?p5 ?p6" using worker_fail [of 0 ?p5 7] by (simp add: s)
  moreover have "pool_step ?p6 ?p7" using feeder_recv [of ?p6 8 "[]"] by (simp add: s)
  moreover have "pool_step ?p7 ?p8" using feeder_lock [of ?p7 8] by (simp add: s)
  moreover have "?p8 = stuck_pool" by (simp add: stuck_pool_def s)
  ultimately show ?thesis by (metis (no_types, lifting) converse_rtranclp_into_rtranclp rtranclp.rtrancl_refl)
qed

lemma stuck_stuck: "stuck stuck_pool"
  by (simp add: stuck_def stuck_pool_def pool_Start_def)

theorem pool_deadlock_witness:
  "pool_step\<^sup>*\<^sup>* (pool_Start 1) stuck_pool \<and> {p'. pool_step\<^sup>*\<^sup>* stuck_pool p'} \<subseteq> {p'. pl_workers p' = [PuttingBack 7]}"
  using stuck_reachable pool_deadlock [OF _ stuck_stuck] by (auto simp: stuck_pool_def)

theorem pool_conserves_tasks_witness:
  "mset (pl_taken stuck_pool) = mset (pl_done stuck_pool) + mset (pl_dropped stuck_pool) +
     in_feeder (pl_feeder stuck_pool) + in_workers (pl_workers stuck_pool)"
  using pool_conserves_tasks [OF stuck_reachable] by (auto simp: stuck_pool_def crashed_def)

text \<open>After a stop, a worker whose task fails sends on the closed channel and crashes the program.\<close>

lemma put_back_after_stop_crashes:
  assumes "pl_workers p = [Processing jd]" and "pl_active p" and "pl_feeder p = Waiting"
  shows "\<exists>p'. pool_step\<^sup>*\<^sup>* p p' \<and> pl_workers p' = [Crashed SendOnClosedChannel]"
proof -
  let ?p1 = "deactivate p"
  let ?p2 = "?p1\<lparr>pl_workers := [PuttingBack jd]\<rparr>"
  let ?p3 = "?p2\<lparr>pl_workers := [Crashed SendOnClosedChannel]\<rparr>"
  have "pool_step p ?p1" using assms(3) by (intro stop) simp
  moreover have "pool_step ?p1 ?p2" using worker_fail [of 0 ?p1 jd] assms by (simp add: deactivate_def)
  moreover have "pool_step ?p2 ?p3" using worker_put_back_closed [of 0 ?p2 jd] assms by (simp add: deactivate_def)
  ultimately have "pool_step\<^sup>*\<^sup>* p ?p3" by (meson converse_rtranclp_into_rtranclp rtranclp.rtrancl_refl)
  then show ?thesis by (intro exI [of _ ?p3]) simp
qed

definition small_record :: types_Record where
  "small_record = \<lparr>tr_Type = STATE, tr_Ref = [9], tr_ObjectReference = [3], tr_PrototypeReference = [4],
     tr_PrevRecordReference = [], tr_RecordPayload = [5], tr_Hash = [9], tr_RawData = [8], tr_Order = 1\<rparr>"

theorem process_records_order_witness:
  "mr_Order (process_records one_drop 0 [small_record, small_record] ! 1) = 1"
  using process_records_order [of 1 "[small_record, small_record]" one_drop] by simp

definition small_jet_drop :: types_JetDrop where
  "small_jet_drop = \<lparr>tj_MainSection = \<lparr>ms_Start = \<lparr>ds_PulseData = sample_pulse, ds_JetDropPrefix = ''01'', ds_JetDropPrefixLength = 2\<rparr>,
     ms_DropContinue = \<lparr>dc_PrevDropHash = [[6]]\<rparr>, ms_Records = [small_record]\<rparr>, tj_Sections = [], tj_RawData = [], tj_Hash = [7]\<rparr>"

definition small_controller :: "tables Controller" where
  "small_controller = NewController \<lparr>cfg_PulsePeriod = 1, cfg_SequentialPeriod = 1, cfg_ReloadPeriod = 10, cfg_ReloadCleanPeriod = 1\<rparr>
     one_pulse_tables 2"

lemma small_process: "\<exists>c'. process (NewStorage rel_gorm) small_jet_drop small_controller = (None, c')"
  by (simp add: process_def process_save_pulse_def process_save_data_def NewStorage_def small_controller_def NewController_def
      small_jet_drop_def sample_pulse_def small_record_def process_pulse_def process_jetdrop_def Let_def emptyPulse_def
      SavePulse_def SaveJetDropData_def initJD_def rel_gorm_def wrap_db_def bind_db_def return_db_def rel_upsert_def
      one_pulse_tables_def only_pulse_def rel_put_jet_drop_def rel_put_record_def jd_key_def rec_jd_key_def ReferenceFromTypes_def)

theorem process_registers_last_witness:
  "\<exists>c'. process (NewStorage rel_gorm) small_jet_drop small_controller = (None, c') \<and>
     process_jetdrop small_jet_drop \<in> db_jet_drops (tables_db (ct_storage c'))"
  using small_process process_registers_last [OF rel.store.pulse_store_axioms] by fastforce

end
