(* ===== verification/ETL_System.thy ===== *)
theory ETL_System
  imports Processor
begin

text \<open>The part of the explorer behind the transformer as one system: workers that process jet drops, the maintainer that
  visits its copy of the register, and the sequencer, all on one database.  The goroutines interleave between their calls
  to the storage and their critical sections.  The invariant ties the flags of the pulses to the rows: a complete pulse has
  jet drops for the whole jet tree, a sequential pulse is complete and follows a sequential one.\<close>

section \<open>Steps\<close>

text \<open>A worker's task with the number of effects of \<open>process\<close> it has done, and what is left of the maintainer's copy.\<close>

record 'st etl =
  et_ctl :: "'st Controller"
  et_work :: "(types_JetDrop \<times> nat) list"
  et_copy :: "(types_Pulse \<times> string list) list"

text \<open>What the platform guarantees about a drop: its jet is a string of bits, and the number of the pulse determines the
  number of the previous one.\<close>

definition good_drop :: "(int \<Rightarrow> int) \<Rightarrow> types_JetDrop \<Rightarrow> bool" where
  "good_drop prevOf jd \<longleftrightarrow> bitstring (ds_JetDropPrefix (ms_Start (tj_MainSection jd))) \<and>
     tp_PrevPulseNumber (ds_PulseData (ms_Start (tj_MainSection jd))) = prevOf (tp_PulseNo (ds_PulseData (ms_Start (tj_MainSection jd))))"

text \<open>A task whose saving fails is put back and starts over.\<close>

inductive etl_step :: "insolar_lib \<Rightarrow> 'st Storage_iface \<Rightarrow> (int \<Rightarrow> int) \<Rightarrow> 'st etl \<Rightarrow> 'st etl \<Rightarrow> bool" for L S prevOf where
  take_drop: "good_drop prevOf jd \<Longrightarrow> etl_step L S prevOf s (s\<lparr>et_work := (jd, 0) # et_work s\<rparr>)"
| save_pulse: "i < length (et_work s) \<Longrightarrow> et_work s ! i = (jd, 0) \<Longrightarrow> process_save_pulse S jd (et_ctl s) = (err, c) \<Longrightarrow>
    etl_step L S prevOf s (s\<lparr>et_ctl := c, et_work := (et_work s)[i := (jd, if err = None then 1 else 0)]\<rparr>)"
| save_data: "i < length (et_work s) \<Longrightarrow> et_work s ! i = (jd, 1) \<Longrightarrow> process_save_data S jd (et_ctl s) = (err, c) \<Longrightarrow>
    etl_step L S prevOf s (s\<lparr>et_ctl := c, et_work := (et_work s)[i := (jd, if err = None then 2 else 0)]\<rparr>)"
| register: "et_work s = before @ (jd, 2) # after \<Longrightarrow>
    etl_step L S prevOf s (s\<lparr>et_ctl := process_register jd (et_ctl s), et_work := before @ after\<rparr>)"
| copy: "et_copy s = [] \<Longrightarrow> range_ok ro \<Longrightarrow> etl_step L S prevOf s (s\<lparr>et_copy := register_copy ro (et_ctl s)\<rparr>)"
| erase: "et_copy s = e # es \<Longrightarrow> range_ok ro \<Longrightarrow> erase_entry L S ro now e (et_ctl s) = Done c \<Longrightarrow>
    etl_step L S prevOf s (s\<lparr>et_ctl := c, et_copy := es\<rparr>)"
| count: "range_ok ro \<Longrightarrow> etl_step L S prevOf s (s\<lparr>et_ctl := erase_counter ro (et_ctl s)\<rparr>)"
| sequence: "pulseSequence L S now (et_ctl s) = (w, c) \<Longrightarrow> etl_step L S prevOf s (s\<lparr>et_ctl := c\<rparr>)"
| expire: "etl_step L S prevOf s (s\<lparr>et_ctl := (et_ctl s)\<lparr>ct_missedDataManager := deleteExpired now (ct_missedDataManager (et_ctl s))\<rparr>\<rparr>)"

section \<open>Invariant of the tables\<close>

definition pulse_numbers :: "database \<Rightarrow> int set" where
  "pulse_numbers t = mp_PulseNumber ` db_pulses t"

definition complete_numbers :: "database \<Rightarrow> int set" where
  "complete_numbers t = mp_PulseNumber ` {p \<in> db_pulses t. mp_IsComplete p}"

definition sequential_numbers :: "database \<Rightarrow> int set" where
  "sequential_numbers t = mp_PulseNumber ` {p \<in> db_pulses t. mp_IsSequential p}"

definition drop_keys :: "database \<Rightarrow> (string \<times> int) set" where
  "drop_keys t = jd_key ` db_jet_drops t"

definition jets_of :: "database \<Rightarrow> int \<Rightarrow> string set" where
  "jets_of t n = {jet. (jet, n) \<in> drop_keys t}"

definition db_inv :: "(int \<Rightarrow> int) \<Rightarrow> database \<Rightarrow> bool" where
  "db_inv prevOf t \<longleftrightarrow> constraints t \<and> 0 \<notin> pulse_numbers t \<and>
     (\<forall>p \<in> db_pulses t. mp_PrevPulseNumber p = prevOf (mp_PulseNumber p)) \<and>
     (\<forall>(jet, n) \<in> drop_keys t. bitstring jet) \<and> (\<forall>n \<in> complete_numbers t. covers (jets_of t n)) \<and>
     sequential_numbers t \<subseteq> complete_numbers t \<and>
     (\<forall>n \<in> sequential_numbers t. prevOf n = 0 \<or> prevOf n \<in> sequential_numbers t)"

lemmas number_sets = pulse_numbers_def complete_numbers_def sequential_numbers_def drop_keys_def

lemma drop_keys_number: "constraints t \<Longrightarrow> (jet, n) \<in> drop_keys t \<Longrightarrow> n \<in> pulse_numbers t"
  by (auto simp: constraints_def drop_keys_def pulse_numbers_def jd_key_def)

lemma db_inv_empty: "db_inv prevOf \<lparr>db_pulses = {}, db_jet_drops = {}, db_records = {}\<rparr>"
  by (simp add: db_inv_def constraints_def number_sets)

lemma image_of_filter:
  assumes "\<And>a. k (g a) = k a"
  shows "k ` {x \<in> g ` A. P x} = k ` {a \<in> A. P (g a)}"
proof -
  have "{x \<in> g ` A. P x} = g ` {a \<in> A. P (g a)}" by auto
  then show ?thesis by (simp add: image_comp o_def assms)
qed

lemma map_flag_sets:
  assumes "\<And>p. mp_PulseNumber (f p) = mp_PulseNumber p"
  shows "pulse_numbers (map_pulses P f t) = pulse_numbers t" "drop_keys (map_pulses P f t) = drop_keys t"
    "complete_numbers (map_pulses P f t) = mp_PulseNumber ` {p \<in> db_pulses t. mp_IsComplete (if P p then f p else p)}"
    "sequential_numbers (map_pulses P f t) = mp_PulseNumber ` {p \<in> db_pulses t. mp_IsSequential (if P p then f p else p)}"
proof -
  have n: "mp_PulseNumber (if P p then f p else p) = mp_PulseNumber p" for p using assms by simp
  show "pulse_numbers (map_pulses P f t) = pulse_numbers t" "drop_keys (map_pulses P f t) = drop_keys t"
    using numbers_map_pulses [of f P t, OF assms] by (simp_all add: number_sets del: map_pulses_simps(1))
  show "complete_numbers (map_pulses P f t) = mp_PulseNumber ` {p \<in> db_pulses t. mp_IsComplete (if P p then f p else p)}"
    "sequential_numbers (map_pulses P f t) = mp_PulseNumber ` {p \<in> db_pulses t. mp_IsSequential (if P p then f p else p)}"
    unfolding complete_numbers_def sequential_numbers_def map_pulses_simps(1) by (rule image_of_filter, rule n)+
qed

lemma db_inv_upsert:
  assumes "db_inv prevOf t" and "mp_PulseNumber p \<noteq> 0" and "mp_PrevPulseNumber p = prevOf (mp_PulseNumber p)"
    and "\<not> mp_IsComplete p" and "\<not> mp_IsSequential p"
  shows "db_inv prevOf (upsert_pulse p t)"
proof -
  have c: "constraints (upsert_pulse p t)" using assms(1) by (auto simp: db_inv_def intro: constraints_upsert)
  have k: "drop_keys (upsert_pulse p t) = drop_keys t" by (simp add: drop_keys_def upsert_pulse_def)
  have f: "mp_IsComplete (upserted p q) = mp_IsComplete q" "mp_IsSequential (upserted p q) = mp_IsSequential q" for q
    by (simp_all add: upserted_def excluded_def)
  have fl: "mp_PulseNumber ` {q \<in> upserted p ` A. P q} = mp_PulseNumber ` {q \<in> A. P (upserted p q)}" for A and P :: "models_Pulse \<Rightarrow> bool"
    by (rule image_of_filter) (rule upserted_number)
  have s: "complete_numbers (upsert_pulse p t) = complete_numbers t" "sequential_numbers (upsert_pulse p t) = sequential_numbers t"
    using assms(4,5) by (auto simp: number_sets upsert_pulses fl f)
  have pn: "pulse_numbers (upsert_pulse p t) = insert (mp_PulseNumber p) (pulse_numbers t)"
    by (auto simp: pulse_numbers_def upsert_pulses image_image upserted_number)
  have "mp_PrevPulseNumber q = prevOf (mp_PulseNumber q)" if "q \<in> db_pulses (upsert_pulse p t)" for q
    using that assms(1,3) by (auto simp: upsert_pulses upserted_def excluded_def db_inv_def split: if_splits)
  then show ?thesis using assms(1,2) c by (simp add: db_inv_def k s pn jets_of_def)
qed

lemma db_inv_saved:
  assumes "db_inv prevOf t" and "mj_PulseNumber j \<in> pulse_numbers t" and "bitstring (mj_JetID j)"
    and "\<forall>r \<in> set rs. rec_jd_key r = jd_key j"
  shows "db_inv prevOf (saved j rs t)"
proof -
  have c: "constraints (saved j rs t)"
    using assms by (intro constraints_saved) (auto simp: db_inv_def pulse_numbers_def)
  have k: "drop_keys (saved j rs t) = insert (jd_key j) (drop_keys t)" by (simp add: drop_keys_def)
  have s: "pulse_numbers (saved j rs t) = pulse_numbers t" "complete_numbers (saved j rs t) = complete_numbers t"
    "sequential_numbers (saved j rs t) = sequential_numbers t" by (simp_all add: number_sets)
  have "covers (jets_of (saved j rs t) n)" if "covers (jets_of t n)" for n
    using that by (rule covers_mono) (auto simp: jets_of_def k)
  then show ?thesis using assms(1,3) c by (auto simp: db_inv_def k s jd_key_def)
qed

lemma db_inv_map:
  assumes "db_inv prevOf t" and "\<And>p. mp_PulseNumber (f p) = mp_PulseNumber p" and "\<And>p. mp_PrevPulseNumber (f p) = mp_PrevPulseNumber p"
    and "\<forall>n \<in> complete_numbers (map_pulses P f t). covers (jets_of t n)"
    and "sequential_numbers (map_pulses P f t) \<subseteq> complete_numbers (map_pulses P f t)"
    and "\<forall>n \<in> sequential_numbers (map_pulses P f t). prevOf n = 0 \<or> prevOf n \<in> sequential_numbers (map_pulses P f t)"
  shows "db_inv prevOf (map_pulses P f t)"
proof -
  note k = map_flag_sets(1,2) [of f P t, OF assms(2)]
  have p: "mp_PrevPulseNumber q = prevOf (mp_PulseNumber q)" if q: "q \<in> db_pulses (map_pulses P f t)" for q
  proof -
    from q obtain q0 where q0: "q0 \<in> db_pulses t" "q = (if P q0 then f q0 else q0)" by (auto simp: image_iff)
    have "mp_PrevPulseNumber q0 = prevOf (mp_PulseNumber q0)" using assms(1) q0(1) unfolding db_inv_def by blast
    with q0(2) assms(2,3) [of q0] show ?thesis by (simp split: if_splits)
  qed
  have c: "constraints (map_pulses P f t)" using assms(1,2) by (intro constraints_map_pulses) (simp_all add: db_inv_def)
  show ?thesis
    unfolding db_inv_def jets_of_def k using assms(4-6) [unfolded jets_of_def] assms(1) [unfolded db_inv_def] p c by blast
qed

lemma db_inv_counted_save:
  assumes "db_inv prevOf t" and "mj_PulseNumber j \<in> pulse_numbers t" and "bitstring (mj_JetID j)"
    and "\<forall>r \<in> set rs. rec_jd_key r = jd_key j"
  shows "db_inv prevOf (counted_save j rs n t)"
proof -
  let ?f = "add_amounts 1 (int (length rs))"
  have i: "db_inv prevOf (saved j rs t)" using assms by (rule db_inv_saved)
  have f: "mp_PulseNumber (?f p) = mp_PulseNumber p" "mp_PrevPulseNumber (?f p) = mp_PrevPulseNumber p"
    "mp_IsComplete (?f p) = mp_IsComplete p" "mp_IsSequential (?f p) = mp_IsSequential p" for p by (simp_all add: add_amounts_def)
  have s: "complete_numbers (map_pulses (keyed n) ?f (saved j rs t)) = complete_numbers (saved j rs t)"
    "sequential_numbers (map_pulses (keyed n) ?f (saved j rs t)) = sequential_numbers (saved j rs t)"
    unfolding map_flag_sets(3,4) [of ?f, OF f(1)]
    by (simp_all add: complete_numbers_def sequential_numbers_def f if_distrib [of mp_IsComplete] if_distrib [of mp_IsSequential] cong: if_cong)
  show ?thesis unfolding counted_save_def
    by (rule db_inv_map [OF i f(1,2)]) (use i in \<open>simp_all add: s db_inv_def\<close>)
qed

text \<open>Setting a flag of the pulse \<open>n\<close>.\<close>

lemma flag_numbers:
  assumes "0 \<notin> pulse_numbers t" and "n \<in> pulse_numbers t"
  shows "complete_numbers (map_pulses (keyed n) (\<lambda>p. p\<lparr>mp_IsComplete := True\<rparr>) t) = insert n (complete_numbers t)"
    "sequential_numbers (map_pulses (keyed n) (\<lambda>p. p\<lparr>mp_IsComplete := True\<rparr>) t) = sequential_numbers t"
    "complete_numbers (map_pulses (keyed n) (\<lambda>p. p\<lparr>mp_IsSequential := True\<rparr>) t) = complete_numbers t"
    "sequential_numbers (map_pulses (keyed n) (\<lambda>p. p\<lparr>mp_IsSequential := True\<rparr>) t) = insert n (sequential_numbers t)"
proof -
  have "n \<noteq> 0" using assms by auto
  then have k: "keyed n p = (mp_PulseNumber p = n)" for p by (simp add: keyed_def)
  from assms(2) obtain q where q: "q \<in> db_pulses t" "mp_PulseNumber q = n" by (auto simp: pulse_numbers_def)
  show "complete_numbers (map_pulses (keyed n) (\<lambda>p. p\<lparr>mp_IsComplete := True\<rparr>) t) = insert n (complete_numbers t)"
    using q by (subst map_flag_sets(3)) (auto simp: complete_numbers_def k image_iff)
  show "sequential_numbers (map_pulses (keyed n) (\<lambda>p. p\<lparr>mp_IsSequential := True\<rparr>) t) = insert n (sequential_numbers t)"
    using q by (subst map_flag_sets(4)) (auto simp: sequential_numbers_def k image_iff)
  show "sequential_numbers (map_pulses (keyed n) (\<lambda>p. p\<lparr>mp_IsComplete := True\<rparr>) t) = sequential_numbers t"
    by (subst map_flag_sets(4)) (simp_all add: sequential_numbers_def if_distrib [of mp_IsSequential] cong: if_cong)
  show "complete_numbers (map_pulses (keyed n) (\<lambda>p. p\<lparr>mp_IsSequential := True\<rparr>) t) = complete_numbers t"
    by (subst map_flag_sets(3)) (simp_all add: complete_numbers_def if_distrib [of mp_IsComplete] cong: if_cong)
qed

lemma db_inv_complete:
  assumes "db_inv prevOf t" and "n \<in> pulse_numbers t" and "covers (jets_of t n)"
  shows "db_inv prevOf (map_pulses (keyed n) (\<lambda>p. p\<lparr>mp_IsComplete := True\<rparr>) t)"
proof -
  have z: "0 \<notin> pulse_numbers t" using assms(1) by (simp add: db_inv_def)
  show ?thesis
    by (rule db_inv_map [OF assms(1)]) (use assms in \<open>auto simp: flag_numbers [OF z assms(2)] db_inv_def\<close>)
qed

lemma db_inv_sequence:
  assumes "db_inv prevOf t" and "n \<in> complete_numbers t" and "prevOf n = 0 \<or> prevOf n \<in> sequential_numbers t"
  shows "db_inv prevOf (map_pulses (keyed n) (\<lambda>p. p\<lparr>mp_IsSequential := True\<rparr>) t)"
proof -
  have z: "0 \<notin> pulse_numbers t" "n \<in> pulse_numbers t" using assms(1,2) by (auto simp: db_inv_def number_sets)
  show ?thesis
    by (rule db_inv_map [OF assms(1)]) (use assms in \<open>auto simp: flag_numbers [OF z] db_inv_def\<close>)
qed

section \<open>Invariant of the system\<close>

text \<open>Every jet in the register or in the copy of it has its drop in the database.\<close>

definition entries_ok :: "database \<Rightarrow> (types_Pulse \<times> string list) list \<Rightarrow> bool" where
  "entries_ok t es \<longleftrightarrow> (\<forall>(p, jets) \<in> set es. \<forall>jet \<in> set jets. (jet, tp_PulseNo p) \<in> drop_keys t)"

definition work_ok :: "(int \<Rightarrow> int) \<Rightarrow> database \<Rightarrow> (types_JetDrop \<times> nat) list \<Rightarrow> bool" where
  "work_ok prevOf t work \<longleftrightarrow> (\<forall>(jd, k) \<in> set work. good_drop prevOf jd \<and> (k = 2 \<longrightarrow> jd_key (process_jetdrop jd) \<in> drop_keys t))"

definition seq_ok :: "database \<Rightarrow> models_Pulse \<Rightarrow> bool" where
  "seq_ok t p \<longleftrightarrow> mp_PulseNumber p = 0 \<or> mp_PulseNumber p \<in> sequential_numbers t"

definition etl_inv :: "(int \<Rightarrow> int) \<Rightarrow> ('st \<Rightarrow> database) \<Rightarrow> 'st etl \<Rightarrow> bool" where
  "etl_inv prevOf V s \<longleftrightarrow> (let t = V (ct_storage (et_ctl s)) in db_inv prevOf t \<and> entries_ok t (ct_jetDropRegister (et_ctl s)) \<and>
     entries_ok t (et_copy s) \<and> work_ok prevOf t (et_work s) \<and> seq_ok t (ct_sequentialPulse (et_ctl s)))"

definition grows :: "database \<Rightarrow> database \<Rightarrow> bool" where
  "grows t t' \<longleftrightarrow> drop_keys t \<subseteq> drop_keys t' \<and> sequential_numbers t \<subseteq> sequential_numbers t'"

lemma grows_refl [simp]: "grows t t" by (simp add: grows_def)

lemma entries_ok_grows: "entries_ok t es \<Longrightarrow> grows t t' \<Longrightarrow> entries_ok t' es"
  by (fastforce simp: entries_ok_def grows_def)

lemma work_ok_grows: "work_ok prevOf t w \<Longrightarrow> grows t t' \<Longrightarrow> work_ok prevOf t' w"
  by (fastforce simp: work_ok_def grows_def)

lemma seq_ok_grows: "seq_ok t p \<Longrightarrow> grows t t' \<Longrightarrow> seq_ok t' p"
  by (auto simp: seq_ok_def grows_def)

lemmas grows_lemmas = entries_ok_grows work_ok_grows seq_ok_grows

lemma grows_upsert: "grows t (upsert_pulse p t)"
proof -
  have f: "mp_IsSequential (upserted p q) = mp_IsSequential q" for q by (simp add: upserted_def excluded_def)
  have "mp_PulseNumber ` {q \<in> upserted p ` A. mp_IsSequential q} = mp_PulseNumber ` {q \<in> A. mp_IsSequential q}" for A
    using image_of_filter [of mp_PulseNumber "upserted p" A mp_IsSequential, OF upserted_number] f by simp
  then have "sequential_numbers t \<subseteq> sequential_numbers (upsert_pulse p t)"
    unfolding sequential_numbers_def upsert_pulses by auto
  moreover have "drop_keys (upsert_pulse p t) = drop_keys t" by (simp add: drop_keys_def upsert_pulse_def)
  ultimately show ?thesis by (simp add: grows_def)
qed

lemma grows_saved: "grows t (saved j rs t)"
  by (auto simp: grows_def drop_keys_def sequential_numbers_def)

lemma grows_counted: "grows t (counted_save j rs n t)"
proof -
  have f: "mp_PulseNumber (add_amounts a b p) = mp_PulseNumber p" "mp_IsSequential (add_amounts a b p) = mp_IsSequential p" for a b p
    by (simp_all add: add_amounts_def)
  show ?thesis unfolding grows_def counted_save_def map_flag_sets(2,4) [of "add_amounts a b" for a b, OF f(1)]
    by (auto simp: drop_keys_def sequential_numbers_def f)
qed

lemma grows_flag:
  assumes "0 \<notin> pulse_numbers t" and "n \<in> pulse_numbers t"
  shows "grows t (map_pulses (keyed n) (\<lambda>p. p\<lparr>mp_IsComplete := True\<rparr>) t)" "grows t (map_pulses (keyed n) (\<lambda>p. p\<lparr>mp_IsSequential := True\<rparr>) t)"
  unfolding grows_def flag_numbers [OF assms] by (auto simp: map_flag_sets(2))

lemma map_put_set: "set (map_put k v m) \<subseteq> insert (k, v) (set m)"
  by (induction m) (auto split: if_splits)

lemma entries_ok_put: "entries_ok t m \<Longrightarrow> \<forall>jet \<in> set jets. (jet, tp_PulseNo p) \<in> drop_keys t \<Longrightarrow> entries_ok t (map_put p jets m)"
  using map_put_set [of p jets m] by (fastforce simp: entries_ok_def)

lemma entries_ok_del: "entries_ok t m \<Longrightarrow> entries_ok t (map_del p m)"
  by (auto simp: entries_ok_def map_del_def)

lemma entries_ok_SetJetDropData:
  assumes "entries_ok t (ct_jetDropRegister c)" and "(jet, tp_PulseNo p) \<in> drop_keys t"
  shows "entries_ok t (ct_jetDropRegister (SetJetDropData p jet c))"
proof -
  have "(j, tp_PulseNo p) \<in> drop_keys t" if "j \<in> set jets" "map_of (ct_jetDropRegister c) p = Some jets" for j jets
    using assms(1) map_of_SomeD [OF that(2)] that(1) by (fastforce simp: entries_ok_def)
  then show ?thesis using assms
    by (auto simp: SetJetDropData_def Let_def add_jet_def intro!: entries_ok_put split: if_splits)
qed

lemma entries_ok_copy: "entries_ok t (ct_jetDropRegister c) \<Longrightarrow> range_ok ro \<Longrightarrow> entries_ok t (register_copy ro c)"
proof -
  assume e: "entries_ok t (ct_jetDropRegister c)" and "range_ok ro"
  then have k: "set (ro 0 (map_keys (ct_jetDropRegister c))) = fst ` set (ct_jetDropRegister c)" by (simp add: range_simps map_keys_def)
  have "(p, the (map_of (ct_jetDropRegister c) p)) \<in> set (ct_jetDropRegister c)" if "p \<in> fst ` set (ct_jetDropRegister c)" for p
    using that by (metis map_of_SomeD map_of_eq_None_iff option.exhaust_sel)
  then show ?thesis using e unfolding entries_ok_def register_copy_def set_map k by fastforce
qed

lemma clean_loop_keeps: "entries_ok t (ct_jetDropRegister c) \<Longrightarrow> entries_ok t (ct_jetDropRegister (clean_loop ps c)) \<and>
  ct_storage (clean_loop ps c) = ct_storage c \<and> ct_sequentialPulse (clean_loop ps c) = ct_sequentialPulse c"
  by (induction ps arbitrary: c) (auto simp: entries_ok_del)

lemma erase_counter_keeps: "entries_ok t (ct_jetDropRegister c) \<Longrightarrow> entries_ok t (ct_jetDropRegister (erase_counter ro c)) \<and>
  ct_storage (erase_counter ro c) = ct_storage c \<and> ct_sequentialPulse (erase_counter ro c) = ct_sequentialPulse c"
  using clean_loop_keeps [of t c] by (simp add: erase_counter_def cleanJetDropRegister_def Let_def)

lemma reloadData_keeps: "ct_storage (reloadData L now a b c) = ct_storage c" "ct_sequentialPulse (reloadData L now a b c) = ct_sequentialPulse c"
  "ct_jetDropRegister (reloadData L now a b c) = ct_jetDropRegister c"
  by (simp_all add: reloadData_def Let_def split: prod.splits bool.splits)

context pulse_store
begin

lemma etl_inv_store:
  assumes "etl_inv prevOf V s" and "c' = (et_ctl s)\<lparr>ct_storage := ct_storage c'\<rparr>" and "db_inv prevOf (V (ct_storage c'))"
    and "grows (V (ct_storage (et_ctl s))) (V (ct_storage c'))" and "work_ok prevOf (V (ct_storage c')) work"
  shows "etl_inv prevOf V (s\<lparr>et_ctl := c', et_work := work\<rparr>)"
proof -
  have "ct_jetDropRegister c' = ct_jetDropRegister (et_ctl s)" "ct_sequentialPulse c' = ct_sequentialPulse (et_ctl s)"
    by (subst assms(2), simp)+
  then show ?thesis using assms(1,3-5) grows_lemmas [OF _ assms(4)] by (simp add: etl_inv_def Let_def)
qed

lemma work_ok_update: "work_ok prevOf t w \<Longrightarrow> good_drop prevOf jd \<Longrightarrow> (k = 2 \<Longrightarrow> jd_key (process_jetdrop jd) \<in> drop_keys t) \<Longrightarrow>
  work_ok prevOf t (w[i := (jd, k)])"
  using set_update_subset_insert [of w i "(jd, k)"] by (fastforce simp: work_ok_def)

lemma etl_save_pulse:
  assumes "etl_inv prevOf V s" and "i < length (et_work s)" and "et_work s ! i = (jd, k)"
    and "process_save_pulse S jd (et_ctl s) = (err, c)"
  shows "etl_inv prevOf V (s\<lparr>et_ctl := c, et_work := (et_work s)[i := (jd, if err = None then 1 else 0)]\<rparr>)"
proof -
  let ?t = "V (ct_storage (et_ctl s))"
  note p = process_save_pulse_spec [OF assms(4)]
  have g: "good_drop prevOf jd" "work_ok prevOf ?t (et_work s)" "db_inv prevOf ?t"
    using assms(1-3) nth_mem [OF assms(2)] by (auto simp: etl_inv_def work_ok_def Let_def)
  have "db_inv prevOf (V (ct_storage c))"
    using p g by (cases "err = None") (auto simp: good_drop_def process_pulse_def Let_def emptyPulse_def intro!: db_inv_upsert)
  moreover have gr: "grows ?t (V (ct_storage c))" using p by (cases "err = None") (auto simp: grows_upsert)
  ultimately show ?thesis using p g work_ok_grows [OF g(2) gr] assms(1) by (intro etl_inv_store work_ok_update) auto
qed

lemma etl_save_data:
  assumes "etl_inv prevOf V s" and "i < length (et_work s)" and "et_work s ! i = (jd, k)"
    and "process_save_data S jd (et_ctl s) = (err, c)"
  shows "etl_inv prevOf V (s\<lparr>et_ctl := c, et_work := (et_work s)[i := (jd, if err = None then 2 else 0)]\<rparr>)"
proof -
  let ?t = "V (ct_storage (et_ctl s))" and ?j = "process_jetdrop jd"
  let ?rs = "process_records ?j 0 (ms_Records (tj_MainSection jd))"
  note p = process_save_data_spec [OF assms(4), unfolded Let_def]
  have g: "good_drop prevOf jd" "work_ok prevOf ?t (et_work s)" "db_inv prevOf ?t"
    using assms(1-3) nth_mem [OF assms(2)] by (auto simp: etl_inv_def work_ok_def Let_def)
  have b: "bitstring (mj_JetID ?j)" using g(1) by (simp add: good_drop_def process_jetdrop_def Let_def)
  have k: "\<forall>r \<in> set ?rs. rec_jd_key r = jd_key ?j" using process_records_keys by blast
  have i: "db_inv prevOf (V (ct_storage c))"
    using p g(3) db_inv_saved [OF g(3) _ b k] db_inv_counted_save [OF g(3) _ b k]
    by (cases "err = None") (auto simp: pulse_numbers_def)
  have gr: "grows ?t (V (ct_storage c))" using p grows_saved grows_counted by (cases "err = None") auto
  have "jd_key ?j \<in> drop_keys (V (ct_storage c))" if "err = None"
    using p that by (auto simp: drop_keys_def counted_save_def simp del: saved_simps(2)) (auto simp: saved_def)
  with i gr show ?thesis using p g work_ok_grows [OF g(2) gr] assms(1) by (intro etl_inv_store work_ok_update) (auto split: if_splits)
qed

lemma etl_register:
  assumes "etl_inv prevOf V s" and "et_work s = before @ (jd, 2) # after"
  shows "etl_inv prevOf V (s\<lparr>et_ctl := process_register jd (et_ctl s), et_work := before @ after\<rparr>)"
proof -
  have "jd_key (process_jetdrop jd) \<in> drop_keys (V (ct_storage (et_ctl s)))"
    using assms by (auto simp: etl_inv_def work_ok_def Let_def)
  then have "(mj_JetID (process_jetdrop jd), tp_PulseNo (ds_PulseData (ms_Start (tj_MainSection jd)))) \<in> drop_keys (V (ct_storage (et_ctl s)))"
    by (simp add: jd_key_def process_jetdrop_def Let_def)
  then have "entries_ok (V (ct_storage (et_ctl s))) (ct_jetDropRegister (process_register jd (et_ctl s)))"
    unfolding process_register_def using assms(1) by (intro entries_ok_SetJetDropData) (auto simp: etl_inv_def Let_def)
  moreover have "ct_storage (process_register jd c) = ct_storage c" "ct_sequentialPulse (process_register jd c) = ct_sequentialPulse c"
    for c :: "'st Controller"
    by (simp_all add: process_register_def SetJetDropData_def Let_def)
  moreover have "work_ok prevOf (V (ct_storage (et_ctl s))) (before @ after)" using assms by (auto simp: etl_inv_def work_ok_def Let_def)
  ultimately show ?thesis using assms(1) by (simp add: etl_inv_def Let_def)
qed

lemma etl_erase:
  assumes "etl_inv prevOf V s" and "et_copy s = e # es" and "range_ok ro" and "erase_entry L S ro now e (et_ctl s) = Done c"
  shows "etl_inv prevOf V (s\<lparr>et_ctl := c, et_copy := es\<rparr>)"
proof -
  let ?c = "et_ctl s" and ?t = "V (ct_storage (et_ctl s))"
  obtain p d where e: "e = (p, d)" by (cases e)
  from assms(4) e obtain b where b: "pulseIsComplete ro p d = Done b" by (auto simp: erase_entry_def bind_outcome_Done_iff)
  have i: "db_inv prevOf ?t" "\<forall>jet \<in> set d. (jet, tp_PulseNo p) \<in> drop_keys ?t" "entries_ok ?t es"
    using assms(1,2) e by (auto simp: etl_inv_def Let_def entries_ok_def)
  show ?thesis
  proof (cases b)
    case False
    then have "ct_storage c = ct_storage ?c \<and> ct_jetDropRegister c = ct_jetDropRegister ?c \<and> ct_sequentialPulse c = ct_sequentialPulse ?c"
      using assms(4) e b by (auto simp: erase_entry_def reloadData_keeps split: if_splits)
    with assms(1) i(3) show ?thesis by (simp add: etl_inv_def Let_def)
  next
    case True
    have bits: "\<forall>jet \<in> set d. bitstring jet" using i(1,2) by (auto simp: db_inv_def)
    have cov: "covers (set d)" using pulseIsComplete_covers [of ro p d] b True assms(3) bits by simp
    then obtain jet where "jet \<in> set d" using covers_Nil by fastforce
    then have n: "tp_PulseNo p \<in> pulse_numbers ?t" using i(1,2) drop_keys_number by (auto simp: db_inv_def)
    have cov': "covers (jets_of ?t (tp_PulseNo p))" by (rule covers_mono [OF cov]) (use i(2) in \<open>auto simp: jets_of_def\<close>)
    obtain r st where r: "s_CompletePulse S (tp_PulseNo p) (ct_storage ?c) = (r, st)" by (cases "s_CompletePulse S (tp_PulseNo p) (ct_storage ?c)")
    show ?thesis
    proof (cases r)
      case (Inl err)
      then have "c = ?c\<lparr>ct_storage := st\<rparr>" using assms(4) e b True r by (simp add: erase_entry_def)
      with writes_fail [OF complete_pulse r [unfolded Inl]] assms(1) i(3) show ?thesis by (simp add: etl_inv_def Let_def)
    next
      case (Inr u)
      then have c: "c = ?c\<lparr>ct_storage := st, ct_jetDropRegister := map_del p (ct_jetDropRegister ?c)\<rparr>"
        using assms(4) e b True r by (simp add: erase_entry_def)
      have t: "V st = map_pulses (keyed (tp_PulseNo p)) (\<lambda>p. p\<lparr>mp_IsComplete := True\<rparr>) ?t"
        using writes_ok [OF complete_pulse r [unfolded Inr]] .
      have "db_inv prevOf (V st)" unfolding t using i(1) n cov' by (rule db_inv_complete)
      moreover have "grows ?t (V st)" unfolding t using i(1) n by (intro grows_flag) (simp_all add: db_inv_def)
      ultimately show ?thesis using assms(1) i(3) c by (auto simp: etl_inv_def Let_def intro: grows_lemmas entries_ok_del)
    qed
  qed
qed

lemma etl_sequence:
  assumes "etl_inv prevOf V s" and "pulseSequence L S now (et_ctl s) = (w, c)"
  shows "etl_inv prevOf V (s\<lparr>et_ctl := c\<rparr>)"
proof -
  let ?c = "et_ctl s" and ?t = "V (ct_storage (et_ctl s))"
  obtain q err st where g: "s_GetPulseByPrev S (ct_sequentialPulse ?c) (ct_storage ?c) = ((q, err), st)"
    by (metis surj_pair)
  note p = pulse_by_prev [OF g]
  have i: "db_inv prevOf ?t" "seq_ok ?t (ct_sequentialPulse ?c)" using assms(1) by (simp_all add: etl_inv_def Let_def)
  have same: "etl_inv prevOf V (s\<lparr>et_ctl := c'\<rparr>)" if "V (ct_storage c') = ?t" "ct_jetDropRegister c' = ct_jetDropRegister ?c"
    "ct_sequentialPulse c' = ct_sequentialPulse ?c" for c' using that assms(1) by (simp add: etl_inv_def Let_def)
  show ?thesis
  proof (cases "mp_IsComplete q \<and> (err = None \<or> err = Some RecordNotFound)")
    case False
    obtain r st' where n: "s_GetNextSavedPulse S (ct_sequentialPulse ?c) (ct_platformVersion ?c = 1) st = (r, st')"
      by (cases "s_GetNextSavedPulse S (ct_sequentialPulse ?c) (ct_platformVersion ?c = 1) st")
    have "V st' = V st" using answers_read [OF next_saved_pulse n] .
    with False g n p assms(2) show ?thesis
      by (intro same) (auto simp: pulseSequence_def Let_def reloadData_keeps split: if_splits sum.splits)
  next
    case True
    then have q: "q \<in> db_pulses ?t" "mp_PrevPulseNumber q = mp_PulseNumber (ct_sequentialPulse ?c)" "err = None"
      using p by (auto simp: emptyPulse_def split: option.splits)
    obtain r st' where n: "s_SequencePulse S (mp_PulseNumber q) st = (r, st')" by (cases "s_SequencePulse S (mp_PulseNumber q) st")
    show ?thesis
    proof (cases r)
      case (Inl e)
      with writes_fail [OF sequence_pulse n [unfolded Inl]] n g p True q(3) assms(2) show ?thesis
        by (intro same) (auto simp: pulseSequence_def Let_def)
    next
      case (Inr u)
      have c: "c = ?c\<lparr>ct_storage := st', ct_sequentialPulse := q\<rparr>"
        using Inr n g True q(3) assms(2) by (simp add: pulseSequence_def Let_def)
      have t: "V st' = map_pulses (keyed (mp_PulseNumber q)) (\<lambda>p. p\<lparr>mp_IsSequential := True\<rparr>) ?t"
        using writes_ok [OF sequence_pulse n [unfolded Inr]] p by simp
      have cn: "mp_PulseNumber q \<in> complete_numbers ?t" "mp_PulseNumber q \<in> pulse_numbers ?t" using q(1) True by (auto simp: number_sets)
      have z: "0 \<notin> pulse_numbers ?t" using i(1) by (simp add: db_inv_def)
      have "prevOf (mp_PulseNumber q) = mp_PulseNumber (ct_sequentialPulse ?c)" using i(1) q(1,2) by (auto simp: db_inv_def)
      then have "db_inv prevOf (V st')" unfolding t using i(2) by (intro db_inv_sequence [OF i(1) cn(1)]) (simp add: seq_ok_def)
      moreover have "grows ?t (V st')" unfolding t by (rule grows_flag [OF z cn(2)])
      moreover have "seq_ok (V st') q" unfolding t seq_ok_def flag_numbers(4) [OF z cn(2)] by simp
      ultimately show ?thesis using assms(1) c by (auto simp: etl_inv_def Let_def intro: grows_lemmas)
    qed
  qed
qed

lemma etl_inv_step: "etl_step L S prevOf s s' \<Longrightarrow> etl_inv prevOf V s \<Longrightarrow> etl_inv prevOf V s'"
proof (induction rule: etl_step.induct)
  case (take_drop jd s)
  then show ?case by (auto simp: etl_inv_def work_ok_def Let_def)
next
  case (copy s ro)
  then show ?case by (simp add: etl_inv_def Let_def entries_ok_copy)
next
  case (count ro s)
  then show ?case using erase_counter_keeps [of "V (ct_storage (et_ctl s))" "et_ctl s" ro] by (simp add: etl_inv_def Let_def)
next
  case (expire s now)
  then show ?case by (simp add: etl_inv_def Let_def)
qed (blast intro: etl_save_pulse etl_save_data etl_register etl_erase etl_sequence)+

lemma etl_inv_reachable: "(etl_step L S prevOf)\<^sup>*\<^sup>* s s' \<Longrightarrow> etl_inv prevOf V s \<Longrightarrow> etl_inv prevOf V s'"
  by (induction rule: rtranclp_induct) (auto intro: etl_inv_step)

end

section \<open>Starting up\<close>

text \<open>The start of the controller establishes the invariant on any database that has it.\<close>

context pulse_store
begin

lemma fold_SetJetDropData:
  "entries_ok t (ct_jetDropRegister c) \<Longrightarrow> \<forall>j \<in> set js. (mj_JetID j, tp_PulseNo key) \<in> drop_keys t \<Longrightarrow>
   entries_ok t (ct_jetDropRegister (fold (\<lambda>jd. SetJetDropData key (mj_JetID jd)) js c)) \<and>
   ct_storage (fold (\<lambda>jd. SetJetDropData key (mj_JetID jd)) js c) = ct_storage c \<and>
   ct_sequentialPulse (fold (\<lambda>jd. SetJetDropData key (mj_JetID jd)) js c) = ct_sequentialPulse c"
proof (induction js arbitrary: c)
  case (Cons j js)
  have "ct_storage (SetJetDropData key (mj_JetID j) c) = ct_storage c" "ct_sequentialPulse (SetJetDropData key (mj_JetID j) c) = ct_sequentialPulse c"
    by (simp_all add: SetJetDropData_def Let_def)
  with Cons show ?case using entries_ok_SetJetDropData [of t c "mj_JetID j" key] by simp
qed simp

lemma set_incomplete_loop_spec:
  "set_incomplete_loop S ps c = (err, c') \<Longrightarrow> entries_ok (V (ct_storage c)) (ct_jetDropRegister c) \<Longrightarrow>
   V (ct_storage c') = V (ct_storage c) \<and> entries_ok (V (ct_storage c)) (ct_jetDropRegister c') \<and> ct_sequentialPulse c' = ct_sequentialPulse c"
proof (induction ps arbitrary: c)
  case (Cons p ps)
  let ?c = "c\<lparr>ct_jetDropRegister := map_put (register_key p) [] (ct_jetDropRegister c)\<rparr>"
  have e: "entries_ok (V (ct_storage c)) (ct_jetDropRegister ?c)" using Cons.prems(2) by (simp add: entries_ok_put)
  obtain r st where r: "s_GetJetDrops S p (ct_storage c) = (r, st)" by (cases "s_GetJetDrops S p (ct_storage c)")
  have v: "V st = V (ct_storage c)" using answers_read [OF jet_drops r] .
  show ?case
  proof (cases r)
    case (Inl err)
    with Cons.prems(1) r v e show ?thesis by (auto simp: Let_def)
  next
    case (Inr js)
    let ?d = "fold (\<lambda>jd. SetJetDropData (register_key p) (mj_JetID jd)) js (?c\<lparr>ct_storage := st\<rparr>)"
    have "set js = {j \<in> db_jet_drops (V (ct_storage c)). mj_PulseNumber j = mp_PulseNumber p}"
      using answers_ok [OF jet_drops r [unfolded Inr]] .
    then have k: "\<forall>j \<in> set js. (mj_JetID j, tp_PulseNo (register_key p)) \<in> drop_keys (V (ct_storage c))"
      by (auto simp: register_key_def drop_keys_def jd_key_def image_iff)
    have "set_incomplete_loop S ps ?d = (err, c')" using Cons.prems(1) r Inr by (simp add: Let_def)
    from Cons.IH [OF this] fold_SetJetDropData [OF _ k, of "?c\<lparr>ct_storage := st\<rparr>"] e v show ?thesis by simp
  qed
qed simp

lemma controller_Start_inv:
  assumes "db_inv prevOf (V st)" and "controller_Start S (NewController cfg st pv) = (None, c)"
  shows "etl_inv prevOf V \<lparr>et_ctl = c, et_work = [], et_copy = []\<rparr>"
proof -
  let ?c = "NewController cfg st pv"
  from assms(2) obtain c1 where 1: "setIncompletePulses S ?c = (None, c1)" and 2: "setSeqPulse S c1 = (None, c)"
    by (auto simp: controller_Start_def split: prod.splits option.splits)
  from 1 obtain ps st1 where g: "s_GetIncompletePulses S st = (Inr ps, st1)"
    and l: "set_incomplete_loop S ps (?c\<lparr>ct_storage := st1\<rparr>) = (None, c1)"
    by (auto simp: setIncompletePulses_def NewController_def split: prod.splits sum.splits)
  have "V st1 = V st" using answers_read [OF incomplete_pulses g] .
  with set_incomplete_loop_spec [OF l] have c1: "V (ct_storage c1) = V st" "entries_ok (V st) (ct_jetDropRegister c1)"
    by (auto simp: NewController_def entries_ok_def)
  from 2 obtain p st2 where q: "s_GetSequentialPulse S (ct_storage c1) = (Inr p, st2)" and
    c: "c = c1\<lparr>ct_storage := st2, ct_sequentialPulse := (if p = emptyPulse then emptyPulse\<lparr>mp_PulseNumber := 0\<rparr> else p)\<rparr>"
    by (auto simp: setSeqPulse_def split: prod.splits sum.splits)
  have v: "V st2 = V st" using answers_read [OF sequential_pulse q] c1(1) by simp
  have "p = emptyPulse \<or> mp_PulseNumber p \<in> sequential_numbers (V st)"
    using answers_ok [OF sequential_pulse q] c1(1) by (auto simp: Let_def sequential_numbers_def split: if_splits)
  then have "seq_ok (V st) (ct_sequentialPulse c)" using c by (auto simp: seq_ok_def emptyPulse_def)
  with assms(1) c1 v c show ?thesis by (simp add: etl_inv_def Let_def work_ok_def entries_ok_def)
qed

end

text \<open>After a restart the register holds the pulses of the database under keys without epoch and time.  The drops that arrive
  later are registered under their full pulse, so they never fill the entry of the restart: it stays as it was, and the
  maintainer visits it in every round.\<close>

lemma map_of_SetJetDropData: "k \<noteq> pulse \<Longrightarrow> map_of (ct_jetDropRegister (SetJetDropData pulse jet c)) k = map_of (ct_jetDropRegister c) k"
  by (auto simp: SetJetDropData_def Let_def)

lemma restart_entry_not_filled:
  assumes "\<forall>jd \<in> set jds. tp_EpochPulseNo (ds_PulseData (ms_Start (tj_MainSection jd))) \<noteq> 0 \<or>
      tp_PulseTimestamp (ds_PulseData (ms_Start (tj_MainSection jd))) \<noteq> 0"
  shows "map_of (ct_jetDropRegister (fold process_register jds c)) (register_key p) = map_of (ct_jetDropRegister c) (register_key p)"
  using assms
proof (induction jds arbitrary: c)
  case (Cons jd jds)
  have "tp_EpochPulseNo (register_key p) = 0" "tp_PulseTimestamp (register_key p) = 0" by (simp_all add: register_key_def)
  with Cons.prems have "register_key p \<noteq> ds_PulseData (ms_Start (tj_MainSection jd))" by (metis list.set_intros(1))
  with Cons show ?case by (simp add: process_register_def map_of_SetJetDropData)
qed simp

end
