(* ===== verification/Ingest.thy ===== *)
theory Ingest
  imports Transformer ETL_System
begin

text \<open>A pulse on its way through the explorer: the platform's data are transformed into jet drops, the drops are processed one
  after the other, and a pass of the maintainer looks at the register.  The result says what the database holds afterwards.\<close>

section \<open>Processing a list of drops\<close>

text \<open>One worker that takes the drops in order and gives up at the first error.\<close>

fun process_all :: "'st Storage_iface \<Rightarrow> types_JetDrop list \<Rightarrow> 'st Controller \<Rightarrow> error option \<times> 'st Controller" where
  "process_all S [] c = (None, c)"
| "process_all S (jd # jds) c = (case process S jd c of (Some err, c) \<Rightarrow> (Some err, c) | (None, c) \<Rightarrow> process_all S jds c)"

definition rows :: "types_JetDrop \<Rightarrow> models_Record list" where
  "rows jd = process_records (process_jetdrop jd) 0 (ms_Records (tj_MainSection jd))"

definition pulse_data :: "types_JetDrop \<Rightarrow> types_Pulse" where
  "pulse_data jd = ds_PulseData (ms_Start (tj_MainSection jd))"

definition prefix_of :: "types_JetDrop \<Rightarrow> string" where
  "prefix_of jd = ds_JetDropPrefix (ms_Start (tj_MainSection jd))"

text \<open>The row of a pulse after some of its drops, and the tables.\<close>

definition pulse_row :: "types_Pulse \<Rightarrow> types_JetDrop list \<Rightarrow> models_Pulse" where
  "pulse_row pd ds = emptyPulse\<lparr>mp_PulseNumber := tp_PulseNo pd, mp_PrevPulseNumber := tp_PrevPulseNumber pd,
     mp_NextPulseNumber := tp_NextPulseNumber pd, mp_Timestamp := tp_PulseTimestamp pd,
     mp_JetDropAmount := int (length ds), mp_RecordAmount := int (length (concat (map rows ds)))\<rparr>"

definition ingested :: "types_Pulse \<Rightarrow> database \<Rightarrow> types_JetDrop list \<Rightarrow> database" where
  "ingested pd t ds = t\<lparr>db_pulses := db_pulses t \<union> (if ds = [] then {} else {pulse_row pd ds}),
     db_jet_drops := db_jet_drops t \<union> process_jetdrop ` set ds, db_records := db_records t \<union> set (concat (map rows ds))\<rparr>"

definition refs :: "types_JetDrop list \<Rightarrow> bytes list" where
  "refs ds = map mr_Reference (concat (map rows ds))"

text \<open>A pulse that the database does not know, with drops of different jets and records of different references.\<close>

definition new_pulse :: "types_Pulse \<Rightarrow> database \<Rightarrow> types_JetDrop list \<Rightarrow> bool" where
  "new_pulse pd t ds \<longleftrightarrow> constraints t \<and> tp_PulseNo pd \<noteq> 0 \<and> tp_PulseNo pd \<notin> mp_PulseNumber ` db_pulses t \<and>
     (\<forall>jd \<in> set ds. pulse_data jd = pd) \<and> distinct (map prefix_of ds) \<and>
     distinct (refs ds) \<and> [] \<notin> set (refs ds) \<and> set (refs ds) \<inter> mr_Reference ` db_records t = {} \<and>
     int (length ds) < 2 ^ 63 \<and> int (length (refs ds)) < 2 ^ 63"

lemma refs_append [simp]: "refs (ds @ ds') = refs ds @ refs ds'" "refs [] = []"
  by (simp_all add: refs_def)

lemma refs_single: "refs [jd] = map mr_Reference (rows jd)"
  by (simp add: refs_def)

lemma set_refs: "set (refs ds) = mr_Reference ` set (concat (map rows ds))"
  by (simp add: refs_def)

lemma process_jetdrop_key: "jd_key (process_jetdrop jd) = (prefix_of jd, tp_PulseNo (pulse_data jd))"
  by (simp add: process_jetdrop_def jd_key_def prefix_of_def pulse_data_def Let_def)

lemma process_jetdrop_number [simp]: "mj_PulseNumber (process_jetdrop jd) = tp_PulseNo (pulse_data jd)"
  by (simp add: process_jetdrop_def pulse_data_def Let_def)

lemma process_jetdrop_jet [simp]: "mj_JetID (process_jetdrop jd) = prefix_of jd"
  by (simp add: process_jetdrop_def prefix_of_def Let_def)

lemma process_pulse_row: "process_pulse jd = pulse_row (pulse_data jd) []"
  by (simp add: process_pulse_def pulse_row_def pulse_data_def emptyPulse_def Let_def)

lemma pulse_row_number [simp]: "mp_PulseNumber (pulse_row pd ds) = tp_PulseNo pd"
  by (simp add: pulse_row_def)

lemma excluded_row: "excluded (pulse_row pd []) (pulse_row pd ds) = pulse_row pd ds"
  by (simp add: excluded_def pulse_row_def)

lemma add_row: "add_amounts 1 (int (length (rows jd))) (pulse_row pd ds) = pulse_row pd (ds @ [jd])"
  by (simp add: add_amounts_def pulse_row_def)

lemma ingested_simps [simp]:
  "db_pulses (ingested pd t ds) = db_pulses t \<union> (if ds = [] then {} else {pulse_row pd ds})"
  "db_jet_drops (ingested pd t ds) = db_jet_drops t \<union> process_jetdrop ` set ds"
  "db_records (ingested pd t ds) = db_records t \<union> set (concat (map rows ds))"
  by (simp_all add: ingested_def)

lemma upsert_ingested:
  assumes "tp_PulseNo pd \<notin> mp_PulseNumber ` db_pulses t"
  shows "upsert_pulse (pulse_row pd []) (ingested pd t ds) = (ingested pd t ds)\<lparr>db_pulses := insert (pulse_row pd ds) (db_pulses t)\<rparr>"
proof (cases "ds = []")
  case True
  then show ?thesis using assms by (simp add: upsert_pulse_def)
next
  case False
  have "(\<lambda>q. if mp_PulseNumber q = tp_PulseNo pd then excluded (pulse_row pd []) q else q) ` insert (pulse_row pd ds) (db_pulses t) =
      insert (pulse_row pd ds) (db_pulses t)"
    using assms by (force simp: excluded_row)
  then show ?thesis using False by (simp add: upsert_pulse_def map_pulses_def)
qed

lemma jet_drops_known:
  "constraints t \<Longrightarrow> n \<notin> mp_PulseNumber ` db_pulses t \<Longrightarrow> j \<in> db_jet_drops t \<Longrightarrow> mj_PulseNumber j \<noteq> n"
  by (auto simp: constraints_def)

lemma new_pulse_prefix: "new_pulse pd t (ds @ ds') \<Longrightarrow> new_pulse pd t ds"
  by (simp add: new_pulse_def Int_Un_distrib2)

lemma new_pulse_key:
  assumes "new_pulse pd t (ds @ [jd])"
  shows "jd_key (process_jetdrop jd) \<notin> jd_key ` db_jet_drops (ingested pd t ds)"
proof
  assume "jd_key (process_jetdrop jd) \<in> jd_key ` db_jet_drops (ingested pd t ds)"
  then consider j where "j \<in> db_jet_drops t" "jd_key j = jd_key (process_jetdrop jd)" | d where "d \<in> set ds" "prefix_of d = prefix_of jd"
    by (auto simp: process_jetdrop_key)
  then show False
  proof cases
    case 1
    then have "mj_PulseNumber j = tp_PulseNo pd" using assms by (simp add: process_jetdrop_key new_pulse_def jd_key_def)
    with jet_drops_known [of t "tp_PulseNo pd" j] 1 assms show False by (simp add: new_pulse_def)
  next
    case 2
    then have "prefix_of jd \<in> prefix_of ` set ds" by (metis imageI)
    then show False using assms by (simp add: new_pulse_def)
  qed
qed

lemma counted_ingested:
  assumes "new_pulse pd t (ds @ [jd])"
  shows "counted_save (process_jetdrop jd) (rows jd) (tp_PulseNo pd) (upsert_pulse (pulse_row pd []) (ingested pd t ds)) = ingested pd t (ds @ [jd])"
proof -
  let ?n = "tp_PulseNo pd" and ?j = "process_jetdrop jd"
  have n: "?n \<noteq> 0" "?n \<notin> mp_PulseNumber ` db_pulses t" using assms by (simp_all add: new_pulse_def)
  have "set (refs [jd]) \<inter> (set (refs ds) \<union> mr_Reference ` db_records t) = {}" "distinct (refs [jd])"
    using assms unfolding new_pulse_def by (simp_all add: Int_Un_distrib Int_Un_distrib2 Int_commute)
  then have refs: "mr_Reference ` set (rows jd) \<inter> mr_Reference ` (db_records t \<union> set (concat (map rows ds))) = {}"
    "distinct (map mr_Reference (rows jd))"
    by (simp_all add: refs_single set_refs image_Un Un_commute)
  have recs: "{r \<in> db_records t \<union> set (concat (map rows ds)). mr_Reference r \<notin> mr_Reference ` set (rows jd)} = db_records t \<union> set (concat (map rows ds))"
    using refs(1) by blast
  have drops: "{j \<in> db_jet_drops (ingested pd t ds). jd_key j \<noteq> jd_key ?j} = db_jet_drops (ingested pd t ds)"
  proof -
    have "jd_key j \<noteq> jd_key ?j" if "j \<in> db_jet_drops (ingested pd t ds)" for j
      using new_pulse_key [OF assms] that by (metis imageI)
    then show ?thesis by blast
  qed
  have pulses: "(\<lambda>p. if keyed ?n p then add_amounts 1 (int (length (rows jd))) p else p) ` insert (pulse_row pd ds) (db_pulses t) =
      insert (pulse_row pd (ds @ [jd])) (db_pulses t)"
  proof -
    have "(\<lambda>p. if keyed ?n p then add_amounts 1 (int (length (rows jd))) p else p) ` db_pulses t = id ` db_pulses t"
    proof (rule image_cong)
      fix p assume "p \<in> db_pulses t"
      then have "mp_PulseNumber p \<noteq> ?n" using n(2) by (metis imageI)
      then show "(if keyed ?n p then add_amounts 1 (int (length (rows jd))) p else p) = id p" using n(1) by (simp add: keyed_def)
    qed simp
    then show ?thesis by (simp add: keyed_def add_row)
  qed
  have "counted_save ?j (rows jd) ?n (upsert_pulse (pulse_row pd []) (ingested pd t ds)) =
     (ingested pd t ds)\<lparr>db_pulses := insert (pulse_row pd (ds @ [jd])) (db_pulses t),
       db_jet_drops := insert ?j (db_jet_drops (ingested pd t ds)),
       db_records := db_records t \<union> set (concat (map rows ds)) \<union> set (rows jd)\<rparr>"
    unfolding upsert_ingested [OF n(2)] counted_save_def saved_def put_records_def put_jet_drop_def map_pulses_def
    using recs drops pulses kept_distinct [OF refs(2)] by (simp del: ingested_simps(1,2) concat_map_singleton)
  also have "\<dots> = ingested pd t (ds @ [jd])"
    by (simp add: ingested_def Un_ac)
  finally show ?thesis .
qed

section \<open>One drop\<close>

lemma SavePulse_succeeds:
  assumes "healthy_db G T" and "mp_PulseNumber p \<noteq> 0"
  shows "\<exists>db'. SavePulse G p db = (Inr (), db') \<and> T db' = upsert_pulse p (T db)"
proof (cases "CreatePulse G p db")
  case (Pair r db')
  have g: "gorm_db G T" using assms(1) by (rule healthy_db.axioms)
  obtain u where "r = Inr u" using healthy_db.create_pulse_fails [OF assms(1), of p db] Pair assms(2) by (cases r) auto
  then have "SavePulse G p db = (Inr (), db')" using Pair by (simp add: SavePulse_def wrap_db_def)
  then show ?thesis using gorm_db.SavePulse_effect [OF g] by blast
qed

lemma rows_drop_records: "[] \<notin> mr_Reference ` set (rows jd) \<Longrightarrow> drop_records (process_jetdrop jd) (rows jd)"
  using process_records_keys [of _ "process_jetdrop jd" 0] by (force simp: drop_records_def rows_def)

lemma amounts_fit_ingested:
  assumes "new_pulse pd t (ds @ [jd])"
  shows "amounts_fit (process_jetdrop jd) (rows jd) (upsert_pulse (pulse_row pd []) (ingested pd t ds))"
proof -
  have n: "tp_PulseNo pd \<notin> mp_PulseNumber ` db_pulses t" "pulse_data jd = pd" using assms by (simp_all add: new_pulse_def)
  have "int64_range (int (length ds) + 1) \<and> int64_range (int (length (concat (map rows ds))) + int (length (rows jd)))"
    using assms by (simp add: new_pulse_def int64_range_def refs_def)
  then show ?thesis
    unfolding amounts_fit_def upsert_ingested [OF n(1)] using n by (auto simp: pulse_row_def image_iff)
qed

definition register_of :: "types_Pulse \<Rightarrow> types_JetDrop list \<Rightarrow> (types_Pulse, string list) gomap" where
  "register_of pd ds = (if ds = [] then [] else [(pd, map prefix_of ds)])"

lemma process_ingests:
  assumes "healthy_db G T" and "new_pulse pd t (ds @ [jd])" and "T (ct_storage c) = ingested pd t ds" and "ct_jetDropRegister c = register_of pd ds"
  shows "\<exists>c'. process (NewStorage G) jd c = (None, c') \<and> T (ct_storage c') = ingested pd t (ds @ [jd]) \<and>
    ct_jetDropRegister c' = register_of pd (ds @ [jd]) \<and> ct_platformVersion c' = ct_platformVersion c"
proof -
  let ?j = "process_jetdrop jd"
  have pd: "pulse_data jd = pd" "tp_PulseNo pd \<noteq> 0" "tp_PulseNo pd \<notin> mp_PulseNumber ` db_pulses t"
    and fresh: "prefix_of jd \<notin> prefix_of ` set ds" "[] \<notin> set (refs [jd])" using assms(2) by (simp_all add: new_pulse_def)
  obtain db1 where s1: "SavePulse G (process_pulse jd) (ct_storage c) = (Inr (), db1)" "T db1 = upsert_pulse (pulse_row pd []) (ingested pd t ds)"
    using SavePulse_succeeds [OF assms(1), of "process_pulse jd" "ct_storage c"] pd assms(3) by (auto simp: process_pulse_row)
  have keys: "jd_key ?j \<notin> jd_key ` db_jet_drops (T db1)"
    using new_pulse_key [OF assms(2)] unfolding s1(2) upsert_ingested [OF pd(3)] by simp
  have num: "mj_PulseNumber ?j \<in> mp_PulseNumber ` db_pulses (T db1)"
    unfolding s1(2) upsert_ingested [OF pd(3)] by (simp add: pd(1))
  obtain db2 where s2: "SaveJetDropData G ?j (rows jd) (mj_PulseNumber ?j) db1 = (Inr (), db2)" "T db2 = ingested pd t (ds @ [jd])"
    using healthy_db.SaveJetDropData_succeeds [OF assms(1) num, of "rows jd"] pd rows_drop_records [of jd] fresh(2)
      amounts_fit_ingested [OF assms(2)] keys counted_ingested [OF assms(2)]
    by (auto simp: s1(2) refs_single)
  let ?c = "c\<lparr>ct_storage := db2\<rparr>"
  have "process (NewStorage G) jd c = (None, process_register jd ?c)"
    using s1(1) s2(1) by (simp add: process_def process_save_pulse_def process_save_data_def NewStorage_def rows_def Let_def
      process_pulse_row pd(1))
  moreover have "ct_jetDropRegister (process_register jd ?c) = register_of pd (ds @ [jd])"
    using assms(4) fresh(1) pd(1) by (auto simp: process_register_def SetJetDropData_def register_of_def add_jet_def Let_def pulse_data_def)
  moreover have "ct_storage (process_register jd ?c) = db2" "ct_platformVersion (process_register jd ?c) = ct_platformVersion c"
    by (simp_all add: process_register_def SetJetDropData_def Let_def)
  ultimately show ?thesis using s2(2) by simp
qed

lemma process_all_ingests:
  assumes "healthy_db G T" and "new_pulse pd t (ds @ ds')" and "T (ct_storage c) = ingested pd t ds" and "ct_jetDropRegister c = register_of pd ds"
  shows "\<exists>c'. process_all (NewStorage G) ds' c = (None, c') \<and> T (ct_storage c') = ingested pd t (ds @ ds') \<and>
    ct_jetDropRegister c' = register_of pd (ds @ ds') \<and> ct_platformVersion c' = ct_platformVersion c"
  using assms(2-4)
proof (induction ds' arbitrary: ds c)
  case (Cons jd ds')
  have "new_pulse pd t (ds @ [jd])" using new_pulse_prefix [of pd t "ds @ [jd]" ds'] Cons.prems(1) by simp
  from process_ingests [OF assms(1) this Cons.prems(2,3)] obtain c1 where
    c1: "process (NewStorage G) jd c = (None, c1)" "T (ct_storage c1) = ingested pd t (ds @ [jd])"
      "ct_jetDropRegister c1 = register_of pd (ds @ [jd])" "ct_platformVersion c1 = ct_platformVersion c" by blast
  from Cons.IH [OF _ c1(2,3)] Cons.prems(1) obtain c' where
    "process_all (NewStorage G) ds' c1 = (None, c')" "T (ct_storage c') = ingested pd t (ds @ jd # ds')"
    "ct_jetDropRegister c' = register_of pd (ds @ jd # ds')" "ct_platformVersion c' = ct_platformVersion c1" by auto
  then show ?case using c1 by simp
qed simp

section \<open>The pass of the maintainer\<close>

lemma constraints_ingested: "new_pulse pd t ds \<Longrightarrow> constraints (ingested pd t ds)"
proof (induction ds rule: rev_induct)
  case Nil
  then show ?case by (simp add: new_pulse_def ingested_def)
next
  case (snoc jd ds)
  let ?u = "upsert_pulse (pulse_row pd []) (ingested pd t ds)"
  have n: "tp_PulseNo pd \<notin> mp_PulseNumber ` db_pulses t" "pulse_data jd = pd" using snoc.prems by (simp_all add: new_pulse_def)
  have "constraints ?u" by (intro constraints_upsert snoc.IH new_pulse_prefix [OF snoc.prems])
  moreover have "mj_PulseNumber (process_jetdrop jd) \<in> mp_PulseNumber ` db_pulses ?u"
    unfolding upsert_ingested [OF n(1)] by (simp add: n(2))
  moreover have "\<forall>r \<in> set (rows jd). rec_jd_key r \<in> insert (jd_key (process_jetdrop jd)) (jd_key ` db_jet_drops ?u)"
    by (simp add: rows_def process_records_keys)
  ultimately have "constraints (saved (process_jetdrop jd) (rows jd) ?u)" by (rule constraints_saved)
  then have "constraints (counted_save (process_jetdrop jd) (rows jd) (tp_PulseNo pd) ?u)"
    unfolding counted_save_def by (rule constraints_map_pulses) (simp add: add_amounts_def)
  then show ?case by (simp only: counted_ingested [OF snoc.prems])
qed

lemma range_single: "range_ok ro \<Longrightarrow> ro n [x] = [x]"
  using range_ok_mset [of ro n "[x]"] by (metis mset_single_iff)

lemma erase_counter_storage: "ct_storage (erase_counter ro c) = ct_storage c"
proof -
  have "ct_storage (clean_loop ps c) = ct_storage c" for ps and c :: "'a Controller"
    by (induction ps arbitrary: c) simp_all
  then show ?thesis by (simp add: erase_counter_def cleanJetDropRegister_def Let_def)
qed

lemma erase_counter_empty: "ct_jetDropRegister c = [] \<Longrightarrow> ct_jetDropRegister (erase_counter ro c) = []"
proof -
  have "ct_jetDropRegister c = [] \<Longrightarrow> ct_jetDropRegister (clean_loop ps c) = []" for ps and c :: "'a Controller"
    by (induction ps arbitrary: c) (simp_all add: map_del_def)
  then show "ct_jetDropRegister c = [] \<Longrightarrow> ?thesis" by (simp add: erase_counter_def cleanJetDropRegister_def Let_def)
qed

lemma maintainer_completes:
  assumes "healthy_db G T" and "constraints (T (ct_storage c))" and "tp_PulseNo pd \<noteq> 0"
    and "tp_PulseNo pd \<in> mp_PulseNumber ` db_pulses (T (ct_storage c))" and "ct_jetDropRegister c = [(pd, jets)]"
    and "range_ok ro" and "range_ok (ros 0)" and "distinct jets" and "prefix_free jets" and "\<forall>x \<in> set jets. bitstring x" and "covers (set jets)"
  shows "\<exists>c'. eraseJetDropRegister L (NewStorage G) ro ros now c = Done c' \<and> ct_jetDropRegister c' = [] \<and>
    T (ct_storage c') = map_pulses (\<lambda>p. mp_PulseNumber p = tp_PulseNo pd) (\<lambda>p. p\<lparr>mp_IsComplete := True\<rparr>) (T (ct_storage c))"
proof -
  obtain db where db: "CompletePulse G (tp_PulseNo pd) (ct_storage c) = (Inr (), db)"
    "T db = map_pulses (\<lambda>p. mp_PulseNumber p = tp_PulseNo pd) (\<lambda>p. p\<lparr>mp_IsComplete := True\<rparr>) (T (ct_storage c))"
    using CompletePulse_spec [OF assms(1-3)] assms(4) by auto
  let ?c = "c\<lparr>ct_storage := db, ct_jetDropRegister := []\<rparr>"
  have "register_copy ro c = [(pd, jets)]"
    using assms(5) by (simp add: register_copy_def map_keys_def range_single [OF assms(6)])
  moreover have "erase_entry L (NewStorage G) (ros 0) (now 0) (pd, jets) c = Done ?c"
    using pulseIsComplete_iff_covers [OF assms(7-10), of pd] assms(5,11) db(1) by (simp add: erase_entry_def NewStorage_def map_del_def)
  ultimately have "eraseJetDropRegister L (NewStorage G) ro ros now c = Done (erase_counter ro ?c)"
    by (simp add: eraseJetDropRegister_def)
  then show ?thesis
    using db(2) erase_counter_storage [of ro ?c] erase_counter_empty [of ?c ro] by simp
qed

section \<open>The drops of a pulse\<close>

definition jet_name :: "insolar_lib \<Rightarrow> JetDropContinue \<Rightarrow> string" where
  "jet_name L jet = (case (if JetIsValid L (jc_JetID jet) then JetIDToString L (jc_JetID jet) else Done []) of Done s \<Rightarrow> s | Panic p \<Rightarrow> [])"

lemma drop_names: "list_all2 (drop_of L pulse rs) jets ds \<Longrightarrow> map prefix_of ds = map (jet_name L) jets"
  by (induction rule: list_all2_induct) (auto simp: drop_of_def jet_name_def prefix_of_def Let_def)

lemma drop_data: "list_all2 (drop_of L pulse rs) jets ds \<Longrightarrow> \<forall>jd \<in> set ds. pulse_data jd = getPulseData L pulse"
  by (induction rule: list_all2_induct) (auto simp: drop_of_def pulse_data_def Let_def)

lemma jet_name_bitstring: "bitstring (jet_name L jet)"
  using JetIDToString_bitstring [of L "jc_JetID jet"]
  by (auto simp: jet_name_def bitstring_def split: outcome.splits)

lemma distinct_names: "distinct (map (jet_name L) jets) \<Longrightarrow> distinct (map jc_JetID jets)"
proof -
  define f where "f jid = (case (if JetIsValid L jid then JetIDToString L jid else Done []) of Done s \<Rightarrow> s | Panic p \<Rightarrow> [])" for jid
  have "map (jet_name L) jets = map f (map jc_JetID jets)" by (simp add: jet_name_def f_def)
  then show "distinct (map (jet_name L) jets) \<Longrightarrow> ?thesis" by (metis distinct_map)
qed

definition own_ids :: "insolar_lib \<Rightarrow> ex_Record list \<Rightarrow> bytes \<Rightarrow> bytes list" where
  "own_ids L rs jid = map er_ID (filter (\<lambda>r. er_JetID r = jid \<and> (\<exists>c. transferToCanonicalRecord L r = Inr c)) rs)"

lemma transfer_ref: "transferToCanonicalRecord L r = Inr c \<Longrightarrow> tr_Ref c = er_ID r"
  by (auto simp: transferToCanonicalRecord_def Let_def split: sum.splits Virtual.splits)

lemma canonical_refs: "map tr_Ref (canonical L jid rs) = own_ids L rs jid"
  by (induction rs) (auto simp: canonical_def own_ids_def transfer_ref split: sum.splits)

lemma drop_refs: "drop_of L pulse rs jet d \<Longrightarrow> mset (refs [d]) = mset (own_ids L rs (jc_JetID jet))"
  using canonical_refs [of L "jc_JetID jet" rs]
  by (simp add: drop_of_def refs_single rows_def process_records_refs Let_def) (metis mset_map)

lemma drops_refs: "list_all2 (drop_of L pulse rs) jets ds \<Longrightarrow> mset (refs ds) = mset (concat (map (\<lambda>jet. own_ids L rs (jc_JetID jet)) jets))"
proof (induction rule: list_all2_induct)
  case (Cons jet jets d ds)
  then show ?case using drop_refs [OF Cons(1)] refs_append(1) [of "[d]" ds] by simp
qed simp

lemma own_ids_distinct:
  assumes "distinct (map er_ID rs)"
  shows "distinct (map jc_JetID jets) \<Longrightarrow> distinct (concat (map (\<lambda>jet. own_ids L rs (jc_JetID jet)) jets))"
proof (induction jets)
  case (Cons jet jets)
  have inj: "inj_on er_ID (set rs)" "distinct rs" using assms by (simp_all add: distinct_map)
  have "set (own_ids L rs i) \<inter> set (own_ids L rs j) = {}" if "i \<noteq> j" for i j
    using that inj by (auto simp: own_ids_def inj_on_def)
  moreover have "distinct (own_ids L rs i)" for i using assms by (simp add: own_ids_def distinct_map_filter)
  ultimately show ?case using Cons by auto
qed simp

lemma own_ids_subset: "set (concat (map (\<lambda>jet. own_ids L rs (jc_JetID jet)) jets)) \<subseteq> er_ID ` set rs"
  by (auto simp: own_ids_def)

lemma drops_new_pulse:
  assumes "list_all2 (drop_of L pulse rs) jets ds" and "distinct (map (jet_name L) jets)" and "distinct (map er_ID rs)"
    and "[] \<notin> er_ID ` set rs" and "er_ID ` set rs \<inter> mr_Reference ` db_records t = {}" and "constraints t"
    and "fp_PulseNumber pulse \<noteq> 0" and "uint (fp_PulseNumber pulse) \<notin> mp_PulseNumber ` db_pulses t"
    and "int (length jets) < 2 ^ 63" and "int (length rs) < 2 ^ 63"
  shows "new_pulse (getPulseData L pulse) t ds"
proof -
  let ?ids = "concat (map (\<lambda>jet. own_ids L rs (jc_JetID jet)) jets)"
  note m = drops_refs [OF assms(1)]
  have d: "distinct ?ids" by (rule own_ids_distinct [OF assms(3) distinct_names [OF assms(2)]])
  have "distinct (refs ds)" "set (refs ds) \<subseteq> er_ID ` set rs"
    using d own_ids_subset mset_eq_imp_distinct_iff [OF m] mset_eq_setD [OF m] by simp_all
  moreover from this have "length (refs ds) \<le> length rs"
    by (metis distinct_card card_image_le card_length card_mono finite_imageI finite_set le_trans)
  ultimately show ?thesis
    unfolding new_pulse_def using assms(2,4-10) drop_data [OF assms(1)] drop_names [OF assms(1)] list_all2_lengthD [OF assms(1)]
    by (auto simp: getPulseData_def unsigned_eq_0_iff)
qed

section \<open>The whole way\<close>

text \<open>The tables after a pulse that has been taken in.\<close>

definition with_pulse :: "types_Pulse \<Rightarrow> types_JetDrop list \<Rightarrow> database \<Rightarrow> database" where
  "with_pulse pd ds t = t\<lparr>db_pulses := insert ((pulse_row pd ds)\<lparr>mp_IsComplete := True\<rparr>) (db_pulses t),
     db_jet_drops := db_jet_drops t \<union> process_jetdrop ` set ds, db_records := db_records t \<union> set (concat (map rows ds))\<rparr>"

lemma complete_ingested:
  assumes "tp_PulseNo pd \<notin> mp_PulseNumber ` db_pulses t" and "ds \<noteq> []"
  shows "map_pulses (\<lambda>p. mp_PulseNumber p = tp_PulseNo pd) (\<lambda>p. p\<lparr>mp_IsComplete := True\<rparr>) (ingested pd t ds) = with_pulse pd ds t"
proof -
  have "(\<lambda>p. if mp_PulseNumber p = tp_PulseNo pd then p\<lparr>mp_IsComplete := True\<rparr> else p) ` db_pulses t = id ` db_pulses t"
  proof (rule image_cong)
    fix p assume "p \<in> db_pulses t"
    then have "mp_PulseNumber p \<noteq> tp_PulseNo pd" using assms(1) by (metis imageI)
    then show "(if mp_PulseNumber p = tp_PulseNo pd then p\<lparr>mp_IsComplete := True\<rparr> else p) = id p" by simp
  qed simp
  then show ?thesis using assms(2) by (simp add: map_pulses_def with_pulse_def ingested_def)
qed

text \<open>C3: on a database server that is up, a new pulse of the platform whose records marshal and can be put in order and whose
  jets make up the jet tree is transformed, processed drop by drop and completed by the next pass of the maintainer; afterwards
  the database has, beside what it had, exactly the pulse, marked complete and with the numbers of its drops and records,
  one row for each jet with the jet's hash, and one row for each record, in the order of change within its jet.\<close>

theorem pulse_ingested:
  assumes "healthy_db G T" and "constraints (T (ct_storage c))" and "ct_jetDropRegister c = []"
    and "pp_Pulse d = Some pulse" and "\<And>k. range_ok (ros k)"
    and "\<And>r. r \<in> set (pp_Records d) \<Longrightarrow> \<exists>raw. Marshal L r = Inr raw"
    and "\<And>jet. jet \<in> set (fp_Jets pulse) \<Longrightarrow> sortable L (canonical L (jc_JetID jet) (pp_Records d)) \<and>
      unat (Depth L (jc_JetID jet)) \<le> 8 * length (Prefix L (jc_JetID jet))"
    and "fp_PulseNumber pulse \<noteq> 0" and "uint (fp_PulseNumber pulse) \<notin> mp_PulseNumber ` db_pulses (T (ct_storage c))"
    and "distinct (map er_ID (pp_Records d))" and "[] \<notin> er_ID ` set (pp_Records d)"
    and "er_ID ` set (pp_Records d) \<inter> mr_Reference ` db_records (T (ct_storage c)) = {}"
    and "distinct (map (jet_name L) (fp_Jets pulse))" and "prefix_free (map (jet_name L) (fp_Jets pulse))"
    and "covers (jet_name L ` set (fp_Jets pulse))"
    and "int (length (fp_Jets pulse)) < 2 ^ 63" and "int (length (pp_Records d)) < 2 ^ 63"
    and "range_ok ro" and "\<And>k. range_ok (pros k)"
  shows "\<exists>drops c1 c2. Transform L ros (Some d) = Done (Inr drops) \<and>
    list_all2 (drop_of L pulse (pp_Records d)) (fp_Jets pulse) drops \<and>
    process_all (NewStorage G) drops c = (None, c1) \<and> eraseJetDropRegister L (NewStorage G) ro pros now c1 = Done c2 \<and>
    T (ct_storage c2) = with_pulse (getPulseData L pulse) drops (T (ct_storage c)) \<and> ct_jetDropRegister c2 = []"
proof -
  let ?pd = "getPulseData L pulse" and ?t = "T (ct_storage c)" and ?jets = "map (jet_name L) (fp_Jets pulse)"
  obtain drops where tr: "Transform L ros (Some d) = Done (Inr drops)" "list_all2 (drop_of L pulse (pp_Records d)) (fp_Jets pulse) drops"
    using Transform_succeeds [where ros = ros and L = L, OF assms(4-7)] by blast
  have new: "new_pulse ?pd ?t drops"
    by (rule drops_new_pulse [OF tr(2) assms(13,10-12) assms(2,8,9,16,17)])
  have "fp_Jets pulse \<noteq> []" using assms(15) covers_Nil by (auto simp: covers_def bitstring_def)
  then have ne: "drops \<noteq> []" using tr(2) by auto
  have "T (ct_storage c) = ingested ?pd ?t []" "ct_jetDropRegister c = register_of ?pd []"
    using assms(3) by (simp_all add: ingested_def register_of_def)
  from process_all_ingests [where ds' = drops, OF assms(1) _ this] new obtain c1 where
    c1: "process_all (NewStorage G) drops c = (None, c1)" "T (ct_storage c1) = ingested ?pd ?t drops" "ct_jetDropRegister c1 = [(?pd, ?jets)]"
    using ne drop_names [OF tr(2)] by (auto simp: register_of_def)
  have n: "tp_PulseNo ?pd \<noteq> 0" "tp_PulseNo ?pd \<notin> mp_PulseNumber ` db_pulses ?t" using new by (simp_all add: new_pulse_def)
  have "tp_PulseNo ?pd \<in> mp_PulseNumber ` db_pulses (T (ct_storage c1))" using ne by (simp add: c1(2))
  from maintainer_completes [where ros = pros and now = now and L = L, OF assms(1) _ n(1) this c1(3) assms(18,19,13,14)]
  obtain c2 where c2: "eraseJetDropRegister L (NewStorage G) ro pros now c1 = Done c2" "ct_jetDropRegister c2 = []"
    "T (ct_storage c2) = map_pulses (\<lambda>p. mp_PulseNumber p = tp_PulseNo ?pd) (\<lambda>p. p\<lparr>mp_IsComplete := True\<rparr>) (ingested ?pd ?t drops)"
    using constraints_ingested [OF new] assms(15) c1(2) jet_name_bitstring by auto
  show ?thesis
    using tr c1(1) c2 complete_ingested [OF n(2) ne] by metis
qed

section \<open>Witness\<close>

text \<open>A pulse with the jets 0 and 1 and one record in the second.\<close>

definition bit_lib :: insolar_lib where
  "bit_lib = plain_lib\<lparr>Depth := \<lambda>b. 1\<rparr>"

definition two_jets :: FullPulse where
  "two_jets = \<lparr>fp_PulseNumber = 65600, fp_PulseTimestamp = 5000000000, fp_NextPulseNumber = 65610, fp_PrevPulseNumber = 65590,
     fp_Jets = [\<lparr>jc_JetID = [0], jc_Hash = [7], jc_PrevDropHashes = [[6]]\<rparr>, \<lparr>jc_JetID = [128], jc_Hash = [8], jc_PrevDropHashes = [[6]]\<rparr>]\<rparr>"

definition two_jets_data :: PlatformPulseData where
  "two_jets_data = \<lparr>pp_Pulse = Some two_jets, pp_Records = [one_record\<lparr>er_JetID := [128]\<rparr>]\<rparr>"

definition empty_controller :: "tables Controller" where
  "empty_controller = NewController \<lparr>cfg_PulsePeriod = 1, cfg_SequentialPeriod = 1, cfg_ReloadPeriod = 10, cfg_ReloadCleanPeriod = 1\<rparr>
     \<lparr>t_pulses = [], t_jet_drops = [], t_records = []\<rparr> 2"

lemma two_jets_names: "map (jet_name bit_lib) (fp_Jets two_jets) = [''0'', ''1'']"
  by (simp add: two_jets_def jet_name_def bit_lib_def plain_lib_def JetIDToString_eq jet_bit_def upt_conv_Cons bit_simps)

lemma two_jets_covers: "covers {''0'', ''1''}"
proof -
  have "\<exists>x \<in> {''0'', ''1''}. prefix x b" if "bitstring b" "1 \<le> length b" for b
    using that by (cases b) (auto simp: bitstring_def is_bit_def)
  then show ?thesis by (auto simp: covers_def)
qed

lemma two_jets_sortable: "sortable bit_lib (canonical bit_lib jid (pp_Records two_jets_data))"
proof -
  have "canonical bit_lib jid (pp_Records two_jets_data) = (if jid = [128] then
     [\<lparr>tr_Type = STATE, tr_Ref = [9], tr_ObjectReference = [3], tr_PrototypeReference = [4],
       tr_PrevRecordReference = [], tr_RecordPayload = [5], tr_Hash = [9], tr_RawData = [8], tr_Order = 1\<rparr>] else [])"
    by (simp add: canonical_def two_jets_data_def one_record_def transferToCanonicalRecord_def bit_lib_def plain_lib_def Let_def)
  then show ?thesis by (auto simp: sortable_def state_records_def records_of_def lifeline_def)
qed

theorem pulse_ingested_witness:
  "\<exists>drops c1 c2. process_all (NewStorage rel_gorm) drops empty_controller = (None, c1) \<and>
     eraseJetDropRegister bit_lib (NewStorage rel_gorm) range_insertion (\<lambda>_. range_reverse) (\<lambda>_. 0) c1 = Done c2 \<and>
     db_pulses (tables_db (ct_storage c2)) = {\<lparr>mp_PulseNumber = 65600, mp_PrevPulseNumber = 65590, mp_NextPulseNumber = 65610, mp_IsComplete = True,
       mp_IsSequential = False, mp_Timestamp = 5, mp_JetDropAmount = 2, mp_RecordAmount = 1\<rparr>}"
proof -
  have "\<exists>drops c1 c2. Transform bit_lib (\<lambda>_. range_insertion) (Some two_jets_data) = Done (Inr drops) \<and>
    list_all2 (drop_of bit_lib two_jets (pp_Records two_jets_data)) (fp_Jets two_jets) drops \<and>
    process_all (NewStorage rel_gorm) drops empty_controller = (None, c1) \<and>
    eraseJetDropRegister bit_lib (NewStorage rel_gorm) range_insertion (\<lambda>_. range_reverse) (\<lambda>_. 0) c1 = Done c2 \<and>
    tables_db (ct_storage c2) = with_pulse (getPulseData bit_lib two_jets) drops (tables_db (ct_storage empty_controller)) \<and>
    ct_jetDropRegister c2 = []"
  proof (rule pulse_ingested [OF rel.healthy_db_axioms])
    show "sortable bit_lib (canonical bit_lib (jc_JetID jet) (pp_Records two_jets_data)) \<and>
        unat (Depth bit_lib (jc_JetID jet)) \<le> 8 * length (Prefix bit_lib (jc_JetID jet))" if "jet \<in> set (fp_Jets two_jets)" for jet
      using that two_jets_sortable by (auto simp: bit_lib_def plain_lib_def two_jets_def)
    show "distinct (map (jet_name bit_lib) (fp_Jets two_jets))" "prefix_free (map (jet_name bit_lib) (fp_Jets two_jets))"
      unfolding two_jets_names by (simp_all add: prefix_free_def)
    show "covers (jet_name bit_lib ` set (fp_Jets two_jets))"
      using two_jets_covers arg_cong [OF two_jets_names, of set] by simp
  qed (simp_all add: constraints_def empty_controller_def NewController_def tables_db_def two_jets_data_def two_jets_def one_record_def
      bit_lib_def plain_lib_def)
  then obtain drops c1 c2 where r: "list_all2 (drop_of bit_lib two_jets (pp_Records two_jets_data)) (fp_Jets two_jets) drops"
    "process_all (NewStorage rel_gorm) drops empty_controller = (None, c1)"
    "eraseJetDropRegister bit_lib (NewStorage rel_gorm) range_insertion (\<lambda>_. range_reverse) (\<lambda>_. 0) c1 = Done c2"
    "tables_db (ct_storage c2) = with_pulse (getPulseData bit_lib two_jets) drops (tables_db (ct_storage empty_controller))" by blast
  have "size (mset (refs drops)) = 1"
    unfolding drops_refs [OF r(1)]
    by (simp add: own_ids_def two_jets_def two_jets_data_def one_record_def transferToCanonicalRecord_def bit_lib_def plain_lib_def)
  then have "length (concat (map rows drops)) = 1" by (simp add: refs_def)
  moreover have "length drops = 2" using list_all2_lengthD [OF r(1)] by (simp add: two_jets_def)
  ultimately have "db_pulses (tables_db (ct_storage c2)) = {\<lparr>mp_PulseNumber = 65600, mp_PrevPulseNumber = 65590, mp_NextPulseNumber = 65610, mp_IsComplete = True,
       mp_IsSequential = False, mp_Timestamp = 5, mp_JetDropAmount = 2, mp_RecordAmount = 1\<rparr>}"
    unfolding r(4) with_pulse_def
    by (simp add: pulse_row_def emptyPulse_def getPulseData_def two_jets_def empty_controller_def NewController_def tables_db_def
      NanosToSeconds_def go_div64_def NanosecondsInSecond_def)
  with r(2,3) show ?thesis by blast
qed

end
