(* ===== verification/Controller_Loops.thy ===== *)
theory Controller_Loops
  imports ETL_System
begin

text \<open>The goroutines of the controller as loops: each round waits for its timer or for the end of the context.  A run is the list of
  what the \<open>select\<close> of the loop picks.  \<open>Stop\<close> cancels the context and exchanges two signals with the goroutine of the
  missed data manager over one unbuffered channel.\<close>

section \<open>The loops\<close>

text \<open>The timer of the maintainer comes with the orders and clock readings of the round it starts.\<close>

datatype maintainer_event = MaintainerDone | MaintainerTimer "types_Pulse range_order" "nat \<Rightarrow> string range_order" "nat \<Rightarrow> int"

fun pulseMaintainer :: "insolar_lib \<Rightarrow> 'st Storage_iface \<Rightarrow> maintainer_event list \<Rightarrow> 'st Controller \<Rightarrow> 'st Controller outcome" where
  "pulseMaintainer L S [] c = Done c"
| "pulseMaintainer L S (MaintainerDone # es) c = Done c"
| "pulseMaintainer L S (MaintainerTimer ro ros now # es) c =
     bind_outcome (eraseJetDropRegister L S ro ros now c) (pulseMaintainer L S es)"

datatype sequencer_event = SequencerDone | SequencerTimer int

text \<open>The result has the seconds the loop waits before its next round.\<close>

fun pulseSequence_loop :: "insolar_lib \<Rightarrow> 'st Storage_iface \<Rightarrow> sequencer_event list \<Rightarrow> int \<Rightarrow> 'st Controller \<Rightarrow> int \<times> 'st Controller" where
  "pulseSequence_loop L S [] waitTime c = (waitTime, c)"
| "pulseSequence_loop L S (SequencerDone # es) waitTime c = (waitTime, c)"
| "pulseSequence_loop L S (SequencerTimer now # es) waitTime c =
     (case pulseSequence L S now c of (waitTime, c) \<Rightarrow> pulseSequence_loop L S es waitTime c)"

definition sequencer_run :: "insolar_lib \<Rightarrow> 'st Storage_iface \<Rightarrow> sequencer_event list \<Rightarrow> 'st Controller \<Rightarrow> int \<times> 'st Controller" where
  "sequencer_run L S es c = pulseSequence_loop L S es (cfg_SequentialPeriod (ct_cfg c)) c"

section \<open>The sequencer catches up\<close>

definition flag_sequential :: "int \<Rightarrow> database \<Rightarrow> database" where
  "flag_sequential n t = map_pulses (\<lambda>p. mp_PulseNumber p = n) (\<lambda>p. p\<lparr>mp_IsSequential := True\<rparr>) t"

text \<open>A chain of complete pulses after a number: each is the only pulse with its predecessor.\<close>

fun complete_chain :: "database \<Rightarrow> int \<Rightarrow> models_Pulse list \<Rightarrow> bool" where
  "complete_chain t n [] = True"
| "complete_chain t n (p # ps) \<longleftrightarrow> {q \<in> db_pulses t. mp_PrevPulseNumber q = n} = {p} \<and> mp_IsComplete p \<and> mp_PulseNumber p \<noteq> 0 \<and>
     mp_PulseNumber p \<notin> mp_PulseNumber ` set ps \<and> complete_chain t (mp_PulseNumber p) ps"

lemma flag_sequential_numbers: "mp_PulseNumber ` db_pulses (flag_sequential n t) = mp_PulseNumber ` db_pulses t"
  unfolding flag_sequential_def by (rule numbers_map_pulses) simp

lemma flag_sequential_chain:
  assumes "n \<notin> mp_PulseNumber ` set ps" and "complete_chain t m ps"
  shows "complete_chain (flag_sequential n t) m ps"
  using assms
proof (induction ps arbitrary: m)
  case (Cons p ps)
  define f where "f q = (if mp_PulseNumber q = n then q\<lparr>mp_IsSequential := True\<rparr> else q)" for q :: models_Pulse
  have "mp_PrevPulseNumber (f q) = mp_PrevPulseNumber q" for q by (simp add: f_def)
  then have "{q \<in> f ` db_pulses t. mp_PrevPulseNumber q = m} = f ` {q \<in> db_pulses t. mp_PrevPulseNumber q = m}"
    by (rule filter_image_key)
  moreover have "db_pulses (flag_sequential n t) = f ` db_pulses t" by (simp add: flag_sequential_def f_def [abs_def])
  moreover have "f p = p" using Cons.prems(1) by (simp add: f_def)
  ultimately show ?case using Cons by simp
qed simp

lemma GetPulseByPrev_total:
  assumes "healthy_db G T" and "{q \<in> db_pulses (T db). mp_PrevPulseNumber q = mp_PulseNumber prev} = {p}"
  shows "\<exists>db'. GetPulseByPrev G prev db = ((p, None), db') \<and> T db' = T db"
proof -
  obtain q err db' where r: "GetPulseByPrev G prev db = ((q, err), db')" by (metis surj_pair)
  have g: "gorm_db G T" using assms(1) by (rule healthy_db.axioms)
  note s = gorm_db.GetPulseByPrev_spec [OF g r]
  have "e = RecordNotFound" if "err = Some e" for e
    using r that healthy_db.first_pulse_fails [OF assms(1)] by (auto simp: GetPulseByPrev_def split: prod.splits sum.splits)
  with s assms(2) have "err = None" by (cases err) auto
  with s assms(2) have "q = p" by auto
  with r s \<open>err = None\<close> show ?thesis by simp
qed

lemma pulseSequence_advances:
  assumes "healthy_db G T" and "constraints (T (ct_storage c))" and "complete_chain (T (ct_storage c)) (mp_PulseNumber (ct_sequentialPulse c)) (p # ps)"
  shows "\<exists>st. pulseSequence L (NewStorage G) now c = (0, c\<lparr>ct_storage := st, ct_sequentialPulse := p\<rparr>) \<and>
    T st = flag_sequential (mp_PulseNumber p) (T (ct_storage c))"
proof -
  obtain db where db: "GetPulseByPrev G (ct_sequentialPulse c) (ct_storage c) = ((p, None), db)" "T db = T (ct_storage c)"
    using GetPulseByPrev_total [OF assms(1), of "ct_storage c" "ct_sequentialPulse c" p] assms(3) by auto
  have "mp_PulseNumber p \<in> mp_PulseNumber ` db_pulses (T db)" using assms(3) db(2) by (auto simp: set_eq_iff)
  then obtain db' where "SequencePulse G (mp_PulseNumber p) db = (Inr (), db')" "T db' = flag_sequential (mp_PulseNumber p) (T db)"
    using SequencePulse_spec [OF assms(1), of db "mp_PulseNumber p"] assms(2,3) db(2) by (auto simp: flag_sequential_def)
  then show ?thesis
    using db assms(3) by (intro exI [of _ db']) (simp add: pulseSequence_def NewStorage_def Let_def)
qed

lemma constraints_flag: "constraints t \<Longrightarrow> constraints (flag_sequential n t)"
  unfolding flag_sequential_def by (rule constraints_map_pulses) simp_all

lemma sequencer_rounds:
  assumes "healthy_db G T"
  shows "constraints (T (ct_storage c)) \<Longrightarrow> complete_chain (T (ct_storage c)) (mp_PulseNumber (ct_sequentialPulse c)) ps \<Longrightarrow> length nows = length ps \<Longrightarrow>
    \<exists>st. pulseSequence_loop L (NewStorage G) (map SequencerTimer nows) w c =
        (if ps = [] then w else 0, c\<lparr>ct_storage := st, ct_sequentialPulse := if ps = [] then ct_sequentialPulse c else last ps\<rparr>) \<and>
      T st = fold (\<lambda>p. flag_sequential (mp_PulseNumber p)) ps (T (ct_storage c))"
proof (induction ps arbitrary: c w nows)
  case Nil
  then show ?case by (intro exI [of _ "ct_storage c"]) simp
next
  case (Cons p ps)
  obtain now nows' where nows: "nows = now # nows'" "length nows' = length ps" using Cons.prems(3) by (cases nows) auto
  obtain st where st: "pulseSequence L (NewStorage G) now c = (0, c\<lparr>ct_storage := st, ct_sequentialPulse := p\<rparr>)"
    "T st = flag_sequential (mp_PulseNumber p) (T (ct_storage c))"
    using pulseSequence_advances [OF assms Cons.prems(1,2)] by blast
  let ?c = "c\<lparr>ct_storage := st, ct_sequentialPulse := p\<rparr>"
  have "constraints (T (ct_storage ?c))" "complete_chain (T (ct_storage ?c)) (mp_PulseNumber (ct_sequentialPulse ?c)) ps"
    using Cons.prems(1,2) st(2) by (simp_all add: constraints_flag flag_sequential_chain)
  from Cons.IH [OF this nows(2), of 0] obtain st' where "pulseSequence_loop L (NewStorage G) (map SequencerTimer nows') 0 ?c =
      (0, c\<lparr>ct_storage := st', ct_sequentialPulse := last (p # ps)\<rparr>)"
    "T st' = fold (\<lambda>p. flag_sequential (mp_PulseNumber p)) ps (flag_sequential (mp_PulseNumber p) (T (ct_storage c)))"
    using st(2) by (auto split: if_splits)
  then show ?case using nows(1) st(1) by auto
qed

lemma map_pulses_twice:
  "map_pulses P (\<lambda>q. q\<lparr>mp_IsSequential := True\<rparr>) (map_pulses (\<lambda>q. mp_PulseNumber q = n) (\<lambda>q. q\<lparr>mp_IsSequential := True\<rparr>) t) =
     map_pulses (\<lambda>q. P q \<or> mp_PulseNumber q = n) (\<lambda>q. q\<lparr>mp_IsSequential := True\<rparr>) t"
  if "\<And>q. P (q\<lparr>mp_IsSequential := True\<rparr>) = P q" for P :: "models_Pulse \<Rightarrow> bool"
proof -
  define f where "f Q q = (if Q q then q\<lparr>mp_IsSequential := True\<rparr> else q)" for Q and q :: models_Pulse
  have eq: "map_pulses Q (\<lambda>q. q\<lparr>mp_IsSequential := True\<rparr>) u = u\<lparr>db_pulses := f Q ` db_pulses u\<rparr>" for Q u
    unfolding map_pulses_def f_def ..
  have "f P (f (\<lambda>q. mp_PulseNumber q = n) q) = f (\<lambda>q. P q \<or> mp_PulseNumber q = n) q" for q
    using that by (simp add: f_def)
  then show ?thesis by (simp add: eq image_image)
qed

lemma fold_flag_sequential:
  "fold (\<lambda>p. flag_sequential (mp_PulseNumber p)) ps t =
     map_pulses (\<lambda>p. mp_PulseNumber p \<in> mp_PulseNumber ` set ps) (\<lambda>p. p\<lparr>mp_IsSequential := True\<rparr>) t"
proof (induction ps arbitrary: t)
  case Nil
  then show ?case by (simp add: map_pulses_def)
next
  case (Cons p ps)
  have "fold (\<lambda>p. flag_sequential (mp_PulseNumber p)) (p # ps) t =
      map_pulses (\<lambda>q. mp_PulseNumber q \<in> mp_PulseNumber ` set ps) (\<lambda>q. q\<lparr>mp_IsSequential := True\<rparr>)
        (map_pulses (\<lambda>q. mp_PulseNumber q = mp_PulseNumber p) (\<lambda>q. q\<lparr>mp_IsSequential := True\<rparr>) t)"
    by (simp add: Cons.IH flag_sequential_def)
  also have "\<dots> = map_pulses (\<lambda>q. mp_PulseNumber q \<in> mp_PulseNumber ` set (p # ps)) (\<lambda>q. q\<lparr>mp_IsSequential := True\<rparr>) t"
    by (subst map_pulses_twice, simp) (rule arg_cong [of _ _ "\<lambda>P. map_pulses P _ _"], auto)
  finally show ?case .
qed

text \<open>C4: when the database server is up and complete pulses follow the last sequential one, each the only successor of the
  one before, as many rounds of the sequencer as there are such pulses mark all of them sequential, without a pause between two
  rounds, and nothing else changes.\<close>

theorem sequencer_catches_up:
  assumes "healthy_db G T" and "constraints (T (ct_storage c))" and "ps \<noteq> []"
    and "complete_chain (T (ct_storage c)) (mp_PulseNumber (ct_sequentialPulse c)) ps" and "length nows = length ps"
  shows "\<exists>st. sequencer_run L (NewStorage G) (map SequencerTimer nows) c = (0, c\<lparr>ct_storage := st, ct_sequentialPulse := last ps\<rparr>) \<and>
    T st = map_pulses (\<lambda>p. mp_PulseNumber p \<in> mp_PulseNumber ` set ps) (\<lambda>p. p\<lparr>mp_IsSequential := True\<rparr>) (T (ct_storage c))"
  using sequencer_rounds [OF assms(1,2,4,5), of L] assms(3) by (simp add: sequencer_run_def fold_flag_sequential)

definition chain_pulse :: "int \<Rightarrow> int \<Rightarrow> models_Pulse" where
  "chain_pulse prev n = emptyPulse\<lparr>mp_PulseNumber := n, mp_PrevPulseNumber := prev, mp_IsComplete := True\<rparr>"

definition chain_controller :: "tables Controller" where
  "chain_controller = NewController \<lparr>cfg_PulsePeriod = 1, cfg_SequentialPeriod = 1, cfg_ReloadPeriod = 10, cfg_ReloadCleanPeriod = 1\<rparr>
     \<lparr>t_pulses = [chain_pulse 65537 65547, chain_pulse 0 65537], t_jet_drops = [], t_records = []\<rparr> 2"

theorem sequencer_catches_up_witness:
  "\<exists>st. sequencer_run plain_lib (NewStorage rel_gorm) [SequencerTimer 1, SequencerTimer 2] chain_controller =
      (0, chain_controller\<lparr>ct_storage := st, ct_sequentialPulse := chain_pulse 65537 65547\<rparr>) \<and>
    db_pulses (tables_db st) = {(chain_pulse 0 65537)\<lparr>mp_IsSequential := True\<rparr>, (chain_pulse 65537 65547)\<lparr>mp_IsSequential := True\<rparr>}"
proof -
  have t: "tables_db (ct_storage chain_controller) = \<lparr>db_pulses = {chain_pulse 65537 65547, chain_pulse 0 65537}, db_jet_drops = {}, db_records = {}\<rparr>"
    by (simp add: chain_controller_def NewController_def tables_db_def)
  have "{q \<in> {chain_pulse 65537 65547, chain_pulse 0 65537}. mp_PrevPulseNumber q = 0} = {chain_pulse 0 65537}"
    "{q \<in> {chain_pulse 65537 65547, chain_pulse 0 65537}. mp_PrevPulseNumber q = 65537} = {chain_pulse 65537 65547}"
    by (auto simp: chain_pulse_def)
  then have "complete_chain (tables_db (ct_storage chain_controller)) (mp_PulseNumber (ct_sequentialPulse chain_controller))
      [chain_pulse 0 65537, chain_pulse 65537 65547]"
    unfolding t by (simp add: chain_controller_def NewController_def emptyPulse_def) (simp add: chain_pulse_def)
  moreover have "constraints (tables_db (ct_storage chain_controller))"
    unfolding t constraints_def by (auto simp: inj_on_def chain_pulse_def)
  ultimately obtain st where st: "sequencer_run plain_lib (NewStorage rel_gorm) [SequencerTimer 1, SequencerTimer 2] chain_controller =
      (0, chain_controller\<lparr>ct_storage := st, ct_sequentialPulse := chain_pulse 65537 65547\<rparr>)"
    "tables_db st = map_pulses (\<lambda>p. mp_PulseNumber p \<in> mp_PulseNumber ` set [chain_pulse 0 65537, chain_pulse 65537 65547])
      (\<lambda>p. p\<lparr>mp_IsSequential := True\<rparr>) (tables_db (ct_storage chain_controller))"
    using sequencer_catches_up [OF rel.healthy_db_axioms, of chain_controller "[chain_pulse 0 65537, chain_pulse 65537 65547]" "[1, 2]" plain_lib]
    by auto
  have "db_pulses (tables_db st) = {(chain_pulse 0 65537)\<lparr>mp_IsSequential := True\<rparr>, (chain_pulse 65537 65547)\<lparr>mp_IsSequential := True\<rparr>}"
    unfolding st(2) t by (auto simp: chain_pulse_def)
  with st(1) show ?thesis by blast
qed

section \<open>Stopping\<close>

text \<open>The goroutine of \<open>MissedDataManager.Start\<close> and the callers of \<open>Controller.Stop\<close>, which cancel the context of the two loops above and then
  call \<open>MissedDataManager.Stop\<close>.  Both sides send and receive on the one channel \<open>stopped\<close>, so a caller can also take the signal of
  another caller.  Once the context is done the loops may see it at their next round; nobody waits for them.\<close>

datatype mdm_pc = Selecting | Acknowledging | Mdm_ended

datatype stopper = Stop_cancels | Stop_sends | Stop_receives | Stop_returned

record mdm_system =
  ms_mdm :: MissedDataManager
  ms_ctx_done :: bool
  ms_pc :: mdm_pc
  ms_stoppers :: "stopper list"

inductive mdm_step :: "mdm_system \<Rightarrow> mdm_system \<Rightarrow> bool" where
  tick: "ms_pc s = Selecting \<Longrightarrow> mdm_step s (s\<lparr>ms_mdm := deleteExpired now (ms_mdm s)\<rparr>)"
| cancelFunc: "i < length (ms_stoppers s) \<Longrightarrow> ms_stoppers s ! i = Stop_cancels \<Longrightarrow>
    mdm_step s (s\<lparr>ms_ctx_done := True, ms_stoppers := (ms_stoppers s)[i := Stop_sends]\<rparr>)"
| stop_received: "ms_pc s = Selecting \<Longrightarrow> i < length (ms_stoppers s) \<Longrightarrow> ms_stoppers s ! i = Stop_sends \<Longrightarrow>
    mdm_step s (s\<lparr>ms_pc := Acknowledging, ms_stoppers := (ms_stoppers s)[i := Stop_receives]\<rparr>)"
| acknowledged: "ms_pc s = Acknowledging \<Longrightarrow> i < length (ms_stoppers s) \<Longrightarrow> ms_stoppers s ! i = Stop_receives \<Longrightarrow>
    mdm_step s (s\<lparr>ms_pc := Mdm_ended, ms_stoppers := (ms_stoppers s)[i := Stop_returned]\<rparr>)"
| crossed: "i < length (ms_stoppers s) \<Longrightarrow> k < length (ms_stoppers s) \<Longrightarrow> ms_stoppers s ! i = Stop_receives \<Longrightarrow>
    ms_stoppers s ! k = Stop_sends \<Longrightarrow> mdm_step s (s\<lparr>ms_stoppers := (ms_stoppers s)[i := Stop_returned, k := Stop_receives]\<rparr>)"

inductive_cases mdm_stepE: "mdm_step s s'"

definition mdm_stop_init :: "MissedDataManager \<Rightarrow> nat \<Rightarrow> mdm_system" where
  "mdm_stop_init mdm n = \<lparr>ms_mdm = mdm, ms_ctx_done = False, ms_pc = Selecting, ms_stoppers = replicate n Stop_cancels\<rparr>"

definition receivers :: "mdm_system \<Rightarrow> nat" where
  "receivers s = length (filter (\<lambda>x. x = Stop_receives) (ms_stoppers s))"

definition mdm_inv :: "mdm_system \<Rightarrow> bool" where
  "mdm_inv s \<longleftrightarrow> receivers s = (if ms_pc s = Acknowledging then 1 else 0) \<and> (ms_pc s = Selecting \<longrightarrow> Stop_returned \<notin> set (ms_stoppers s)) \<and>
     (ms_ctx_done s \<or> set (ms_stoppers s) \<subseteq> {Stop_cancels})"

lemma filter_update: "i < length xs \<Longrightarrow> length (filter P (xs[i := y])) + (if P (xs ! i) then 1 else 0) = length (filter P xs) + (if P y then 1 else 0)"
proof (induction xs arbitrary: i)
  case (Cons x xs)
  show ?case
  proof (cases i)
    case (Suc j)
    then show ?thesis using Cons.IH [of j] Cons.prems by simp
  qed simp
qed simp

lemma receivers_none: "receivers s = 0 \<Longrightarrow> i < length (ms_stoppers s) \<Longrightarrow> ms_stoppers s ! i \<noteq> Stop_receives"
  by (auto simp: receivers_def filter_empty_conv)

lemma ctx_done_before: "mdm_inv s \<Longrightarrow> i < length (ms_stoppers s) \<Longrightarrow> ms_stoppers s ! i \<noteq> Stop_cancels \<Longrightarrow> ms_ctx_done s"
  unfolding mdm_inv_def by (meson nth_mem singletonD subsetD)

lemma returned_update: "y \<noteq> Stop_returned \<Longrightarrow> Stop_returned \<notin> set xs \<Longrightarrow> Stop_returned \<notin> set (xs[i := y])"
  using set_update_subset_insert [of xs i y] by auto

lemma mdm_inv_step: "mdm_step s s' \<Longrightarrow> mdm_inv s \<Longrightarrow> mdm_inv s'"
proof (induction rule: mdm_step.induct)
  case (cancelFunc i s)
  then show ?case using filter_update [of i "ms_stoppers s" "\<lambda>x. x = Stop_receives" Stop_sends]
    by (auto simp: mdm_inv_def receivers_def returned_update)
next
  case (stop_received s i)
  then show ?case using filter_update [of i "ms_stoppers s" "\<lambda>x. x = Stop_receives" Stop_receives] ctx_done_before [of s i]
    by (simp add: mdm_inv_def receivers_def)
next
  case (acknowledged s i)
  then show ?case using filter_update [of i "ms_stoppers s" "\<lambda>x. x = Stop_receives" Stop_returned] ctx_done_before [of s i]
    by (simp add: mdm_inv_def receivers_def)
next
  case (crossed i s k)
  have "ms_pc s = Acknowledging" using crossed receivers_none [of s i] by (cases "ms_pc s") (auto simp: mdm_inv_def)
  moreover have "i \<noteq> k" using crossed by auto
  ultimately show ?case
    using crossed filter_update [of i "ms_stoppers s" "\<lambda>x. x = Stop_receives" Stop_returned] ctx_done_before [of s i]
      filter_update [of k "(ms_stoppers s)[i := Stop_returned]" "\<lambda>x. x = Stop_receives" Stop_receives]
    by (simp add: mdm_inv_def receivers_def)
qed (simp add: mdm_inv_def receivers_def)

lemma mdm_inv_reachable: "mdm_step\<^sup>*\<^sup>* (mdm_stop_init mdm n) s \<Longrightarrow> mdm_inv s"
proof (induction rule: rtranclp_induct)
  case base
  then show ?case by (auto simp: mdm_inv_def mdm_stop_init_def receivers_def)
qed (rule mdm_inv_step)

text \<open>A caller returns only after the context is done and the goroutine has left its loop; once the goroutine has ended, no signal is
  received any more: a caller that has not had its signal received waits forever.\<close>

lemma mdm_stop_safe:
  assumes "mdm_step\<^sup>*\<^sup>* (mdm_stop_init mdm n) s"
  shows "(Stop_returned \<in> set (ms_stoppers s) \<longrightarrow> ms_ctx_done s \<and> ms_pc s \<noteq> Selecting) \<and>
    (ms_pc s = Mdm_ended \<and> Stop_cancels \<notin> set (ms_stoppers s) \<longrightarrow> \<not> (\<exists>s'. mdm_step s s'))"
proof -
  have inv: "mdm_inv s" by (rule mdm_inv_reachable [OF assms])
  have "\<not> mdm_step s s'" if "ms_pc s = Mdm_ended" "Stop_cancels \<notin> set (ms_stoppers s)" for s'
    using that inv receivers_none [of s] by (auto simp: mdm_inv_def in_set_conv_nth elim!: mdm_stepE)
  then show ?thesis using inv by (auto simp: mdm_inv_def)
qed

text \<open>One caller returns; of two callers at once the second one can be left behind.\<close>

lemma first_stop_returns:
  "mdm_step\<^sup>*\<^sup>* \<lparr>ms_mdm = mdm, ms_ctx_done = True, ms_pc = Selecting, ms_stoppers = Stop_sends # ss\<rparr>
     \<lparr>ms_mdm = mdm, ms_ctx_done = True, ms_pc = Mdm_ended, ms_stoppers = Stop_returned # ss\<rparr>"
proof -
  let ?s = "\<lambda>pc x. \<lparr>ms_mdm = mdm, ms_ctx_done = True, ms_pc = pc, ms_stoppers = x # ss\<rparr>"
  have "mdm_step (?s Selecting Stop_sends) (?s Acknowledging Stop_receives)" using stop_received [of "?s Selecting Stop_sends" 0] by simp
  moreover have "mdm_step (?s Acknowledging Stop_receives) (?s Mdm_ended Stop_returned)"
    using acknowledged [of "?s Acknowledging Stop_receives" 0] by simp
  ultimately show ?thesis by (meson converse_rtranclp_into_rtranclp rtranclp.rtrancl_refl)
qed

lemma single_stop_returns:
  "mdm_step\<^sup>*\<^sup>* (mdm_stop_init mdm 1) \<lparr>ms_mdm = mdm, ms_ctx_done = True, ms_pc = Mdm_ended, ms_stoppers = [Stop_returned]\<rparr>"
proof -
  have "mdm_step (mdm_stop_init mdm 1) \<lparr>ms_mdm = mdm, ms_ctx_done = True, ms_pc = Selecting, ms_stoppers = [Stop_sends]\<rparr>"
    using cancelFunc [of 0 "mdm_stop_init mdm 1"] by (simp add: mdm_stop_init_def)
  then show ?thesis using first_stop_returns by (rule converse_rtranclp_into_rtranclp)
qed

lemma second_stop_blocks:
  "\<exists>s. mdm_step\<^sup>*\<^sup>* (mdm_stop_init mdm 2) s \<and> ms_stoppers s = [Stop_returned, Stop_sends] \<and> \<not> (\<exists>s'. mdm_step s s')"
proof -
  let ?s = "\<lambda>d x y. \<lparr>ms_mdm = mdm, ms_ctx_done = d, ms_pc = Selecting, ms_stoppers = [x, y]\<rparr>"
  let ?e = "\<lparr>ms_mdm = mdm, ms_ctx_done = True, ms_pc = Mdm_ended, ms_stoppers = [Stop_returned, Stop_sends]\<rparr>"
  have "mdm_step (?s False Stop_cancels Stop_cancels) (?s True Stop_sends Stop_cancels)"
    using cancelFunc [of 0 "?s False Stop_cancels Stop_cancels"] by simp
  moreover have "mdm_step (?s True Stop_sends Stop_cancels) (?s True Stop_sends Stop_sends)"
    using cancelFunc [of 1 "?s True Stop_sends Stop_cancels"] by simp
  moreover have "mdm_stop_init mdm 2 = ?s False Stop_cancels Stop_cancels" by (simp add: mdm_stop_init_def numeral_2_eq_2)
  ultimately have "mdm_step\<^sup>*\<^sup>* (mdm_stop_init mdm 2) ?e"
    using first_stop_returns [of mdm "[Stop_sends]"] by (metis converse_rtranclp_into_rtranclp)
  with mdm_stop_safe [OF this] show ?thesis by (intro exI [of _ ?e]) simp
qed

end
