(* ===== verification/Extractor.thy ===== *)
theory Extractor
  imports Types_Models
begin

text \<open>\<open>etl/extractor/platform_impl.go\<close> and \<open>platform_pulse.go\<close>: the pool of workers, the loop that walks the finalized
  pulses of the platform, and the loop that collects the records of one pulse over as many streams as it takes.  The
  platform is a parameter: \<open>next_pulse k\<close> and \<open>export k\<close> answer the k-th call of the loop, and a cancellation oracle
  answers the checks of the context.  The loops may run as long as the platform fails, so they take fuel; the theorems
  that they deliver give the fuel.\<close>

section \<open>Errors of the platform\<close>

text \<open>The messages the code looks for that are defined by the platform's packages.\<close>

record exporter_lib =
  ErrDeprecatedClientVersion :: string
  RateLimitExceededMsg :: string
  ErrNotFinalPulseData :: string
  ErrPulseNotFound :: string

definition isVersionError :: "exporter_lib \<Rightarrow> error \<Rightarrow> bool" where
  "isVersionError X err \<longleftrightarrow> Contains (Error err) (ErrDeprecatedClientVersion X) \<or>
     Contains (Error err) ''unknown heavy-version'' \<or> Contains (Error err) ''unknown type client'' \<or>
     Contains (Error err) ''incorrect format of the heavy-version''"

definition isRateLimitError :: "exporter_lib \<Rightarrow> error \<Rightarrow> bool" where
  "isRateLimitError X err \<longleftrightarrow> Contains (Error err) (RateLimitExceededMsg X)"

section \<open>The worker counter\<close>

text \<open>\<open>takeWorker\<close> adds one to the shared counter and takes it back when the counter exceeds the maximum; the two additions are
  atomic, not their pair.  \<open>w_holders\<close> counts the goroutines that got a worker, \<open>w_backing\<close> those between the additions.\<close>

record workers =
  w_workers :: int
  w_maxWorkers :: int
  w_holders :: nat
  w_backing :: nat

definition takeWorker_add :: "workers \<Rightarrow> workers" where
  "takeWorker_add w =
     (if w_workers w + 1 > w_maxWorkers w then w\<lparr>w_workers := w_workers w + 1, w_backing := w_backing w + 1\<rparr>
      else w\<lparr>w_workers := w_workers w + 1, w_holders := w_holders w + 1\<rparr>)"

definition takeWorker_undo :: "workers \<Rightarrow> workers" where
  "takeWorker_undo w = w\<lparr>w_workers := w_workers w - 1, w_backing := w_backing w - 1\<rparr>"

definition freeWorker :: "workers \<Rightarrow> workers" where
  "freeWorker w = w\<lparr>w_workers := w_workers w - 1, w_holders := w_holders w - 1\<rparr>"

inductive worker_step :: "workers \<Rightarrow> workers \<Rightarrow> bool" where
  add: "worker_step w (takeWorker_add w)"
| undo: "w_backing w > 0 \<Longrightarrow> worker_step w (takeWorker_undo w)"
| free: "w_holders w > 0 \<Longrightarrow> worker_step w (freeWorker w)"

definition new_workers :: "int \<Rightarrow> workers" where
  "new_workers maxWorkers = \<lparr>w_workers = 0, w_maxWorkers = maxWorkers, w_holders = 0, w_backing = 0\<rparr>"

definition worker_inv :: "int \<Rightarrow> workers \<Rightarrow> bool" where
  "worker_inv m w \<longleftrightarrow> w_maxWorkers w = m \<and> w_workers w = int (w_holders w) + int (w_backing w) \<and> int (w_holders w) \<le> max 0 m"

lemma worker_inv_step: "worker_step w w' \<Longrightarrow> worker_inv m w \<Longrightarrow> worker_inv m w'"
  by (induction rule: worker_step.induct)
     (auto simp: worker_inv_def takeWorker_add_def takeWorker_undo_def freeWorker_def of_nat_diff)

text \<open>However the goroutines interleave inside \<open>takeWorker\<close>, no more of them than the maximum hold a worker at a time,
  and once all have given theirs back and left \<open>takeWorker\<close> the counter is zero again.\<close>

theorem workers_bounded:
  assumes "worker_step\<^sup>*\<^sup>* (new_workers maxWorkers) w"
  shows "int (w_holders w) \<le> max 0 maxWorkers \<and> (w_holders w = 0 \<longrightarrow> w_backing w = 0 \<longrightarrow> w_workers w = 0)"
proof -
  have "worker_inv maxWorkers (new_workers maxWorkers)" by (simp add: worker_inv_def new_workers_def)
  with assms have "worker_inv maxWorkers w"
    by (induction rule: rtranclp_induct) (blast intro: worker_inv_step)+
  then show ?thesis by (simp add: worker_inv_def)
qed

theorem workers_bounded_witness: "int (w_holders (takeWorker_add (takeWorker_add (new_workers 1)))) \<le> 1"
proof -
  have "worker_step\<^sup>*\<^sup>* (new_workers 1) (takeWorker_add (takeWorker_add (new_workers 1)))"
    by (meson converse_rtranclp_into_rtranclp rtranclp.rtrancl_refl worker_step.add)
  from workers_bounded [OF this] show ?thesis by simp
qed

section \<open>The records of a pulse\<close>

record GetRecords =
  gr_PulseNumber :: "32 word"
  gr_RecordNumber :: "32 word"
  gr_Count :: "32 word"

text \<open>What \<open>stream.Recv\<close> returns; a stream is the list of its results, followed by the end of the stream.\<close>

datatype recv = RecvRecord ex_Record | RecvErr error | RecvEOF

text \<open>How the loop over one stream ends: with a portion of the records and a new request to make, cancelled, with an error
  that gives the pulse up, or with the packet of the next pulse.\<close>

datatype portion = More "ex_Record list" | Cancelled | Broken | Whole "ex_Record list" "32 word"

fun recv_loop :: "insolar_lib \<Rightarrow> exporter_lib \<Rightarrow> (nat \<Rightarrow> bool) \<Rightarrow> 32 word \<Rightarrow> nat \<Rightarrow> recv list \<Rightarrow> ex_Record list \<Rightarrow> portion" where
  "recv_loop L X cancelled pn i [] recs = (if cancelled i then Cancelled else More recs)"
| "recv_loop L X cancelled pn i (RecvEOF # rest) recs = (if cancelled i then Cancelled else More recs)"
| "recv_loop L X cancelled pn i (RecvErr err # rest) recs =
     (if cancelled i then Cancelled
      else if isRateLimitError X err then More recs
      else if Contains (Error err) (ErrNotFinalPulseData X) \<or> Contains (Error err) (ErrPulseNotFound X) then More recs
      else Broken)"
| "recv_loop L X cancelled pn i (RecvRecord resp # rest) recs =
     (if cancelled i then Cancelled
      else if er_ShouldIterateFrom resp \<noteq> None \<or> IDPulse L (er_ID resp) \<noteq> pn
      then Whole recs (case er_ShouldIterateFrom resp of Some itf \<Rightarrow> itf | None \<Rightarrow> IDPulse L (er_ID resp))
      else recv_loop L X cancelled pn (Suc i) rest (recs @ [resp]))"

text \<open>The result of \<open>retrieveRecords\<close>: what it put into the channel and the pulse it returned, or that it asked for the
  shutdown of the explorer.\<close>

datatype retrieved = Emitted PlatformPulseData "32 word option" | Nothing | Shutdown

fun retrieve_portions :: "insolar_lib \<Rightarrow> exporter_lib \<Rightarrow> (nat \<Rightarrow> GetRecords \<Rightarrow> error + recv list) \<Rightarrow> (nat \<Rightarrow> nat \<Rightarrow> bool)
    \<Rightarrow> 32 word \<Rightarrow> FullPulse \<Rightarrow> nat \<Rightarrow> nat \<Rightarrow> ex_Record list \<Rightarrow> retrieved option" where
  "retrieve_portions L X export cancelled batchSize pu 0 k recs = None"
| "retrieve_portions L X export cancelled batchSize pu (Suc fuel) k recs =
     (if cancelled k 0 then Some Nothing
      else case export k \<lparr>gr_PulseNumber = fp_PulseNumber pu, gr_RecordNumber = of_nat (length recs), gr_Count = batchSize\<rparr> of
        Inl err \<Rightarrow> if isVersionError X err then Some Shutdown
          else retrieve_portions L X export cancelled batchSize pu fuel (Suc k) recs
      | Inr stream \<Rightarrow> (case recv_loop L X (\<lambda>i. cancelled k (Suc i)) (fp_PulseNumber pu) 0 stream recs of
          More recs \<Rightarrow> retrieve_portions L X export cancelled batchSize pu fuel (Suc k) recs
        | Cancelled \<Rightarrow> Some Nothing
        | Broken \<Rightarrow> Some Nothing
        | Whole recs itf \<Rightarrow> Some (Emitted \<lparr>pp_Pulse = Some pu, pp_Records = recs\<rparr> (Some itf))))"

definition retrieveRecords :: "insolar_lib \<Rightarrow> exporter_lib \<Rightarrow> (nat \<Rightarrow> GetRecords \<Rightarrow> error + recv list) \<Rightarrow> (nat \<Rightarrow> nat \<Rightarrow> bool)
    \<Rightarrow> 32 word \<Rightarrow> FullPulse \<Rightarrow> bool \<Rightarrow> nat \<Rightarrow> retrieved option" where
  "retrieveRecords L X export cancelled batchSize pu skipRequest fuel =
     (if skipRequest then Some (Emitted \<lparr>pp_Pulse = Some pu, pp_Records = []\<rparr> None)
      else retrieve_portions L X export cancelled batchSize pu fuel 0 [])"

text \<open>What the platform promises for a pulse whose records are \<open>rs\<close>: asked from the record number \<open>n\<close> on, a stream has the
  next records in their order, and then ends, fails, or, after the last record, has a packet of the next pulse.\<close>

definition belongs :: "insolar_lib \<Rightarrow> 32 word \<Rightarrow> ex_Record \<Rightarrow> bool" where
  "belongs L pn r \<longleftrightarrow> er_ShouldIterateFrom r = None \<and> IDPulse L (er_ID r) = pn"

definition stream_of :: "insolar_lib \<Rightarrow> 32 word \<Rightarrow> ex_Record list \<Rightarrow> nat \<Rightarrow> recv list \<Rightarrow> bool" where
  "stream_of L pn rs n stream \<longleftrightarrow> (\<exists>m suf. stream = map RecvRecord (take m (drop n rs)) @ suf \<and>
     (suf = [] \<or> (\<exists>rest. suf = RecvEOF # rest) \<or> (\<exists>err rest. suf = RecvErr err # rest) \<or>
      (\<exists>r rest. suf = RecvRecord r # rest \<and> \<not> belongs L pn r \<and> n + m \<ge> length rs)))"

definition exports :: "insolar_lib \<Rightarrow> FullPulse \<Rightarrow> ex_Record list \<Rightarrow> (nat \<Rightarrow> GetRecords \<Rightarrow> error + recv list) \<Rightarrow> bool" where
  "exports L pu rs export \<longleftrightarrow> (\<forall>r \<in> set rs. belongs L (fp_PulseNumber pu) r) \<and> length rs < 2 ^ 32 \<and>
     (\<forall>k req stream. gr_PulseNumber req = fp_PulseNumber pu \<longrightarrow> export k req = Inr stream \<longrightarrow>
       stream_of L (fp_PulseNumber pu) rs (unat (gr_RecordNumber req)) stream)"

lemma unat_record_number: "n < 2 ^ 32 \<Longrightarrow> unat (of_nat n :: 32 word) = n"
  by (simp add: unsigned_of_nat take_bit_nat_eq_self)

lemma recv_loop_prefix:
  "\<forall>r \<in> set ys. belongs L pn r \<Longrightarrow> recv_loop L X cancelled pn i (map RecvRecord ys @ suf) recs =
     (if \<exists>j < length ys. cancelled (i + j) then Cancelled else recv_loop L X cancelled pn (i + length ys) suf (recs @ ys))"
proof (induction ys arbitrary: i recs)
  case (Cons y ys)
  have "(\<exists>j < length (y # ys). cancelled (i + j)) \<longleftrightarrow> cancelled i \<or> (\<exists>j < length ys. cancelled (Suc i + j))"
    by (auto simp: less_Suc_eq_0_disj)
  with Cons show ?case by (auto simp: belongs_def)
qed simp

lemma recv_loop_stream:
  assumes rs: "\<forall>r \<in> set rs. belongs L pn r" and s: "stream_of L pn rs (length recs) stream"
    and recs: "recs = take (length recs) rs"
  shows "recv_loop L X cancelled pn 0 stream recs = r \<Longrightarrow> (case r of
      More recs' \<Rightarrow> recs' = take (length recs') rs \<and> length recs \<le> length recs'
    | Whole recs' itf \<Rightarrow> recs' = rs | _ \<Rightarrow> True)"
proof -
  assume r: "recv_loop L X cancelled pn 0 stream recs = r"
  from s obtain m suf where st: "stream = map RecvRecord (take m (drop (length recs) rs)) @ suf" and
    suf: "suf = [] \<or> (\<exists>rest. suf = RecvEOF # rest) \<or> (\<exists>err rest. suf = RecvErr err # rest) \<or>
      (\<exists>r rest. suf = RecvRecord r # rest \<and> \<not> belongs L pn r \<and> length recs + m \<ge> length rs)" unfolding stream_of_def by blast
  have b: "\<forall>r \<in> set (take m (drop (length recs) rs)). belongs L pn r" using rs by (meson in_set_dropD in_set_takeD)
  have e: "recs @ take m (drop (length recs) rs) = take (length recs + m) rs" using recs by (metis take_add)
  have l: "length recs \<le> length rs" using recs by (metis length_take min.bounded_iff order_refl)
  have p: "take (length recs + m) rs = take (length (take (length recs + m) rs)) rs"
    by (cases "length recs + m \<le> length rs") simp_all
  let ?i = "length (take m (drop (length recs) rs))"
  consider "r = Cancelled" | "recv_loop L X cancelled pn ?i suf (take (length recs + m) rs) = r"
    using r unfolding st recv_loop_prefix [OF b] e by (auto split: if_splits)
  then show ?thesis
  proof cases
    case 2
    with suf l p show ?thesis
      by (elim disjE exE conjE) (auto simp: belongs_def split: if_splits option.splits)
  qed simp
qed

lemma exports_stream:
  assumes "exports L pu rs export" and "recs = take (length recs) rs"
    and "export k \<lparr>gr_PulseNumber = fp_PulseNumber pu, gr_RecordNumber = of_nat (length recs), gr_Count = batchSize\<rparr> = Inr stream"
  shows "stream_of L (fp_PulseNumber pu) rs (length recs) stream" "\<forall>r \<in> set rs. belongs L (fp_PulseNumber pu) r"
    "unat (of_nat (length recs) :: 32 word) = length recs"
proof -
  have "length rs < 2 ^ 32" using assms(1) by (simp add: exports_def)
  with assms(2) have "length recs < 2 ^ 32" by (metis length_take min.strict_coboundedI1)
  then show n: "unat (of_nat (length recs) :: 32 word) = length recs" by (rule unat_record_number)
  show "\<forall>r \<in> set rs. belongs L (fp_PulseNumber pu) r" using assms(1) by (simp add: exports_def)
  have "gr_PulseNumber req = fp_PulseNumber pu \<Longrightarrow> export k req = Inr stream \<Longrightarrow>
      stream_of L (fp_PulseNumber pu) rs (unat (gr_RecordNumber req)) stream" for req
    using assms(1) unfolding exports_def by blast
  from this [OF _ assms(3)] n show "stream_of L (fp_PulseNumber pu) rs (length recs) stream" by simp
qed

lemma retrieve_portions_exact:
  assumes "exports L pu rs export"
  shows "retrieve_portions L X export cancelled batchSize pu fuel k recs = Some (Emitted d itf) \<Longrightarrow> recs = take (length recs) rs \<Longrightarrow>
    d = \<lparr>pp_Pulse = Some pu, pp_Records = rs\<rparr>"
proof (induction fuel arbitrary: k recs)
  case (Suc fuel)
  let ?req = "\<lparr>gr_PulseNumber = fp_PulseNumber pu, gr_RecordNumber = of_nat (length recs) :: 32 word, gr_Count = batchSize\<rparr>"
  show ?case
  proof (cases "export k ?req")
    case (Inl err)
    with Suc show ?thesis by (auto split: if_splits)
  next
    case (Inr stream)
    note ex = exports_stream [OF assms Suc.prems(2) Inr]
    from recv_loop_stream [OF ex(2,1) Suc.prems(2), of X "\<lambda>i. cancelled k (Suc i)"] Suc Inr
    show ?thesis by (auto split: if_splits portion.splits)
  qed
qed simp

text \<open>C8: what \<open>retrieveRecords\<close> hands over for a pulse are exactly its records, in order and once each, whatever streams
  broke off, were rate limited or had to be asked for again in between.\<close>

theorem retrieveRecords_exact:
  assumes "exports L pu rs export" and "retrieveRecords L X export cancelled batchSize pu False fuel = Some (Emitted d itf)"
  shows "d = \<lparr>pp_Pulse = Some pu, pp_Records = rs\<rparr>"
  using retrieve_portions_exact [OF assms(1)] assms(2) by (auto simp: retrieveRecords_def)

text \<open>A platform that recovers: nothing is cancelled, no error is final, and the request number \<open>K\<close> is served to the end.\<close>

definition retryable :: "exporter_lib \<Rightarrow> error \<Rightarrow> bool" where
  "retryable X err \<longleftrightarrow> isRateLimitError X err \<or> Contains (Error err) (ErrNotFinalPulseData X) \<or> Contains (Error err) (ErrPulseNotFound X)"

definition recovers :: "insolar_lib \<Rightarrow> exporter_lib \<Rightarrow> FullPulse \<Rightarrow> ex_Record list \<Rightarrow> (nat \<Rightarrow> GetRecords \<Rightarrow> error + recv list) \<Rightarrow> nat \<Rightarrow> bool" where
  "recovers L X pu rs export K \<longleftrightarrow> (\<forall>k req. case export k req of
       Inl err \<Rightarrow> \<not> isVersionError X err \<and> k \<noteq> K
     | Inr stream \<Rightarrow> (\<forall>err. RecvErr err \<in> set stream \<longrightarrow> retryable X err) \<and>
         (k = K \<longrightarrow> (\<exists>r rest. stream = map RecvRecord (drop (unat (gr_RecordNumber req)) rs) @ RecvRecord r # rest \<and> \<not> belongs L (fp_PulseNumber pu) r)))"

lemma recv_loop_benign:
  "(\<And>i. \<not> cancelled i) \<Longrightarrow> (\<forall>err. RecvErr err \<in> set stream \<longrightarrow> retryable X err) \<Longrightarrow>
   \<exists>recs'. recv_loop L X cancelled pn i stream recs = More recs' \<or> (\<exists>itf. recv_loop L X cancelled pn i stream recs = Whole recs' itf)"
  by (induction L X cancelled pn i stream recs rule: recv_loop.induct) (auto simp: retryable_def)

lemma recoversD:
  assumes "recovers L X pu rs export K"
  shows "export k req = Inl err \<Longrightarrow> \<not> isVersionError X err \<and> k \<noteq> K"
    and "export k req = Inr stream \<Longrightarrow> \<forall>err. RecvErr err \<in> set stream \<longrightarrow> retryable X err"
    and "export K req = Inr stream \<Longrightarrow>
      \<exists>r rest. stream = map RecvRecord (drop (unat (gr_RecordNumber req)) rs) @ RecvRecord r # rest \<and> \<not> belongs L (fp_PulseNumber pu) r"
proof -
  have "case export k req of Inl err \<Rightarrow> \<not> isVersionError X err \<and> k \<noteq> K
     | Inr stream \<Rightarrow> (\<forall>err. RecvErr err \<in> set stream \<longrightarrow> retryable X err) \<and>
         (k = K \<longrightarrow> (\<exists>r rest. stream = map RecvRecord (drop (unat (gr_RecordNumber req)) rs) @ RecvRecord r # rest \<and>
            \<not> belongs L (fp_PulseNumber pu) r))" for k req
    using assms unfolding recovers_def by blast
  note this [of k req] this [of K req]
  then show "export k req = Inl err \<Longrightarrow> \<not> isVersionError X err \<and> k \<noteq> K"
    and "export k req = Inr stream \<Longrightarrow> \<forall>err. RecvErr err \<in> set stream \<longrightarrow> retryable X err"
    and "export K req = Inr stream \<Longrightarrow>
      \<exists>r rest. stream = map RecvRecord (drop (unat (gr_RecordNumber req)) rs) @ RecvRecord r # rest \<and> \<not> belongs L (fp_PulseNumber pu) r"
    by simp_all
qed

text \<open>The request that is served to the end brings the whole pulse; each one before it brings a longer prefix or the whole pulse.\<close>

lemma last_portion:
  assumes ex: "exports L pu rs export" and rec: "recovers L X pu rs export K" and nd: "\<And>i. \<not> cancelled i"
    and recs: "recs = take (length recs) rs"
    and s: "export K \<lparr>gr_PulseNumber = fp_PulseNumber pu, gr_RecordNumber = of_nat (length recs), gr_Count = batchSize\<rparr> = Inr stream"
  shows "\<exists>itf. recv_loop L X cancelled (fp_PulseNumber pu) 0 stream recs = Whole rs itf"
proof -
  from recoversD(3) [OF rec s] obtain r rest where
    st: "stream = map RecvRecord (drop (length recs) rs) @ RecvRecord r # rest" and r: "\<not> belongs L (fp_PulseNumber pu) r"
    by (simp add: exports_stream(3) [OF ex recs s]) blast
  have b: "\<forall>r \<in> set (drop (length recs) rs). belongs L (fp_PulseNumber pu) r"
    using exports_stream(2) [OF ex recs s] by (meson in_set_dropD)
  have e: "recs @ drop (length recs) rs = rs" using recs by (metis append_take_drop_id)
  show ?thesis unfolding st recv_loop_prefix [OF b] e using nd r by (auto simp: belongs_def)
qed

lemma retrieve_portions_delivers:
  assumes ex: "exports L pu rs export" and rec: "recovers L X pu rs export K" and nd: "\<And>k i. \<not> cancelled k i"
  shows "K = k + n \<Longrightarrow> recs = take (length recs) rs \<Longrightarrow> \<exists>itf. retrieve_portions L X export cancelled batchSize pu (Suc n) k recs =
    Some (Emitted \<lparr>pp_Pulse = Some pu, pp_Records = rs\<rparr> (Some itf))"
proof (induction n arbitrary: k recs)
  case 0
  let ?req = "\<lparr>gr_PulseNumber = fp_PulseNumber pu, gr_RecordNumber = of_nat (length recs) :: 32 word, gr_Count = batchSize\<rparr>"
  have k: "k = K" using 0 by simp
  from recoversD(1) [OF rec] obtain stream where s: "export K ?req = Inr stream" by (metis sumE)
  from last_portion [where cancelled = "\<lambda>i. cancelled K (Suc i)", OF ex rec nd 0(2) s] obtain itf where
    "recv_loop L X (\<lambda>i. cancelled K (Suc i)) (fp_PulseNumber pu) 0 stream recs = Whole rs itf" by blast
  with s k nd show ?case by simp
next
  case (Suc n)
  let ?req = "\<lparr>gr_PulseNumber = fp_PulseNumber pu, gr_RecordNumber = of_nat (length recs) :: 32 word, gr_Count = batchSize\<rparr>"
  have IH: "recs' = take (length recs') rs \<Longrightarrow> \<exists>itf. retrieve_portions L X export cancelled batchSize pu (Suc n) (Suc k) recs' =
    Some (Emitted \<lparr>pp_Pulse = Some pu, pp_Records = rs\<rparr> (Some itf))" for recs'
    using Suc.IH [of "Suc k" recs'] Suc.prems(1) by simp
  note step = retrieve_portions.simps(2) [of L X export cancelled batchSize pu "Suc n" k recs]
  show ?case
  proof (cases "export k ?req")
    case (Inl err)
    with recoversD(1) [OF rec Inl] nd IH [OF Suc.prems(2)] show ?thesis unfolding step by (simp del: retrieve_portions.simps)
  next
    case (Inr stream)
    note st = exports_stream [OF ex Suc.prems(2) Inr]
    let ?r = "recv_loop L X (\<lambda>i. cancelled k (Suc i)) (fp_PulseNumber pu) 0 stream recs"
    from recv_loop_benign [of "\<lambda>i. cancelled k (Suc i)", OF nd recoversD(2) [OF rec Inr]]
    consider recs' where "?r = More recs'" | recs' itf where "?r = Whole recs' itf" by blast
    then show ?thesis
    proof cases
      case 1
      with recv_loop_stream [OF st(2,1) Suc.prems(2) 1] have "recs' = take (length recs') rs" by simp
      from IH [OF this] nd Inr 1 show ?thesis unfolding step by (simp del: retrieve_portions.simps)
    next
      case 2
      with recv_loop_stream [OF st(2,1) Suc.prems(2) 2] nd Inr show ?thesis unfolding step by (simp del: retrieve_portions.simps)
    qed
  qed
qed

text \<open>C9: if the platform recovers, the pulse arrives: when no error is final and the request \<open>K\<close> is served to the end, the loop
  returns within \<open>K + 1\<close> requests and has handed over all records of the pulse.\<close>

theorem retrieveRecords_delivers:
  assumes "exports L pu rs export" and "recovers L X pu rs export K" and "\<And>k i. \<not> cancelled k i"
  shows "\<exists>itf. retrieveRecords L X export cancelled batchSize pu False (Suc K) = Some (Emitted \<lparr>pp_Pulse = Some pu, pp_Records = rs\<rparr> (Some itf))"
  using retrieve_portions_delivers [OF assms, of 0 K "[]"] by (simp add: retrieveRecords_def del: retrieve_portions.simps)

text \<open>A platform for concrete inputs: the pulse of a record is the first byte of its identifier, the pulse 7 has three records.
  The first request is refused by the rate limit, the second stream breaks off after two records, the third one ends with a
  record of pulse 9.\<close>

definition sample_lib :: insolar_lib where
  "sample_lib = plain_lib\<lparr>IDPulse := (\<lambda>b. case b of [] \<Rightarrow> 0 | x # _ \<Rightarrow> ucast x)\<rparr>"

definition sample_errors :: exporter_lib where
  "sample_errors = \<lparr>ErrDeprecatedClientVersion = ''deprecated client version'', RateLimitExceededMsg = ''rate limit'',
     ErrNotFinalPulseData = ''not final'', ErrPulseNotFound = ''pulse not found''\<rparr>"

definition sample_record :: "byte \<Rightarrow> byte \<Rightarrow> ex_Record" where
  "sample_record pn n = \<lparr>er_RecordNumber = ucast n, er_ID = [pn, n], er_ObjectID = [], er_JetID = [],
     er_Virtual = Virtual_Other, er_ShouldIterateFrom = None, er_Rest = []\<rparr>"

definition sample_full :: "32 word \<Rightarrow> FullPulse" where
  "sample_full pn = \<lparr>fp_PulseNumber = pn, fp_PulseTimestamp = 0, fp_NextPulseNumber = 0, fp_PrevPulseNumber = 0, fp_Jets = []\<rparr>"

definition sample_records :: "ex_Record list" where
  "sample_records = map (sample_record 7) [1, 2, 3]"

definition sample_export :: "nat \<Rightarrow> GetRecords \<Rightarrow> error + recv list" where
  "sample_export k req = (let rs = drop (unat (gr_RecordNumber req)) sample_records in
     if k = 0 then Inl (Err ''rate limit'')
     else if k = 1 then Inr (map RecvRecord (take 2 rs) @ [RecvErr (Err ''rate limit'')])
     else Inr (map RecvRecord rs @ [RecvRecord (sample_record 9 1)]))"

lemma sample_belongs: "belongs sample_lib 7 (sample_record 7 n)" "\<not> belongs sample_lib 7 (sample_record 9 n)"
  by (simp_all add: belongs_def sample_lib_def sample_record_def)

lemma sample_exports: "exports sample_lib (sample_full 7) sample_records sample_export"
  unfolding exports_def
proof (intro conjI allI impI)
  fix k req stream
  let ?n = "unat (gr_RecordNumber (req :: GetRecords))"
  assume *: "sample_export k req = Inr stream"
  show "stream_of sample_lib (fp_PulseNumber (sample_full 7)) sample_records ?n stream"
  proof (cases "k = 1")
    case True
    with * show ?thesis unfolding stream_of_def
      by (intro exI [of _ 2] exI [of _ "[RecvErr (Err ''rate limit'')]"]) (auto simp: sample_export_def Let_def)
  next
    case False
    with * show ?thesis unfolding stream_of_def
      by (intro exI [of _ "length sample_records"] exI [of _ "[RecvRecord (sample_record 9 1)]"])
         (auto simp: sample_export_def Let_def sample_full_def sample_belongs split: if_splits)
  qed
qed (auto simp: sample_records_def sample_full_def sample_belongs)

lemma sample_not_version: "\<not> isVersionError sample_errors (Err ''rate limit'')"
  by (simp add: isVersionError_def Contains_def Index_def Error_def sample_errors_def)

lemma sample_rate_limit: "isRateLimitError sample_errors (Err ''rate limit'')"
  by (simp add: isRateLimitError_def Contains_def Index_def Error_def sample_errors_def)

lemma sample_recovers: "recovers sample_lib sample_errors (sample_full 7) sample_records sample_export 2"
  by (auto simp: recovers_def sample_export_def Let_def sample_not_version sample_rate_limit retryable_def sample_full_def sample_belongs)

theorem retrieveRecords_delivers_witness:
  "\<exists>itf. retrieveRecords sample_lib sample_errors sample_export (\<lambda>k i. False) 5 (sample_full 7) False 3 =
     Some (Emitted \<lparr>pp_Pulse = Some (sample_full 7), pp_Records = sample_records\<rparr> (Some itf))"
  using retrieveRecords_delivers [OF sample_exports sample_recovers, of "\<lambda>k i. False"] by (simp add: numeral_3_eq_3)

lemma sample_retrieved:
  "retrieveRecords sample_lib sample_errors sample_export (\<lambda>k i. False) 5 (sample_full 7) False 3 =
     Some (Emitted \<lparr>pp_Pulse = Some (sample_full 7), pp_Records = sample_records\<rparr> (Some 9))"
  by (simp add: retrieveRecords_def numeral_3_eq_3 sample_export_def sample_not_version sample_rate_limit sample_records_def
        sample_full_def sample_record_def sample_lib_def)

theorem retrieveRecords_exact_witness:
  "pp_Records \<lparr>pp_Pulse = Some (sample_full 7), pp_Records = sample_records\<rparr> = sample_records"
  using retrieveRecords_exact [OF sample_exports sample_retrieved] by simp

end
