(* ===== verification/Extractor_Pulses.thy ===== *)
theory Extractor_Pulses
  imports Extractor
begin

text \<open>\<open>retrievePulses\<close> of \<open>etl/extractor/platform_impl.go\<close>, the calls that start it, and \<open>platform_pulse.go\<close>: the loop that
  walks the finalized pulses of the platform, either forever on the edge of history (the main thread) or from one pulse to
  another (a load).  Its model returns the trace of what the loop did and how it ended.  The loop retries as long as the
  platform fails, so it takes fuel; an end \<open>Running\<close> says that the loop has not returned within it, or that a call of
  \<open>retrieveRecords\<close> it waits for has not.\<close>

section \<open>The pulse extractor\<close>

definition GetNextFinalizedPulse :: "(int \<Rightarrow> error + FullPulse) \<Rightarrow> int \<Rightarrow> error + FullPulse" where
  "GetNextFinalizedPulse client p = (case client p of Inl err \<Rightarrow> Inl err | Inr ret \<Rightarrow> Inr ret)"

definition fetchCurrentPulse :: "(unit \<Rightarrow> error + 32 word) \<Rightarrow> 32 word \<times> error option" where
  "fetchCurrentPulse TopSyncPulse = (case TopSyncPulse () of Inl err \<Rightarrow> (0, Some err) | Inr tsp \<Rightarrow> (tsp, None))"

definition GetCurrentPulse :: "(unit \<Rightarrow> error + 32 word) \<Rightarrow> 32 word \<times> error option" where
  "GetCurrentPulse TopSyncPulse = fetchCurrentPulse TopSyncPulse"

section \<open>The platform extractor\<close>

text \<open>The fields of the structure the operations read or write.  \<open>pe_main\<close> counts the main loops whose context is not cancelled,
  \<open>pe_loads\<close> is the history of the loads started.\<close>

record PlatformExtractor =
  pe_hasStarted :: bool
  pe_maxWorkers :: int
  pe_request :: GetRecords
  pe_queueLen :: "32 word"
  pe_batchSize :: "32 word"
  pe_halfPulseSeconds :: "32 word"
  pe_main :: nat
  pe_loads :: "(int \<times> int) list"

definition NewPlatformExtractor :: "32 word \<Rightarrow> 32 word \<Rightarrow> int \<Rightarrow> 32 word \<Rightarrow> PlatformExtractor" where
  "NewPlatformExtractor batchSize halfPulseSeconds maxWorkers queueLen =
     \<lparr>pe_hasStarted = False, pe_maxWorkers = maxWorkers,
      pe_request = \<lparr>gr_PulseNumber = 0, gr_RecordNumber = 0, gr_Count = batchSize\<rparr>, pe_queueLen = queueLen,
      pe_batchSize = batchSize, pe_halfPulseSeconds = halfPulseSeconds, pe_main = 0, pe_loads = []\<rparr>"

definition LoadJetDrops :: "int \<Rightarrow> int \<Rightarrow> PlatformExtractor \<Rightarrow> PlatformExtractor" where
  "LoadJetDrops fromPulseNumber toPulseNumber e = e\<lparr>pe_loads := pe_loads e @ [(fromPulseNumber, toPulseNumber)]\<rparr>"

definition extractor_Stop :: "PlatformExtractor \<Rightarrow> PlatformExtractor" where
  "extractor_Stop e = (if pe_hasStarted e then e\<lparr>pe_main := pe_main e - 1, pe_hasStarted := False\<rparr> else e)"

definition extractor_Start :: "PlatformExtractor \<Rightarrow> PlatformExtractor" where
  "extractor_Start e = (if \<not> pe_hasStarted e then e\<lparr>pe_hasStarted := True, pe_main := pe_main e + 1\<rparr> else e)"

inductive extractor_step :: "PlatformExtractor \<Rightarrow> PlatformExtractor \<Rightarrow> bool" where
  "extractor_step e (extractor_Start e)"
| "extractor_step e (extractor_Stop e)"
| "extractor_step e (LoadJetDrops a b e)"

lemma one_main_loop:
  "extractor_step\<^sup>*\<^sup>* (NewPlatformExtractor bs hp mw ql) e \<Longrightarrow> pe_main e = (if pe_hasStarted e then 1 else 0)"
  by (induction rule: rtranclp_induct)
     (auto simp: NewPlatformExtractor_def extractor_Start_def extractor_Stop_def LoadJetDrops_def elim!: extractor_step.cases split: if_splits)

section \<open>The loop over the pulses\<close>

text \<open>The platform as the loop sees it: the answers to the k-th turn's question for the next pulse and to the requests for
  records of the call that this turn makes, and whether the context is found cancelled.\<close>

record heavy =
  hv_NextFinalizedPulse :: "nat \<Rightarrow> int \<Rightarrow> error + FullPulse"
  hv_Export :: "nat \<Rightarrow> nat \<Rightarrow> GetRecords \<Rightarrow> error + recv list"
  hv_Done :: "nat \<Rightarrow> bool"
  hv_RecordsDone :: "nat \<Rightarrow> nat \<Rightarrow> nat \<Rightarrow> bool"

text \<open>What the loop does: it takes and gives back workers, sleeps (seconds), asks for the shutdown, calls \<open>retrieveRecords\<close> and
  waits for it, or starts it as a goroutine.  \<open>retrieveRecords\<close> gives the worker of its caller back when it ends.\<close>

datatype pulses_event = TookWorker | FreedWorker | Slept nat | AskedShutdown | Fetched FullPulse bool retrieved | Spawned FullPulse

datatype pulses_end = Terminated | VersionStop | ReachedEnd | Running

definition emit :: "pulses_event list \<Rightarrow> pulses_event list \<times> pulses_end \<Rightarrow> pulses_event list \<times> pulses_end" where
  "emit evs r = (evs @ fst r, snd r)"

definition iterate_from :: "retrieved \<Rightarrow> 32 word option" where
  "iterate_from r = (case r of Emitted d itf \<Rightarrow> itf | Nothing \<Rightarrow> None | Shutdown \<Rightarrow> None)"

text \<open>The pause after a failed question.\<close>

definition error_pause :: "exporter_lib \<Rightarrow> nat \<Rightarrow> error \<Rightarrow> nat" where
  "error_pause X halfPulse err = (if isRateLimitError X err then halfPulse
     else if Contains (Error err) (ErrPulseNotFound X) then halfPulse * 3 else 1)"

fun retrieve_pulses_loop :: "insolar_lib \<Rightarrow> exporter_lib \<Rightarrow> heavy \<Rightarrow> PlatformExtractor \<Rightarrow> int \<Rightarrow> nat \<Rightarrow> nat \<Rightarrow> nat
    \<Rightarrow> FullPulse \<Rightarrow> 32 word option \<Rightarrow> pulses_event list \<times> pulses_end" where
  "retrieve_pulses_loop L X H e until rfuel 0 k pu nextNotEmpty = ([], Running)"
| "retrieve_pulses_loop L X H e until rfuel (Suc fuel) k pu nextNotEmpty =
     (let mainThread = until \<le> 0; halfPulse = unat (pe_halfPulseSeconds e);
          took = (if mainThread then [] else [TookWorker]); freed = (if mainThread then [] else [FreedWorker]) in
      if hv_Done H k then ([], Terminated)
      else case GetNextFinalizedPulse (hv_NextFinalizedPulse H k) (uint (fp_PulseNumber pu)) of
        Inl err \<Rightarrow> if isVersionError X err then (took @ [AskedShutdown], VersionStop)
          else emit (took @ freed @ [Slept (error_pause X halfPulse err)])
                 (retrieve_pulses_loop L X H e until rfuel fuel (Suc k) pu nextNotEmpty)
      | Inr pu' \<Rightarrow>
          if fp_PulseNumber pu' = fp_PulseNumber pu
          then emit (took @ [Slept halfPulse] @ freed) (retrieve_pulses_loop L X H e until rfuel fuel (Suc k) pu' nextNotEmpty)
          else if \<not> mainThread \<and> pe_maxWorkers e \<le> 3
          then let skip = (case nextNotEmpty of None \<Rightarrow> False | Some n \<Rightarrow> fp_PulseNumber pu' < n) in
            case retrieveRecords L X (hv_Export H k) (hv_RecordsDone H k) (pe_batchSize e) pu' skip rfuel of
              None \<Rightarrow> (took, Running)
            | Some r \<Rightarrow> emit (took @ [Fetched pu' skip r])
                (if fp_PulseNumber pu' \<ge> of_int until then ([], ReachedEnd)
                 else retrieve_pulses_loop L X H e until rfuel fuel (Suc k) pu' (if skip then nextNotEmpty else iterate_from r))
          else emit (took @ [Spawned pu'] @ (if mainThread then [Slept (halfPulse * 2)] else []))
                (if \<not> mainThread \<and> fp_PulseNumber pu' \<ge> of_int until then ([], ReachedEnd)
                 else retrieve_pulses_loop L X H e until rfuel fuel (Suc k) pu' nextNotEmpty))"

definition start_pulse :: "int \<Rightarrow> FullPulse" where
  "start_pulse from = \<lparr>fp_PulseNumber = of_int from, fp_PulseTimestamp = 0, fp_NextPulseNumber = 0, fp_PrevPulseNumber = 0, fp_Jets = []\<rparr>"

definition retrievePulses :: "insolar_lib \<Rightarrow> exporter_lib \<Rightarrow> heavy \<Rightarrow> PlatformExtractor \<Rightarrow> int \<Rightarrow> int \<Rightarrow> nat \<Rightarrow> nat
    \<Rightarrow> pulses_event list \<times> pulses_end" where
  "retrievePulses L X H e from until rfuel fuel = retrieve_pulses_loop L X H e until rfuel fuel 0 (start_pulse from) None"

section \<open>Which pulses a load asks for\<close>

text \<open>\<open>pulses_of\<close>: the pulses whose records the loop has asked for, in order.  \<open>finalizes chain H\<close>: the finalized pulses of the
  platform are \<open>chain\<close>, ascending, and the question for the pulse after \<open>p\<close> is answered by the first one beyond \<open>p\<close>, by \<open>p\<close>
  itself while there is none, or by an error.\<close>

fun pulses_of :: "pulses_event list \<Rightarrow> FullPulse list" where
  "pulses_of [] = []"
| "pulses_of (Fetched p s r # tr) = p # pulses_of tr"
| "pulses_of (Spawned p # tr) = p # pulses_of tr"
| "pulses_of (_ # tr) = pulses_of tr"

lemma pulses_of_append [simp]: "pulses_of (xs @ ys) = pulses_of xs @ pulses_of ys"
  by (induction xs rule: pulses_of.induct) simp_all

definition later :: "FullPulse list \<Rightarrow> 32 word \<Rightarrow> FullPulse list" where
  "later chain n = filter (\<lambda>q. n < fp_PulseNumber q) chain"

definition finalizes :: "FullPulse list \<Rightarrow> heavy \<Rightarrow> bool" where
  "finalizes chain H \<longleftrightarrow> sorted_wrt (\<lambda>p q. fp_PulseNumber p < fp_PulseNumber q) chain \<and>
     (\<forall>k n pu. hv_NextFinalizedPulse H k (uint n) = Inr pu \<longrightarrow>
        fp_PulseNumber pu = n \<or> (\<exists>rest. later chain n = pu # rest))"

text \<open>The pulses of a load: those beyond its start, up to the first one that reaches its end.\<close>

definition wanted :: "FullPulse list \<Rightarrow> 32 word \<Rightarrow> 32 word \<Rightarrow> FullPulse list" where
  "wanted chain lim n = takeWhile (\<lambda>q. fp_PulseNumber q < lim) (later chain n) @
     take 1 (dropWhile (\<lambda>q. fp_PulseNumber q < lim) (later chain n))"

lemma later_step:
  "sorted_wrt (\<lambda>p q. fp_PulseNumber p < fp_PulseNumber q) chain \<Longrightarrow> later chain n = pu # rest \<Longrightarrow> later chain (fp_PulseNumber pu) = rest"
proof (induction chain)
  case (Cons c chain)
  show ?case
  proof (cases "n < fp_PulseNumber c")
    case True
    with Cons.prems have "pu = c" "rest = later chain n" by (simp_all add: later_def)
    moreover have "later chain n = chain" "later chain (fp_PulseNumber c) = chain"
      using Cons.prems(1) True by (auto simp: later_def filter_id_conv intro: order.strict_trans)
    ultimately show ?thesis by (simp add: later_def)
  next
    case False
    with Cons.prems have "later chain n = pu # rest" by (simp add: later_def)
    moreover from this have "n < fp_PulseNumber pu" by (metis later_def filter_eq_ConsD)
    ultimately show ?thesis using Cons False by (simp add: later_def)
  qed
qed (simp add: later_def)

lemma wanted_step:
  assumes "sorted_wrt (\<lambda>p q. fp_PulseNumber p < fp_PulseNumber q) chain" and "later chain n = pu # rest"
  shows "wanted chain lim n = pu # (if lim \<le> fp_PulseNumber pu then [] else wanted chain lim (fp_PulseNumber pu))"
  using later_step [OF assms] assms(2) by (auto simp: wanted_def)

lemma count_emit [simp]: "fst (emit evs r) = evs @ fst r" "snd (emit evs r) = snd r"
  by (simp_all add: emit_def)

text \<open>A turn of a load: it ends, it comes back to the same pulse, or it asks for the records of the next one.\<close>

definition skips :: "32 word option \<Rightarrow> FullPulse \<Rightarrow> bool" where
  "skips nne pu = (case nne of None \<Rightarrow> False | Some n \<Rightarrow> fp_PulseNumber pu < n)"

text \<open>One turn of a load, by the answer it gets.\<close>

lemma load_step_error:
  "until > 0 \<Longrightarrow> \<not> hv_Done H k \<Longrightarrow> hv_NextFinalizedPulse H k (uint (fp_PulseNumber pu)) = Inl err \<Longrightarrow>
   retrieve_pulses_loop L X H e until rfuel (Suc fuel) k pu nne =
     (if isVersionError X err then ([TookWorker, AskedShutdown], VersionStop)
      else emit [TookWorker, FreedWorker, Slept (error_pause X (unat (pe_halfPulseSeconds e)) err)]
        (retrieve_pulses_loop L X H e until rfuel fuel (Suc k) pu nne))"
  by (simp add: GetNextFinalizedPulse_def del: retrieve_pulses_loop.simps(1))

lemma load_step_same:
  "until > 0 \<Longrightarrow> \<not> hv_Done H k \<Longrightarrow> hv_NextFinalizedPulse H k (uint (fp_PulseNumber pu)) = Inr pu' \<Longrightarrow>
   fp_PulseNumber pu' = fp_PulseNumber pu \<Longrightarrow> retrieve_pulses_loop L X H e until rfuel (Suc fuel) k pu nne =
     emit [TookWorker, Slept (unat (pe_halfPulseSeconds e)), FreedWorker]
       (retrieve_pulses_loop L X H e until rfuel fuel (Suc k) pu' nne)"
  by (simp add: GetNextFinalizedPulse_def)

lemma load_step_next:
  "until > 0 \<Longrightarrow> \<not> hv_Done H k \<Longrightarrow> hv_NextFinalizedPulse H k (uint (fp_PulseNumber pu)) = Inr pu' \<Longrightarrow>
   fp_PulseNumber pu' \<noteq> fp_PulseNumber pu \<Longrightarrow> retrieve_pulses_loop L X H e until rfuel (Suc fuel) k pu nne =
     (if pe_maxWorkers e \<le> 3
      then case retrieveRecords L X (hv_Export H k) (hv_RecordsDone H k) (pe_batchSize e) pu' (skips nne pu') rfuel of
          None \<Rightarrow> ([TookWorker], Running)
        | Some r \<Rightarrow> emit [TookWorker, Fetched pu' (skips nne pu') r] (if fp_PulseNumber pu' \<ge> of_int until then ([], ReachedEnd)
            else retrieve_pulses_loop L X H e until rfuel fuel (Suc k) pu' (if skips nne pu' then nne else iterate_from r))
      else emit [TookWorker, Spawned pu'] (if fp_PulseNumber pu' \<ge> of_int until then ([], ReachedEnd)
            else retrieve_pulses_loop L X H e until rfuel fuel (Suc k) pu' nne))"
  by (simp add: GetNextFinalizedPulse_def skips_def Let_def cong: if_cong option.case_cong)

lemma load_turn:
  assumes fin: "finalizes chain H" and until: "until > 0"
  obtains
    (ended) evs en where "retrieve_pulses_loop L X H e until rfuel (Suc fuel) k pu nne = (evs, en)" "pulses_of evs = []"
      "evs = [] \<and> en = Terminated \<and> hv_Done H k \<or>
       evs = [TookWorker, AskedShutdown] \<and> en = VersionStop \<and>
         (\<exists>err. hv_NextFinalizedPulse H k (uint (fp_PulseNumber pu)) = Inl err \<and> isVersionError X err) \<or>
       evs = [TookWorker] \<and> en = Running \<and> pe_maxWorkers e \<le> 3 \<and>
         (\<exists>pu' skip. pu' \<in> set chain \<and> retrieveRecords L X (hv_Export H k) (hv_RecordsDone H k) (pe_batchSize e) pu' skip rfuel = None)"
  | (again) evs pu' where "retrieve_pulses_loop L X H e until rfuel (Suc fuel) k pu nne =
        emit evs (retrieve_pulses_loop L X H e until rfuel fuel (Suc k) pu' nne)" "pulses_of evs = []"
      "fp_PulseNumber pu' = fp_PulseNumber pu" "count_list evs TookWorker = 1" "count_list evs FreedWorker = 1"
      "\<forall>q. hv_NextFinalizedPulse H k (uint (fp_PulseNumber pu)) = Inr q \<longrightarrow> fp_PulseNumber q = fp_PulseNumber pu"
  | (next_one) ev pu' nne' rest where "retrieve_pulses_loop L X H e until rfuel (Suc fuel) k pu nne =
        emit [TookWorker, ev] (if fp_PulseNumber pu' \<ge> of_int until then ([], ReachedEnd)
          else retrieve_pulses_loop L X H e until rfuel fuel (Suc k) pu' nne')"
      "pulses_of [ev] = [pu']" "later chain (fp_PulseNumber pu) = pu' # rest"
      "ev = Spawned pu' \<and> nne' = nne \<or> (\<exists>r. ev = Fetched pu' (skips nne pu') r \<and>
         retrieveRecords L X (hv_Export H k) (hv_RecordsDone H k) (pe_batchSize e) pu' (skips nne pu') rfuel = Some r \<and>
         nne' = (if skips nne pu' then nne else iterate_from r))"
proof (cases "hv_Done H k")
  case True
  then have "retrieve_pulses_loop L X H e until rfuel (Suc fuel) k pu nne = ([], Terminated)" by (simp add: Let_def)
  from ended [OF this] True show thesis by simp
next
  case False
  show thesis
  proof (cases "hv_NextFinalizedPulse H k (uint (fp_PulseNumber pu))")
    case (Inl err)
    note step = load_step_error [OF until False Inl, of L X e rfuel fuel nne]
    show thesis
    proof (cases "isVersionError X err")
      case True
      with step ended [of "[TookWorker, AskedShutdown]" VersionStop] Inl show thesis by (simp del: retrieve_pulses_loop.simps)
    next
      case False
      with step again [of "[TookWorker, FreedWorker, Slept (error_pause X (unat (pe_halfPulseSeconds e)) err)]" pu] Inl
      show thesis by (simp del: retrieve_pulses_loop.simps)
    qed
  next
    case (Inr pu')
    show thesis
    proof (cases "fp_PulseNumber pu' = fp_PulseNumber pu")
      case True
      have "\<forall>q. hv_NextFinalizedPulse H k (uint (fp_PulseNumber pu)) = Inr q \<longrightarrow> fp_PulseNumber q = fp_PulseNumber pu"
        using Inr True by auto
      from again [OF load_step_same [OF until False Inr True] _ True _ _ this] show thesis by simp
    next
      case new: False
      from fin Inr new obtain rest where l: "later chain (fp_PulseNumber pu) = pu' # rest" unfolding finalizes_def by blast
      note step = load_step_next [OF until False Inr new, of L X e rfuel fuel nne]
      define r where "r = retrieveRecords L X (hv_Export H k) (hv_RecordsDone H k) (pe_batchSize e) pu' (skips nne pu') rfuel"
      note step = step [folded r_def]
      consider "pe_maxWorkers e > 3" | "pe_maxWorkers e \<le> 3" "r = None" | x where "pe_maxWorkers e \<le> 3" "r = Some x" by (meson not_le option.exhaust)
      then show thesis
      proof cases
        case 1
        with step have "retrieve_pulses_loop L X H e until rfuel (Suc fuel) k pu nne =
          emit [TookWorker, Spawned pu'] (if fp_PulseNumber pu' \<ge> of_int until then ([], ReachedEnd)
            else retrieve_pulses_loop L X H e until rfuel fuel (Suc k) pu' nne)" by (simp del: retrieve_pulses_loop.simps)
        from next_one [OF this _ l] show thesis by (simp del: retrieve_pulses_loop.simps)
      next
        case 2
        with step have "retrieve_pulses_loop L X H e until rfuel (Suc fuel) k pu nne = ([TookWorker], Running)"
          by (simp only: if_True option.case)
        moreover have "pu' \<in> set chain" using l by (auto simp: later_def dest: filter_eq_ConsD)
        with 2 have "\<exists>pu' skip. pu' \<in> set chain \<and>
            retrieveRecords L X (hv_Export H k) (hv_RecordsDone H k) (pe_batchSize e) pu' skip rfuel = None"
          unfolding r_def by blast
        ultimately show thesis using ended [of "[TookWorker]" Running] 2(1) by (simp del: retrieve_pulses_loop.simps)
      next
        case 3
        with step have "retrieve_pulses_loop L X H e until rfuel (Suc fuel) k pu nne =
          emit [TookWorker, Fetched pu' (skips nne pu') x] (if fp_PulseNumber pu' \<ge> of_int until then ([], ReachedEnd)
            else retrieve_pulses_loop L X H e until rfuel fuel (Suc k) pu' (if skips nne pu' then nne else iterate_from x))"
          by (simp only: if_True option.case)
        from next_one [OF this _ l] 3 show thesis unfolding r_def by (simp del: retrieve_pulses_loop.simps)
      qed
    qed
  qed
qed

lemma load_trace:
  assumes fin: "finalizes chain H" and until: "until > 0"
  shows "retrieve_pulses_loop L X H e until rfuel fuel k pu nne = (tr, en) \<Longrightarrow>
    (\<exists>rest. wanted chain (of_int until) (fp_PulseNumber pu) = pulses_of tr @ rest \<and> (en = ReachedEnd \<longrightarrow> rest = [])) \<and>
    (en \<noteq> Running \<longrightarrow> count_list tr TookWorker =
       count_list tr FreedWorker + length (pulses_of tr) + (if en = VersionStop then 1 else 0))"
proof (induction fuel arbitrary: k pu nne tr en)
  case (Suc fuel)
  have sorted: "sorted_wrt (\<lambda>p q. fp_PulseNumber p < fp_PulseNumber q) chain" using fin by (simp add: finalizes_def)
  show ?case
  proof (rule load_turn [OF fin until, of L X e rfuel fuel k pu nne], goal_cases)
    case (1 evs en')
    with Suc.prems show ?case by auto
  next
    case (2 evs pu')
    obtain tr' en' where r: "retrieve_pulses_loop L X H e until rfuel fuel (Suc k) pu' nne = (tr', en')" by fastforce
    with 2 Suc.prems Suc.IH [OF r] show ?case by (auto simp: emit_def)
  next
    case (3 ev pu' nne' rest)
    have ev: "count_list [ev] TookWorker = 0" "count_list [ev] FreedWorker = 0" using 3(4) by auto
    note step = wanted_step [OF sorted 3(3), of "of_int until"]
    obtain tr' en' where r: "retrieve_pulses_loop L X H e until rfuel fuel (Suc k) pu' nne' = (tr', en')" by fastforce
    from 3(2) have p: "pulses_of (TookWorker # ev # xs) = pu' # pulses_of xs" for xs
      using pulses_of_append [of "[ev]" xs] by simp
    show ?case
    proof (cases "of_int until \<le> fp_PulseNumber pu'")
      case True
      with Suc.prems 3(1) have "tr = [TookWorker, ev]" "en = ReachedEnd" by (auto simp: emit_def)
      with True step ev p [of "[]"] show ?thesis by (auto split: if_splits)
    next
      case False
      with Suc.prems 3(1) r have "tr = TookWorker # ev # tr'" "en = en'" by (auto simp: emit_def)
      with False step ev p [of tr'] Suc.IH [OF r] show ?thesis by (auto split: if_splits)
    qed
  qed
qed simp

text \<open>C10: a load from one pulse to another asks for the records of the finalized pulses beyond its start in ascending order,
  without gaps or repetitions, up to the first one that reaches its end and no further; when it returns, every worker it took
  has been given back or handed to the retrieval of a pulse, but for a version error, on which one worker stays taken.\<close>

theorem retrievePulses_range:
  assumes "finalizes chain H" and "until > 0" and "retrievePulses L X H e from until rfuel fuel = (tr, en)"
  shows "(\<exists>rest. wanted chain (of_int until) (of_int from) = pulses_of tr @ rest \<and> (en = ReachedEnd \<longrightarrow> rest = [])) \<and>
    (en \<noteq> Running \<longrightarrow> count_list tr TookWorker =
       count_list tr FreedWorker + length (pulses_of tr) + (if en = VersionStop then 1 else 0))"
  using load_trace [OF assms(1,2) assms(3) [unfolded retrievePulses_def]] by (simp add: start_pulse_def)

text \<open>A platform on which a load gets through: nothing is cancelled, there are no version errors, the calls the loop waits for
  return, and among any \<open>m\<close> questions for a pulse that is there one is answered with it.\<close>

definition serves :: "insolar_lib \<Rightarrow> exporter_lib \<Rightarrow> FullPulse list \<Rightarrow> heavy \<Rightarrow> PlatformExtractor \<Rightarrow> nat \<Rightarrow> nat \<Rightarrow> bool" where
  "serves L X chain H e rfuel m \<longleftrightarrow> (\<forall>k. \<not> hv_Done H k) \<and>
     (\<forall>k n err. hv_NextFinalizedPulse H k n = Inl err \<longrightarrow> \<not> isVersionError X err) \<and>
     (\<forall>k pu. pu \<in> set chain \<longrightarrow> retrieveRecords L X (hv_Export H k) (hv_RecordsDone H k) (pe_batchSize e) pu False rfuel \<noteq> None) \<and>
     (\<forall>k n. later chain n \<noteq> [] \<longrightarrow> (\<exists>j < m. \<exists>pu. hv_NextFinalizedPulse H (k + j) (uint n) = Inr pu \<and> fp_PulseNumber pu \<noteq> n))"

lemma retrieveRecords_skip [simp]:
  "retrieveRecords L X ex c b pu True fuel = Some (Emitted \<lparr>pp_Pulse = Some pu, pp_Records = []\<rparr> None)"
  by (simp add: retrieveRecords_def)

lemma servesD:
  assumes "serves L X chain H e rfuel m"
  shows "\<not> hv_Done H k" "hv_NextFinalizedPulse H k n = Inl err \<Longrightarrow> \<not> isVersionError X err"
    "pu' \<in> set chain \<Longrightarrow> retrieveRecords L X (hv_Export H k) (hv_RecordsDone H k) (pe_batchSize e) pu' sk rfuel \<noteq> None"
  using assms by (simp add: serves_def, simp add: serves_def, cases sk) (simp_all add: serves_def)

lemma load_reaches_next:
  assumes fin: "finalizes chain H" and until: "until > 0" and s: "serves L X chain H e rfuel m"
    and goal: "\<And>f k' nne'. F0 \<le> f \<Longrightarrow> snd (if fp_PulseNumber q \<ge> of_int until then ([], ReachedEnd)
      else retrieve_pulses_loop L X H e until rfuel f k' q nne') = ReachedEnd"
  shows "hv_NextFinalizedPulse H (k + j) (uint (fp_PulseNumber pu)) = Inr q' \<Longrightarrow> fp_PulseNumber q' \<noteq> fp_PulseNumber pu \<Longrightarrow>
    later chain (fp_PulseNumber pu) = q # rest \<Longrightarrow> F0 + Suc j \<le> F \<Longrightarrow> snd (retrieve_pulses_loop L X H e until rfuel F k pu nne) = ReachedEnd"
proof (induction j arbitrary: k pu F)
  case 0
  then obtain f where F: "F = Suc f" "F0 \<le> f" by (cases F) auto
  show ?case
  proof (rule load_turn [OF fin until, of L X e rfuel f k pu nne], goal_cases)
    case (1 evs en)
    with servesD [where k = k, OF s] show ?case by blast
  next
    case (2 evs pu')
    with 0(1,2) show ?case by (metis add_0_right)
  next
    case (3 ev pu' nne' rest')
    with 0(3) have "pu' = q" by simp
    with 3(1) F goal [OF F(2), of "Suc k" nne'] show ?case
      by (auto simp del: retrieve_pulses_loop.simps split: if_splits)
  qed
next
  case (Suc j)
  then obtain f where F: "F = Suc f" "F0 + Suc j \<le> f" by (cases F) auto
  show ?case
  proof (rule load_turn [OF fin until, of L X e rfuel f k pu nne], goal_cases)
    case (1 evs en)
    with servesD [where k = k, OF s] show ?case by blast
  next
    case (2 evs pu')
    with Suc.IH [of "Suc k" pu' f] Suc.prems F show ?case by (simp del: retrieve_pulses_loop.simps)
  next
    case (3 ev pu' nne' rest')
    with Suc.prems(3) have "pu' = q" by simp
    moreover have "F0 \<le> f" using F by simp
    ultimately show ?case using 3(1) F goal [of f "Suc k" nne']
      by (auto simp del: retrieve_pulses_loop.simps split: if_splits)
  qed
qed

lemma load_reaches:
  assumes fin: "finalizes chain H" and until: "until > 0" and s: "serves L X chain H e rfuel m"
  shows "\<exists>q \<in> set (later chain (fp_PulseNumber pu)). of_int until \<le> fp_PulseNumber q \<Longrightarrow>
    m * length (later chain (fp_PulseNumber pu)) \<le> F \<Longrightarrow> snd (retrieve_pulses_loop L X H e until rfuel F k pu nne) = ReachedEnd"
proof (induction "length (later chain (fp_PulseNumber pu))" arbitrary: pu F k nne)
  case 0
  then show ?case by simp
next
  case (Suc len)
  then obtain q rest where q: "later chain (fp_PulseNumber pu) = q # rest" by (cases "later chain (fp_PulseNumber pu)") auto
  have sorted: "sorted_wrt (\<lambda>p q. fp_PulseNumber p < fp_PulseNumber q) chain" using fin by (simp add: finalizes_def)
  note l = later_step [OF sorted q]
  from s q obtain j q' where j: "j < m" and
    a: "hv_NextFinalizedPulse H (k + j) (uint (fp_PulseNumber pu)) = Inr q'" "fp_PulseNumber q' \<noteq> fp_PulseNumber pu"
    unfolding serves_def by (metis list.distinct(1))
  show ?case
  proof (rule load_reaches_next [OF fin until s _ a q])
    fix f k' nne' assume f: "m * length rest \<le> f"
    show "snd (if fp_PulseNumber q \<ge> of_int until then ([], ReachedEnd)
      else retrieve_pulses_loop L X H e until rfuel f k' q nne') = ReachedEnd"
    proof (cases "fp_PulseNumber q \<ge> of_int until")
      case False
      with Suc.prems(1) q l have "\<exists>x \<in> set (later chain (fp_PulseNumber q)). of_int until \<le> fp_PulseNumber x" by auto
      moreover have "len = length (later chain (fp_PulseNumber q))" using Suc.hyps(2) q l by simp
      ultimately show ?thesis using Suc.hyps(1) [of q f k' nne'] f l False by simp
    qed simp
  next
    show "m * length rest + Suc j \<le> F" using Suc.prems(2) q j by simp
  qed
qed


section \<open>What a serial load hands over\<close>

text \<open>With at most three workers a load waits for each retrieval, and skips the request for a pulse below the number that the
  platform gave as the next one with records.  \<open>truthful\<close>: that number, which a packet beyond the pulse carries, is right.\<close>

definition next_packet :: "insolar_lib \<Rightarrow> ex_Record \<Rightarrow> 32 word" where
  "next_packet L r = (case er_ShouldIterateFrom r of Some itf \<Rightarrow> itf | None \<Rightarrow> IDPulse L (er_ID r))"

definition truthful :: "insolar_lib \<Rightarrow> (32 word \<Rightarrow> ex_Record list) \<Rightarrow> (nat \<Rightarrow> GetRecords \<Rightarrow> error + recv list) \<Rightarrow> bool" where
  "truthful L recs export \<longleftrightarrow> (\<forall>k req stream r n. export k req = Inr stream \<longrightarrow> RecvRecord r \<in> set stream \<longrightarrow>
     \<not> belongs L (gr_PulseNumber req) r \<longrightarrow> gr_PulseNumber req < n \<longrightarrow> n < next_packet L r \<longrightarrow> recs n = [])"

lemma recv_loop_Whole:
  "recv_loop L X c pn i stream rs = Whole rs' itf \<Longrightarrow>
     \<exists>r. RecvRecord r \<in> set stream \<and> \<not> belongs L pn r \<and> itf = next_packet L r"
proof (induction L X c pn i stream rs rule: recv_loop.induct)
  case (4 L X c pn i resp rest rs)
  then show ?case by (auto simp: belongs_def next_packet_def split: if_splits)
qed (auto split: if_splits)

lemma retrieve_portions_itf:
  "retrieve_portions L X export c b pu fuel k rs = Some (Emitted d itf) \<Longrightarrow>
     \<exists>k req stream r. export k req = Inr stream \<and> gr_PulseNumber req = fp_PulseNumber pu \<and> RecvRecord r \<in> set stream \<and>
       \<not> belongs L (fp_PulseNumber pu) r \<and> itf = Some (next_packet L r)"
proof (induction fuel arbitrary: k rs)
  case (Suc fuel)
  let ?req = "\<lparr>gr_PulseNumber = fp_PulseNumber pu, gr_RecordNumber = of_nat (length rs) :: 32 word, gr_Count = b\<rparr>"
  show ?case
  proof (cases "export k ?req")
    case (Inl err)
    with Suc show ?thesis by (auto split: if_splits)
  next
    case (Inr stream)
    let ?r = "recv_loop L X (\<lambda>i. c k (Suc i)) (fp_PulseNumber pu) 0 stream rs"
    show ?thesis
    proof (cases ?r)
      case (Whole rs' itf')
      with Inr Suc.prems have "itf = Some itf'" by (simp split: if_splits)
      with recv_loop_Whole [OF Whole] Inr show ?thesis by (metis GetRecords.select_convs(1))
    qed (use Suc Inr in \<open>auto split: if_splits\<close>)
  qed
qed simp

lemma retrieved_itf:
  assumes "truthful L recs export" and "retrieveRecords L X export c b pu False fuel = Some r" and "iterate_from r = Some n"
    and "fp_PulseNumber pu < m" and "m < n"
  shows "recs m = []"
proof -
  from assms(3) obtain d where "r = Emitted d (Some n)" by (auto simp: iterate_from_def split: retrieved.splits)
  with assms(2) have "retrieve_portions L X export c b pu fuel 0 [] = Some (Emitted d (Some n))" by (simp add: retrieveRecords_def)
  from retrieve_portions_itf [OF this] assms(1,4,5) show ?thesis unfolding truthful_def by (metis option.inject)
qed

lemma retrieved_exact:
  assumes "exports L pu rs export" and "retrieveRecords L X export c b pu False fuel = Some (Emitted d itf)"
  shows "d = \<lparr>pp_Pulse = Some pu, pp_Records = rs\<rparr>"
  using retrieve_portions_exact [OF assms(1)] assms(2) by (auto simp: retrieveRecords_def)

lemma serial_trace:
  assumes fin: "finalizes chain H" and until: "until > 0"
    and ex: "\<And>pu k. pu \<in> set chain \<Longrightarrow> exports L pu (recs (fp_PulseNumber pu)) (hv_Export H k)"
    and tr: "\<And>k. truthful L recs (hv_Export H k)"
  shows "retrieve_pulses_loop L X H e until rfuel fuel k pu nne = (tr, en) \<Longrightarrow>
    (\<And>n m. nne = Some n \<Longrightarrow> fp_PulseNumber pu < m \<Longrightarrow> m < n \<Longrightarrow> recs m = []) \<Longrightarrow>
    Fetched q skip (Emitted d itf) \<in> set tr \<Longrightarrow> d = \<lparr>pp_Pulse = Some q, pp_Records = recs (fp_PulseNumber q)\<rparr>"
proof (induction fuel arbitrary: k pu nne tr en)
  case (Suc fuel)
  show ?case
  proof (rule load_turn [OF fin until, of L X e rfuel fuel k pu nne], goal_cases)
    case (1 evs en')
    with Suc.prems show ?case by auto
  next
    case (2 evs pu')
    obtain tr' en' where r: "retrieve_pulses_loop L X H e until rfuel fuel (Suc k) pu' nne = (tr', en')" by fastforce
    from 2(2) have "Fetched q skip (Emitted d itf) \<notin> set evs"
      by (metis append.simps(2) append_is_Nil_conv list.distinct(1) pulses_of.simps(2) pulses_of_append split_list)
    with r Suc.prems(1,3) 2(1) have "Fetched q skip (Emitted d itf) \<in> set tr'" by (auto simp: emit_def)
    from Suc.IH [OF r _ this] Suc.prems(2) 2(3) show ?case by simp
  next
    case (3 ev pu' nne' rest)
    have mem: "pu' \<in> set chain" and gt: "fp_PulseNumber pu < fp_PulseNumber pu'"
      using 3(3) by (auto simp: later_def dest: filter_eq_ConsD)
    have here: "d = \<lparr>pp_Pulse = Some q, pp_Records = recs (fp_PulseNumber q)\<rparr>" if "ev = Fetched q skip (Emitted d itf)"
    proof (cases "skips nne pu'")
      case True
      with Suc.prems(2) gt have "recs (fp_PulseNumber pu') = []" by (auto simp: skips_def split: option.splits)
      with that 3(4) True show ?thesis by auto
    next
      case False
      with that 3(4) retrieved_exact [OF ex [OF mem]] show ?thesis by auto
    qed
    have inv: "recs m = []" if "nne' = Some n" "fp_PulseNumber pu' < m" "m < n" for n m
    proof (cases "nne' = nne")
      case True
      moreover have "fp_PulseNumber pu < m" using gt that(2) by (rule order.strict_trans)
      ultimately show ?thesis using Suc.prems(2) [of n m] that by simp
    next
      case False
      with 3(4) obtain r where "retrieveRecords L X (hv_Export H k) (hv_RecordsDone H k) (pe_batchSize e) pu' False rfuel = Some r"
        "nne' = iterate_from r" by (auto split: if_splits)
      with retrieved_itf [OF tr] that show ?thesis by metis
    qed
    obtain tr' en' where r: "retrieve_pulses_loop L X H e until rfuel fuel (Suc k) pu' nne' = (tr', en')" by fastforce
    show ?case
    proof (cases "ev = Fetched q skip (Emitted d itf)")
      case False
      with Suc.prems(1,3) 3(1) r have "Fetched q skip (Emitted d itf) \<in> set tr'" by (auto simp: emit_def split: if_splits)
      from Suc.IH [OF r _ this] inv show ?thesis by blast
    qed (rule here)
  qed
qed simp

text \<open>C12: skipping requests loses nothing: if the platform answers with the records of each pulse and its numbers of the next
  pulse with records are right, every pulse a serial load hands over carries exactly its records, also those it did not ask for.\<close>

theorem serial_load_exact:
  assumes "finalizes chain H" and "until > 0"
    and "\<And>pu k. pu \<in> set chain \<Longrightarrow> exports L pu (recs (fp_PulseNumber pu)) (hv_Export H k)" and "\<And>k. truthful L recs (hv_Export H k)"
    and "retrievePulses L X H e from until rfuel fuel = (tr, en)" and "Fetched pu skip (Emitted d itf) \<in> set tr"
  shows "d = \<lparr>pp_Pulse = Some pu, pp_Records = recs (fp_PulseNumber pu)\<rparr>"
  using serial_trace [OF assms(1-4) assms(5) [unfolded retrievePulses_def] _ assms(6)] by simp

section \<open>A concrete platform\<close>

text \<open>Two finalized pulses, 7 with three records and 9 with none; the first question is refused by the rate limit.\<close>

definition sample_chain :: "FullPulse list" where
  "sample_chain = [sample_full 7, sample_full 9]"

definition sample_heavy :: heavy where
  "sample_heavy = \<lparr>hv_NextFinalizedPulse = (\<lambda>k n. if k = 0 then Inl (Err ''rate limit'') else if n < 7 then Inr (sample_full 7)
       else if n < 9 then Inr (sample_full 9) else Inl (Err ''rate limit'')),
     hv_Export = (\<lambda>k j req. if gr_PulseNumber req = 7 then sample_export j req
       else if gr_PulseNumber req = 9 then Inr [RecvRecord (sample_record 11 1)] else Inr []),
     hv_Done = (\<lambda>k. False), hv_RecordsDone = (\<lambda>k j i. False)\<rparr>"

definition sample_recs :: "32 word \<Rightarrow> ex_Record list" where
  "sample_recs n = (if n = 7 then sample_records else [])"

definition sample_extractor :: PlatformExtractor where
  "sample_extractor = NewPlatformExtractor 5 10 3 500"

lemma sample_later:
  "later sample_chain n = (if n < 7 then [sample_full 7, sample_full 9] else if n < 9 then [sample_full 9] else [])"
  by (auto simp: later_def sample_chain_def sample_full_def word_less_def)

lemma sample_answers:
  "hv_NextFinalizedPulse sample_heavy 0 n = Inl (Err ''rate limit'')"
  "hv_NextFinalizedPulse sample_heavy (Suc k) n =
     (if n < 7 then Inr (sample_full 7) else if n < 9 then Inr (sample_full 9) else Inl (Err ''rate limit''))"
  "\<not> hv_Done sample_heavy k"
  by (simp_all add: sample_heavy_def)

text \<open>The retrievals of the two pulses.\<close>

lemma sample_fetches:
  "retrieveRecords sample_lib sample_errors (hv_Export sample_heavy k) (hv_RecordsDone sample_heavy k) 5 (sample_full 7) False 3 =
      Some (Emitted \<lparr>pp_Pulse = Some (sample_full 7), pp_Records = sample_records\<rparr> (Some 9))"
  "retrieveRecords sample_lib sample_errors (hv_Export sample_heavy k) (hv_RecordsDone sample_heavy k) 5 (sample_full 9) False 3 =
      Some (Emitted \<lparr>pp_Pulse = Some (sample_full 9), pp_Records = []\<rparr> (Some 11))"
  by (simp_all add: retrieveRecords_def numeral_3_eq_3 sample_heavy_def sample_export_def sample_not_version sample_rate_limit
        sample_records_def sample_full_def sample_record_def sample_lib_def)

lemma sample_finalizes: "finalizes sample_chain sample_heavy"
  unfolding finalizes_def
proof (intro conjI allI impI)
  show "sorted_wrt (\<lambda>p q. fp_PulseNumber p < fp_PulseNumber q) sample_chain"
    by (simp add: sample_chain_def sample_full_def)
  fix k and n :: "32 word" and pu
  assume "hv_NextFinalizedPulse sample_heavy k (uint n) = Inr pu"
  then show "fp_PulseNumber pu = n \<or> (\<exists>rest. later sample_chain n = pu # rest)"
    by (auto simp: sample_heavy_def sample_later word_less_def split: if_splits)
qed

lemma sample_heavy_exports:
  "pu \<in> set sample_chain \<Longrightarrow> exports sample_lib pu (sample_recs (fp_PulseNumber pu)) (hv_Export sample_heavy k)"
proof -
  have "exports sample_lib (sample_full 7) sample_records (hv_Export sample_heavy k)"
    using sample_exports unfolding exports_def by (simp add: sample_heavy_def sample_full_def)
  moreover have "exports sample_lib (sample_full 9) [] (hv_Export sample_heavy k)"
    by (auto simp: exports_def sample_heavy_def sample_full_def stream_of_def belongs_def sample_lib_def sample_record_def)
  ultimately show "pu \<in> set sample_chain \<Longrightarrow> ?thesis" by (auto simp: sample_chain_def sample_recs_def sample_full_def)
qed

lemma sample_truthful: "truthful sample_lib sample_recs (hv_Export sample_heavy k)"
proof -
  have "sample_recs n = []" if "7 < n" for n using that by (auto simp: sample_recs_def)
  then show ?thesis unfolding truthful_def
    by (auto simp: sample_heavy_def sample_recs_def)
qed

lemma sample_serves: "serves sample_lib sample_errors sample_chain sample_heavy sample_extractor 3 2"
proof -
  have "\<exists>j < 2. \<exists>pu. hv_NextFinalizedPulse sample_heavy (k + j) (uint n) = Inr pu \<and> fp_PulseNumber pu \<noteq> n"
    if "later sample_chain n \<noteq> []" for k n
    using that by (intro exI [of _ 1]) (auto simp: sample_later sample_answers sample_full_def word_less_def split: if_splits)
  moreover have "\<not> isVersionError sample_errors err" if "hv_NextFinalizedPulse sample_heavy k n = Inl err" for k n err
    using that by (cases k) (auto simp: sample_answers sample_not_version split: if_splits)
  ultimately show ?thesis unfolding serves_def
    by (auto simp: sample_chain_def sample_fetches sample_answers sample_extractor_def NewPlatformExtractor_def)
qed


lemma sample_run:
  "retrievePulses sample_lib sample_errors sample_heavy sample_extractor 5 9 3 4 =
     ([TookWorker, FreedWorker, Slept 10, TookWorker,
       Fetched (sample_full 7) False (Emitted \<lparr>pp_Pulse = Some (sample_full 7), pp_Records = sample_records\<rparr> (Some 9)), TookWorker,
       Fetched (sample_full 9) False (Emitted \<lparr>pp_Pulse = Some (sample_full 9), pp_Records = []\<rparr> (Some 11))], ReachedEnd)"
proof -
  have n: "fp_PulseNumber (start_pulse 5) = 5" "fp_PulseNumber (sample_full m) = m" for m by (simp_all add: start_pulse_def sample_full_def)
  have e: "pe_maxWorkers sample_extractor = 3" "pe_batchSize sample_extractor = 5" "pe_halfPulseSeconds sample_extractor = 10"
    by (simp_all add: sample_extractor_def NewPlatformExtractor_def)
  have four: "(4 :: nat) = Suc (Suc (Suc (Suc 0)))" by simp
  show ?thesis unfolding retrievePulses_def four
    by (simp add: n e GetNextFinalizedPulse_def emit_def sample_answers sample_not_version sample_fetches error_pause_def
          sample_rate_limit iterate_from_def)
qed

theorem retrievePulses_range_witness:
  "\<exists>tr. retrievePulses sample_lib sample_errors sample_heavy sample_extractor 5 9 3 4 = (tr, ReachedEnd) \<and>
     count_list tr TookWorker = count_list tr FreedWorker + length (pulses_of tr)"
  using sample_run retrievePulses_range [OF sample_finalizes _ sample_run] by simp

theorem serial_load_exact_witness:
  "(\<exists>tr. retrievePulses sample_lib sample_errors sample_heavy sample_extractor 5 9 3 4 = (tr, ReachedEnd)) \<and>
   pp_Records \<lparr>pp_Pulse = Some (sample_full 7), pp_Records = sample_records\<rparr> = sample_recs (fp_PulseNumber (sample_full 7))"
proof -
  have "\<lparr>pp_Pulse = Some (sample_full 7), pp_Records = sample_records\<rparr> =
      \<lparr>pp_Pulse = Some (sample_full 7), pp_Records = sample_recs (fp_PulseNumber (sample_full 7))\<rparr>"
    by (rule serial_load_exact [where skip = False and itf = "Some 9", OF sample_finalizes _ sample_heavy_exports sample_truthful sample_run]) simp_all
  with sample_run show ?thesis by simp
qed

end
