(* ===== verification/API_Params.thy ===== *)
theory API_Params
  imports Storage_Read Converter
begin

text \<open>The parts of \<open>api/handlers.go\<close> and \<open>api/mappers.go\<close> that do not reach the storage: the parameters and responses of the
  HTTP interface, the checks of the parameters, and the mapping of database rows to responses.  The types of the interface
  and its enumeration values come from the package generated from the API specification, references and the range of pulse
  numbers from the platform's library; both are parameters.\<close>

section \<open>Parameters of the model\<close>

record api_lib =
  IsValidAsPulseNumber :: "int \<Rightarrow> bool"                    \<comment> \<open>pulse.IsValidAsPulseNumber\<close>
  NewReferenceFromString :: "string \<Rightarrow> bytes option"       \<comment> \<open>insolar.NewReferenceFromString\<close>
  IsObjectReference :: "bytes \<Rightarrow> bool"                     \<comment> \<open>Reference.IsObjectReference\<close>
  RefString :: "bytes \<Rightarrow> string"                           \<comment> \<open>Reference.String\<close>
  GetLocalBytes :: "bytes \<Rightarrow> bytes"                        \<comment> \<open>Reference.GetLocal().Bytes()\<close>
  NewIDFromBytes :: "bytes \<Rightarrow> bytes option"                \<comment> \<open>insolar.NewIDFromBytes, None for nil\<close>
  NewReference :: "bytes \<Rightarrow> bytes"                         \<comment> \<open>insolar.NewReference\<close>
  ID_String :: "bytes \<Rightarrow> string"                           \<comment> \<open>ID.String\<close>
  UnescapeError :: "string \<Rightarrow> string"                      \<comment> \<open>the text of the error of url.QueryUnescape\<close>
  SortByIndex_index_asc :: string
  SortByIndex_index_desc :: string
  SortByPulse_pulse_number_asc_jet_id_desc :: string
  SortByPulse_pulse_number_desc_jet_id_asc :: string
  SortByPulseNumber_pulse_number_asc :: string
  SortByPulseNumber_pulse_number_desc :: string

section \<open>Responses\<close>

record CodeValidationFailures =
  cv_Property :: string
  cv_FailureReason :: string

record CodeValidationError =
  ce_Code :: string
  ce_Description :: "string option"
  ce_Message :: "string option"
  ce_ValidationFailures :: "CodeValidationFailures list"

record NextPrevJetDrop =
  np_JetId :: string
  np_JetDropId :: string
  np_PulseNumber :: int

record api_JetDrop =
  aj_Hash :: string
  aj_JetDropId :: string
  aj_JetId :: string
  aj_NextJetDropId :: "NextPrevJetDrop list"
  aj_PrevJetDropId :: "NextPrevJetDrop list"
  aj_PulseNumber :: int
  aj_RecordAmount :: int
  aj_Timestamp :: int

record api_Record =
  ar_Hash :: string
  ar_JetDropId :: string
  ar_JetId :: string
  ar_Index :: string
  ar_Payload :: string
  ar_PulseNumber :: int
  ar_Timestamp :: int
  ar_Type :: string
  ar_ObjectReference :: "string option"
  ar_PrevRecordReference :: "string option"
  ar_PrototypeReference :: "string option"
  ar_Reference :: "string option"

record api_Pulse =
  ap_IsComplete :: bool
  ap_JetDropAmount :: int
  ap_PulseNumber :: int
  ap_RecordAmount :: int
  ap_Timestamp :: int
  ap_PrevPulseNumber :: "int option"
  ap_NextPulseNumber :: "int option"

text \<open>The bodies of the answers; those of a list carry the total.\<close>

datatype body =
    NoBody
  | ValidationError CodeValidationError
  | JetDropResponse api_JetDrop
  | JetDropsResponse int "api_JetDrop list"
  | RecordsResponse int "api_Record list"
  | PulseResponse api_Pulse
  | PulsesResponse int "api_Pulse list"
  | SearchPulse int
  | SearchJetDrop string
  | SearchLifeline string
  | SearchRecord string string

datatype response = JSON nat body | Crash panic

section \<open>Mapping rows to responses\<close>

text \<open>\<open>EncodeToString\<close> is \<open>base64.StdEncoding.EncodeToString\<close>.  A reference that is empty, or that is no identifier, stays absent.\<close>

definition optional_reference :: "(bytes \<Rightarrow> string) \<Rightarrow> api_lib \<Rightarrow> bytes \<Rightarrow> string option" where
  "optional_reference text A b = (if IsEmpty b then None else map_option text (NewIDFromBytes A b))"

definition record_index :: "models_Record \<Rightarrow> string" where
  "record_index r = Itoa (mr_PulseNumber r) @ '':'' @ Itoa (mr_Order r)"

definition RecordToAPI :: "api_lib \<Rightarrow> models_Record \<Rightarrow> api_Record" where
  "RecordToAPI A r =
     (let jetDropID = NewJetDropID (mr_JetID r) (mr_PulseNumber r)
      in \<lparr>ar_Hash = EncodeToString (mr_Hash r), ar_JetDropId = ToString jetDropID, ar_JetId = JetIDToString_id jetDropID,
          ar_Index = record_index r, ar_Payload = EncodeToString (mr_Payload r), ar_PulseNumber = mr_PulseNumber r,
          ar_Timestamp = mr_Timestamp r, ar_Type = mr_Type r,
          ar_ObjectReference = optional_reference (\<lambda>i. RefString A (NewReference A i)) A (mr_ObjectReference r),
          ar_PrevRecordReference = optional_reference (ID_String A) A (mr_PrevRecordReference r),
          ar_PrototypeReference = optional_reference (ID_String A) A (mr_PrototypeReference r),
          ar_Reference = map_option (ID_String A) (NewIDFromBytes A (mr_Reference r))\<rparr>)"

definition PulseToAPI :: "models_Pulse \<Rightarrow> api_Pulse" where
  "PulseToAPI p =
     \<lparr>ap_IsComplete = mp_IsComplete p, ap_JetDropAmount = mp_JetDropAmount p, ap_PulseNumber = mp_PulseNumber p,
      ap_RecordAmount = mp_RecordAmount p, ap_Timestamp = mp_Timestamp p,
      ap_PrevPulseNumber = (if mp_PrevPulseNumber p \<noteq> -1 then Some (mp_PrevPulseNumber p) else None),
      ap_NextPulseNumber = (if mp_NextPulseNumber p \<noteq> -1 then Some (mp_NextPulseNumber p) else None)\<rparr>"

definition JetDropToAPI :: "models_JetDrop \<Rightarrow> NextPrevJetDrop list \<Rightarrow> NextPrevJetDrop list \<Rightarrow> api_JetDrop" where
  "JetDropToAPI j prevJetDrops nextJetDrops =
     (let jetDropID = NewJetDropID (mj_JetID j) (mj_PulseNumber j)
      in \<lparr>aj_Hash = EncodeToString (mj_Hash j), aj_JetDropId = ToString jetDropID, aj_JetId = JetIDToString_id jetDropID,
          aj_NextJetDropId = nextJetDrops, aj_PrevJetDropId = prevJetDrops, aj_PulseNumber = mj_PulseNumber j,
          aj_RecordAmount = mj_RecordAmount j, aj_Timestamp = mj_Timestamp j\<rparr>)"

definition transformPrevNextResp :: "models_JetDrop \<Rightarrow> NextPrevJetDrop" where
  "transformPrevNextResp j =
     (let jd = NewJetDropID (mj_JetID j) (mj_PulseNumber j)
      in \<lparr>np_JetId = JetIDToString_id jd, np_JetDropId = ToString jd, np_PulseNumber = ji_PulseNumber jd\<rparr>)"

section \<open>Checks of the parameters\<close>

definition failure :: "string \<Rightarrow> string \<Rightarrow> CodeValidationFailures" where
  "failure property reason = \<lparr>cv_Property = property, cv_FailureReason = reason\<rparr>"

definition checkLimitOffset :: "int option \<Rightarrow> int option \<Rightarrow> int \<times> int \<times> CodeValidationFailures list" where
  "checkLimitOffset l off =
     (let limit = (case l of None \<Rightarrow> 20 | Some x \<Rightarrow> x);
          failures = (if limit \<le> 0 \<or> limit > 1000 then [failure ''limit'' ''should be in range [1, 1000]''] else []);
          offset = (case off of None \<Rightarrow> 0 | Some x \<Rightarrow> x);
          failures = (if offset < 0 then failures @ [failure ''offset'' ''should not be negative''] else failures)
      in (limit, offset, failures))"

definition checkSortByPulseParameter :: "api_lib \<Rightarrow> string option \<Rightarrow> bool \<times> CodeValidationFailures list" where
  "checkSortByPulseParameter A sortBy =
     (let pnAsc = SortByPulse_pulse_number_asc_jet_id_desc A; pnDesc = SortByPulse_pulse_number_desc_jet_id_asc A
      in case sortBy of None \<Rightarrow> (False, [])
         | Some s \<Rightarrow> if s \<noteq> pnAsc \<and> s \<noteq> pnDesc
             then (False, [failure ''sort_by''
               (''query parameter '' @ CHR 0x27 # ''sort_by'' @ CHR 0x27 # '' should be '' @ CHR 0x27 # pnAsc @ CHR 0x27 # '' or ''
                 @ CHR 0x27 # pnDesc @ [CHR 0x27])])
             else (s = pnAsc, []))"

definition checkSortByPulseNumberParameter :: "api_lib \<Rightarrow> string option \<Rightarrow> bool \<times> CodeValidationFailures list" where
  "checkSortByPulseNumberParameter A sortBy =
     (let pnAsc = SortByPulseNumber_pulse_number_asc A; pnDesc = SortByPulseNumber_pulse_number_desc A
      in case sortBy of None \<Rightarrow> (False, [])
         | Some s \<Rightarrow> if s \<noteq> pnAsc \<and> s \<noteq> pnDesc
             then (False, [failure ''sort_by''
               (''query parameter '' @ CHR 0x27 # ''sort_by'' @ CHR 0x27 # '' should be '' @ CHR 0x27 # pnAsc @ CHR 0x27 # '' or ''
                 @ CHR 0x27 # pnDesc @ [CHR 0x27])])
             else (s = pnAsc, []))"

text \<open>\<open>QueryUnescape\<close> returns the empty string with its error, so a bad escape fails the regular expression too.\<close>

definition checkJetID :: "api_lib \<Rightarrow> string \<Rightarrow> string \<times> CodeValidationFailures list" where
  "checkJetID A jetID =
     (let property = ''jet-id path parameter''; val = TrimSpace jetID;
          failures = (if length val = 0 then [failure property ''empty value of path parameter''] else []);
          jid = (case QueryUnescape val of Some u \<Rightarrow> u | None \<Rightarrow> []);
          failures = (if QueryUnescape val = None
            then failures @ [failure property (''cannot unescape path parameter jet-id: '' @ UnescapeError A val)] else failures);
          failures = (if \<not> jetIDRegexp jid
            then failures @ [failure property ''parameter does not match with jetID valid value''] else failures)
      in if failures \<noteq> [] then ([], failures) else if jid = ''*'' then ([], []) else (jid, []))"

definition checkReference :: "api_lib \<Rightarrow> string \<Rightarrow> error + bytes" where
  "checkReference A referenceRow =
     (let referenceString = TrimSpace referenceRow
      in if length referenceString = 0 then Inl (Err ''empty reference'')
         else case QueryUnescape referenceString of None \<Rightarrow> Inl (Err ''error unescaping'')
           | Some reference \<Rightarrow> (case NewReferenceFromString A reference of None \<Rightarrow> Inl (Err ''wrong format'')
              | Some ref \<Rightarrow> Inr ref))"

definition getPulseNumberValue :: "api_lib \<Rightarrow> int \<Rightarrow> string \<Rightarrow> CodeValidationFailures list \<Rightarrow> int option \<times> CodeValidationFailures list" where
  "getPulseNumberValue A unptr propertyName failures =
     (Some unptr, if \<not> IsValidAsPulseNumber A unptr then failures @ [failure propertyName ''invalid value''] else failures)"

text \<open>\<open>if p != nil { v, failures = getPulseNumberValue(int(*p), name, failures) }\<close>\<close>

definition pulse_number_param :: "api_lib \<Rightarrow> int option \<Rightarrow> string \<Rightarrow> CodeValidationFailures list \<Rightarrow> int option \<times> CodeValidationFailures list" where
  "pulse_number_param A p propertyName failures =
     (case p of None \<Rightarrow> (None, failures) | Some n \<Rightarrow> getPulseNumberValue A n propertyName failures)"

definition check_from_index :: "string option \<Rightarrow> CodeValidationFailures list \<Rightarrow> CodeValidationFailures list" where
  "check_from_index fromIndex failures =
     (case fromIndex of None \<Rightarrow> failures
      | Some s \<Rightarrow> (case CheckIndex s of Inl err \<Rightarrow> failures @ [failure ''from_index'' ''invalid''] | Inr ix \<Rightarrow> failures))"

text \<open>\<open>http.StatusText(400)\<close> and \<open>strconv.Itoa(400)\<close>: the handlers use one or the other as the code.\<close>

definition InvalidParamsMessage :: string where
  "InvalidParamsMessage = ''Invalid query or path parameters''"

definition bad_request :: "string \<Rightarrow> CodeValidationFailures list \<Rightarrow> response" where
  "bad_request code failures = JSON 400 (ValidationError
     \<lparr>ce_Code = code, ce_Description = None, ce_Message = Some InvalidParamsMessage, ce_ValidationFailures = failures\<rparr>)"

definition bad_value :: "string \<Rightarrow> response" where
  "bad_value reason = JSON 400 (ValidationError
     \<lparr>ce_Code = ''Bad Request'', ce_Description = Some InvalidParamsMessage, ce_Message = None,
      ce_ValidationFailures = [failure ''value'' reason]\<rparr>)"

section \<open>Linking jet drops by their hashes\<close>

text \<open>\<open>createNextPrevMaps\<close>: the drops by their hash, where a later one replaces an earlier one, and the drops by the hash of
  their first predecessor, each identifier once.\<close>

fun by_hash :: "models_JetDrop list \<Rightarrow> (string, NextPrevJetDrop) gomap \<Rightarrow> (string, NextPrevJetDrop) gomap" where
  "by_hash [] m = m"
| "by_hash (j # js) m = by_hash js (map_put (EncodeToString (mj_Hash j)) (transformPrevNextResp j) m)"

definition add_next :: "models_JetDrop \<Rightarrow> bytes \<Rightarrow> (string, NextPrevJetDrop list) gomap \<Rightarrow> (string, NextPrevJetDrop list) gomap" where
  "add_next j hash m =
     (let key = EncodeToString hash
      in case map_of m key of None \<Rightarrow> map_put key [transformPrevNextResp j] m
         | Some savedDrops \<Rightarrow>
             if list_ex (\<lambda>d. np_JetDropId d = np_JetDropId (transformPrevNextResp j)) savedDrops then m
             else map_put key (savedDrops @ [transformPrevNextResp j]) m)"

fun by_prev_hash :: "models_JetDrop list \<Rightarrow> (string, NextPrevJetDrop list) gomap \<Rightarrow> (string, NextPrevJetDrop list) gomap" where
  "by_prev_hash [] m = m"
| "by_prev_hash (j # js) m = by_prev_hash js (add_next j (mj_FirstPrevHash j) m)"

definition createNextPrevMaps :: "models_JetDrop list \<Rightarrow> (string, NextPrevJetDrop) gomap \<times> (string, NextPrevJetDrop list) gomap" where
  "createNextPrevMaps jetDrops = (by_hash jetDrops [], by_prev_hash jetDrops [])"

definition findEdgePNInJetDrops :: "models_JetDrop list \<Rightarrow> bool \<Rightarrow> int \<times> int" where
  "findEdgePNInJetDrops jetDrops sortByAsc =
     (if jetDrops = [] then (0, 0)
      else if sortByAsc then (mj_PulseNumber (hd jetDrops), mj_PulseNumber (last jetDrops))
      else (mj_PulseNumber (last jetDrops), mj_PulseNumber (hd jetDrops)))"

end
