(* ===== verification/API.thy ===== *)
theory API
  imports API_Params
begin

text \<open>The handlers of \<open>api/handlers.go\<close>.  The server reads the database through the interface
  \<open>interfaces.StorageAPIFetcher\<close>, here a record of operations on a state \<open>'st\<close>; a handler maps the parameters and the state
  to an answer and a state.  Logging is left out.\<close>

section \<open>The interface to the storage\<close>

record 'st StorageAPIFetcher =
  a_GetRecord :: "bytes \<Rightarrow> ('st, models_Record) dbop"
  a_GetPulse :: "int \<Rightarrow> ('st, models_Pulse) dbop"
  a_GetPulses :: "int option \<Rightarrow> int option \<Rightarrow> int option \<Rightarrow> int option \<Rightarrow> int option \<Rightarrow> int option \<Rightarrow> int option \<Rightarrow> bool \<Rightarrow> int \<Rightarrow> int
    \<Rightarrow> ('st, models_Pulse list \<times> int) dbop"
  a_GetJetDropsWithParams :: "models_Pulse \<Rightarrow> JetDropID option \<Rightarrow> int \<Rightarrow> int \<Rightarrow> ('st, models_JetDrop list \<times> int) dbop"
  a_GetJetDropByID :: "JetDropID \<Rightarrow> ('st, models_JetDrop \<times> models_JetDrop list \<times> models_JetDrop list) dbop"
  a_GetJetDropsByJetID :: "string \<Rightarrow> int option \<Rightarrow> int option \<Rightarrow> int option \<Rightarrow> int option \<Rightarrow> int \<Rightarrow> bool
    \<Rightarrow> ('st, models_JetDrop list \<times> int) dbop"
  a_GetLifeline :: "bytes \<Rightarrow> string option \<Rightarrow> int option \<Rightarrow> int option \<Rightarrow> int option \<Rightarrow> int option \<Rightarrow> int \<Rightarrow> int \<Rightarrow> bool
    \<Rightarrow> ('st, models_Record list \<times> int) dbop"
  a_GetRecordsByJetDrop :: "JetDropID \<Rightarrow> string option \<Rightarrow> string option \<Rightarrow> int \<Rightarrow> int \<Rightarrow> ('st, models_Record list \<times> int) dbop"
  a_GetNextSavedPulse :: "models_Pulse \<Rightarrow> bool \<Rightarrow> ('st, models_Pulse) dbop"
  a_GetJetDrops :: "models_Pulse \<Rightarrow> ('st, models_JetDrop list) dbop"

text \<open>The storage of this repository as an \<open>interfaces.StorageAPIFetcher\<close>.\<close>

definition APIStorage :: "'db gorm \<Rightarrow> 'db StorageAPIFetcher" where
  "APIStorage G = \<lparr>a_GetRecord = GetRecord G, a_GetPulse = GetPulse G, a_GetPulses = GetPulses G,
     a_GetJetDropsWithParams = GetJetDropsWithParams G, a_GetJetDropByID = GetJetDropByID G,
     a_GetJetDropsByJetID = GetJetDropsByJetID G, a_GetLifeline = GetLifeline G,
     a_GetRecordsByJetDrop = GetRecordsByJetDrop G, a_GetNextSavedPulse = GetNextSavedPulse G, a_GetJetDrops = GetJetDrops G\<rparr>"

text \<open>The zero pulse with a number: \<open>models.Pulse{PulseNumber: n}\<close>.\<close>

definition numbered :: "int \<Rightarrow> models_Pulse" where
  "numbered n = emptyPulse\<lparr>mp_PulseNumber := n\<rparr>"

definition server_error :: response where
  "server_error = JSON 500 NoBody"

section \<open>Jet drops\<close>

definition JetDropByID :: "'st StorageAPIFetcher \<Rightarrow> string \<Rightarrow> 'st \<Rightarrow> response \<times> 'st" where
  "JetDropByID S jetDropID st = (case NewJetDropIDFromString jetDropID of
     Inl err \<Rightarrow> (bad_request ''400'' [failure ''jet drop id'' (Error (Wrap err ''invalid''))], st)
   | Inr exporterJetDropID \<Rightarrow> (case a_GetJetDropByID S exporterJetDropID st of
       (Inl err, st) \<Rightarrow> ((if err = RecordNotFound then JSON 404 NoBody else server_error), st)
     | (Inr (jetDrop, prevJetDrop, nextJetDrops), st) \<Rightarrow>
         (JSON 200 (JetDropResponse (JetDropToAPI jetDrop
            (map transformPrevNextResp prevJetDrop) (map transformPrevNextResp nextJetDrops))), st)))"

record JetDropRecordsParams =
  jr_Limit :: "int option"
  jr_Offset :: "int option"
  jr_FromIndex :: "string option"
  jr_Type :: "string option"

definition type_failure :: CodeValidationFailures where
  "type_failure = failure ''type'' (''should be '' @ CHR 0x27 # ''request'' @ CHR 0x27 # '', '' @ CHR 0x27 # ''state'' @ CHR 0x27 #
     '' or '' @ CHR 0x27 # ''result'' @ [CHR 0x27])"

definition JetDropRecords :: "api_lib \<Rightarrow> 'st StorageAPIFetcher \<Rightarrow> string \<Rightarrow> JetDropRecordsParams \<Rightarrow> 'st \<Rightarrow> response \<times> 'st" where
  "JetDropRecords A S jetDropID params st =
     (let (limit, offset, failures) = checkLimitOffset (jr_Limit params) (jr_Offset params);
          jetDrop = NewJetDropIDFromString jetDropID;
          failures = (case jetDrop of Inl err \<Rightarrow> failures @ [failure ''jet_drop_id'' ''invalid''] | Inr jid \<Rightarrow> failures);
          failures = check_from_index (jr_FromIndex params) failures;
          failures = (case jr_Type params of None \<Rightarrow> failures
            | Some str \<Rightarrow> if str \<noteq> ''request'' \<and> str \<noteq> ''result'' \<and> str \<noteq> ''state'' then failures @ [type_failure] else failures)
      in if failures \<noteq> [] then (bad_request ''Bad Request'' failures, st)
         else case jetDrop of Inl err \<Rightarrow> (Crash NilDereference, st)
           | Inr jid \<Rightarrow> (case a_GetRecordsByJetDrop S jid (jr_FromIndex params) (jr_Type params) limit offset st of
               (Inl err, st) \<Rightarrow> (server_error, st)
             | (Inr (records, total_count), st) \<Rightarrow> (JSON 200 (RecordsResponse total_count (map (RecordToAPI A) records)), st)))"

text \<open>\<open>getEnrichingJetDrops\<close>: the drops of the pulses just outside a page.\<close>

definition enrich_older :: "'st StorageAPIFetcher \<Rightarrow> int \<Rightarrow> ('st, models_JetDrop list) dbop" where
  "enrich_older S oldestPulse st = (case a_GetPulse S oldestPulse st of
     (Inl err, st) \<Rightarrow> (Inr [], st)
   | (Inr pulse, st) \<Rightarrow> if mp_PrevPulseNumber pulse > 0
       then wrap_db (''can'' @ CHR 0x27 # ''t enrich jetDrops for pulse '' @ Itoa (mp_PrevPulseNumber pulse) @ '', from oldestPulse '' @ Itoa oldestPulse)
              (a_GetJetDrops S (numbered (mp_PrevPulseNumber pulse))) st
       else (Inr [], st))"

definition enrich_newer :: "'st StorageAPIFetcher \<Rightarrow> int \<Rightarrow> ('st, models_JetDrop list) dbop" where
  "enrich_newer S newestPulse st = (case a_GetNextSavedPulse S (numbered newestPulse) False st of
     (Inl err, st) \<Rightarrow> (Inr [], st)
   | (Inr nextPulse, st) \<Rightarrow> if nextPulse \<noteq> emptyPulse
       then wrap_db (''can'' @ CHR 0x27 # ''t enrich jetDrops for pulse '' @ Itoa (mp_PulseNumber nextPulse) @ '', from newestPulse '' @ Itoa newestPulse)
              (a_GetJetDrops S (numbered (mp_PulseNumber nextPulse))) st
       else (Inr [], st))"

definition getEnrichingJetDrops :: "'st StorageAPIFetcher \<Rightarrow> int \<Rightarrow> int \<Rightarrow> ('st, models_JetDrop list) dbop" where
  "getEnrichingJetDrops S oldestPulse newestPulse =
     bind_db (enrich_older S oldestPulse) (\<lambda>older.
     bind_db (enrich_newer S newestPulse) (\<lambda>newer. return_db (older @ newer)))"

text \<open>The loop over the drops of the page: the drops each one follows and those that follow it.\<close>

definition prev_links :: "(string, NextPrevJetDrop) gomap \<Rightarrow> models_JetDrop \<Rightarrow> NextPrevJetDrop list" where
  "prev_links jetDropsByHash j =
     (case map_of jetDropsByHash (EncodeToString (mj_FirstPrevHash j)) of Some prev \<Rightarrow> [prev] | None \<Rightarrow> []) @
     (case map_of jetDropsByHash (EncodeToString (mj_SecondPrevHash j)) of Some prev \<Rightarrow> [prev] | None \<Rightarrow> [])"

definition next_links :: "(string, NextPrevJetDrop list) gomap \<Rightarrow> models_JetDrop \<Rightarrow> NextPrevJetDrop list" where
  "next_links jetDropsByPrevHash j =
     (case map_of jetDropsByPrevHash (EncodeToString (mj_Hash j)) of Some next \<Rightarrow> next | None \<Rightarrow> [])"

definition link_drops :: "models_JetDrop list \<Rightarrow> models_JetDrop list \<Rightarrow> api_JetDrop list" where
  "link_drops enriched jetDrops =
     (let (jetDropsByHash, jetDropsByPrevHash) = createNextPrevMaps (enriched @ jetDrops)
      in map (\<lambda>j. JetDropToAPI j (prev_links jetDropsByHash j) (next_links jetDropsByPrevHash j)) jetDrops)"

record JetDropsByJetIDParams =
  jj_Limit :: "int option"
  jj_SortBy :: "string option"
  jj_PulseNumberGt :: "int option"
  jj_PulseNumberGte :: "int option"
  jj_PulseNumberLt :: "int option"
  jj_PulseNumberLte :: "int option"

text \<open>The storage returns no drops with an error, so the first condition after the call holds for every error.\<close>

definition JetDropsByJetID :: "api_lib \<Rightarrow> 'st StorageAPIFetcher \<Rightarrow> string \<Rightarrow> JetDropsByJetIDParams \<Rightarrow> 'st \<Rightarrow> response \<times> 'st" where
  "JetDropsByJetID A S jetID params st =
     (let (limit, _, failures) = checkLimitOffset (jj_Limit params) None;
          limit = (if jj_Limit params = None then 1000 else limit);
          (jid, validationError) = checkJetID A jetID;
          failures = failures @ validationError;
          (sortByAsc, validationError) = checkSortByPulseParameter A (jj_SortBy params);
          failures = failures @ validationError;
          (pulseNumberGt, failures) = pulse_number_param A (jj_PulseNumberGt params) ''pulse_number_gt'' failures;
          (pulseNumberGte, failures) = pulse_number_param A (jj_PulseNumberGte params) ''pulse_number_gte'' failures;
          (pulseNumberLt, failures) = pulse_number_param A (jj_PulseNumberLt params) ''pulse_number_lt'' failures;
          (pulseNumberLte, failures) = pulse_number_param A (jj_PulseNumberLte params) ''pulse_number_lte'' failures
      in if length failures > 0 then (bad_request ''Bad Request'' failures, st)
         else case a_GetJetDropsByJetID S jid pulseNumberLte pulseNumberLt pulseNumberGte pulseNumberGt limit sortByAsc st of
             (Inl err, st) \<Rightarrow> (JSON 200 (JetDropsResponse 0 []), st)
           | (Inr (jetDrops, n), st) \<Rightarrow>
               if jetDrops = [] then (JSON 200 (JetDropsResponse 0 []), st)
               else (let (firstPN, lastPN) = findEdgePNInJetDrops jetDrops sortByAsc
                     in case getEnrichingJetDrops S firstPN lastPN st of
                          (Inl err, st) \<Rightarrow> (server_error, st)
                        | (Inr enriched, st) \<Rightarrow> (JSON 200 (JetDropsResponse n (link_drops enriched jetDrops)), st)))"

record JetDropsByPulseNumberParams =
  jp_Limit :: "int option"
  jp_Offset :: "int option"
  jp_FromJetDropId :: "string option"

definition JetDropsByPulseNumber :: "api_lib \<Rightarrow> 'st StorageAPIFetcher \<Rightarrow> int \<Rightarrow> JetDropsByPulseNumberParams \<Rightarrow> 'st \<Rightarrow> response \<times> 'st" where
  "JetDropsByPulseNumber A S pulseNumber params st =
     (let (limit, offset, failures) = checkLimitOffset (jp_Limit params) (jp_Offset params);
          failures = (if \<not> IsValidAsPulseNumber A pulseNumber then failures @ [failure ''pulse'' ''invalid''] else failures);
          jid = map_option NewJetDropIDFromString (jp_FromJetDropId params);
          failures = (case jid of Some (Inl err) \<Rightarrow> failures @ [failure ''jet drop id'' ''invalid''] | _ \<Rightarrow> failures);
          exporterJetDropID = (case jid of Some (Inr i) \<Rightarrow> Some i | _ \<Rightarrow> None)
      in if failures \<noteq> [] then (bad_request ''400'' failures, st)
         else case a_GetJetDropsWithParams S (numbered pulseNumber) exporterJetDropID limit offset st of
             (Inl err, st) \<Rightarrow> (server_error, st)
           | (Inr (jetDrops, n), st) \<Rightarrow> (JSON 200 (JetDropsResponse n (map (\<lambda>j. JetDropToAPI j [] []) jetDrops)), st))"

section \<open>Pulses\<close>

record PulsesParams =
  ps_Limit :: "int option"
  ps_Offset :: "int option"
  ps_FromPulseNumber :: "int option"
  ps_TimestampLte :: "int option"
  ps_TimestampGte :: "int option"
  ps_PulseNumberGt :: "int option"
  ps_PulseNumberGte :: "int option"
  ps_PulseNumberLt :: "int option"
  ps_PulseNumberLte :: "int option"
  ps_SortBy :: "string option"

definition Pulses :: "api_lib \<Rightarrow> 'st StorageAPIFetcher \<Rightarrow> PulsesParams \<Rightarrow> 'st \<Rightarrow> response \<times> 'st" where
  "Pulses A S params st =
     (let (limit, offset, failures) = checkLimitOffset (ps_Limit params) (ps_Offset params);
          failures = (case ps_FromPulseNumber params of None \<Rightarrow> failures
            | Some i \<Rightarrow> if \<not> IsValidAsPulseNumber A i then failures @ [failure ''pulse'' ''invalid''] else failures);
          (pulseNumberGt, failures) = pulse_number_param A (ps_PulseNumberGt params) ''pulse_number_gt'' failures;
          (pulseNumberGte, failures) = pulse_number_param A (ps_PulseNumberGte params) ''pulse_number_gte'' failures;
          (pulseNumberLt, failures) = pulse_number_param A (ps_PulseNumberLt params) ''pulse_number_lt'' failures;
          (pulseNumberLte, failures) = pulse_number_param A (ps_PulseNumberLte params) ''pulse_number_lte'' failures;
          (sortByAsc, validationFailures) = checkSortByPulseNumberParameter A (ps_SortBy params);
          failures = failures @ validationFailures
      in if failures \<noteq> [] then (bad_request ''Bad Request'' failures, st)
         else case a_GetPulses S (ps_FromPulseNumber params) (ps_TimestampLte params) (ps_TimestampGte params)
                pulseNumberLte pulseNumberLt pulseNumberGte pulseNumberGt sortByAsc limit offset st of
             (Inl err, st) \<Rightarrow> (server_error, st)
           | (Inr (pulses, total_count), st) \<Rightarrow> (JSON 200 (PulsesResponse total_count (map PulseToAPI pulses)), st))"

definition Pulse :: "'st StorageAPIFetcher \<Rightarrow> int \<Rightarrow> 'st \<Rightarrow> response \<times> 'st" where
  "Pulse S pulseNumber st = (case a_GetPulse S pulseNumber st of
     (Inl err, st) \<Rightarrow> ((if err = RecordNotFound then JSON 404 NoBody else server_error), st)
   | (Inr pulse, st) \<Rightarrow> (JSON 200 (PulseResponse (PulseToAPI pulse)), st))"

section \<open>Search and lifelines\<close>

definition searchResponsePulse :: "api_lib \<Rightarrow> int \<Rightarrow> response" where
  "searchResponsePulse A pulseNumber =
     (if \<not> IsValidAsPulseNumber A pulseNumber then bad_value ''not valid pulse number'' else JSON 200 (SearchPulse pulseNumber))"

definition searchReferencePulse :: "api_lib \<Rightarrow> 'st StorageAPIFetcher \<Rightarrow> bytes \<Rightarrow> 'st \<Rightarrow> response \<times> 'st" where
  "searchReferencePulse A S ref st =
     (if IsObjectReference A ref then (JSON 200 (SearchLifeline (RefString A ref)), st)
      else case a_GetRecord S (GetLocalBytes A ref) st of
        (Inl err, st) \<Rightarrow> ((if err = RecordNotFound then bad_value ''record reference not found'' else server_error), st)
      | (Inr record, st) \<Rightarrow> ((case NewIDFromBytes A (mr_ObjectReference record) of None \<Rightarrow> Crash NilDereference
          | Some i \<Rightarrow> JSON 200 (SearchRecord (record_index record) (RefString A (NewReference A i)))), st))"

definition Search :: "api_lib \<Rightarrow> 'st StorageAPIFetcher \<Rightarrow> string \<Rightarrow> 'st \<Rightarrow> response \<times> 'st" where
  "Search A S val st =
     (case ParseInt val of Some pulseNumber \<Rightarrow> (searchResponsePulse A pulseNumber, st)
      | None \<Rightarrow> (case NewJetDropIDFromString val of Inr _ \<Rightarrow> (JSON 200 (SearchJetDrop val), st)
        | Inl _ \<Rightarrow> (case checkReference A val of Inr ref \<Rightarrow> searchReferencePulse A S ref st
          | Inl _ \<Rightarrow> (bad_value ''is neither pulse number, jet drop id nor reference'', st))))"

record ObjectLifelineParams =
  ol_Limit :: "int option"
  ol_Offset :: "int option"
  ol_SortBy :: "string option"
  ol_FromIndex :: "string option"
  ol_PulseNumberGt :: "int option"
  ol_PulseNumberLt :: "int option"
  ol_TimestampLte :: "int option"
  ol_TimestampGte :: "int option"

definition sort_failure :: "api_lib \<Rightarrow> CodeValidationFailures" where
  "sort_failure A = failure ''sort_by'' (''should be '' @ CHR 0x27 # SortByIndex_index_desc A @ CHR 0x27 # '' or '' @
     CHR 0x27 # SortByIndex_index_asc A @ [CHR 0x27])"

definition ObjectLifeline :: "api_lib \<Rightarrow> 'st StorageAPIFetcher \<Rightarrow> string \<Rightarrow> ObjectLifelineParams \<Rightarrow> 'st \<Rightarrow> response \<times> 'st" where
  "ObjectLifeline A S objectReference params st =
     (let (limit, offset, failures) = checkLimitOffset (ol_Limit params) (ol_Offset params);
          ref = checkReference A objectReference;
          failures = (case ref of Inl err \<Rightarrow> failures @ [failure ''object_reference'' (Error err)] | Inr r \<Rightarrow> failures);
          failures = (case ol_SortBy params of None \<Rightarrow> failures
            | Some s \<Rightarrow> if s \<noteq> SortByIndex_index_desc A \<and> s \<noteq> SortByIndex_index_asc A then failures @ [sort_failure A] else failures);
          sortByIndexAsc = (ol_SortBy params = Some (SortByIndex_index_asc A));
          failures = check_from_index (ol_FromIndex params) failures;
          (pulseNumberGt, failures) = pulse_number_param A (ol_PulseNumberGt params) ''pulse_number_gt'' failures;
          (pulseNumberLt, failures) = pulse_number_param A (ol_PulseNumberLt params) ''pulse_number_lt'' failures
      in if failures \<noteq> [] then (bad_request ''Bad Request'' failures, st)
         else case ref of Inl err \<Rightarrow> (Crash NilDereference, st)
           | Inr r \<Rightarrow> (case a_GetLifeline S (GetLocalBytes A r) (ol_FromIndex params) pulseNumberLt pulseNumberGt
                 (ol_TimestampLte params) (ol_TimestampGte params) limit offset sortByIndexAsc st of
               (Inl err, st) \<Rightarrow> (server_error, st)
             | (Inr (records, total_count), st) \<Rightarrow> (JSON 200 (RecordsResponse total_count (map (RecordToAPI A) records)), st)))"

end
