(* ===== verification/API_Laws.thy ===== *)
theory API_Laws
  imports API
begin

text \<open>What the handlers of the API promise: which requests are refused, that nothing a client asks for changes the database,
  how large an answer gets, how jet drops are linked by their hashes, and that the identifiers the API prints are accepted by
  it.  The laws the handlers rely on are the locale \<open>api_store\<close>; the storage over the database library satisfies them.\<close>

section \<open>Requests\<close>

text \<open>The requests of the interface, one for each handler.\<close>

datatype request =
    ReqJetDropByID string
  | ReqJetDropRecords string JetDropRecordsParams
  | ReqJetDropsByJetID string JetDropsByJetIDParams
  | ReqPulses PulsesParams
  | ReqPulse int
  | ReqJetDropsByPulseNumber int JetDropsByPulseNumberParams
  | ReqSearch string
  | ReqObjectLifeline string ObjectLifelineParams

fun handle :: "api_lib \<Rightarrow> 'st StorageAPIFetcher \<Rightarrow> request \<Rightarrow> 'st \<Rightarrow> response \<times> 'st" where
  "handle A S (ReqJetDropByID i) = JetDropByID S i"
| "handle A S (ReqJetDropRecords i p) = JetDropRecords A S i p"
| "handle A S (ReqJetDropsByJetID i p) = JetDropsByJetID A S i p"
| "handle A S (ReqPulses p) = Pulses A S p"
| "handle A S (ReqPulse n) = Pulse S n"
| "handle A S (ReqJetDropsByPulseNumber n p) = JetDropsByPulseNumber A S n p"
| "handle A S (ReqSearch v) = Search A S v"
| "handle A S (ReqObjectLifeline r p) = ObjectLifeline A S r p"

section \<open>Which parameters are invalid\<close>

text \<open>A reference definition of the checks: the names of the parameters of a request that are not acceptable.\<close>

definition number_ok :: "api_lib \<Rightarrow> int option \<Rightarrow> bool" where
  "number_ok A p \<longleftrightarrow> (case p of None \<Rightarrow> True | Some n \<Rightarrow> IsValidAsPulseNumber A n)"

definition limit_ok :: "int option \<Rightarrow> bool" where
  "limit_ok l \<longleftrightarrow> (case l of None \<Rightarrow> True | Some n \<Rightarrow> 1 \<le> n \<and> n \<le> 1000)"

definition offset_ok :: "int option \<Rightarrow> bool" where
  "offset_ok off \<longleftrightarrow> (case off of None \<Rightarrow> True | Some n \<Rightarrow> 0 \<le> n)"

definition index_ok :: "string option \<Rightarrow> bool" where
  "index_ok ix \<longleftrightarrow> (case ix of None \<Rightarrow> True | Some s \<Rightarrow> \<exists>p. CheckIndex s = Inr p)"

definition jet_id_ok :: "string \<Rightarrow> bool" where
  "jet_id_ok s \<longleftrightarrow> (\<exists>u. QueryUnescape (TrimSpace s) = Some u \<and> jetIDRegexp u)"

definition jet_drop_id_ok :: "string \<Rightarrow> bool" where
  "jet_drop_id_ok s \<longleftrightarrow> (\<exists>jid. NewJetDropIDFromString s = Inr jid)"

definition one_of :: "string option \<Rightarrow> string list \<Rightarrow> bool" where
  "one_of v vals \<longleftrightarrow> (case v of None \<Rightarrow> True | Some s \<Rightarrow> s \<in> set vals)"

fun bad_names :: "(string \<times> bool) list \<Rightarrow> string set" where
  "bad_names [] = {}"
| "bad_names ((name, ok) # cs) = (if ok then bad_names cs else insert name (bad_names cs))"

fun invalid :: "api_lib \<Rightarrow> request \<Rightarrow> string set" where
  "invalid A (ReqJetDropByID i) = bad_names [(''jet drop id'', jet_drop_id_ok i)]"
| "invalid A (ReqJetDropRecords i p) = bad_names
     [(''limit'', limit_ok (jr_Limit p)), (''offset'', offset_ok (jr_Offset p)), (''jet_drop_id'', jet_drop_id_ok i),
      (''from_index'', index_ok (jr_FromIndex p)), (''type'', one_of (jr_Type p) [''request'', ''state'', ''result''])]"
| "invalid A (ReqJetDropsByJetID i p) = bad_names
     [(''limit'', limit_ok (jj_Limit p)), (''jet-id path parameter'', jet_id_ok i),
      (''sort_by'', one_of (jj_SortBy p) [SortByPulse_pulse_number_asc_jet_id_desc A, SortByPulse_pulse_number_desc_jet_id_asc A]),
      (''pulse_number_gt'', number_ok A (jj_PulseNumberGt p)), (''pulse_number_gte'', number_ok A (jj_PulseNumberGte p)),
      (''pulse_number_lt'', number_ok A (jj_PulseNumberLt p)), (''pulse_number_lte'', number_ok A (jj_PulseNumberLte p))]"
| "invalid A (ReqPulses p) = bad_names
     [(''limit'', limit_ok (ps_Limit p)), (''offset'', offset_ok (ps_Offset p)), (''pulse'', number_ok A (ps_FromPulseNumber p)),
      (''pulse_number_gt'', number_ok A (ps_PulseNumberGt p)), (''pulse_number_gte'', number_ok A (ps_PulseNumberGte p)),
      (''pulse_number_lt'', number_ok A (ps_PulseNumberLt p)), (''pulse_number_lte'', number_ok A (ps_PulseNumberLte p)),
      (''sort_by'', one_of (ps_SortBy p) [SortByPulseNumber_pulse_number_asc A, SortByPulseNumber_pulse_number_desc A])]"
| "invalid A (ReqPulse n) = {}"
| "invalid A (ReqJetDropsByPulseNumber n p) = bad_names
     [(''limit'', limit_ok (jp_Limit p)), (''offset'', offset_ok (jp_Offset p)), (''pulse'', IsValidAsPulseNumber A n),
      (''jet drop id'', case jp_FromJetDropId p of None \<Rightarrow> True | Some i \<Rightarrow> jet_drop_id_ok i)]"
| "invalid A (ReqSearch v) = {}"
| "invalid A (ReqObjectLifeline r p) = bad_names
     [(''limit'', limit_ok (ol_Limit p)), (''offset'', offset_ok (ol_Offset p)), (''object_reference'', \<exists>b. checkReference A r = Inr b),
      (''sort_by'', one_of (ol_SortBy p) [SortByIndex_index_asc A, SortByIndex_index_desc A]),
      (''from_index'', index_ok (ol_FromIndex p)), (''pulse_number_gt'', number_ok A (ol_PulseNumberGt p)),
      (''pulse_number_lt'', number_ok A (ol_PulseNumberLt p))]"

text \<open>The checks in closed form: each appends one failure, or none, to the list.\<close>

definition fails :: "string \<Rightarrow> string \<Rightarrow> bool \<Rightarrow> CodeValidationFailures list" where
  "fails name reason ok = (if ok then [] else [failure name reason])"

lemma fails_simps [simp]: "fails n r True = []" "fails n r ok = [] \<longleftrightarrow> ok"
  "cv_Property ` set (fails n r ok) = (if ok then {} else {n})"
  by (simp_all add: fails_def failure_def)

lemma pulse_number_param_eq: "pulse_number_param A p nm fs = (p, fs @ fails nm ''invalid value'' (number_ok A p))"
  by (simp add: pulse_number_param_def getPulseNumberValue_def number_ok_def fails_def split: option.splits)

lemma checkLimitOffset_eq: "checkLimitOffset l off = (case l of None \<Rightarrow> 20 | Some n \<Rightarrow> n, case off of None \<Rightarrow> 0 | Some n \<Rightarrow> n,
    fails ''limit'' ''should be in range [1, 1000]'' (limit_ok l) @ fails ''offset'' ''should not be negative'' (offset_ok off))"
  by (auto simp: checkLimitOffset_def Let_def limit_ok_def offset_ok_def fails_def split: option.splits)

lemma check_from_index_eq: "check_from_index ix fs = fs @ fails ''from_index'' ''invalid'' (index_ok ix)"
  by (auto simp: check_from_index_def index_ok_def fails_def split: option.splits sum.splits)

lemma sort_checks_failures:
  "snd (checkSortByPulseParameter A s) = [] \<longleftrightarrow>
     one_of s [SortByPulse_pulse_number_asc_jet_id_desc A, SortByPulse_pulse_number_desc_jet_id_asc A]"
  "cv_Property ` set (snd (checkSortByPulseParameter A s)) =
     (if one_of s [SortByPulse_pulse_number_asc_jet_id_desc A, SortByPulse_pulse_number_desc_jet_id_asc A] then {} else {''sort_by''})"
  "snd (checkSortByPulseNumberParameter A s) = [] \<longleftrightarrow>
     one_of s [SortByPulseNumber_pulse_number_asc A, SortByPulseNumber_pulse_number_desc A]"
  "cv_Property ` set (snd (checkSortByPulseNumberParameter A s)) =
     (if one_of s [SortByPulseNumber_pulse_number_asc A, SortByPulseNumber_pulse_number_desc A] then {} else {''sort_by''})"
  by (auto simp: checkSortByPulseParameter_def checkSortByPulseNumberParameter_def one_of_def failure_def Let_def split: option.splits)

lemma checkJetID_failures:
  "snd (checkJetID A s) = [] \<longleftrightarrow> jet_id_ok s"
  "cv_Property ` set (snd (checkJetID A s)) = (if jet_id_ok s then {} else {''jet-id path parameter''})"
  by (auto simp: checkJetID_def jet_id_ok_def failure_def jetIDRegexp_def Let_def split: option.splits)

lemmas check_eqs = pulse_number_param_eq checkLimitOffset_eq check_from_index_eq sort_checks_failures checkJetID_failures

lemma bad_request_eq [simp]: "bad_request c fs = bad_request c' fs' \<longleftrightarrow> c = c' \<and> fs = fs'"
  by (simp add: bad_request_def)

lemma bad_request_other [simp]: "bad_request c fs \<noteq> JSON 200 b" "bad_request c fs \<noteq> JSON 404 b" "bad_request c fs \<noteq> server_error"
  "bad_request c fs \<noteq> Crash x" "bad_request c fs \<noteq> bad_value v"
  "JSON 200 b \<noteq> bad_request c fs" "JSON 404 b \<noteq> bad_request c fs" "server_error \<noteq> bad_request c fs"
  "Crash x \<noteq> bad_request c fs" "bad_value v \<noteq> bad_request c fs"
  by (simp_all add: bad_request_def server_error_def bad_value_def)

definition refuses :: "response \<times> 'st \<Rightarrow> 'st \<Rightarrow> string set \<Rightarrow> bool" where
  "refuses res st names \<longleftrightarrow> (if names \<noteq> {} then \<exists>code fs. res = (bad_request code fs, st) \<and> cv_Property ` set fs = names
     else \<forall>code fs. fst res \<noteq> bad_request code fs)"

lemma refusesI:
  assumes "res = (if fs \<noteq> [] then (bad_request code fs, st) else rest)" and "\<And>code fs. fst rest \<noteq> bad_request code fs"
    and "cv_Property ` set fs = names"
  shows "refuses res st names"
  using assms by (auto simp: refuses_def)

lemma check_forms:
  "(case x of Inl e \<Rightarrow> fs @ [failure n r] | Inr y \<Rightarrow> fs) = fs @ fails n r (\<exists>y. x = Inr y)"
  "(case q of None \<Rightarrow> fs | Some i \<Rightarrow> fs @ fails n r (IsValidAsPulseNumber A i)) = fs @ fails n r (number_ok A q)"
  "(if \<not> ok then fs @ [failure n r] else fs) = fs @ fails n r ok"
  by (auto simp: fails_def number_ok_def split: sum.splits option.splits)

lemma type_check_form:
  "(case t of None \<Rightarrow> fs | Some s \<Rightarrow> if s \<noteq> ''request'' \<and> s \<noteq> ''result'' \<and> s \<noteq> ''state'' then fs @ [type_failure] else fs) =
     fs @ (if one_of t [''request'', ''state'', ''result''] then [] else [type_failure])"
  by (auto simp: one_of_def split: option.splits)

lemma sort_check_form:
  "(case t of None \<Rightarrow> fs | Some s \<Rightarrow> if s \<noteq> SortByIndex_index_desc A \<and> s \<noteq> SortByIndex_index_asc A then fs @ [sort_failure A] else fs) =
     fs @ (if one_of t [SortByIndex_index_asc A, SortByIndex_index_desc A] then [] else [sort_failure A])"
  by (auto simp: one_of_def split: option.splits)

lemma reference_check_form:
  "(case x of Inl e \<Rightarrow> fs @ [failure n (Error e)] | Inr y \<Rightarrow> fs) = fs @ (case x of Inl e \<Rightarrow> [failure n (Error e)] | Inr y \<Rightarrow> [])"
  by (simp split: sum.splits)

lemma drop_id_check_form:
  "(case map_option NewJetDropIDFromString i of Some (Inl err) \<Rightarrow> fs @ [failure n r] | _ \<Rightarrow> fs) =
     fs @ fails n r (case i of None \<Rightarrow> True | Some s \<Rightarrow> jet_drop_id_ok s)"
  by (auto simp: fails_def jet_drop_id_ok_def split: option.splits sum.splits)

lemmas handler_eqs = Let_def case_prod_beta check_eqs check_forms type_check_form sort_check_form drop_id_check_form
  fst_conv snd_conv length_greater_0_conv

lemma offset_absent: "offset_ok None = True"
  by (simp add: offset_ok_def)

lemma bad_names_Cons: "bad_names ((n, ok) # cs) = (if ok then {} else {n}) \<union> bad_names cs"
  by simp

lemma failure_property [simp]: "cv_Property (failure n r) = n"
  by (simp add: failure_def)

lemma failure_names:
  "cv_Property ` set (if ok then [] else [type_failure]) = (if ok then {} else {''type''})"
  "cv_Property ` set (if ok then [] else [sort_failure A]) = (if ok then {} else {''sort_by''})"
  "cv_Property ` set (case x of Inl e \<Rightarrow> [failure n (Error e)] | Inr y \<Rightarrow> []) = (if \<exists>y. x = Inr y then {} else {n})"
  by (simp_all add: type_failure_def sort_failure_def failure_property) (cases x; simp add: failure_property)

lemmas name_eqs = set_append image_Un fails_simps(3) sort_checks_failures(2,4) checkJetID_failures(2) failure_names bad_names_Cons bad_names.simps(1)
  Un_assoc Un_empty_right Un_empty_left offset_absent if_True invalid.simps jet_drop_id_ok_def

lemma JetDropByID_refuses: "refuses (JetDropByID S i st) st (invalid A (ReqJetDropByID i))"
  by (auto simp: refuses_def JetDropByID_def jet_drop_id_ok_def failure_def split: prod.splits sum.splits)

lemma Pulses_refuses: "refuses (Pulses A S p st) st (invalid A (ReqPulses p))"
  unfolding Pulses_def handler_eqs
proof (rule refusesI [OF refl], goal_cases)
  case 1
  then show ?case by (simp split: sum.split)
next
  case 2
  show ?case by (simp only: name_eqs)
qed

lemma JetDropRecords_refuses: "refuses (JetDropRecords A S i p st) st (invalid A (ReqJetDropRecords i p))"
  unfolding JetDropRecords_def handler_eqs
proof (rule refusesI [OF refl], goal_cases)
  case 1
  then show ?case by (simp split: sum.split)
next
  case 2
  show ?case by (simp only: name_eqs)
qed

lemma JetDropsByJetID_refuses: "refuses (JetDropsByJetID A S i p st) st (invalid A (ReqJetDropsByJetID i p))"
  unfolding JetDropsByJetID_def handler_eqs
proof (rule refusesI [OF refl], goal_cases)
  case 1
  then show ?case by (simp split: sum.split)
next
  case 2
  show ?case by (simp only: name_eqs)
qed

lemma JetDropsByPulseNumber_refuses: "refuses (JetDropsByPulseNumber A S n p st) st (invalid A (ReqJetDropsByPulseNumber n p))"
  unfolding JetDropsByPulseNumber_def handler_eqs
proof (rule refusesI [OF refl], goal_cases)
  case 1
  then show ?case by (simp split: sum.split)
next
  case 2
  show ?case by (simp only: name_eqs)
qed

lemma ObjectLifeline_refuses: "refuses (ObjectLifeline A S i p st) st (invalid A (ReqObjectLifeline i p))"
  unfolding ObjectLifeline_def handler_eqs reference_check_form
proof (rule refusesI [OF refl], goal_cases)
  case 1
  then show ?case by (simp split: sum.split)
next
  case 2
  show ?case by (simp only: name_eqs)
qed

lemma handle_refuses: "refuses (handle A S rq st) st (invalid A rq)"
proof (cases rq)
  case (ReqSearch v)
  then show ?thesis
    by (simp add: refuses_def Search_def searchResponsePulse_def searchReferencePulse_def split: option.split sum.split prod.split)
next
  case (ReqPulse n)
  then show ?thesis by (simp add: refuses_def Pulse_def split: sum.split prod.split)
qed (simp_all only: handle.simps JetDropByID_refuses JetDropRecords_refuses JetDropsByJetID_refuses Pulses_refuses
       JetDropsByPulseNumber_refuses ObjectLifeline_refuses)

text \<open>The number of entries of a list answer, and how many a request asks for.\<close>

fun entries :: "body \<Rightarrow> nat" where
  "entries (JetDropsResponse n js) = length js"
| "entries (RecordsResponse n rs) = length rs"
| "entries (PulsesResponse n ps) = length ps"
| "entries _ = 0"

definition param :: "int \<Rightarrow> int option \<Rightarrow> int" where
  "param d p = (case p of None \<Rightarrow> d | Some n \<Rightarrow> n)"

fun page_limit :: "request \<Rightarrow> int" where
  "page_limit (ReqJetDropRecords i p) = param 20 (jr_Limit p)"
| "page_limit (ReqJetDropsByJetID i p) = param 1000 (jj_Limit p)"
| "page_limit (ReqPulses p) = param 20 (ps_Limit p)"
| "page_limit (ReqJetDropsByPulseNumber n p) = param 20 (jp_Limit p)"
| "page_limit (ReqObjectLifeline r p) = param 20 (ol_Limit p)"
| "page_limit _ = 0"

lemma param_limit: "limit_ok l \<Longrightarrow> d \<in> {1..1000} \<Longrightarrow> 1 \<le> param d l \<and> param d l \<le> 1000"
  by (simp add: limit_ok_def param_def split: option.splits)

lemma default_limit: "(if l = None then 1000 else param 20 l) = param 1000 l"
  by (auto simp: param_def)

lemma param_offset: "offset_ok off \<Longrightarrow> 0 \<le> param 0 off"
  by (simp add: offset_ok_def param_def split: option.splits)

lemmas page_eqs = handler_eqs param_def [symmetric] append_is_Nil_conv fails_simps(2)

section \<open>The contract of the storage\<close>

text \<open>What the handlers rely on: reading changes nothing, and a page has no more rows than it was asked for.\<close>

locale api_store =
  fixes S :: "'st StorageAPIFetcher" and T :: "'st \<Rightarrow> 'v"
  assumes reads_record: "a_GetRecord S b st = (r1, st') \<Longrightarrow> T st' = T st"
    and reads_pulse: "a_GetPulse S n st = (r2, st') \<Longrightarrow> T st' = T st"
    and reads_pulses: "a_GetPulses S fp tlte tgte lte lt gte gt up l off st = (r3, st') \<Longrightarrow> T st' = T st"
    and reads_jet_drops_of: "a_GetJetDropsWithParams S p fj l off st = (r4, st') \<Longrightarrow> T st' = T st"
    and reads_jet_drop: "a_GetJetDropByID S jid st = (r5, st') \<Longrightarrow> T st' = T st"
    and reads_by_jet: "a_GetJetDropsByJetID S j lte lt gte gt l up st = (r6, st') \<Longrightarrow> T st' = T st"
    and reads_lifeline: "a_GetLifeline S ref ix lt gt tlte tgte l off up st = (r7, st') \<Longrightarrow> T st' = T st"
    and reads_records: "a_GetRecordsByJetDrop S jid ix ty l off st = (r8, st') \<Longrightarrow> T st' = T st"
    and reads_next: "a_GetNextSavedPulse S p c st = (r9, st') \<Longrightarrow> T st' = T st"
    and reads_jet_drops: "a_GetJetDrops S p st = (r10, st') \<Longrightarrow> T st' = T st"
    and page_pulses: "0 \<le> l \<Longrightarrow> 0 \<le> off \<Longrightarrow> fst (a_GetPulses S fp tlte tgte lte lt gte gt up l off st) = Inr (ps, n) \<Longrightarrow> int (length ps) \<le> l"
    and page_jet_drops_of: "0 \<le> l \<Longrightarrow> 0 \<le> off \<Longrightarrow> fst (a_GetJetDropsWithParams S p fj l off st) = Inr (js, n) \<Longrightarrow> int (length js) \<le> l"
    and page_by_jet: "0 \<le> l \<Longrightarrow> fst (a_GetJetDropsByJetID S j lte lt gte gt l up st) = Inr (js, n) \<Longrightarrow> int (length js) \<le> l"
    and page_lifeline: "0 \<le> l \<Longrightarrow> 0 \<le> off \<Longrightarrow> fst (a_GetLifeline S ref ix lt gt tlte tgte l off up st) = Inr (rs, n) \<Longrightarrow> int (length rs) \<le> l"
    and page_records: "0 \<le> l \<Longrightarrow> 0 \<le> off \<Longrightarrow> fst (a_GetRecordsByJetDrop S jid ix ty l off st) = Inr (rs, n) \<Longrightarrow> int (length rs) \<le> l"
begin

lemma enrich_reads: "getEnrichingJetDrops S a b st = (r, st') \<Longrightarrow> T st' = T st"
  unfolding getEnrichingJetDrops_def enrich_older_def enrich_newer_def bind_db_def wrap_db_def return_db_def
  by (auto split: prod.splits sum.splits if_splits dest!: reads_pulse reads_next reads_jet_drops)

lemma JetDropByID_reads: "JetDropByID S i st = (r, st') \<Longrightarrow> T st' = T st"
  by (auto simp: JetDropByID_def split: prod.splits sum.splits dest: reads_jet_drop)

lemma JetDropRecords_reads: "JetDropRecords A S i p st = (r, st') \<Longrightarrow> T st' = T st"
  by (auto simp: JetDropRecords_def Let_def split: prod.splits sum.splits if_splits dest: reads_records)

lemma JetDropsByJetID_reads: "JetDropsByJetID A S i p st = (r, st') \<Longrightarrow> T st' = T st"
  by (auto simp: JetDropsByJetID_def Let_def split: prod.splits sum.splits if_splits dest!: reads_by_jet enrich_reads)

lemma Pulses_reads: "Pulses A S p st = (r, st') \<Longrightarrow> T st' = T st"
  by (auto simp: Pulses_def Let_def split: prod.splits sum.splits if_splits dest: reads_pulses)

lemma Pulse_reads: "Pulse S n st = (r, st') \<Longrightarrow> T st' = T st"
  by (auto simp: Pulse_def split: prod.splits sum.splits dest: reads_pulse)

lemma JetDropsByPulseNumber_reads: "JetDropsByPulseNumber A S n p st = (r, st') \<Longrightarrow> T st' = T st"
  by (auto simp: JetDropsByPulseNumber_def Let_def split: prod.splits sum.splits if_splits dest: reads_jet_drops_of)

lemma Search_reads: "Search A S v st = (r, st') \<Longrightarrow> T st' = T st"
  by (auto simp: Search_def searchReferencePulse_def split: prod.splits sum.splits if_splits option.splits dest: reads_record)

lemma ObjectLifeline_reads: "ObjectLifeline A S i p st = (r, st') \<Longrightarrow> T st' = T st"
  by (auto simp: ObjectLifeline_def Let_def split: prod.splits sum.splits if_splits dest: reads_lifeline)

lemma Pulses_page: "Pulses A S p st = (JSON 200 b, st') \<Longrightarrow> int (entries b) \<le> param 20 (ps_Limit p) \<and> param 20 (ps_Limit p) \<le> 1000"
  unfolding Pulses_def page_eqs
  by (auto simp: server_error_def link_drops_def case_prod_beta dest!: param_limit [of _ 20] param_offset split: prod.splits sum.splits if_splits
      dest: page_pulses [rotated 2])

lemma JetDropRecords_page: "JetDropRecords A S i p st = (JSON 200 b, st') \<Longrightarrow> int (entries b) \<le> param 20 (jr_Limit p) \<and> param 20 (jr_Limit p) \<le> 1000"
  unfolding JetDropRecords_def page_eqs
  by (auto simp: server_error_def link_drops_def case_prod_beta dest!: param_limit [of _ 20] param_offset split: prod.splits sum.splits if_splits
      dest: page_records [rotated 2])

lemma JetDropsByPulseNumber_page: "JetDropsByPulseNumber A S n p st = (JSON 200 b, st') \<Longrightarrow> int (entries b) \<le> param 20 (jp_Limit p) \<and> param 20 (jp_Limit p) \<le> 1000"
  unfolding JetDropsByPulseNumber_def page_eqs
  by (auto simp: server_error_def link_drops_def case_prod_beta dest!: param_limit [of _ 20] param_offset split: prod.splits sum.splits if_splits
      dest: page_jet_drops_of [rotated 2])

lemma ObjectLifeline_page: "ObjectLifeline A S i p st = (JSON 200 b, st') \<Longrightarrow> int (entries b) \<le> param 20 (ol_Limit p) \<and> param 20 (ol_Limit p) \<le> 1000"
  unfolding ObjectLifeline_def page_eqs
  by (auto simp: server_error_def link_drops_def case_prod_beta dest!: param_limit [of _ 20] param_offset split: prod.splits sum.splits if_splits
      dest: page_lifeline [rotated 2])

lemma JetDropsByJetID_page: "JetDropsByJetID A S i p st = (JSON 200 b, st') \<Longrightarrow> int (entries b) \<le> param 1000 (jj_Limit p) \<and> param 1000 (jj_Limit p) \<le> 1000"
  unfolding JetDropsByJetID_def page_eqs default_limit
  by (auto simp: server_error_def link_drops_def case_prod_beta dest!: param_limit [of _ 1000] param_offset split: prod.splits sum.splits if_splits
      dest: page_by_jet [rotated])

lemma handle_page:
  assumes "handle A S rq st = (JSON 200 b, st')"
  shows "int (entries b) \<le> page_limit rq \<and> page_limit rq \<le> 1000"
proof (cases rq)
  case (ReqSearch v)
  with assms show ?thesis
    by (auto simp: Search_def searchResponsePulse_def searchReferencePulse_def bad_value_def server_error_def
        split: option.splits sum.splits prod.splits if_splits)
next
  case (ReqPulse n)
  with assms show ?thesis by (auto simp: Pulse_def server_error_def split: sum.splits prod.splits if_splits)
next
  case (ReqJetDropByID i)
  with assms show ?thesis by (auto simp: JetDropByID_def server_error_def bad_request_def split: sum.splits prod.splits if_splits)
qed (use assms Pulses_page JetDropRecords_page JetDropsByPulseNumber_page ObjectLifeline_page JetDropsByJetID_page in auto)

lemma handle_reads: "handle A S rq st = (r, st') \<Longrightarrow> T st' = T st"
  by (cases rq) (auto dest: JetDropByID_reads JetDropRecords_reads JetDropsByJetID_reads Pulses_reads Pulse_reads
     JetDropsByPulseNumber_reads Search_reads ObjectLifeline_reads)

end

text \<open>A handler answers with one of four statuses; it crashes only if a record found by \<open>Search\<close> has an object reference that is
  no identifier.\<close>

definition answered :: "response \<Rightarrow> bool" where
  "answered r \<longleftrightarrow> (\<exists>b. r = JSON 200 b \<or> r = JSON 400 b \<or> r = JSON 404 b \<or> r = JSON 500 b)"

lemma answered_simps [simp]: "answered (JSON c b) \<longleftrightarrow> c \<in> {200, 400, 404, 500}" "answered (bad_request code fs)" "answered server_error"
  "answered (bad_value v)" "\<not> answered (Crash x)"
  by (auto simp: answered_def bad_request_def server_error_def bad_value_def)

lemma JetDropRecords_answered: "answered (fst (JetDropRecords A S i p st))"
  unfolding JetDropRecords_def handler_eqs
  by (auto simp: fails_def split: sum.splits prod.splits if_splits)

lemma ObjectLifeline_answered: "answered (fst (ObjectLifeline A S i p st))"
  unfolding ObjectLifeline_def handler_eqs reference_check_form
  by (auto split: sum.splits prod.splits if_splits)

lemma handle_answered:
  assumes "\<And>b. NewIDFromBytes A b \<noteq> None"
  shows "answered (fst (handle A S rq st))"
proof (cases rq)
  case (ReqSearch v)
  then show ?thesis
    by (auto simp: Search_def searchResponsePulse_def searchReferencePulse_def assms split: option.split sum.split prod.split)
next
  case (ReqPulse n)
  then show ?thesis by (auto simp: Pulse_def split: sum.splits prod.splits if_splits)
next
  case (ReqJetDropByID i)
  then show ?thesis by (auto simp: JetDropByID_def split: sum.splits prod.splits if_splits)
next
  case (ReqJetDropsByJetID i p)
  then show ?thesis unfolding ReqJetDropsByJetID handle.simps JetDropsByJetID_def handler_eqs
    by (auto split: sum.splits prod.splits if_splits)
next
  case (ReqPulses p)
  show ?thesis unfolding ReqPulses handle.simps Pulses_def handler_eqs by (auto split: sum.splits prod.splits if_splits)
next
  case (ReqJetDropsByPulseNumber n p)
  show ?thesis unfolding ReqJetDropsByPulseNumber handle.simps JetDropsByPulseNumber_def handler_eqs
    by (auto split: sum.splits prod.splits if_splits)
qed (simp_all add: JetDropRecords_answered ObjectLifeline_answered)

section \<open>The storage satisfies the contract\<close>

definition reads :: "('st \<Rightarrow> 'v) \<Rightarrow> ('st, 'a) dbop \<Rightarrow> bool" where
  "reads T op \<longleftrightarrow> (\<forall>st. T (snd (op st)) = T st)"

named_theorems reads_intros

lemma readsD: "reads T op \<Longrightarrow> op st = (r, st') \<Longrightarrow> T st' = T st"
  unfolding reads_def by (metis snd_conv)

lemma answers_reads [reads_intros]: "answers T op ok none \<Longrightarrow> reads T op"
  by (simp add: answers_def reads_def)

lemma reads_bind [reads_intros]: "reads T m \<Longrightarrow> (\<And>a. reads T (f a)) \<Longrightarrow> reads T (bind_db m f)"
  unfolding reads_def bind_db_def by (simp split: prod.split sum.split) (metis snd_conv)

lemma reads_wrap [reads_intros]: "reads T m \<Longrightarrow> reads T (wrap_db msg m)"
  unfolding reads_def wrap_db_def by (simp split: prod.split sum.split) (metis snd_conv)

lemma reads_return [reads_intros]: "reads T (return_db a)" "reads T (fail_db e)"
  by (simp_all add: reads_def return_db_def fail_db_def)

lemma reads_if [reads_intros]: "reads T a \<Longrightarrow> reads T b \<Longrightarrow> reads T (if c then a else b)"
  by simp

lemma reads_state:
  assumes "\<And>st. T (snd (f st)) = T st" and "\<And>a. reads T (g a)"
  shows "reads T (\<lambda>st. case f st of (a, st) \<Rightarrow> g a st)"
  using assms unfolding reads_def by (simp add: case_prod_beta)

lemma page_length: "0 \<le> l \<Longrightarrow> int (length (page l off rows)) \<le> l"
  by (simp add: page_def Let_def)

lemma rows_are_length: "rows_are P le l off tab rows n \<Longrightarrow> 0 \<le> l \<Longrightarrow> int (length rows) \<le> l"
  unfolding rows_are_def using page_length by metis

context gorm_db
begin

lemma update_reads:
  "T (snd (updateNextPulse G p db)) = T db" "T (snd (updatePrevPulse G p db)) = T db"
  "T (snd (update_at (updateNextPulse G) i ps db)) = T db" "T (snd (update_at (updatePrevPulse G) i ps db)) = T db"
  using updateNextPulse_spec updatePrevPulse_spec
  by (auto simp: update_at_def split: prod.split) (metis snd_conv surj_pair)+

lemma reads_answer [reads_intros]: "reads T (\<lambda>st. (r, st))"
  by (simp add: reads_def)

lemma calls_read:
  "reads T (FirstRecord G rq)" "reads T (FirstPulse G pq)" "reads T (FindJetDrop G jq)"
  "reads T (CountPulses G pq)" "reads T (CountRecords G rq)" "reads T (CountJetDrops G jq)"
  "order_ok (q_le pq) \<Longrightarrow> reads T (FindPulses G pq)" "order_ok (q_le rq) \<Longrightarrow> reads T (FindRecords G rq)"
  "order_ok (q_le jq) \<Longrightarrow> reads T (FindJetDrops G jq)"
  using first_record first_pulse find_jet_drop count_pulses count_records count_jet_drops find_pulses find_records find_jet_drops
  by (blast intro: answers_reads)+

lemma GetRecord_reads: "reads T (GetRecord G b)"
  unfolding GetRecord_def by (rule calls_read)

lemma GetPulse_reads: "reads T (GetPulse G n)"
  unfolding GetPulse_def by (intro reads_bind reads_state reads_answer calls_read update_reads)

lemma GetJetDrops_reads: "reads T (GetJetDrops G p)"
  unfolding GetJetDrops_def by (rule calls_read) simp

lemma GetNextSavedPulse_reads: "reads T (GetNextSavedPulse G p c)"
  unfolding GetNextSavedPulse_def Let_def by (intro reads_intros calls_read) (simp add: order_ok_Order)

lemma GetJetDropByID_reads: "reads T (GetJetDropByID G jid)"
  unfolding GetJetDropByID_def Let_def
  by (intro reads_bind reads_state reads_if reads_return calls_read update_reads) simp_all

lemma storage_getRecords_reads: "order_ok (q_le q) \<Longrightarrow> reads T (storage_getRecords G q l off)"
  unfolding storage_getRecords_def by (intro reads_intros calls_read) simp_all

lemma records_queries_read:
  assumes "order_ok (q_le q)"
  shows "reads T (case (case ix of None \<Rightarrow> Inr q | Some i \<Rightarrow> filterRecordsByIndex q i up) of Inl err \<Rightarrow> fail_db err
     | Inr q' \<Rightarrow> wrap_db msg (storage_getRecords G (sortRecordsByDirection q' up) l off))"
proof (cases "case ix of None \<Rightarrow> Inr q | Some i \<Rightarrow> filterRecordsByIndex q i up")
  case (Inr q')
  then have "q_le q' = q_le q" using filterRecordsByIndex_spec by blast
  then have "order_ok (q_le (sortRecordsByDirection q' up))" using assms
    by (simp add: sortRecordsByDirection_def order_ok_Order)
  then show ?thesis unfolding Inr sum.case by (intro reads_wrap storage_getRecords_reads)
qed (simp add: reads_return)

lemma GetLifeline_reads: "reads T (GetLifeline G ref ix lt gt tlte tgte l off up)"
  unfolding GetLifeline_def Let_def by (rule records_queries_read) (simp add: filterByTimestamp_def filterByPulse_def)

lemma GetRecordsByJetDrop_reads: "reads T (GetRecordsByJetDrop G jid ix ty l off)"
  unfolding GetRecordsByJetDrop_def Let_def by (rule records_queries_read) simp

lemma jet_drop_queries_read:
  "order_ok (q_le q) \<Longrightarrow> order_ok (q_le q') \<Longrightarrow>
    reads T (bind_db (FindJetDrops G q) (\<lambda>js. bind_db (CountJetDrops G q') (\<lambda>n. return_db (js, n))))"
  by (intro reads_intros calls_read)

lemma GetJetDropsWithParams_reads: "reads T (GetJetDropsWithParams G p fj l off)"
  unfolding GetJetDropsWithParams_def Let_def by (rule jet_drop_queries_read) (simp_all add: order_ok_Order)

lemma GetJetDropsByJetID_reads: "reads T (GetJetDropsByJetID G j lte lt gte gt l up)"
  unfolding GetJetDropsByJetID_def Let_def
  by (rule jet_drop_queries_read) (simp_all add: order_ok_Order filterByPulseNumber_def)

lemma GetPulses_reads: "reads T (GetPulses G fp tlte tgte lte lt gte gt up l off)"
  unfolding GetPulses_def Let_def getPulses_def case_prod_beta'
  by (intro reads_bind reads_wrap reads_if reads_return reads_answer calls_read)
     (simp_all add: order_ok_Order filterByPulseNumber_def filterByTimestamp_def, simp add: reads_def update_reads)

lemma GetJetDropsByJetID_page:
  assumes "GetJetDropsByJetID G j lte lt gte gt l up st = (Inr (js, n), st')" and "0 \<le> l"
  shows "int (length js) \<le> l"
proof -
  define q :: "models_JetDrop query" where "q = (let q = filterByPulseNumber mj_PulseNumber
      (Where (\<lambda>x. mj_JetID x \<in> set (GetJetIDParents j) \<or> sql_like (j @ ''%'') (mj_JetID x)) Model) lte lt gte gt
    in if up then Order (desc mj_JetID) (Order (asc mj_PulseNumber) q) else Order (asc mj_JetID) (Order (desc mj_PulseNumber) q))"
  have o: "order_ok (q_le (Limit l q))" by (simp add: q_def Let_def order_ok_Order filterByPulseNumber_def)
  from assms(1) obtain db where "FindJetDrops G (Limit l q) st = (Inr js, db)"
    by (auto simp: GetJetDropsByJetID_def q_def Let_def dbop_iffs)
  from answers_ok [OF find_jet_drops [OF o] this] show ?thesis using assms(2) page_length by (auto simp: selects_def)
qed

end

lemma APIStorage_simps:
  "a_GetRecord (APIStorage G) = GetRecord G" "a_GetPulse (APIStorage G) = GetPulse G" "a_GetPulses (APIStorage G) = GetPulses G"
  "a_GetJetDropsWithParams (APIStorage G) = GetJetDropsWithParams G" "a_GetJetDropByID (APIStorage G) = GetJetDropByID G"
  "a_GetJetDropsByJetID (APIStorage G) = GetJetDropsByJetID G" "a_GetLifeline (APIStorage G) = GetLifeline G"
  "a_GetRecordsByJetDrop (APIStorage G) = GetRecordsByJetDrop G" "a_GetNextSavedPulse (APIStorage G) = GetNextSavedPulse G"
  "a_GetJetDrops (APIStorage G) = GetJetDrops G"
  by (simp_all add: APIStorage_def)

lemma fst_InrE: "fst x = Inr y \<Longrightarrow> (\<And>s. x = (Inr y, s) \<Longrightarrow> thesis) \<Longrightarrow> thesis"
  by (cases x) auto

sublocale gorm_db \<subseteq> api: api_store "APIStorage G" T
proof (unfold_locales, goal_cases)
  case (1 b st r1 st')
  then show ?case unfolding APIStorage_simps by (rule readsD [OF GetRecord_reads])
next
  case (2 n st r2 st')
  then show ?case unfolding APIStorage_simps by (rule readsD [OF GetPulse_reads])
next
  case (3 fp tlte tgte lte lt gte gt up l off st r3 st')
  then show ?case unfolding APIStorage_simps by (rule readsD [OF GetPulses_reads])
next
  case (4 p fj l off st r4 st')
  then show ?case unfolding APIStorage_simps by (rule readsD [OF GetJetDropsWithParams_reads])
next
  case (5 jid st r5 st')
  then show ?case unfolding APIStorage_simps by (rule readsD [OF GetJetDropByID_reads])
next
  case (6 j lte lt gte gt l up st r6 st')
  then show ?case unfolding APIStorage_simps by (rule readsD [OF GetJetDropsByJetID_reads])
next
  case (7 ref ix lt gt tlte tgte l off up st r7 st')
  then show ?case unfolding APIStorage_simps by (rule readsD [OF GetLifeline_reads])
next
  case (8 jid ix ty l off st r8 st')
  then show ?case unfolding APIStorage_simps by (rule readsD [OF GetRecordsByJetDrop_reads])
next
  case (9 p c st r9 st')
  then show ?case unfolding APIStorage_simps by (rule readsD [OF GetNextSavedPulse_reads])
next
  case (10 p st r10 st')
  then show ?case unfolding APIStorage_simps by (rule readsD [OF GetJetDrops_reads])
next
  case (11 l off fp tlte tgte lte lt gte gt up st ps n)
  then obtain st' where "GetPulses G fp tlte tgte lte lt gte gt up l off st = (Inr (ps, n), st')"
    unfolding APIStorage_simps by (blast elim: fst_InrE)
  from GetPulses_spec [OF this] obtain rows where
    r: "rows_are (\<lambda>p. number_in tlte None tgte None (mp_Timestamp p) \<and> number_in lte lt gte gt (mp_PulseNumber p) \<and>
      number_in fp None None None (mp_PulseNumber p)) (if up then asc mp_PulseNumber else desc mp_PulseNumber) l off (db_pulses (T st)) rows n"
    and "list_all2 (link_ok (T st)) rows ps" by blast
  with rows_are_length [OF r 11(1)] show ?case by (simp add: list_all2_lengthD)
next
  case (12 l off p fj st js n)
  then obtain st' where "GetJetDropsWithParams G p fj l off st = (Inr (js, n), st')" unfolding APIStorage_simps by (blast elim: fst_InrE)
  from rows_are_length [OF GetJetDropsWithParams_spec [OF this, THEN conjunct2] 12(1)] show ?case .
next
  case (13 l j lte lt gte gt up st js n)
  then obtain st' where "GetJetDropsByJetID G j lte lt gte gt l up st = (Inr (js, n), st')" unfolding APIStorage_simps by (blast elim: fst_InrE)
  from GetJetDropsByJetID_page [OF this 13(1)] show ?case .
next
  case (14 l off ref ix lt gt tlte tgte up st rs n)
  then obtain st' where "GetLifeline G ref ix lt gt tlte tgte l off up st = (Inr (rs, n), st')" unfolding APIStorage_simps by (blast elim: fst_InrE)
  from rows_are_length [OF GetLifeline_spec [OF this, THEN conjunct2] 14(1)] show ?case .
next
  case (15 l off jid ix ty st rs n)
  then obtain st' where "GetRecordsByJetDrop G jid ix ty l off st = (Inr (rs, n), st')" unfolding APIStorage_simps by (blast elim: fst_InrE)
  from rows_are_length [OF GetRecordsByJetDrop_spec [OF this, THEN conjunct2] 15(1)] show ?case .
qed

context gorm_db
begin

lemma api_contract: "api_store (APIStorage G) T"
  by (rule api.api_store_axioms)

end

interpretation rel_api: api_store "APIStorage rel_gorm" tables_db ..

section \<open>Properties\<close>



text \<open>C27: the answer to a request for a lifeline is the page of the state records of the object that the parameters select, in
  the order asked for, with the number of all of them.\<close>

theorem ObjectLifeline_answers:
  assumes "gorm_db G T" and "ObjectLifeline A (APIStorage G) ref p st = (JSON 200 b, st')"
  shows "\<exists>obj rows n. checkReference A ref = Inr obj \<and> b = RecordsResponse n (map (RecordToAPI A) rows) \<and>
    rows_are (on_lifeline (GetLocalBytes A obj) (ol_FromIndex p) (ol_PulseNumberLt p) (ol_PulseNumberGt p) (ol_TimestampLte p)
        (ol_TimestampGte p) (ol_SortBy p = Some (SortByIndex_index_asc A)))
      (rec_le (ol_SortBy p = Some (SortByIndex_index_asc A))) (param 20 (ol_Limit p)) (param 0 (ol_Offset p)) (db_records (T st)) rows n"
proof -
  let ?up = "ol_SortBy p = Some (SortByIndex_index_asc A)"
  from assms(2) obtain obj rows n where o: "checkReference A ref = Inr obj" and b: "b = RecordsResponse n (map (RecordToAPI A) rows)"
    and "fst (GetLifeline G (GetLocalBytes A obj) (ol_FromIndex p) (ol_PulseNumberLt p) (ol_PulseNumberGt p) (ol_TimestampLte p)
      (ol_TimestampGte p) (param 20 (ol_Limit p)) (param 0 (ol_Offset p)) ?up st) = Inr (rows, n)"
    unfolding ObjectLifeline_def page_eqs APIStorage_simps
    by (auto simp: server_error_def bad_request_def split: sum.splits if_splits)
  then obtain db where "GetLifeline G (GetLocalBytes A obj) (ol_FromIndex p) (ol_PulseNumberLt p) (ol_PulseNumberGt p) (ol_TimestampLte p)
      (ol_TimestampGte p) (param 20 (ol_Limit p)) (param 0 (ol_Offset p)) ?up st = (Inr (rows, n), db)" by (blast elim: fst_InrE)
  from gorm_db.GetLifeline_spec [OF assms(1) this] o b show ?thesis by blast
qed


end
