(* ===== verification/API_Links.thy ===== *)
theory API_Links
  imports API_Laws
begin

text \<open>The links between the jet drops of an answer, which \<open>JetDropsByJetID\<close> computes from the hashes, and the identifiers that
  answers carry and requests take.\<close>

section \<open>The two maps\<close>

lemma by_hash_lookup:
  "map_of (by_hash js m) (EncodeToString h) =
     (case filter (\<lambda>j. mj_Hash j = h) js of [] \<Rightarrow> map_of m (EncodeToString h) | xs \<Rightarrow> Some (transformPrevNextResp (last xs)))"
  by (induction js arbitrary: m) (auto simp: go_simps split: list.splits)

definition dropid :: "models_JetDrop \<Rightarrow> string" where
  "dropid j = np_JetDropId (transformPrevNextResp j)"

definition saved :: "(string, NextPrevJetDrop list) gomap \<Rightarrow> bytes \<Rightarrow> NextPrevJetDrop list" where
  "saved m h = (case map_of m (EncodeToString h) of None \<Rightarrow> [] | Some ds \<Rightarrow> ds)"

lemma saved_add_next:
  "saved (add_next j h' m) h = (if h = h' \<and> dropid j \<notin> np_JetDropId ` set (saved m h) then saved m h @ [transformPrevNextResp j] else saved m h)"
  by (auto simp: saved_def add_next_def Let_def go_simps dropid_def list_ex_iff split: option.splits) (metis image_eqI)+

lemma by_prev_hash_saved:
  "np_JetDropId ` set (saved (by_prev_hash js m) h) = np_JetDropId ` set (saved m h) \<union> dropid ` {j \<in> set js. mj_FirstPrevHash j = h}"
proof (induction js arbitrary: m)
  case (Cons j js)
  have "np_JetDropId ` set (saved (add_next j (mj_FirstPrevHash j) m) h) =
      np_JetDropId ` set (saved m h) \<union> (if mj_FirstPrevHash j = h then {dropid j} else {})"
    by (auto simp: saved_add_next dropid_def)
  then show ?case by (auto simp: Cons.IH)
qed simp

lemma by_prev_hash_distinct: "distinct (map np_JetDropId (saved m h)) \<Longrightarrow> distinct (map np_JetDropId (saved (by_prev_hash js m) h))"
proof (induction js arbitrary: m)
  case (Cons j js)
  have "distinct (map np_JetDropId (saved (add_next j (mj_FirstPrevHash j) m) h))"
    using Cons.prems by (auto simp: saved_add_next dropid_def)
  then show ?case by (simp add: Cons.IH)
qed simp

lemma next_links_saved: "next_links m j = saved m (mj_Hash j)"
  by (simp add: next_links_def saved_def)

lemma prev_links_set:
  assumes "inj_on mj_Hash (set js)"
  shows "set (prev_links (by_hash js []) j) =
    transformPrevNextResp ` {p \<in> set js. mj_Hash p = mj_FirstPrevHash j \<or> mj_Hash p = mj_SecondPrevHash j}"
proof -
  have one: "set (case map_of (by_hash js []) (EncodeToString h) of Some prev \<Rightarrow> [prev] | None \<Rightarrow> []) =
      transformPrevNextResp ` {p \<in> set js. mj_Hash p = h}" for h
  proof (cases "filter (\<lambda>p. mj_Hash p = h) js")
    case Nil
    then have "{p \<in> set js. mj_Hash p = h} = {}" by (auto simp: filter_empty_conv)
    with Nil show ?thesis by (simp add: by_hash_lookup)
  next
    case (Cons x xs)
    define q where "q = last (x # xs)"
    have "q \<in> set (filter (\<lambda>p. mj_Hash p = h) js)" unfolding Cons q_def by (rule last_in_set) simp
    then have "q \<in> set js" "mj_Hash q = h" by simp_all
    then have "{p \<in> set js. mj_Hash p = h} = {q}" using assms by (fastforce dest: inj_onD)
    moreover have "map_of (by_hash js []) (EncodeToString h) = Some (transformPrevNextResp q)"
      using Cons by (simp add: by_hash_lookup q_def)
    ultimately show ?thesis by simp
  qed
  show ?thesis unfolding prev_links_def set_append one by blast
qed


section \<open>Identifiers\<close>

lemma trim_prefixes_none: "(\<forall>w \<in> set ws. w \<noteq> [] \<longrightarrow> s \<noteq> [] \<longrightarrow> hd w \<noteq> hd s) \<Longrightarrow> trim_prefixes ws s = s"
proof -
  assume "\<forall>w \<in> set ws. w \<noteq> [] \<longrightarrow> s \<noteq> [] \<longrightarrow> hd w \<noteq> hd s"
  then have "\<forall>w \<in> set ws. w \<noteq> [] \<longrightarrow> \<not> prefix w s" by (metis hd_append2 prefixE append_is_Nil_conv)
  then have "filter (\<lambda>w. w \<noteq> [] \<and> prefix w s) ws = []" by (auto simp: filter_empty_conv)
  then show ?thesis by (subst trim_prefixes.simps) (simp add: strip_one_def)
qed

lemma jet_chars_not_space:
  "\<forall>w \<in> set white_spaces. w \<noteq> [] \<and> hd w \<notin> set ''01*'' \<and> last w \<notin> set ''01*''"
  by code_simp

lemma TrimSpace_jet: "set s \<subseteq> set ''01*'' \<Longrightarrow> TrimSpace s = s"
proof -
  assume s: "set s \<subseteq> set ''01*''"
  have "trim_prefixes white_spaces s = s"
    using s jet_chars_not_space by (intro trim_prefixes_none) (metis hd_in_set subsetD)
  moreover have "trim_prefixes (map rev white_spaces) (rev s) = rev s"
  proof (intro trim_prefixes_none ballI impI)
    fix w assume "w \<in> set (map rev white_spaces)" "w \<noteq> []" "rev s \<noteq> []"
    then obtain v where "v \<in> set white_spaces" "w = rev v" by auto
    moreover have "hd (rev s) \<in> set ''01*''" using s \<open>rev s \<noteq> []\<close> by (metis hd_in_set set_rev subsetD)
    ultimately show "hd w \<noteq> hd (rev s)" using jet_chars_not_space by (metis hd_rev)
  qed
  ultimately show ?thesis by (simp add: TrimSpace_def)
qed

lemma JetIDToString_id_chars: "bitstring (ji_JetID j) \<Longrightarrow> set (JetIDToString_id j) \<subseteq> set ''01*''"
  by (auto simp: JetIDToString_id_def dest: bitstring_set)

lemma checkJetID_printed:
  assumes "bitstring (ji_JetID j)" and "length (ji_JetID j) \<le> 216"
  shows "checkJetID A (JetIDToString_id j) = (ji_JetID j, [])"
proof -
  have "QueryUnescape (JetIDToString_id j) = Some (JetIDToString_id j)"
    using JetIDToString_id_no_special [OF assms(1)] by (intro QueryUnescape_plain)
  moreover have "JetIDToString_id j \<noteq> []" by (simp add: JetIDToString_id_def)
  moreover have "JetIDToString_id j = ''*'' \<longleftrightarrow> ji_JetID j = []" using assms(1) by (auto simp: JetIDToString_id_def is_bit_def)
  ultimately show ?thesis
    using JetIDToString_id_regexp [OF assms] TrimSpace_jet [OF JetIDToString_id_chars [OF assms(1)]]
    by (auto simp: checkJetID_def Let_def JetIDToString_id_def)
qed

lemma ParseInt_colon: "CHR '':'' \<in> set s \<Longrightarrow> ParseInt s = None"
proof -
  assume c: "CHR '':'' \<in> set s"
  then obtain x xs where s: "s = x # xs" by (cases s) auto
  have "\<not> is_digit CHR '':''" by (simp add: is_digit_def)
  with c s have "\<not> list_all is_digit (if x = CHR ''-'' \<or> x = CHR ''+'' then xs else s)"
    by (auto simp: list_all_iff intro: bexI [of _ "CHR '':''"])
  then show ?thesis by (auto simp: ParseInt_def Let_def s)
qed

text \<open>C33: what the API prints it also accepts: the identifier of the jet drop of a record, its jet and its index, as they stand in
  an answer, are read back as the jet, the pulse and the position of the record, and a search for the jet drop finds it.\<close>

theorem api_identifiers_roundtrip:
  assumes "bitstring (mr_JetID r)" and "length (mr_JetID r) \<le> 216" and "int64_range (mr_PulseNumber r)" and "int64_range (mr_Order r)"
  shows "NewJetDropIDFromString (ar_JetDropId (RecordToAPI A r)) = Inr \<lparr>ji_JetID = mr_JetID r, ji_PulseNumber = mr_PulseNumber r\<rparr> \<and>
    checkJetID A (ar_JetId (RecordToAPI A r)) = (mr_JetID r, []) \<and>
    CheckIndex (ar_Index (RecordToAPI A r)) = Inr (mr_PulseNumber r, mr_Order r) \<and>
    Search A S (ar_JetDropId (RecordToAPI A r)) st = (JSON 200 (SearchJetDrop (ar_JetDropId (RecordToAPI A r))), st)"
proof -
  let ?j = "\<lparr>ji_JetID = mr_JetID r, ji_PulseNumber = mr_PulseNumber r\<rparr>"
  have "mr_JetID r \<noteq> ''*''" using assms(1) by (auto simp: is_bit_def)
  then have j: "NewJetDropID (mr_JetID r) (mr_PulseNumber r) = ?j" by (simp add: NewJetDropID_def)
  have "JetDropID_ok ?j" using assms by (simp add: JetDropID_ok_def)
  then have p: "NewJetDropIDFromString (ToString ?j) = Inr ?j" by (rule JetDropID_roundtrip)
  moreover have "ParseInt (ToString ?j) = None" by (rule ParseInt_colon) (simp add: ToString_def)
  ultimately show ?thesis
    using checkJetID_printed [of ?j A] CheckIndex_roundtrip [OF assms(3,4)] assms(1,2)
    by (simp add: RecordToAPI_def j record_index_def Search_def Let_def)
qed

section \<open>Witnesses\<close>

definition sample_api :: api_lib where
  "sample_api = \<lparr>IsValidAsPulseNumber = (\<lambda>n. 65536 \<le> n), NewReferenceFromString = (\<lambda>s. Some (map of_char s)),
     IsObjectReference = (\<lambda>b. True), RefString = map (\<lambda>w. char_of (unat w)), GetLocalBytes = (\<lambda>b. b), NewIDFromBytes = Some,
     NewReference = (\<lambda>b. b), ID_String = map (\<lambda>w. char_of (unat w)), UnescapeError = (\<lambda>s. s),
     SortByIndex_index_asc = ''index_asc'', SortByIndex_index_desc = ''index_desc'',
     SortByPulse_pulse_number_asc_jet_id_desc = ''pulse_number_asc,jet_id_desc'',
     SortByPulse_pulse_number_desc_jet_id_asc = ''pulse_number_desc,jet_id_asc'',
     SortByPulseNumber_pulse_number_asc = ''pulse_number_asc'', SortByPulseNumber_pulse_number_desc = ''pulse_number_desc''\<rparr>"

text \<open>Two drops of a pulse that merge into one: the merged drop names both as predecessors, but only the first one names it as
  its successor.\<close>

definition sample_drop :: "string \<Rightarrow> int \<Rightarrow> bytes \<Rightarrow> bytes \<Rightarrow> bytes \<Rightarrow> models_JetDrop" where
  "sample_drop jet pn h first second = \<lparr>mj_PulseNumber = pn, mj_JetID = jet, mj_FirstPrevHash = first, mj_SecondPrevHash = second,
     mj_Hash = h, mj_RawData = [], mj_Timestamp = 0, mj_RecordAmount = 0\<rparr>"

definition merge_drops :: "models_JetDrop list" where
  "merge_drops = [sample_drop ''0'' 65600 [1] [8] [9], sample_drop ''1'' 65600 [2] [8] [9], sample_drop [] 65610 [3] [1] [2]]"

lemma merge_links:
  "map (\<lambda>d. (map np_JetId (aj_PrevJetDropId d), map np_JetId (aj_NextJetDropId d))) (link_drops [] merge_drops) =
     [([], [''*'']), ([], []), ([''0'', ''1''], [])]"
  by (simp add: merge_drops_def sample_drop_def link_drops_def createNextPrevMaps_def prev_links_def next_links_def add_next_def
        transformPrevNextResp_def JetDropToAPI_def NewJetDropID_def JetIDToString_id_def ToString_def Let_def EncodeToString_inj)


definition sample_row :: models_Record where
  "sample_row = \<lparr>mr_Reference = [1], mr_Type = ''state'', mr_ObjectReference = [2], mr_PrototypeReference = [], mr_Payload = [],
     mr_PrevRecordReference = [], mr_Hash = [], mr_RawData = [], mr_JetID = ''01'', mr_PulseNumber = 65600, mr_Order = 3, mr_Timestamp = 0\<rparr>"

theorem api_identifiers_roundtrip_witness:
  "CheckIndex (ar_Index (RecordToAPI sample_api sample_row)) = Inr (65600, 3) \<and>
   fst (Search sample_api (APIStorage rel_gorm) (ar_JetDropId (RecordToAPI sample_api sample_row)) three_pulses) =
     JSON 200 (SearchJetDrop (ar_JetDropId (RecordToAPI sample_api sample_row)))"
proof -
  have "bitstring (mr_JetID sample_row)" "length (mr_JetID sample_row) \<le> 216" "int64_range (mr_PulseNumber sample_row)"
    "int64_range (mr_Order sample_row)" by (simp_all add: sample_row_def int64_range_def)
  from api_identifiers_roundtrip [OF this, of sample_api "APIStorage rel_gorm" three_pulses] show ?thesis
    by (simp add: sample_row_def)
qed

lemma sample_api_ids: "NewIDFromBytes sample_api b \<noteq> None"
  by (simp add: sample_api_def)


definition no_lifeline_params :: ObjectLifelineParams where
  "no_lifeline_params = \<lparr>ol_Limit = None, ol_Offset = None, ol_SortBy = None, ol_FromIndex = None, ol_PulseNumberGt = None,
     ol_PulseNumberLt = None, ol_TimestampLte = None, ol_TimestampGte = None\<rparr>"

lemma plain_a: "TrimSpace ''a'' = ''a''" "QueryUnescape ''a'' = Some ''a''"
  by code_simp+

lemma sample_lifeline:
  "\<exists>b st'. ObjectLifeline sample_api (APIStorage rel_gorm) ''a'' no_lifeline_params three_pulses = (JSON 200 b, st')"
proof -
  have ref: "checkReference sample_api ''a'' = Inr [97]" by (simp add: checkReference_def sample_api_def plain_a of_char_def)
  have "\<exists>rows n db'. GetLifeline rel_gorm [97] None None None None None 20 0 False three_pulses = (Inr (rows, n), db')"
    by (simp add: GetLifeline_def storage_getRecords_def Let_def rel_eval)
  moreover have "GetLocalBytes sample_api b = b" for b by (simp add: sample_api_def)
  ultimately show ?thesis
    by (auto simp: ObjectLifeline_def Let_def checkLimitOffset_def ref check_from_index_def pulse_number_param_def no_lifeline_params_def
          APIStorage_simps)
qed

theorem ObjectLifeline_answers_witness:
  "\<exists>rows n. rows_are (on_lifeline [97] None None None None None False) (rec_le False) 20 0 (db_records (tables_db three_pulses)) rows n"
proof -
  from sample_lifeline obtain b st' where
    "ObjectLifeline sample_api (APIStorage rel_gorm) ''a'' no_lifeline_params three_pulses = (JSON 200 b, st')" by blast
  from ObjectLifeline_answers [OF rel.gorm_db_axioms this] obtain obj rows n where "checkReference sample_api ''a'' = Inr obj"
    "rows_are (on_lifeline (GetLocalBytes sample_api obj) None None None None None False) (rec_le False) (param 20 None) (param 0 None)
      (db_records (tables_db three_pulses)) rows n" by (auto simp: no_lifeline_params_def)
  then show ?thesis by (auto simp: checkReference_def sample_api_def plain_a of_char_def param_def)
qed

definition broken_storage :: "unit StorageAPIFetcher" where
  "broken_storage = \<lparr>a_GetRecord = (\<lambda>_. fail_db (Err ''down'')), a_GetPulse = (\<lambda>_. fail_db (Err ''down'')),
     a_GetPulses = (\<lambda>_ _ _ _ _ _ _ _ _ _. fail_db (Err ''down'')), a_GetJetDropsWithParams = (\<lambda>_ _ _ _. fail_db (Err ''down'')),
     a_GetJetDropByID = (\<lambda>_. fail_db (Err ''down'')), a_GetJetDropsByJetID = (\<lambda>_ _ _ _ _ _ _. fail_db (Err ''down'')),
     a_GetLifeline = (\<lambda>_ _ _ _ _ _ _ _ _. fail_db (Err ''down'')), a_GetRecordsByJetDrop = (\<lambda>_ _ _ _ _. fail_db (Err ''down'')),
     a_GetNextSavedPulse = (\<lambda>_ _. fail_db (Err ''down'')), a_GetJetDrops = (\<lambda>_. fail_db (Err ''down''))\<rparr>"

definition no_jet_params :: JetDropsByJetIDParams where
  "no_jet_params = \<lparr>jj_Limit = None, jj_SortBy = None, jj_PulseNumberGt = None, jj_PulseNumberGte = None, jj_PulseNumberLt = None,
     jj_PulseNumberLte = None\<rparr>"


end
