(* ===== verification/Exporter.thy ===== *)
theory Exporter
  imports Storage_Read
begin

text \<open>\<open>etl/exporter\<close>: the gRPC service that streams the complete pulses with records of given prototypes, and the server
  around it.  The streaming loop ends only when sending fails, so its model takes fuel and returns what it has sent and, if it
  has returned, the error.  Between two turns the database may change in any way; the changes are a parameter.\<close>

section \<open>The stream of pulses\<close>

record GetNextPulseResponse =
  gn_PulseNumber :: int
  gn_PrevPulseNumber :: int
  gn_RecordAmount :: int

record GetNextPulseRequest =
  gq_PulseNumberFrom :: int
  gq_Prototypes :: "bytes list"

text \<open>\<open>interfaces.StorageExporterFetcher\<close>; the storage of this repository never returns an error.\<close>

type_synonym 'st fetcher = "int \<Rightarrow> bytes list \<Rightarrow> 'st \<Rightarrow> (models_Pulse \<times> error option) \<times> 'st"

definition storage_fetcher :: "'db gorm \<Rightarrow> 'db fetcher" where
  "storage_fetcher G prevPulse prototypes db =
     (case GetNextCompletePulseFilterByPrototypeReference G prevPulse prototypes db of (p, db') \<Rightarrow> ((p, None), db'))"

text \<open>Turn \<open>k\<close>: \<open>others k\<close> is what the rest of the system has done to the database since the turn before, \<open>send k\<close> the result of
  sending.\<close>

fun get_next_pulse_loop :: "'st fetcher \<Rightarrow> bytes list \<Rightarrow> (nat \<Rightarrow> 'st \<Rightarrow> 'st) \<Rightarrow> (nat \<Rightarrow> GetNextPulseResponse \<Rightarrow> error option)
    \<Rightarrow> nat \<Rightarrow> nat \<Rightarrow> int \<Rightarrow> 'st \<Rightarrow> GetNextPulseResponse list \<times> error option" where
  "get_next_pulse_loop repo protos others send 0 k currentPN st = ([], None)"
| "get_next_pulse_loop repo protos others send (Suc fuel) k currentPN st =
     (case repo currentPN protos (others k st) of ((receivedPulse, err), st) \<Rightarrow>
        if err \<noteq> None then get_next_pulse_loop repo protos others send fuel (Suc k) currentPN st
        else if currentPN \<ge> mp_PulseNumber receivedPulse then get_next_pulse_loop repo protos others send fuel (Suc k) currentPN st
        else (let resp = \<lparr>gn_PulseNumber = mp_PulseNumber receivedPulse, gn_PrevPulseNumber = mp_PrevPulseNumber receivedPulse,
                   gn_RecordAmount = mp_RecordAmount receivedPulse\<rparr>
              in case send k resp of Some err \<Rightarrow> ([], Some err)
                 | None \<Rightarrow> (case get_next_pulse_loop repo protos others send fuel (Suc k) (mp_PulseNumber receivedPulse) st of
                     (sent, res) \<Rightarrow> (resp # sent, res))))"

definition GetNextPulse :: "'st fetcher \<Rightarrow> GetNextPulseRequest \<Rightarrow> (nat \<Rightarrow> 'st \<Rightarrow> 'st) \<Rightarrow> (nat \<Rightarrow> GetNextPulseResponse \<Rightarrow> error option)
    \<Rightarrow> nat \<Rightarrow> 'st \<Rightarrow> GetNextPulseResponse list \<times> error option" where
  "GetNextPulse repo req others send fuel st =
     get_next_pulse_loop repo (gq_Prototypes req) others send fuel 0 (gq_PulseNumberFrom req) st"

definition exporter_GetRecords :: "unit \<Rightarrow> error option" where
  "exporter_GetRecords req = None"

section \<open>The server\<close>

text \<open>\<open>sv_running\<close> counts the goroutines that serve, \<open>sv_cancelled\<close> the contexts that have been cancelled.\<close>

record exporter_Server =
  sv_listen :: string
  sv_grpcServer :: bool                      \<comment> \<open>whether there is one\<close>
  sv_cancel :: bool                          \<comment> \<open>whether the cancel function is set\<close>
  sv_hasStarted :: bool
  sv_running :: nat
  sv_cancelled :: nat

definition NewServer :: "string \<Rightarrow> bool \<Rightarrow> exporter_Server" where
  "NewServer listen grpcServer = \<lparr>sv_listen = listen, sv_grpcServer = grpcServer, sv_cancel = False, sv_hasStarted = False,
     sv_running = 0, sv_cancelled = 0\<rparr>"

text \<open>\<open>listen_err\<close> is the result of \<open>net.Listen\<close>; \<open>run\<close> starts the goroutine that serves.\<close>

definition server_run :: "exporter_Server \<Rightarrow> exporter_Server" where
  "server_run s = s\<lparr>sv_running := sv_running s + 1\<rparr>"

definition server_Start :: "error option \<Rightarrow> exporter_Server \<Rightarrow> error option \<times> exporter_Server" where
  "server_Start listen_err s =
     (if \<not> sv_grpcServer s then (Some (Err ''gRPC server is required''), s)
      else if sv_hasStarted s then (None, s)
      else case listen_err of Some err \<Rightarrow> (Some (Wrap err (''failed to start gPRC server on '' @ sv_listen s)), s)
        | None \<Rightarrow> (None, server_run (s\<lparr>sv_cancel := True\<rparr>)))"

definition server_Stop :: "exporter_Server \<Rightarrow> exporter_Server" where
  "server_Stop s =
     (if \<not> sv_hasStarted s then s else if sv_cancel s then s\<lparr>sv_cancelled := sv_cancelled s + 1\<rparr> else s)"

inductive server_step :: "exporter_Server \<Rightarrow> exporter_Server \<Rightarrow> bool" where
  start: "server_Start listen_err s = (res, s') \<Longrightarrow> server_step s s'"
| stop: "server_step s (server_Stop s)"

text \<open>The flag is never set, so stopping a started server has no effect.\<close>

lemma server_never_stops:
  "server_step\<^sup>*\<^sup>* (NewServer listen g) s \<Longrightarrow> \<not> sv_hasStarted s \<and> sv_cancelled s = 0 \<and> server_Stop s = s"
  by (induction rule: rtranclp_induct)
     (auto simp: NewServer_def server_Start_def server_Stop_def server_run_def elim!: server_step.cases split: if_splits option.splits)

section \<open>What is sent\<close>

text \<open>A chain from a pulse number: each pulse follows the one before it.\<close>

fun follows :: "int \<Rightarrow> GetNextPulseResponse list \<Rightarrow> bool" where
  "follows pn [] \<longleftrightarrow> True"
| "follows pn (r # rs) \<longleftrightarrow> gn_PrevPulseNumber r = pn \<and> pn < gn_PulseNumber r \<and> follows (gn_PulseNumber r) rs"

text \<open>What the service relies on: the fetcher answers with the zero pulse or with a complete pulse after the one asked for.\<close>

locale pulse_fetcher =
  fixes repo :: "'st fetcher" and complete :: "'st \<Rightarrow> models_Pulse \<Rightarrow> bool"
  assumes fetched: "repo pn protos st = ((p, None), st') \<Longrightarrow> mp_PulseNumber p = 0 \<or> mp_PrevPulseNumber p = pn \<and> complete st p"
begin

lemma loop_follows:
  "0 \<le> pn \<Longrightarrow> get_next_pulse_loop repo protos others send fuel k pn st = (sent, res) \<Longrightarrow> follows pn sent"
proof (induction fuel arbitrary: k pn st sent res)
  case (Suc fuel)
  obtain p err st' where r: "repo pn protos (others k st) = ((p, err), st')" by (metis surj_pair)
  let ?resp = "\<lparr>gn_PulseNumber = mp_PulseNumber p, gn_PrevPulseNumber = mp_PrevPulseNumber p, gn_RecordAmount = mp_RecordAmount p\<rparr>"
  consider "err \<noteq> None \<or> pn \<ge> mp_PulseNumber p" | e where "err = None" "pn < mp_PulseNumber p" "send k ?resp = Some e"
    | "err = None" "pn < mp_PulseNumber p" "send k ?resp = None" by fastforce
  then show ?case
  proof cases
    case 1
    with Suc.prems r Suc.IH [OF Suc.prems(1)] show ?thesis by (auto split: if_splits)
  next
    case 2
    with Suc.prems r show ?thesis by simp
  next
    case 3
    obtain sent' res' where l: "get_next_pulse_loop repo protos others send fuel (Suc k) (mp_PulseNumber p) st' = (sent', res')"
      by (cases "get_next_pulse_loop repo protos others send fuel (Suc k) (mp_PulseNumber p) st'")
    have "mp_PrevPulseNumber p = pn" using fetched [of pn protos "others k st" p st'] r 3 Suc.prems(1) by auto
    moreover have "follows (mp_PulseNumber p) sent'" using Suc.IH [OF _ l] 3 Suc.prems(1) by simp
    ultimately show ?thesis using Suc.prems(2) r 3 l by auto
  qed
qed simp

end

text \<open>The storage over the database library is such a fetcher.\<close>

definition complete_in :: "('db \<Rightarrow> database) \<Rightarrow> 'db \<Rightarrow> models_Pulse \<Rightarrow> bool" where
  "complete_in T db p \<longleftrightarrow> (\<exists>q \<in> db_pulses (T db). mp_PulseNumber q = mp_PulseNumber p \<and> mp_IsComplete q)"

sublocale gorm_db \<subseteq> fetcher: pulse_fetcher "storage_fetcher G" "complete_in T"
proof
  fix pn protos db p db'
  assume "storage_fetcher G pn protos db = ((p, None), db')"
  then have "GetNextCompletePulseFilterByPrototypeReference G pn protos db = (p, db')"
    by (auto simp: storage_fetcher_def split: prod.splits)
  from GetNextComplete_spec [OF this] consider "p = emptyPulse" | q where "q \<in> db_pulses (T db)" "mp_PrevPulseNumber q = pn"
    "mp_IsComplete q" "p\<lparr>mp_RecordAmount := 0\<rparr> = q\<lparr>mp_RecordAmount := 0\<rparr>" by blast
  then show "mp_PulseNumber p = 0 \<or> mp_PrevPulseNumber p = pn \<and> complete_in T db p"
  proof cases
    case 1
    then show ?thesis by (simp add: emptyPulse_def)
  next
    case 2
    from 2(4) have "mp_PulseNumber p = mp_PulseNumber q" "mp_PrevPulseNumber p = mp_PrevPulseNumber q"
      by (metis models_Pulse.select_convs(1) models_Pulse.surjective models_Pulse.update_convs(8),
          metis models_Pulse.select_convs(2) models_Pulse.surjective models_Pulse.update_convs(8))
    with 2 show ?thesis by (auto simp: complete_in_def)
  qed
qed

context gorm_db
begin

lemma fetcher_contract: "pulse_fetcher (storage_fetcher G) (complete_in T)"
  by (rule fetcher.pulse_fetcher_axioms)

end

text \<open>C34: whatever happens to the database in between, a client that asks from a pulse on receives a chain of pulses: the first
  one follows the pulse it named, each later one the pulse before it, and their numbers ascend.\<close>

theorem exported_pulses_chain:
  assumes "gorm_db G T" and "0 \<le> gq_PulseNumberFrom req" and "GetNextPulse (storage_fetcher G) req others send fuel st = (sent, res)"
  shows "follows (gq_PulseNumberFrom req) sent"
  using pulse_fetcher.loop_follows [OF gorm_db.fetcher_contract [OF assms(1)] assms(2) assms(3) [unfolded GetNextPulse_def]] .

text \<open>C35: the stream stops for good at a pulse without matching records: while the pulses after the current one have no record of
  the prototypes asked for, nothing is sent, however long the loop runs and although later pulses may match.\<close>

theorem export_stalls:
  assumes "gorm_db G T" and "0 \<le> gq_PulseNumberFrom req" and "\<And>k db. T (others k db) = T db"
    and "\<forall>p \<in> db_pulses (T st). mp_PrevPulseNumber p = gq_PulseNumberFrom req \<longrightarrow>
      (\<forall>r \<in> db_records (T st). mr_PulseNumber r = mp_PulseNumber p \<longrightarrow> mr_PrototypeReference r \<notin> set (gq_Prototypes req))"
  shows "GetNextPulse (storage_fetcher G) req others send fuel st = ([], None)"
proof -
  have "get_next_pulse_loop (storage_fetcher G) (gq_Prototypes req) others send fuel k (gq_PulseNumberFrom req) db = ([], None)"
    if "T db = T st" for k db
    using that
  proof (induction fuel arbitrary: k db)
    case (Suc fuel)
    obtain p db' where g: "GetNextCompletePulseFilterByPrototypeReference G (gq_PulseNumberFrom req) (gq_Prototypes req) (others k db) = (p, db')"
      by (metis surj_pair)
    from gorm_db.GetNextComplete_spec [OF assms(1) g] Suc.prems assms(3,4) have "p = emptyPulse" "T db' = T st" by auto
    with Suc.IH [OF this(2)] g assms(2) show ?case by (simp add: storage_fetcher_def emptyPulse_def)
  qed simp
  then show ?thesis by (simp add: GetNextPulse_def)
qed

section \<open>Witnesses\<close>

text \<open>Pulses 10, 20 and 30; 10 and 30 have a record of prototype 7.\<close>

definition export_tables :: tables where
  "export_tables = \<lparr>t_pulses = [(pulse_no 10 5)\<lparr>mp_IsComplete := True\<rparr>, (pulse_no 20 10)\<lparr>mp_IsComplete := True\<rparr>, (pulse_no 30 20)\<lparr>mp_IsComplete := True\<rparr>],
     t_jet_drops = [], t_records = [one_rec\<lparr>mr_PulseNumber := 10, mr_PrototypeReference := [7]\<rparr>,
       one_rec\<lparr>mr_Reference := [9], mr_PulseNumber := 30, mr_PrototypeReference := [7]\<rparr>]\<rparr>"

definition export_request :: "int \<Rightarrow> GetNextPulseRequest" where
  "export_request pn = \<lparr>gq_PulseNumberFrom = pn, gq_Prototypes = [[7]]\<rparr>"

lemma export_run:
  "GetNextPulse (storage_fetcher rel_gorm) (export_request 5) (\<lambda>k db. db) (\<lambda>k r. None) 1 export_tables =
     ([\<lparr>gn_PulseNumber = 10, gn_PrevPulseNumber = 5, gn_RecordAmount = 1\<rparr>], None)"
  by (simp add: GetNextPulse_def storage_fetcher_def GetNextCompletePulseFilterByPrototypeReference_def export_tables_def
        export_request_def rel_eval rel_join_def pulse_no_simps one_rec_def Let_def)

theorem exported_pulses_chain_witness: "follows 5 [\<lparr>gn_PulseNumber = 10, gn_PrevPulseNumber = 5, gn_RecordAmount = 1\<rparr>]"
  using exported_pulses_chain [OF rel.gorm_db_axioms _ export_run] by (simp add: export_request_def)

theorem export_stalls_witness:
  "GetNextPulse (storage_fetcher rel_gorm) (export_request 10) (\<lambda>k db. db) (\<lambda>k r. None) 1000 export_tables = ([], None)"
proof (rule export_stalls [OF rel.gorm_db_axioms])
  show "\<forall>p \<in> db_pulses (tables_db export_tables). mp_PrevPulseNumber p = gq_PulseNumberFrom (export_request 10) \<longrightarrow>
    (\<forall>r \<in> db_records (tables_db export_tables). mr_PulseNumber r = mp_PulseNumber p \<longrightarrow>
      mr_PrototypeReference r \<notin> set (gq_Prototypes (export_request 10)))"
    by (simp add: export_tables_def tables_db_def export_request_def pulse_no_simps one_rec_def)
qed (simp_all add: export_request_def)

end
