(* ===== verification/Connection.thy ===== *)
theory Connection
  imports Types_Models
begin

text \<open>\<open>etl/connection\<close> and \<open>etl/dbconn\<close>: the token that authorizes calls to the platform, the options of the connection, the
  goroutine that watches it, and the plugin that stops the explorer when the database is lost.  The HTTP exchange with the
  authorization service and the libraries behind \<open>grpc.Dial\<close> and \<open>gorm.Open\<close> are parameters.  Seconds and durations keep the
  64 bits of the code; an instant is a count of nanoseconds.\<close>

section \<open>Configuration\<close>

record configuration_Auth =
  au_Required :: bool
  au_URL :: string
  au_Login :: string
  au_Password :: string
  au_RefreshOffset :: "64 word"
  au_Timeout :: int
  au_InsecureTLS :: bool

record configuration_Replicator =
  rp_PlatformVersion :: int
  rp_Addr :: string
  rp_MaxTransportMsg :: int
  rp_WaitForConnectionRecoveryTimeout :: int
  rp_ContinuousPulseRetrievingHalfPulseSeconds :: "32 word"
  rp_ParallelConnections :: "32 word"
  rp_QueueLen :: "32 word"
  rp_Auth :: configuration_Auth

record configuration_DB =
  cd_URL :: string
  cd_MaxOpenConns :: int
  cd_MaxIdleConns :: int
  cd_ConnMaxLifetime :: int

section \<open>The authorization service\<close>

text \<open>The client holds the settings of the transport; a request and a response have the parts the code sets and reads.\<close>

record http_Client =
  hc_InsecureSkipVerify :: bool
  hc_Timeout :: int

record http_Request =
  hq_Method :: string
  hq_URL :: string
  hq_BasicAuth :: "string \<times> string"

record http_Response =
  hr_StatusCode :: int
  hr_Body :: "error + bytes"

text \<open>\<open>ParseURL\<close> is what \<open>http.NewRequest\<close> does with the address, \<open>Unmarshal\<close> the fields \<open>access_token\<close> and \<open>expires_in\<close> of a
  body, zero where they are absent, and \<open>Do\<close> one exchange, which changes the world it takes place in.\<close>

record 'w http_env =
  ParseURL :: "string \<Rightarrow> error + string"
  Unmarshal :: "bytes \<Rightarrow> error + string \<times> 64 word"
  Do :: "http_Client \<Rightarrow> http_Request \<Rightarrow> 'w \<Rightarrow> (error + http_Response) \<times> 'w"

section \<open>Token credentials\<close>

record Token =
  tk_AccessToken :: string
  tk_ExpiresIn :: "64 word"
  tk_ReceivedAt :: int

record tokenCredentials =
  tc_authURL :: string
  tc_login :: string
  tc_pass :: string
  tc_refreshOffset :: "64 word"
  tc_insecureTLS :: bool
  tc_token :: Token
  tc_httpClient :: http_Client

definition newTokenCredentials :: "http_Client \<Rightarrow> string \<Rightarrow> string \<Rightarrow> string \<Rightarrow> 64 word \<Rightarrow> bool \<Rightarrow> tokenCredentials" where
  "newTokenCredentials client authURL login pass refreshOffset insecureTLS = \<lparr>tc_authURL = authURL, tc_login = login,
     tc_pass = pass, tc_refreshOffset = refreshOffset, tc_insecureTLS = insecureTLS,
     tc_token = \<lparr>tk_AccessToken = [], tk_ExpiresIn = 0, tk_ReceivedAt = 0\<rparr>, tc_httpClient = client\<rparr>"

definition RequireTransportSecurity :: "tokenCredentials \<Rightarrow> bool" where
  "RequireTransportSecurity c \<longleftrightarrow> \<not> tc_insecureTLS c"

text \<open>\<open>time.Duration(c.token.ExpiresIn-c.refreshOffset) * time.Second\<close>, with the wrap-around of \<open>int64\<close>.\<close>

definition refresh_after :: "tokenCredentials \<Rightarrow> int" where
  "refresh_after c = sint ((tk_ExpiresIn (tc_token c) - tc_refreshOffset c) * 1000000000)"

definition needNewToken :: "int \<Rightarrow> tokenCredentials \<Rightarrow> bool" where
  "needNewToken now c = (if tk_AccessToken (tc_token c) = [] then True
     else let timeToRefresh = tk_ReceivedAt (tc_token c) + refresh_after c in timeToRefresh < now)"

definition receiveAccessToken :: "'w http_env \<Rightarrow> int \<Rightarrow> tokenCredentials \<Rightarrow> 'w \<Rightarrow> (error option \<times> tokenCredentials) \<times> 'w" where
  "receiveAccessToken E now c w = (case ParseURL E (tc_authURL c) of
     Inl err \<Rightarrow> ((Some err, c), w)
   | Inr url \<Rightarrow> (case Do E (tc_httpClient c) \<lparr>hq_Method = ''GET'', hq_URL = url, hq_BasicAuth = (tc_login c, tc_pass c)\<rparr> w of
       (Inl err, w) \<Rightarrow> ((Some (Wrap err ''failed to do http request''), c), w)
     | (Inr response, w) \<Rightarrow> (case hr_Body response of
         Inl err \<Rightarrow> ((Some err, c), w)
       | Inr body \<Rightarrow>
         if hr_StatusCode response \<noteq> 200
         then ((Some (Err (''API path='' @ [CHR 0x27] @ url @ [CHR 0x27] @ '' return '' @ Itoa (hr_StatusCode response) @ '' status code'')), c), w)
         else (case Unmarshal E body of
           Inl err \<Rightarrow> ((Some (Err (''failed to parse authorization response body '' @ Error err)), c), w)
         | Inr (access_token, expires_in) \<Rightarrow>
             ((None, c\<lparr>tc_token := \<lparr>tk_AccessToken = access_token, tk_ExpiresIn = expires_in, tk_ReceivedAt = now\<rparr>\<rparr>), w)))))"

definition bearer :: "tokenCredentials \<Rightarrow> (string, string) gomap" where
  "bearer c = [(''Authorization'', ''Bearer '' @ tk_AccessToken (tc_token c))]"

definition no_token :: "error \<Rightarrow> error" where
  "no_token err = Wrap err (''can'' @ [CHR 0x27] @ ''t get access_token'')"

text \<open>One caller alone; \<open>now\<close> and \<open>later\<close> are the two readings of the clock.\<close>

definition GetRequestMetadata :: "'w http_env \<Rightarrow> int \<Rightarrow> int \<Rightarrow> tokenCredentials \<Rightarrow> 'w
    \<Rightarrow> ((error + (string, string) gomap) \<times> tokenCredentials) \<times> 'w" where
  "GetRequestMetadata E now later c w = (if needNewToken now c
     then (case receiveAccessToken E later c w of
         ((Some err, c), w) \<Rightarrow> ((Inl (no_token err), c), w)
       | ((None, c), w) \<Rightarrow> ((Inr (bearer c), c), w))
     else ((Inr (bearer c), c), w))"

text \<open>Many callers at once: the check, the exchange and the reading of the token are separate critical sections, the last one
  without the lock.\<close>

datatype caller = AtCheck | AtReceive | AtRead | Returned "error + (string, string) gomap"

record 'w cred_state =
  cs_cred :: tokenCredentials
  cs_clock :: int
  cs_world :: 'w
  cs_callers :: "caller list"

inductive cred_step :: "'w http_env \<Rightarrow> 'w cred_state \<Rightarrow> 'w cred_state \<Rightarrow> bool" for E where
  tick: "0 \<le> d \<Longrightarrow> cred_step E s (s\<lparr>cs_clock := cs_clock s + d\<rparr>)"
| check: "i < length (cs_callers s) \<Longrightarrow> cs_callers s ! i = AtCheck \<Longrightarrow>
    cred_step E s (s\<lparr>cs_callers := (cs_callers s)[i := if needNewToken (cs_clock s) (cs_cred s) then AtReceive else AtRead]\<rparr>)"
| receive: "i < length (cs_callers s) \<Longrightarrow> cs_callers s ! i = AtReceive \<Longrightarrow>
    receiveAccessToken E (cs_clock s) (cs_cred s) (cs_world s) = ((e, c), w) \<Longrightarrow>
    cred_step E s (s\<lparr>cs_cred := c, cs_world := w, cs_callers := (cs_callers s)[i :=
      case e of None \<Rightarrow> AtRead | Some err \<Rightarrow> Returned (Inl (no_token err))]\<rparr>)"
| read: "i < length (cs_callers s) \<Longrightarrow> cs_callers s ! i = AtRead \<Longrightarrow>
    cred_step E s (s\<lparr>cs_callers := (cs_callers s)[i := Returned (Inr (bearer (cs_cred s)))]\<rparr>)"

section \<open>The connection to the platform\<close>

datatype DialOption =
    WithDefaultCallOptions int int bool      \<comment> \<open>MaxCallRecvMsgSize, MaxCallSendMsgSize, WaitForReady\<close>
  | WithInsecure
  | WithTransportCredentials                  \<comment> \<open>credentials.NewClientTLSFromCert\<close>
  | WithPerRPCCredentials tokenCredentials

definition dial_options :: "configuration_Replicator \<Rightarrow> error option \<Rightarrow> error + DialOption list" where
  "dial_options cfg SystemCertPool = (let limits = WithDefaultCallOptions (rp_MaxTransportMsg cfg) (rp_MaxTransportMsg cfg) True;
       auth = rp_Auth cfg
     in if au_Required auth
     then (case SystemCertPool of
         Some err \<Rightarrow> Inl (Wrap err ''failed get x509 SystemCertPool'')
       | None \<Rightarrow>
         (let httpClient = \<lparr>hc_InsecureSkipVerify = au_InsecureTLS auth, hc_Timeout = au_Timeout auth\<rparr>;
              perRPCCred = WithPerRPCCredentials (newTokenCredentials httpClient (au_URL auth) (au_Login auth) (au_Password auth)
                (au_RefreshOffset auth) (au_InsecureTLS auth));
              tlsOption = if au_InsecureTLS auth then WithInsecure else WithTransportCredentials
          in Inr [limits, tlsOption, perRPCCred]))
     else Inr [limits, WithInsecure])"

definition NewGRPCClientConnection :: "(string \<Rightarrow> DialOption list \<Rightarrow> error + 'conn) \<Rightarrow> configuration_Replicator \<Rightarrow> error option
    \<Rightarrow> 'conn option \<times> error option" where
  "NewGRPCClientConnection Dial cfg SystemCertPool = (case dial_options cfg SystemCertPool of
     Inl err \<Rightarrow> (None, Some err)
   | Inr options \<Rightarrow> (case Dial (rp_Addr cfg) options of
       Inl err \<Rightarrow> (None, Some (Wrap err ''failed to grpc.Dial''))
     | Inr conn \<Rightarrow> (Some conn, None)))"

definition GetClientConfiguration :: "string \<Rightarrow> configuration_Replicator" where
  "GetClientConfiguration addr = \<lparr>rp_PlatformVersion = 0, rp_Addr = addr, rp_MaxTransportMsg = 100500,
     rp_WaitForConnectionRecoveryTimeout = 0, rp_ContinuousPulseRetrievingHalfPulseSeconds = 0, rp_ParallelConnections = 0,
     rp_QueueLen = 0, rp_Auth = \<lparr>au_Required = False, au_URL = [], au_Login = [], au_Password = [], au_RefreshOffset = 0,
       au_Timeout = 0, au_InsecureTLS = False\<rparr>\<rparr>"

datatype connectivity = Idle | Connecting | Ready | TransientFailure | Shutdown_state

text \<open>The goroutine of \<open>NotifyShutdown\<close>: \<open>state k\<close> is what \<open>GetState\<close> answers in turn \<open>k\<close>, \<open>changes k\<close> what
  \<open>WaitForStateChange\<close> answers.  The result is the turn that sends the stop signal and the deferred calls of \<open>cancel\<close> that have piled
  up, or \<open>None\<close> while the goroutine is still in its loop.\<close>

fun notify_loop :: "(nat \<Rightarrow> connectivity) \<Rightarrow> (nat \<Rightarrow> bool) \<Rightarrow> nat \<Rightarrow> nat \<Rightarrow> nat \<Rightarrow> nat \<times> (nat option)" where
  "notify_loop state changes 0 k deferred = (deferred, None)"
| "notify_loop state changes (Suc fuel) k deferred =
     (if state k = TransientFailure
      then if \<not> changes k then (deferred + 1, Some k) else notify_loop state changes fuel (k + 1) (deferred + 1)
      else notify_loop state changes fuel (k + 1) deferred)"

definition NotifyShutdown :: "(nat \<Rightarrow> connectivity) \<Rightarrow> (nat \<Rightarrow> bool) \<Rightarrow> nat \<Rightarrow> nat \<times> (nat option)" where
  "NotifyShutdown state changes fuel = notify_loop state changes fuel 0 0"

section \<open>The connection to the database\<close>

record 'db pool_settings =
  ps_db :: 'db
  ps_MaxOpenConns :: int
  ps_MaxIdleConns :: int
  ps_ConnMaxLifetime :: int

definition Connect :: "(string \<Rightarrow> string \<Rightarrow> error + 'db) \<Rightarrow> configuration_DB \<Rightarrow> error + 'db pool_settings" where
  "Connect Open cfg = (case Open ''postgres'' (cd_URL cfg) of
     Inl err \<Rightarrow> Inl (Wrap err ''failed to open database'')
   | Inr db \<Rightarrow> Inr \<lparr>ps_db = db, ps_MaxOpenConns = cd_MaxOpenConns cfg, ps_MaxIdleConns = cd_MaxIdleConns cfg,
       ps_ConnMaxLifetime = cd_ConnMaxLifetime cfg\<rparr>)"

text \<open>\<open>driver.ErrBadConn\<close> of the standard library, and \<open>badConnectRegexp\<close>.\<close>

definition ErrBadConn :: error where
  "ErrBadConn = Err ''driver: bad connection''"

definition badConnectRegexp :: "string \<Rightarrow> bool" where
  "badConnectRegexp s \<longleftrightarrow> suffix ''connection refused'' s \<or> suffix ''invalid connection'' s"

fun defaultConnectionChecker :: "error list \<Rightarrow> bool" where
  "defaultConnectionChecker [] = False"
| "defaultConnectionChecker (err # errors) =
     (if err = ErrBadConn \<or> badConnectRegexp (Error err) then True else defaultConnectionChecker errors)"

record Shutdown =
  sd_badConnChecker :: "error list \<Rightarrow> bool"

definition NewDefaultShutdownPlugin :: Shutdown where
  "NewDefaultShutdownPlugin = \<lparr>sd_badConnChecker = defaultConnectionChecker\<rparr>"

definition NewShutdownPlugin :: "(error list \<Rightarrow> bool) \<Rightarrow> Shutdown" where
  "NewShutdownPlugin badConnChecker = \<lparr>sd_badConnChecker = badConnChecker\<rparr>"

text \<open>The kinds of statement the callback is registered for, and the callback: does it send the stop signal?  \<open>HasError\<close> is that
  the list of errors of the scope is not empty.\<close>

datatype callback_kind = OnCreate | OnUpdate | OnDelete | OnQuery | OnRowQuery

definition Apply :: "callback_kind list" where
  "Apply = [OnCreate, OnUpdate, OnDelete, OnQuery, OnRowQuery]"

definition shutdownCallback :: "Shutdown \<Rightarrow> error list \<Rightarrow> error option \<Rightarrow> bool" where
  "shutdownCallback shutdown errors Ping = (if errors \<noteq> []
     then if sd_badConnChecker shutdown errors then let connected = (Ping = None) in \<not> connected else False
     else False)"

section \<open>One caller\<close>

lemma receive_keeps:
  "receiveAccessToken E now c w = ((e, c'), w') \<Longrightarrow> c' = c\<lparr>tc_token := tc_token c'\<rparr> \<and> (e \<noteq> None \<longrightarrow> tc_token c' = tc_token c)
     \<and> (e = None \<longrightarrow> tk_ReceivedAt (tc_token c') = now \<and>
       (\<exists>body. Unmarshal E body = Inr (tk_AccessToken (tc_token c'), tk_ExpiresIn (tc_token c'))))"
  by (auto simp: receiveAccessToken_def split: sum.splits prod.splits if_splits)

text \<open>The calls of one client in a row, each with its two readings of the clock: was a token asked for, the token that is stored
  afterwards, and the answer.\<close>

record call_trace =
  cl_now :: int
  cl_refreshed :: bool
  cl_token :: Token
  cl_answer :: "error + (string, string) gomap"

fun metadata_run :: "'w http_env \<Rightarrow> (int \<times> int) list \<Rightarrow> tokenCredentials \<Rightarrow> 'w \<Rightarrow> call_trace list" where
  "metadata_run E [] c w = []"
| "metadata_run E ((now, later) # calls) c w =
     (let ((r, c'), w') = GetRequestMetadata E now later c w
      in \<lparr>cl_now = now, cl_refreshed = needNewToken now c, cl_token = tc_token c', cl_answer = r\<rparr> # metadata_run E calls c' w')"

definition refresh_times :: "call_trace list \<Rightarrow> int list" where
  "refresh_times tr = map (\<lambda>x. tk_ReceivedAt (cl_token x)) (filter cl_refreshed tr)"

text \<open>A service that answers every request with a token of the same life time.\<close>

definition service_ok :: "'w http_env \<Rightarrow> 64 word \<Rightarrow> bool" where
  "service_ok E expires \<longleftrightarrow> (\<forall>u. \<exists>url. ParseURL E u = Inr url) \<and> (\<forall>client req w. \<exists>body w' token.
     Do E client req w = (Inr \<lparr>hr_StatusCode = 200, hr_Body = Inr body\<rparr>, w') \<and> token \<noteq> [] \<and> Unmarshal E body = Inr (token, expires))"

lemma service_receive:
  assumes "service_ok E expires"
  obtains token w' where "token \<noteq> []" "receiveAccessToken E now c w =
    ((None, c\<lparr>tc_token := \<lparr>tk_AccessToken = token, tk_ExpiresIn = expires, tk_ReceivedAt = now\<rparr>\<rparr>), w')"
proof -
  obtain url where url: "ParseURL E (tc_authURL c) = Inr url"
    using assms unfolding service_ok_def by blast
  obtain body w' token where "Do E (tc_httpClient c) \<lparr>hq_Method = ''GET'', hq_URL = url, hq_BasicAuth = (tc_login c, tc_pass c)\<rparr> w =
      (Inr \<lparr>hr_StatusCode = 200, hr_Body = Inr body\<rparr>, w')" "token \<noteq> []" "Unmarshal E body = Inr (token, expires)"
    using assms unfolding service_ok_def by blast
  then show thesis
    using that [of token w'] url by (simp add: receiveAccessToken_def)
qed

text \<open>Within these bounds the arithmetic of the code does not wrap around.\<close>

definition plain_lifetime :: "64 word \<Rightarrow> 64 word \<Rightarrow> bool" where
  "plain_lifetime expires offset \<longleftrightarrow> 0 \<le> sint offset \<and> sint offset \<le> sint expires \<and> (sint expires - sint offset) * 1000000000 < 2 ^ 63"

lemma sint_64_eq: "- (2 ^ 63) \<le> n \<Longrightarrow> n < 2 ^ 63 \<Longrightarrow> sint (word_of_int n :: 64 word) = n"
  by (simp add: sint_sbintrunc' signed_take_bit_int_eq_self)

lemma plain_refresh_after:
  assumes "plain_lifetime (tk_ExpiresIn (tc_token c)) (tc_refreshOffset c)"
  shows "refresh_after c = (sint (tk_ExpiresIn (tc_token c)) - sint (tc_refreshOffset c)) * 1000000000"
proof -
  let ?e = "tk_ExpiresIn (tc_token c)" and ?r = "tc_refreshOffset c"
  have "(?e - ?r) * 1000000000 = word_of_int ((sint ?e - sint ?r) * 1000000000)"
    by simp
  then show ?thesis
    using assms by (simp add: refresh_after_def plain_lifetime_def sint_64_eq del: of_int_mult of_int_diff)
qed

definition holds_token :: "64 word \<Rightarrow> 64 word \<Rightarrow> tokenCredentials \<Rightarrow> bool" where
  "holds_token expires offset c \<longleftrightarrow> tc_refreshOffset c = offset \<and>
     (tk_AccessToken (tc_token c) \<noteq> [] \<longrightarrow> tk_ExpiresIn (tc_token c) = expires)"

lemma needNewToken_iff:
  assumes "plain_lifetime expires offset" and "holds_token expires offset c" and "tk_AccessToken (tc_token c) \<noteq> []"
  shows "needNewToken now c \<longleftrightarrow> tk_ReceivedAt (tc_token c) + (sint expires - sint offset) * 1000000000 < now"
  using assms plain_refresh_after [of c] by (simp add: needNewToken_def holds_token_def)

lemma metadata_call:
  assumes "service_ok E expires" and "holds_token expires offset c"
  shows "\<exists>c' w'. GetRequestMetadata E now later c w = ((Inr (bearer c'), c'), w') \<and> holds_token expires offset c' \<and>
    tk_AccessToken (tc_token c') \<noteq> [] \<and> (if needNewToken now c then tk_ReceivedAt (tc_token c') = later else c' = c)"
proof (cases "needNewToken now c")
  case True
  obtain token w' where "token \<noteq> []" "receiveAccessToken E later c w =
      ((None, c\<lparr>tc_token := \<lparr>tk_AccessToken = token, tk_ExpiresIn = expires, tk_ReceivedAt = later\<rparr>\<rparr>), w')"
    by (rule service_receive [OF assms(1)])
  then show ?thesis
    using True assms(2) by (simp add: GetRequestMetadata_def holds_token_def)
next
  case False
  then show ?thesis
    using assms(2) by (auto simp: GetRequestMetadata_def needNewToken_def)
qed

lemma metadata_run_ok:
  assumes "service_ok E expires" and "plain_lifetime expires offset" and "holds_token expires offset c"
    and "\<forall>(now, later) \<in> set calls. now \<le> later"
  shows "(\<forall>x \<in> set (metadata_run E calls c w). \<exists>t. cl_answer x = Inr [(''Authorization'', ''Bearer '' @ t)] \<and> t \<noteq> [] \<and>
      t = tk_AccessToken (cl_token x) \<and> cl_now x \<le> tk_ReceivedAt (cl_token x) + (sint expires - sint offset) * 1000000000) \<and>
    chained (\<lambda>s t. s + (sint expires - sint offset) * 1000000000 < t)
      ((if tk_AccessToken (tc_token c) = [] then [] else [tk_ReceivedAt (tc_token c)]) @ refresh_times (metadata_run E calls c w))"
  using assms(3,4)
proof (induction calls arbitrary: c w)
  case Nil
  then show ?case by (simp add: refresh_times_def)
next
  case (Cons call calls)
  let ?life = "(sint expires - sint offset) * 1000000000"
  obtain now later where call: "call = (now, later)" by (cases call)
  have life: "0 \<le> ?life" using assms(2) by (simp add: plain_lifetime_def)
  have le: "now \<le> later" using Cons.prems(2) call by simp
  obtain c' w' where step: "GetRequestMetadata E now later c w = ((Inr (bearer c'), c'), w')" "holds_token expires offset c'"
    "tk_AccessToken (tc_token c') \<noteq> []" "if needNewToken now c then tk_ReceivedAt (tc_token c') = later else c' = c"
    using metadata_call [OF assms(1) Cons.prems(1), of now later w] by blast
  note need = needNewToken_iff [OF assms(2) Cons.prems(1)]
  have ih: "(\<forall>x \<in> set (metadata_run E calls c' w'). \<exists>t. cl_answer x = Inr [(''Authorization'', ''Bearer '' @ t)] \<and> t \<noteq> [] \<and>
      t = tk_AccessToken (cl_token x) \<and> cl_now x \<le> tk_ReceivedAt (cl_token x) + ?life) \<and>
    chained (\<lambda>s t. s + ?life < t) (tk_ReceivedAt (tc_token c') # refresh_times (metadata_run E calls c' w'))"
    using Cons.IH [OF step(2), of w'] Cons.prems(2) step(3) by simp
  have run: "metadata_run E (call # calls) c w = \<lparr>cl_now = now, cl_refreshed = needNewToken now c, cl_token = tc_token c',
      cl_answer = Inr (bearer c')\<rparr> # metadata_run E calls c' w'"
    by (simp add: call step(1))
  show ?case
  proof (cases "needNewToken now c")
    case True
    then show ?thesis
      using ih step(3,4) need [of now] life le by (cases "tk_AccessToken (tc_token c) = []") (simp_all add: run refresh_times_def bearer_def)
  next
    case False
    then show ?thesis
      using ih step(3,4) need [of now] by (simp add: run refresh_times_def bearer_def)
  qed
qed


text \<open>An authorization service for concrete inputs: it answers with the number of requests so far as a token.\<close>

definition counting_service :: "64 word \<Rightarrow> nat http_env" where
  "counting_service expires = \<lparr>ParseURL = Inr, Unmarshal = (\<lambda>body. Inr (map (\<lambda>b. char_of (unat b)) body, expires)),
     Do = (\<lambda>client req n. (Inr \<lparr>hr_StatusCode = 200, hr_Body = Inr [48 + of_nat n]\<rparr>, n + 1))\<rparr>"

lemma counting_service_ok: "service_ok (counting_service expires) expires"
  by (simp add: service_ok_def counting_service_def)

definition auth_calls :: "(int \<times> int) list" where
  "auth_calls = [(0, 1), (100000000000, 100000000000), (240000000001, 240000000002), (240000000003, 300000000000), (500000000000, 500000000000)]"

lemma auth_calls_trace:
  "map (\<lambda>x. (cl_answer x, cl_refreshed x))
     (metadata_run (counting_service 300) auth_calls (newTokenCredentials client [] [] [] 60 False) 0) =
   [(Inr [(''Authorization'', ''Bearer 0'')], True), (Inr [(''Authorization'', ''Bearer 0'')], False),
    (Inr [(''Authorization'', ''Bearer 0'')], False), (Inr [(''Authorization'', ''Bearer 1'')], True),
    (Inr [(''Authorization'', ''Bearer 1'')], False)]"
  by (simp add: auth_calls_def GetRequestMetadata_def needNewToken_def newTokenCredentials_def receiveAccessToken_def
    counting_service_def refresh_after_def bearer_def char_of_def bit_0)


text \<open>A life time of about 292 years and more overflows the duration: the token is taken for stale as soon as it is there.\<close>

lemma refresh_after_wraps:
  assumes "9223372037 \<le> sint (tk_ExpiresIn (tc_token c)) - sint (tc_refreshOffset c)"
    and "sint (tk_ExpiresIn (tc_token c)) - sint (tc_refreshOffset c) \<le> 18446744073"
  shows "refresh_after c < 0"
proof -
  let ?d = "sint (tk_ExpiresIn (tc_token c)) - sint (tc_refreshOffset c)"
  have "(tk_ExpiresIn (tc_token c) - tc_refreshOffset c) * 1000000000 = word_of_int (?d * 1000000000)"
    by simp
  moreover have "(x + 2 ^ 63) mod 2 ^ 64 - 2 ^ 63 = x - 2 ^ 64" if "2 ^ 63 \<le> x" "x < 2 ^ 64" for x :: int
    using that by (simp add: mod_pos_geq)
  ultimately have "refresh_after c = ?d * 1000000000 - 2 ^ 64"
    using assms unfolding refresh_after_def by (simp add: int_word_sint del: of_int_mult of_int_diff)
  then show ?thesis
    using assms by simp
qed

theorem long_lived_token_always_stale:
  assumes "9223372037 \<le> sint (tk_ExpiresIn (tc_token c)) - sint (tc_refreshOffset c)"
    and "sint (tk_ExpiresIn (tc_token c)) - sint (tc_refreshOffset c) \<le> 18446744073" and "tk_ReceivedAt (tc_token c) \<le> now"
  shows "needNewToken now c"
  using refresh_after_wraps [OF assms(1,2)] assms(3) by (simp add: needNewToken_def)

section \<open>Many callers\<close>

definition issued :: "'w http_env \<Rightarrow> string set" where
  "issued E = {t. \<exists>body expires. Unmarshal E body = Inr (t, expires)}"

definition cred_inv :: "'w http_env \<Rightarrow> Token \<Rightarrow> 'w cred_state \<Rightarrow> bool" where
  "cred_inv E t0 s \<longleftrightarrow> (tc_token (cs_cred s) = t0 \<or> tk_AccessToken (tc_token (cs_cred s)) \<in> issued E) \<and>
     (\<forall>m. Returned (Inr m) \<in> set (cs_callers s) \<longrightarrow>
        (\<exists>t. m = [(''Authorization'', ''Bearer '' @ t)] \<and> (t = tk_AccessToken t0 \<or> t \<in> issued E)))"

lemma cred_inv_step: "cred_step E s s' \<Longrightarrow> cred_inv E t0 s \<Longrightarrow> cred_inv E t0 s'"
proof (induction rule: cred_step.induct)
  case (receive i s e c w)
  note tok = receive_keeps [OF receive.hyps(3)]
  have "tc_token c = t0 \<or> tk_AccessToken (tc_token c) \<in> issued E"
    using tok receive.prems by (cases e) (auto simp: cred_inv_def issued_def)
  then show ?case
    using receive.prems set_update_subset_insert [of "cs_callers s" i] by (auto simp: cred_inv_def split: option.splits) 
next
  case (check i s)
  then show ?case
    using set_update_subset_insert [of "cs_callers s" i] by (auto simp: cred_inv_def split: if_splits)
next
  case (read i s)
  then show ?case
    using set_update_subset_insert [of "cs_callers s" i "Returned (Inr (bearer (cs_cred s)))"]
    by (auto simp: cred_inv_def bearer_def)
qed (simp add: cred_inv_def)

lemma cred_inv_reachable: "(cred_step E)\<^sup>*\<^sup>* s s' \<Longrightarrow> cred_inv E t0 s \<Longrightarrow> cred_inv E t0 s'"
  by (induction rule: rtranclp_induct) (auto intro: cred_inv_step)

theorem callers_get_issued_tokens:
  assumes "(cred_step E)\<^sup>*\<^sup>* \<lparr>cs_cred = c, cs_clock = t, cs_world = w, cs_callers = replicate n AtCheck\<rparr> s"
    and "Returned (Inr m) \<in> set (cs_callers s)"
  shows "\<exists>t. m = [(''Authorization'', ''Bearer '' @ t)] \<and> (t = tk_AccessToken (tc_token c) \<or> t \<in> issued E)"
proof -
  have "cred_inv E (tc_token c) \<lparr>cs_cred = c, cs_clock = t, cs_world = w, cs_callers = replicate n AtCheck\<rparr>"
    by (auto simp: cred_inv_def)
  from cred_inv_reachable [OF assms(1) this] assms(2) show ?thesis
    by (auto simp: cred_inv_def)
qed

text \<open>Callers that have found the token stale do not look again once they hold the lock: each of them asks for a new one.\<close>

theorem stale_callers_all_ask:
  "\<exists>s. (cred_step (counting_service 300))\<^sup>*\<^sup>* \<lparr>cs_cred = newTokenCredentials client [] [] [] 60 False, cs_clock = 0, cs_world = 0,
     cs_callers = [AtCheck, AtCheck]\<rparr> s \<and> cs_world s = 2"
proof -
  let ?E = "counting_service 300"
  let ?c = "newTokenCredentials client [] [] [] 60 False"
  let ?s = "\<lambda>c w cs. \<lparr>cs_cred = c, cs_clock = 0, cs_world = w :: nat, cs_callers = cs\<rparr>"
  obtain t1 w1 where r1: "receiveAccessToken ?E 0 ?c 0 = ((None, t1), 1)"
    by (simp add: receiveAccessToken_def counting_service_def)
  obtain t2 where r2: "receiveAccessToken ?E 0 t1 1 = ((None, t2), 2)"
    by (simp add: receiveAccessToken_def counting_service_def)
  have "cred_step ?E (?s ?c 0 [AtCheck, AtCheck]) (?s ?c 0 [AtReceive, AtCheck])"
    using cred_step.check [of 0 "?s ?c 0 [AtCheck, AtCheck]" ?E] by (simp add: needNewToken_def newTokenCredentials_def)
  moreover have "cred_step ?E (?s ?c 0 [AtReceive, AtCheck]) (?s ?c 0 [AtReceive, AtReceive])"
    using cred_step.check [of 1 "?s ?c 0 [AtReceive, AtCheck]" ?E] by (simp add: needNewToken_def newTokenCredentials_def)
  moreover have "cred_step ?E (?s ?c 0 [AtReceive, AtReceive]) (?s t1 1 [AtRead, AtReceive])"
    using cred_step.receive [of 0 "?s ?c 0 [AtReceive, AtReceive]" ?E] r1 by simp
  moreover have "cred_step ?E (?s t1 1 [AtRead, AtReceive]) (?s t2 2 [AtRead, AtRead])"
    using cred_step.receive [of 1 "?s t1 1 [AtRead, AtReceive]" ?E] r2 by simp
  ultimately have "(cred_step ?E)\<^sup>*\<^sup>* (?s ?c 0 [AtCheck, AtCheck]) (?s t2 2 [AtRead, AtRead])"
    by (meson converse_rtranclp_into_rtranclp rtranclp.rtrancl_refl)
  then show ?thesis
    by (rule exI [where x = "?s t2 2 [AtRead, AtRead]", OF conjI]) simp
qed

section \<open>The options of the connection\<close>

text \<open>What \<open>grpc.Dial\<close> demands of its options: a connection is either insecure or has transport credentials, and credentials that
  require transport security go with the latter.\<close>

definition dial_accepts :: "DialOption list \<Rightarrow> bool" where
  "dial_accepts options \<longleftrightarrow> (WithInsecure \<in> set options \<longleftrightarrow> WithTransportCredentials \<notin> set options) \<and>
     (\<forall>c. WithPerRPCCredentials c \<in> set options \<and> RequireTransportSecurity c \<longrightarrow> WithTransportCredentials \<in> set options)"

theorem dial_options_ok:
  assumes "dial_options cfg certs = Inr options"
  shows "dial_accepts options \<and>
    (\<forall>c. WithPerRPCCredentials c \<in> set options \<and> \<not> au_InsecureTLS (rp_Auth cfg) \<longrightarrow>
       WithTransportCredentials \<in> set options \<and> \<not> hc_InsecureSkipVerify (tc_httpClient c)) \<and>
    ((\<exists>c. WithPerRPCCredentials c \<in> set options) \<longleftrightarrow> au_Required (rp_Auth cfg))"
  using assms by (auto simp: dial_options_def dial_accepts_def Let_def RequireTransportSecurity_def newTokenCredentials_def
    split: if_splits option.splits)

section \<open>Watching the connections\<close>

lemma all_from_Suc: "(\<forall>i. k \<le> i \<and> i < n \<longrightarrow> P i) \<longleftrightarrow> (k < n \<longrightarrow> P k) \<and> (\<forall>i. Suc k \<le> i \<and> i < n \<longrightarrow> P i)" for k :: nat
  by (metis Suc_le_eq le_less_trans le_neq_implies_less less_imp_le order_refl)

lemma notify_loop_spec:
  "snd (notify_loop state changes fuel k d) = Some n \<longleftrightarrow>
     k \<le> n \<and> n < k + fuel \<and> state n = TransientFailure \<and> \<not> changes n \<and> (\<forall>i. k \<le> i \<and> i < n \<longrightarrow> state i = TransientFailure \<longrightarrow> changes i)"
proof (induction fuel arbitrary: k d)
  case (Suc fuel)
  show ?case
  proof (cases "state k = TransientFailure \<and> \<not> changes k")
    case True
    then show ?thesis by (auto simp: dest: spec [of _ k])
  next
    case False
    then have "snd (notify_loop state changes (Suc fuel) k d) = Some n \<longleftrightarrow> (\<exists>d. snd (notify_loop state changes fuel (Suc k) d) = Some n)"
      by (auto simp: Suc.IH)
    also have "\<dots> \<longleftrightarrow> Suc k \<le> n \<and> n < Suc k + fuel \<and> state n = TransientFailure \<and> \<not> changes n \<and>
        (\<forall>i. Suc k \<le> i \<and> i < n \<longrightarrow> state i = TransientFailure \<longrightarrow> changes i)"
      by (simp only: Suc.IH simp_thms)
    also have "\<dots> \<longleftrightarrow> k \<le> n \<and> n < k + Suc fuel \<and> state n = TransientFailure \<and> \<not> changes n \<and>
        (\<forall>i. k \<le> i \<and> i < n \<longrightarrow> state i = TransientFailure \<longrightarrow> changes i)"
      using False by (subst (2) all_from_Suc) (auto simp: Suc_le_eq le_less)
    finally show ?thesis .
  qed
qed auto

theorem NotifyShutdown_correct:
  "snd (NotifyShutdown state changes fuel) = Some n \<longleftrightarrow>
     n < fuel \<and> state n = TransientFailure \<and> \<not> changes n \<and> (\<forall>i < n. state i = TransientFailure \<longrightarrow> changes i)"
  by (simp add: NotifyShutdown_def notify_loop_spec)

text \<open>The calls of \<open>cancel\<close> deferred in the loop pile up as long as the connection keeps recovering.\<close>

lemma notify_loop_recovering: "notify_loop (\<lambda>_. TransientFailure) (\<lambda>_. True) n k d = (d + n, None)"
  by (induction n arbitrary: k d) auto

lemma NotifyShutdown_leaks: "NotifyShutdown (\<lambda>_. TransientFailure) (\<lambda>_. True) n = (n, None)"
  by (simp add: NotifyShutdown_def notify_loop_recovering)

lemma defaultConnectionChecker_iff:
  "defaultConnectionChecker errors \<longleftrightarrow> (\<exists>err \<in> set errors. err = ErrBadConn \<or> badConnectRegexp (Error err))"
  by (induction errors) auto

lemma shutdownCallback_iff:
  "shutdownCallback NewDefaultShutdownPlugin errors ping \<longleftrightarrow>
     (\<exists>err \<in> set errors. err = ErrBadConn \<or> badConnectRegexp (Error err)) \<and> ping \<noteq> None"
  by (auto simp: shutdownCallback_def NewDefaultShutdownPlugin_def defaultConnectionChecker_iff)

end
