(* ===== verification/Program.thy ===== *)
theory Program
  imports Processor Connection
begin

text \<open>The three programs of \<open>cmd\<close>: they load a configuration, start components one after the other, wait, and stop the components
  in deferred calls.  The main goroutine, the goroutines that send on the unbuffered \<open>stopChannel\<close> and the pool of the processor
  interleave.  An error that is fatal ends the process at once, without the deferred calls; that is what \<open>Fatal\<close> of the
  logging library does.\<close>

section \<open>Programs\<close>

datatype component = C_profefe | C_router | C_client | C_extractor | C_transformer | C_db | C_controller | C_processor | C_server

text \<open>The components in the order they are started, those with a deferred stop, those whose error on stop is fatal, and how the
  program waits: on the stop channel and for a signal, for a signal only, or in a server whose end is fatal.\<close>

datatype waiting = ChannelOrSignal | SignalOnly | Serving_forever

record program =
  pg_boot :: "component list"
  pg_ignore_start :: "component list"
  pg_deferred :: "component list"
  pg_fatal_stop :: "component list"
  pg_waiting :: waiting

definition block_explorer_main :: program where
  "block_explorer_main = \<lparr>pg_boot = [C_profefe, C_router, C_client, C_extractor, C_transformer, C_db, C_controller, C_processor],
     pg_ignore_start = [C_router],
     pg_deferred = [C_profefe, C_router, C_client, C_extractor, C_transformer, C_db, C_controller, C_processor],
     pg_fatal_stop = [C_router, C_extractor, C_transformer, C_controller, C_processor], pg_waiting = ChannelOrSignal\<rparr>"

definition exporter_api_main :: program where
  "exporter_api_main = \<lparr>pg_boot = [C_profefe, C_db, C_server], pg_ignore_start = [], pg_deferred = [C_profefe, C_server],
     pg_fatal_stop = [], pg_waiting = SignalOnly\<rparr>"

definition api_main :: program where
  "api_main = \<lparr>pg_boot = [C_profefe, C_router, C_db], pg_ignore_start = [], pg_deferred = [C_profefe], pg_fatal_stop = [],
     pg_waiting = Serving_forever\<rparr>"

section \<open>The process\<close>

text \<open>Where the main goroutine is.  \<open>MainSends\<close> is a start that lost the database and sends on the stop channel from the main
  goroutine itself, \<open>AtSelect\<close> is \<open>graceful\<close>, \<open>Deferred\<close> has the stops still to run.\<close>

datatype main_pc = Loading | Starting "component list" | MainSends "component list" | AtSelect | Serving
  | Deferred "component list" | Exited nat | Panicked

datatype main_event = EvStart component | EvStop component

text \<open>\<open>mn_senders\<close> counts the goroutines of the connection, the extractor and the controller that wait to send on the stop channel,
  \<open>mn_blocked\<close> is the set of workers of the pool that do so inside a call of the database.\<close>

record 'jd main_state =
  mn_pc :: main_pc
  mn_started :: "component list"
  mn_trace :: "main_event list"
  mn_senders :: nat
  mn_pool :: "'jd pool"
  mn_blocked :: "nat set"

definition main_init :: "int \<Rightarrow> 'jd main_state" where
  "main_init workers = \<lparr>mn_pc = Loading, mn_started = [], mn_trace = [], mn_senders = 0, mn_pool = pool_Start workers, mn_blocked = {}\<rparr>"

text \<open>The lock of the pool is free.\<close>

definition unlocked :: "'jd pool \<Rightarrow> bool" where
  "unlocked p \<longleftrightarrow> (case pl_feeder p of SendingTask jd \<Rightarrow> False | _ \<Rightarrow> True)"

definition stop_component :: "component \<Rightarrow> 'jd main_state \<Rightarrow> 'jd main_state" where
  "stop_component c s = s\<lparr>mn_trace := mn_trace s @ [EvStop c], mn_pool := if c = C_processor then deactivate (mn_pool s) else mn_pool s\<rparr>"

inductive main_step :: "program \<Rightarrow> 'jd main_state \<Rightarrow> 'jd main_state \<Rightarrow> bool" for P where
  load_panic: "mn_pc s = Loading \<Longrightarrow> main_step P s (s\<lparr>mn_pc := Panicked\<rparr>)"
| loaded: "mn_pc s = Loading \<Longrightarrow> main_step P s (s\<lparr>mn_pc := Starting (pg_boot P)\<rparr>)"
| start_ok: "mn_pc s = Starting (c # cs) \<Longrightarrow>
    main_step P s (s\<lparr>mn_pc := Starting cs, mn_started := mn_started s @ [c], mn_trace := mn_trace s @ [EvStart c]\<rparr>)"
| start_fatal: "mn_pc s = Starting (c # cs) \<Longrightarrow> c \<notin> set (pg_ignore_start P) \<Longrightarrow> main_step P s (s\<lparr>mn_pc := Exited 1\<rparr>)"
| start_loses_db: "mn_pc s = Starting (C_controller # cs) \<Longrightarrow> shutdownCallback NewDefaultShutdownPlugin errs ping \<Longrightarrow>
    main_step P s (s\<lparr>mn_pc := MainSends (C_controller # cs)\<rparr>)"
| ready: "mn_pc s = Starting [] \<Longrightarrow> main_step P s (s\<lparr>mn_pc := if pg_waiting P = Serving_forever then Serving else AtSelect\<rparr>)"
| server_ends: "mn_pc s = Serving \<Longrightarrow> main_step P s (s\<lparr>mn_pc := Exited 1\<rparr>)"
| killed: "(\<exists>cs. mn_pc s = Starting cs \<or> mn_pc s = MainSends cs) \<or> mn_pc s = Loading \<or> mn_pc s = Serving \<Longrightarrow>
    main_step P s (s\<lparr>mn_pc := Exited 2\<rparr>)"
| sender: "set (mn_started s) \<inter> {C_client, C_extractor, C_controller} \<noteq> {} \<Longrightarrow> (\<And>n. mn_pc s \<noteq> Exited n) \<Longrightarrow>
    main_step P s (s\<lparr>mn_senders := mn_senders s + 1\<rparr>)"
| pool_moves: "C_processor \<in> set (mn_started s) \<Longrightarrow> (\<And>n. mn_pc s \<noteq> Exited n) \<Longrightarrow> pool_step (mn_pool s) p \<Longrightarrow>
    pl_active p = pl_active (mn_pool s) \<or> pl_feeder p = FeederDone \<Longrightarrow>
    (\<And>i. i \<in> mn_blocked s \<Longrightarrow> pl_workers p ! i = pl_workers (mn_pool s) ! i) \<Longrightarrow> main_step P s (s\<lparr>mn_pool := p\<rparr>)"
| worker_blocks: "C_processor \<in> set (mn_started s) \<Longrightarrow> (\<And>n. mn_pc s \<noteq> Exited n) \<Longrightarrow> i < length (pl_workers (mn_pool s)) \<Longrightarrow>
    pl_workers (mn_pool s) ! i = Processing jd \<Longrightarrow> shutdownCallback NewDefaultShutdownPlugin errs ping \<Longrightarrow>
    main_step P s (s\<lparr>mn_blocked := insert i (mn_blocked s)\<rparr>)"
| recv_sender: "mn_pc s = AtSelect \<Longrightarrow> pg_waiting P = ChannelOrSignal \<Longrightarrow> 0 < mn_senders s \<Longrightarrow>
    main_step P s (s\<lparr>mn_pc := Deferred (rev (filter (\<lambda>c. c \<in> set (pg_deferred P)) (mn_started s))), mn_senders := mn_senders s - 1\<rparr>)"
| recv_worker: "mn_pc s = AtSelect \<Longrightarrow> pg_waiting P = ChannelOrSignal \<Longrightarrow> i \<in> mn_blocked s \<Longrightarrow>
    main_step P s (s\<lparr>mn_pc := Deferred (rev (filter (\<lambda>c. c \<in> set (pg_deferred P)) (mn_started s))), mn_blocked := mn_blocked s - {i}\<rparr>)"
| signal: "mn_pc s = AtSelect \<Longrightarrow>
    main_step P s (s\<lparr>mn_pc := Deferred (rev (filter (\<lambda>c. c \<in> set (pg_deferred P)) (mn_started s)))\<rparr>)"
| stop_ok: "mn_pc s = Deferred (c # cs) \<Longrightarrow> (c = C_processor \<Longrightarrow> unlocked (mn_pool s)) \<Longrightarrow>
    main_step P s ((stop_component c s)\<lparr>mn_pc := Deferred cs\<rparr>)"
| stop_fatal: "mn_pc s = Deferred (c # cs) \<Longrightarrow> (c = C_processor \<Longrightarrow> unlocked (mn_pool s)) \<Longrightarrow> c \<in> set (pg_fatal_stop P) \<Longrightarrow>
    main_step P s ((stop_component c s)\<lparr>mn_pc := Exited 1\<rparr>)"
| finished: "mn_pc s = Deferred [] \<Longrightarrow> main_step P s (s\<lparr>mn_pc := Exited 0\<rparr>)"

inductive_cases main_stepE: "main_step P s s'"

section \<open>Order of starts and stops\<close>

definition deferred_stops :: "program \<Rightarrow> component list" where
  "deferred_stops P = rev (filter (\<lambda>c. c \<in> set (pg_deferred P)) (pg_boot P))"

definition stopping :: "program \<Rightarrow> 'jd main_state \<Rightarrow> component list \<Rightarrow> bool" where
  "stopping P s cs \<longleftrightarrow> mn_started s = pg_boot P \<and>
     (\<exists>ds. deferred_stops P = ds @ cs \<and> mn_trace s = map EvStart (pg_boot P) @ map EvStop ds)"

definition main_inv :: "program \<Rightarrow> 'jd main_state \<Rightarrow> bool" where
  "main_inv P s \<longleftrightarrow> (case mn_pc s of
     Loading \<Rightarrow> mn_started s = [] \<and> mn_trace s = []
   | Starting cs \<Rightarrow> mn_started s @ cs = pg_boot P \<and> mn_trace s = map EvStart (mn_started s)
   | MainSends cs \<Rightarrow> mn_started s @ cs = pg_boot P \<and> mn_trace s = map EvStart (mn_started s)
   | AtSelect \<Rightarrow> mn_started s = pg_boot P \<and> mn_trace s = map EvStart (pg_boot P) \<and> pg_waiting P \<noteq> Serving_forever
   | Serving \<Rightarrow> mn_started s = pg_boot P \<and> mn_trace s = map EvStart (pg_boot P) \<and> pg_waiting P = Serving_forever
   | Deferred cs \<Rightarrow> stopping P s cs \<and> pg_waiting P \<noteq> Serving_forever
   | Exited n \<Rightarrow> (n = 0 \<longrightarrow> stopping P s [] \<and> pg_waiting P \<noteq> Serving_forever) \<and>
       ((\<exists>m. mn_trace s = map EvStart (take m (pg_boot P))) \<or>
        (\<exists>m. mn_trace s = map EvStart (pg_boot P) @ map EvStop (take m (deferred_stops P))) \<and> pg_waiting P \<noteq> Serving_forever)
   | Panicked \<Rightarrow> mn_trace s = [])"

lemma started_take: "xs @ ys = zs \<Longrightarrow> \<exists>m. map f xs = map f (take m zs)"
  by (metis append_eq_conv_conj)

lemma stopping_take: "stopping P s cs \<Longrightarrow> \<exists>m. mn_trace s = map EvStart (pg_boot P) @ map EvStop (take m (deferred_stops P))"
  unfolding stopping_def by (metis append_eq_conv_conj)

lemma stopping_begins:
  "mn_started s = pg_boot P \<Longrightarrow> mn_trace s = map EvStart (pg_boot P) \<Longrightarrow>
   stopping P s (rev (filter (\<lambda>c. c \<in> set (pg_deferred P)) (pg_boot P)))"
  by (simp add: stopping_def deferred_stops_def)

lemma stopping_next: "stopping P s (c # cs) \<Longrightarrow> stopping P (stop_component c s) cs"
proof -
  assume "stopping P s (c # cs)"
  then obtain ds where "mn_started s = pg_boot P" "deferred_stops P = (ds @ [c]) @ cs" "mn_trace s = map EvStart (pg_boot P) @ map EvStop ds"
    by (auto simp: stopping_def)
  then show ?thesis
    unfolding stopping_def by (intro conjI exI [of _ "ds @ [c]"]) (simp_all add: stop_component_def)
qed

lemma stopping_pc [simp]: "stopping P (s\<lparr>mn_pc := q\<rparr>) = stopping P s" "stopping P (s\<lparr>mn_senders := n\<rparr>) = stopping P s"
  "stopping P (s\<lparr>mn_blocked := b\<rparr>) = stopping P s" "stopping P (s\<lparr>mn_pool := p\<rparr>) = stopping P s"
  by (simp_all add: stopping_def fun_eq_iff)

lemma main_inv_step: "main_step P s s' \<Longrightarrow> main_inv P s \<Longrightarrow> main_inv P s'"
proof (induction rule: main_step.induct)
  case (start_fatal s c cs)
  then show ?case using started_take [of "mn_started s" "c # cs" "pg_boot P" EvStart] by (simp add: main_inv_def)
next
  case (killed s)
  have "\<exists>cs. mn_started s @ cs = pg_boot P \<and> mn_trace s = map EvStart (mn_started s)"
    using killed by (auto simp: main_inv_def)
  then show ?case using started_take [of "mn_started s" _ "pg_boot P" EvStart] by (fastforce simp: main_inv_def)
next
  case (server_ends s)
  then show ?case using exI [of "\<lambda>m. mn_trace s = map EvStart (take m (pg_boot P))" "length (pg_boot P)"] by (auto simp: main_inv_def)
next
  case (stop_fatal s c cs)
  then show ?case using stopping_take [OF stopping_next [of P s c cs]] by (simp add: main_inv_def stop_component_def)
next
  case (stop_ok s c cs)
  then show ?case using stopping_next [of P s c cs] by (simp add: main_inv_def)
next
  case (finished s)
  then show ?case using stopping_take [of P s "[]"] by (simp add: main_inv_def)
qed (auto simp: main_inv_def stopping_begins split: main_pc.splits)

lemma main_inv_reachable: "(main_step P)\<^sup>*\<^sup>* (main_init n) s \<Longrightarrow> main_inv P s"
proof (induction rule: rtranclp_induct)
  case base
  then show ?case by (simp add: main_inv_def main_init_def)
qed (rule main_inv_step)

text \<open>A program that ends normally has started its components in order and stopped those with a deferred stop in the reverse
  order, each once; a program that ends otherwise has done a part of this.\<close>

theorem stops_reverse_starts:
  assumes "(main_step P)\<^sup>*\<^sup>* (main_init n) s" and "mn_pc s = Exited code"
  shows "(code = 0 \<longrightarrow> mn_trace s = map EvStart (pg_boot P) @ map EvStop (deferred_stops P)) \<and>
    (\<exists>k m. mn_trace s = map EvStart (take k (pg_boot P)) @ map EvStop (take m (deferred_stops P)) \<and> (m \<noteq> 0 \<longrightarrow> length (pg_boot P) \<le> k))"
proof -
  have inv: "main_inv P s" by (rule main_inv_reachable [OF assms(1)])
  then have "code = 0 \<Longrightarrow> stopping P s []" using assms(2) by (simp add: main_inv_def)
  moreover have "\<exists>k m. mn_trace s = map EvStart (take k (pg_boot P)) @ map EvStop (take m (deferred_stops P)) \<and> (m \<noteq> 0 \<longrightarrow> length (pg_boot P) \<le> k)"
    using inv assms(2) by (fastforce simp: main_inv_def intro: exI [of _ "length (pg_boot P)"] exI [of _ 0])
  ultimately show ?thesis
    by (auto simp: stopping_def)
qed

text \<open>The API server leaves its deferred stop out: its main goroutine ends in a fatal error.\<close>

lemma api_main_never_stops:
  assumes "(main_step api_main)\<^sup>*\<^sup>* (main_init n) s"
  shows "EvStop c \<notin> set (mn_trace s)"
  using main_inv_reachable [OF assms] by (auto simp: main_inv_def api_main_def split: main_pc.splits)

section \<open>Losing the database\<close>

lemma main_sends_step:
  "main_step P s s' \<Longrightarrow> mn_pc s = MainSends cs \<or> mn_pc s = Exited 2 \<Longrightarrow>
   (mn_pc s' = MainSends cs \<or> mn_pc s' = Exited 2) \<and> mn_trace s' = mn_trace s"
  by (elim main_stepE) auto

text \<open>When the start of the controller loses the database, the main goroutine waits forever for somebody to receive its own
  stop signal: only a signal that kills the process ends it, and nothing is stopped.\<close>

theorem startup_loss_blocks:
  assumes "(main_step P)\<^sup>*\<^sup>* s s'" and "mn_pc s = MainSends cs"
  shows "(mn_pc s' = MainSends cs \<or> mn_pc s' = Exited 2) \<and> mn_trace s' = mn_trace s"
  using assms by (induction rule: rtranclp_induct) (auto dest: main_sends_step)

text \<open>All workers wait to send on the stop channel or to put a task back, and the feeder holds the lock.\<close>

definition all_stuck :: "'jd main_state \<Rightarrow> bool" where
  "all_stuck s \<longleftrightarrow> \<not> pl_closed (mn_pool s) \<and> (\<exists>jd. pl_feeder (mn_pool s) = SendingTask jd) \<and>
     (\<forall>i < length (pl_workers (mn_pool s)). (\<exists>jd. pl_workers (mn_pool s) ! i = PuttingBack jd) \<or>
        (\<exists>jd. pl_workers (mn_pool s) ! i = Processing jd) \<and> i \<in> mn_blocked s)"

lemma all_stuck_pool:
  assumes "pool_step (mn_pool s) p" and "all_stuck s" and "\<And>i. i \<in> mn_blocked s \<Longrightarrow> pl_workers p ! i = pl_workers (mn_pool s) ! i"
  shows "pl_workers p = pl_workers (mn_pool s) \<and> pl_feeder p = pl_feeder (mn_pool s) \<and> pl_closed p = pl_closed (mn_pool s)"
  using assms(1)
proof cases
  case (worker_ok i jd)
  then show ?thesis using assms(2) assms(3) [of i] by (auto simp: all_stuck_def)
next
  case (worker_fail i jd)
  then show ?thesis using assms(2) assms(3) [of i] by (auto simp: all_stuck_def)
next
  case (feeder_send jd i)
  then show ?thesis using assms(2) by (auto simp: all_stuck_def)
next
  case (worker_put_back i k jd)
  then show ?thesis using assms(2) by (auto simp: all_stuck_def)
qed (use assms(2) in \<open>auto simp: all_stuck_def\<close>)

lemma shutdown_stuck_step:
  assumes "main_step P s s'" and "mn_pc s = Deferred (C_processor # cs)" and "all_stuck s"
  shows "mn_pc s' = Deferred (C_processor # cs) \<and> all_stuck s'"
  using assms(1)
proof cases
  case (pool_moves p)
  then show ?thesis
    using assms(2,3) all_stuck_pool [OF pool_moves(4) assms(3) pool_moves(6)] by (simp add: all_stuck_def)
qed (use assms(2,3) in \<open>auto simp: all_stuck_def unlocked_def\<close>)

text \<open>C23: once the program stops its components while every worker waits in the callback of the lost database or with a failed task,
  and the feeder holds the lock of the pool, the stop of the processor never returns: whatever happens, signals included,
  the program stays there.\<close>

theorem db_loss_blocks_shutdown:
  assumes "(main_step P)\<^sup>*\<^sup>* s s'" and "mn_pc s = Deferred (C_processor # cs)" and "all_stuck s"
  shows "mn_pc s' = Deferred (C_processor # cs)"
proof -
  have "mn_pc s' = Deferred (C_processor # cs) \<and> all_stuck s'"
    using assms(1)
  proof (induction rule: rtranclp_induct)
    case base
    show ?case using assms(2,3) by simp
  next
    case (step y z)
    then show ?case using shutdown_stuck_step by blast
  qed
  then show ?thesis ..
qed

section \<open>Witnesses\<close>

abbreviation main_at :: "main_pc \<Rightarrow> component list \<Rightarrow> main_event list \<Rightarrow> nat \<Rightarrow> nat pool \<Rightarrow> nat set \<Rightarrow> nat main_state" where
  "main_at pc st tr k p b \<equiv> \<lparr>mn_pc = pc, mn_started = st, mn_trace = tr, mn_senders = k, mn_pool = p, mn_blocked = b\<rparr>"

lemma starts: "(main_step P)\<^sup>*\<^sup>* (main_at (Starting (xs @ ys)) st tr k p b) (main_at (Starting ys) (st @ xs) (tr @ map EvStart xs) k p b)"
proof (induction xs arbitrary: st tr)
  case (Cons c xs)
  have "main_step P (main_at (Starting (c # xs @ ys)) st tr k p b) (main_at (Starting (xs @ ys)) (st @ [c]) (tr @ [EvStart c]) k p b)"
    using start_ok [of "main_at (Starting (c # xs @ ys)) st tr k p b" c "xs @ ys" P] by simp
  from converse_rtranclp_into_rtranclp [OF this Cons.IH] show ?case by simp
qed simp

lemma stops:
  "C_processor \<notin> set cs \<Longrightarrow> (main_step P)\<^sup>*\<^sup>* (main_at (Deferred cs) st tr k p b) (main_at (Deferred []) st (tr @ map EvStop cs) k p b)"
proof (induction cs arbitrary: tr)
  case (Cons c cs)
  have "main_step P (main_at (Deferred (c # cs)) st tr k p b) (main_at (Deferred cs) st (tr @ [EvStop c]) k p b)"
    using stop_ok [of "main_at (Deferred (c # cs)) st tr k p b" c cs P] Cons.prems
    by (cases "c = C_processor") (simp_all add: stop_component_def)
  from converse_rtranclp_into_rtranclp [OF this Cons.IH] Cons.prems show ?case by simp
qed simp

lemma boots:
  assumes "pg_boot P = xs @ ys"
  shows "(main_step P)\<^sup>*\<^sup>* (main_init n) (main_at (Starting ys) xs (map EvStart xs) 0 (pool_Start n) {})"
proof -
  have "main_step P (main_init n) (main_at (Starting (xs @ ys)) [] [] 0 (pool_Start n) {})"
    using loaded [of "main_init n" P] assms by (simp add: main_init_def)
  from converse_rtranclp_into_rtranclp [OF this starts] show ?thesis by simp
qed

lemma boots_and_waits:
  assumes "pg_waiting P \<noteq> Serving_forever"
  shows "(main_step P)\<^sup>*\<^sup>* (main_init n) (main_at AtSelect (pg_boot P) (map EvStart (pg_boot P)) 0 (pool_Start n) {})"
proof -
  let ?s = "main_at (Starting []) (pg_boot P) (map EvStart (pg_boot P)) 0 (pool_Start n) {}"
  have "(main_step P)\<^sup>*\<^sup>* (main_init n) ?s" by (rule boots) simp
  moreover have "main_step P ?s (?s\<lparr>mn_pc := AtSelect\<rparr>)" using ready [of ?s P] assms by simp
  ultimately show ?thesis by (simp add: rtranclp.rtrancl_into_rtrancl)
qed

lemma exporter_runs: "\<exists>s :: nat main_state. (main_step exporter_api_main)\<^sup>*\<^sup>* (main_init n) s \<and> mn_pc s = Exited 0"
proof -
  let ?P = exporter_api_main
  let ?tr = "map EvStart (pg_boot ?P)"
  let ?at = "\<lambda>pc tr. main_at pc (pg_boot ?P) tr 0 (pool_Start n) {}"
  have 1: "(main_step ?P)\<^sup>*\<^sup>* (main_init n) (?at AtSelect ?tr)"
    by (rule boots_and_waits) (simp add: exporter_api_main_def)
  have 2: "main_step ?P (?at AtSelect ?tr) (?at (Deferred [C_server, C_profefe]) ?tr)"
    using signal [of "?at AtSelect ?tr" ?P] by (simp add: exporter_api_main_def)
  have 3: "(main_step ?P)\<^sup>*\<^sup>* (?at (Deferred [C_server, C_profefe]) ?tr) (?at (Deferred []) (?tr @ map EvStop [C_server, C_profefe]))"
    by (rule stops) simp
  have 4: "main_step ?P (?at (Deferred []) tr) (?at (Exited 0) tr)" for tr
    using finished [of "?at (Deferred []) tr" ?P] by simp
  show ?thesis
    by (intro exI conjI, rule rtranclp_trans [OF rtranclp.rtrancl_into_rtrancl [OF 1 2] rtranclp.rtrancl_into_rtrancl [OF 3 4]]) simp
qed

theorem stops_reverse_starts_witness:
  "\<exists>s :: nat main_state. (main_step exporter_api_main)\<^sup>*\<^sup>* (main_init 1) s \<and>
     mn_trace s = [EvStart C_profefe, EvStart C_db, EvStart C_server, EvStop C_server, EvStop C_profefe]"
proof -
  obtain s :: "nat main_state" where s: "(main_step exporter_api_main)\<^sup>*\<^sup>* (main_init 1) s" "mn_pc s = Exited 0"
    using exporter_runs [of 1] by (elim exE conjE)
  have "mn_trace s = map EvStart (pg_boot exporter_api_main) @ map EvStop (deferred_stops exporter_api_main)"
    using stops_reverse_starts [OF s] by simp
  then show ?thesis
    using s(1) by (intro exI [of _ s]) (simp add: exporter_api_main_def deferred_stops_def)
qed

definition refused :: "error list" where
  "refused = [Err ''dial tcp: connection refused'']"

lemma refused_stops: "shutdownCallback NewDefaultShutdownPlugin refused (Some (Err ''connection refused''))"
  by (simp add: shutdownCallback_iff refused_def badConnectRegexp_def Error_def suffix_def)

lemma startup_loss_reachable:
  "\<exists>s :: nat main_state. (main_step block_explorer_main)\<^sup>*\<^sup>* (main_init n) s \<and> mn_pc s = MainSends [C_controller, C_processor] \<and>
     mn_trace s = map EvStart [C_profefe, C_router, C_client, C_extractor, C_transformer, C_db]"
proof -
  let ?P = block_explorer_main
  let ?xs = "[C_profefe, C_router, C_client, C_extractor, C_transformer, C_db]"
  let ?at = "\<lambda>pc. main_at pc ?xs (map EvStart ?xs) 0 (pool_Start n) {}"
  have 1: "(main_step ?P)\<^sup>*\<^sup>* (main_init n) (?at (Starting [C_controller, C_processor]))"
    by (rule boots) (simp add: block_explorer_main_def)
  have 2: "main_step ?P (?at (Starting [C_controller, C_processor])) (?at (MainSends [C_controller, C_processor]))"
    using start_loses_db [of "?at (Starting [C_controller, C_processor])" "[C_processor]", OF _ refused_stops] by simp
  show ?thesis
    by (intro exI conjI, rule rtranclp.rtrancl_into_rtrancl [OF 1 2]) simp_all
qed

theorem startup_loss_blocks_witness:
  "\<exists>s :: nat main_state. (main_step block_explorer_main)\<^sup>*\<^sup>* (main_init 1) s \<and> mn_pc s = MainSends [C_controller, C_processor] \<and>
     {s'. (main_step block_explorer_main)\<^sup>*\<^sup>* s s'} \<subseteq> {s'. EvStop C_profefe \<notin> set (mn_trace s')}"
proof -
  obtain s :: "nat main_state" where s: "(main_step block_explorer_main)\<^sup>*\<^sup>* (main_init 1) s"
    "mn_pc s = MainSends [C_controller, C_processor]" "mn_trace s = map EvStart [C_profefe, C_router, C_client, C_extractor, C_transformer, C_db]"
    using startup_loss_reachable [of 1] by (elim exE conjE)
  have "{s'. (main_step block_explorer_main)\<^sup>*\<^sup>* s s'} \<subseteq> {s'. EvStop C_profefe \<notin> set (mn_trace s')}"
    using startup_loss_blocks [OF _ s(2)] s(3) by fastforce
  then show ?thesis
    using s(1,2) by (intro exI [of _ s] conjI)
qed

lemma pool_lift:
  assumes "C_processor \<in> set st" and "pool_step p p'" and "pl_active p' = pl_active p"
    and "\<And>i. i \<in> b \<Longrightarrow> pl_workers p' ! i = pl_workers p ! i"
  shows "main_step P (main_at AtSelect st tr k p b) (main_at AtSelect st tr k p' b)"
  using pool_moves [of "main_at AtSelect st tr k p b" p' P] assms by simp

text \<open>One worker loses the database in the middle of a drop and the feeder sends the next one, while another goroutine has its stop
  signal received.\<close>

abbreviation pool_at :: "nat list \<Rightarrow> nat feeder_pc \<Rightarrow> nat worker_pc \<Rightarrow> nat list \<Rightarrow> nat pool" where
  "pool_at jds f w taken \<equiv> \<lparr>pl_jdC = jds, pl_jdC_closed = False, pl_active = True, pl_closed = False, pl_feeder = f, pl_workers = [w],
     pl_taken = taken, pl_done = [], pl_dropped = []\<rparr>"

lemma pool_Start_at: "pool_Start 1 = pool_at [] Waiting worker_pc.Idle []"
  by (simp add: pool_Start_def workers_count_def)

lemma pool_steps:
  "pool_step (pool_at [] Waiting worker_pc.Idle []) (pool_at [7] Waiting worker_pc.Idle [])"
  "pool_step (pool_at [7] Waiting worker_pc.Idle []) (pool_at [] (Holding 7) worker_pc.Idle [7])"
  "pool_step (pool_at [] (Holding 7) worker_pc.Idle [7]) (pool_at [] (SendingTask 7) worker_pc.Idle [7])"
  "pool_step (pool_at [] (SendingTask 7) worker_pc.Idle [7]) (pool_at [] Waiting (Processing 7) [7])"
  "pool_step (pool_at [] Waiting (Processing 7) [7]) (pool_at [8] Waiting (Processing 7) [7])"
  "pool_step (pool_at [8] Waiting (Processing 7) [7]) (pool_at [] (Holding 8) (Processing 7) [7, 8])"
  "pool_step (pool_at [] (Holding 8) (Processing 7) [7, 8]) (pool_at [] (SendingTask 8) (Processing 7) [7, 8])"
  using arrive [of "pool_at [] Waiting worker_pc.Idle []" 7] feeder_recv [of "pool_at [7] Waiting worker_pc.Idle []" 7 "[]"]
    feeder_lock [of "pool_at [] (Holding 7) worker_pc.Idle [7]" 7] feeder_send [of "pool_at [] (SendingTask 7) worker_pc.Idle [7]" 7 0]
    arrive [of "pool_at [] Waiting (Processing 7) [7]" 8] feeder_recv [of "pool_at [8] Waiting (Processing 7) [7]" 8 "[]"]
    feeder_lock [of "pool_at [] (Holding 8) (Processing 7) [7, 8]" 8]
  by simp_all

lemma main_pool_steps:
  assumes "C_processor \<in> set st" and "C_controller \<in> set st"
  shows "(main_step P)\<^sup>*\<^sup>* (main_at AtSelect st tr 0 (pool_at [] Waiting worker_pc.Idle []) {})
    (main_at AtSelect st tr 1 (pool_at [] (SendingTask 8) (Processing 7) [7, 8]) {0})"
proof -
  let ?at = "main_at AtSelect st tr"
  note lift = pool_lift [OF assms(1), where b = "{}" and k = 0 and tr = tr and P = P]
  have "main_step P (?at 0 (pool_at [] (SendingTask 8) (Processing 7) [7, 8]) {})
      (?at 0 (pool_at [] (SendingTask 8) (Processing 7) [7, 8]) {0})"
    using worker_blocks [of "?at 0 (pool_at [] (SendingTask 8) (Processing 7) [7, 8]) {}" 0 7, OF _ _ _ _ refused_stops] assms by simp
  moreover have "main_step P (?at 0 (pool_at [] (SendingTask 8) (Processing 7) [7, 8]) {0})
      (?at 1 (pool_at [] (SendingTask 8) (Processing 7) [7, 8]) {0})"
    using sender [of "?at 0 (pool_at [] (SendingTask 8) (Processing 7) [7, 8]) {0}" P] assms(2) by auto
  ultimately have "(main_step P)\<^sup>*\<^sup>* (?at 0 (pool_at [] (SendingTask 8) (Processing 7) [7, 8]) {})
      (?at 1 (pool_at [] (SendingTask 8) (Processing 7) [7, 8]) {0})"
    by (meson converse_rtranclp_into_rtranclp rtranclp.rtrancl_refl)
  moreover have go: "(main_step P)\<^sup>*\<^sup>* (?at 0 p {}) s" if "pool_step p p'" "pl_active p' = pl_active p" "(main_step P)\<^sup>*\<^sup>* (?at 0 p' {}) s" for p p' s
    using converse_rtranclp_into_rtranclp [of "main_step P", OF lift [OF that(1,2)] that(3)] by simp
  ultimately show ?thesis
    by (intro go [OF pool_steps(1)] go [OF pool_steps(2)] go [OF pool_steps(3)] go [OF pool_steps(4)] go [OF pool_steps(5)]
      go [OF pool_steps(6)] go [OF pool_steps(7)]) simp_all
qed

lemma db_loss_reachable:
  "\<exists>s :: nat main_state. (main_step block_explorer_main)\<^sup>*\<^sup>* (main_init 1) s \<and> all_stuck s \<and>
     mn_pc s = Deferred (C_processor # [C_controller, C_db, C_transformer, C_extractor, C_client, C_router, C_profefe])"
proof -
  let ?P = block_explorer_main
  let ?at = "\<lambda>pc k. main_at pc (pg_boot ?P) (map EvStart (pg_boot ?P)) k (pool_at [] (SendingTask 8) (Processing 7) [7, 8]) {0}"
  let ?stops = "[C_processor, C_controller, C_db, C_transformer, C_extractor, C_client, C_router, C_profefe]"
  have 1: "(main_step ?P)\<^sup>*\<^sup>* (main_init 1) (main_at AtSelect (pg_boot ?P) (map EvStart (pg_boot ?P)) 0 (pool_at [] Waiting worker_pc.Idle []) {})"
    using boots_and_waits [of ?P 1] unfolding pool_Start_at by (simp add: block_explorer_main_def)
  have 2: "(main_step ?P)\<^sup>*\<^sup>* (main_at AtSelect (pg_boot ?P) (map EvStart (pg_boot ?P)) 0 (pool_at [] Waiting worker_pc.Idle []) {}) (?at AtSelect 1)"
    by (rule main_pool_steps) (simp_all add: block_explorer_main_def)
  have 3: "main_step ?P (?at AtSelect 1) (?at (Deferred ?stops) 0)"
    using recv_sender [of "?at AtSelect 1" ?P] by (simp add: block_explorer_main_def)
  show ?thesis
    by (intro exI conjI, rule rtranclp.rtrancl_into_rtrancl [OF rtranclp_trans [OF 1 2] 3]) (simp_all add: all_stuck_def)
qed

theorem db_loss_blocks_shutdown_witness:
  "\<exists>s :: nat main_state. (main_step block_explorer_main)\<^sup>*\<^sup>* (main_init 1) s \<and>
     {s'. (main_step block_explorer_main)\<^sup>*\<^sup>* s s'} \<inter> {s'. \<exists>n. mn_pc s' = Exited n} = {}"
proof -
  obtain s :: "nat main_state" where s: "(main_step block_explorer_main)\<^sup>*\<^sup>* (main_init 1) s" "all_stuck s"
    "mn_pc s = Deferred (C_processor # [C_controller, C_db, C_transformer, C_extractor, C_client, C_router, C_profefe])"
    using db_loss_reachable by (elim exE conjE)
  have "{s'. (main_step block_explorer_main)\<^sup>*\<^sup>* s s'} \<inter> {s'. \<exists>n. mn_pc s' = Exited n} = {}"
    using db_loss_blocks_shutdown [OF _ s(3,2)] by fastforce
  then show ?thesis
    using s(1) by (intro exI [of _ s] conjI)
qed

end
