(* ===== verification/Instrumentation.thy ===== *)
theory Instrumentation
  imports Types_Models
begin

text \<open>\<open>instrumentation\<close>: the settings of the logger (\<open>belogger\<close>), and the profiling agent (\<open>profefe\<close>).
  What is modelled is how configurations become settings and what the start and stop operations keep; the formats, outputs
  and levels of the logging library and the agent are parameters.\<close>

section \<open>Settings of the logger\<close>

record configuration_Log =
  lg_Level :: string
  lg_Adapter :: string
  lg_Formatter :: string
  lg_OutputType :: string
  lg_OutputParallelLimit :: string
  lg_OutputParams :: string
  lg_BufferSize :: int
  lg_LLBufferSize :: int

definition configuration_NewLog :: configuration_Log where
  "configuration_NewLog = \<lparr>lg_Level = ''Info'', lg_Adapter = ''zerolog'', lg_Formatter = ''json'', lg_OutputType = ''stderr'',
     lg_OutputParallelLimit = [], lg_OutputParams = [], lg_BufferSize = 0, lg_LLBufferSize = 0\<rparr>"

text \<open>The logging library: the texts of its formats and outputs, its parser of levels and \<open>strconv.Atoi\<close>'s error for a text.\<close>

datatype LogFormat = TextFormat | JSONFormat

datatype LogOutput = StdErrOutput | SysLogOutput

record 'w log_lib =
  FormatString :: "LogFormat \<Rightarrow> string"
  OutputString :: "LogOutput \<Rightarrow> string"
  ParseLevel :: "string \<Rightarrow> error + int"
  AtoiError :: "string \<Rightarrow> error"
  DefaultMetricsMode :: int
  CallerField :: int
  OpenLogBareOutput :: "LogOutput \<Rightarrow> string \<Rightarrow> error + 'w option"   \<comment> \<open>the writer, nil or not\<close>
  ZerologSkipFrameCount :: "8 word"

record ParsedLogConfig =
  pc_OutputType :: LogOutput
  pc_LogLevel :: int
  pc_OutputParam :: string
  pc_Format :: LogFormat
  pc_ParallelWriters :: int
  pc_BufferSize :: int
  pc_EnableRegularBuffer :: bool
  pc_MetricsMode :: int
  pc_CallerMode :: int
  pc_SkipFrameBaselineAdjustment :: "8 word"

definition defaultLogFormat :: LogFormat where
  "defaultLogFormat = TextFormat"

definition defaultLogOutput :: LogOutput where
  "defaultLogOutput = StdErrOutput"

definition defaultLowLatencyBufferSize :: int where
  "defaultLowLatencyBufferSize = 100"

text \<open>\<open>strings.ToLower\<close>, as far as the keywords of the configuration are concerned.\<close>

definition lower_char :: "char \<Rightarrow> char" where
  "lower_char c = (let n = (of_char c :: nat) in if 65 \<le> n \<and> n \<le> 90 then char_of (n + 32) else c)"

definition ToLower :: "string \<Rightarrow> string" where
  "ToLower s = map lower_char s"

definition quoted :: "string \<Rightarrow> string" where
  "quoted s = [CHR 0x27] @ s @ [CHR 0x27]"

definition DefaultLoggerSettings :: "'w log_lib \<Rightarrow> ParsedLogConfig" where
  "DefaultLoggerSettings L = \<lparr>pc_OutputType = StdErrOutput, pc_LogLevel = 0, pc_OutputParam = [], pc_Format = TextFormat,
     pc_ParallelWriters = 0, pc_BufferSize = 0, pc_EnableRegularBuffer = False, pc_MetricsMode = DefaultMetricsMode L,
     pc_CallerMode = CallerField L, pc_SkipFrameBaselineAdjustment = 0\<rparr>"

definition ParseFormat :: "'w log_lib \<Rightarrow> string \<Rightarrow> LogFormat \<Rightarrow> LogFormat \<times> error option" where
  "ParseFormat L formatStr defValue = (let s = ToLower formatStr in
     if s = [] \<or> s = ''default'' then (defValue, None)
     else if s = FormatString L TextFormat then (TextFormat, None)
     else if s = FormatString L JSONFormat then (JSONFormat, None)
     else (defValue, Some (Err (''unknown Format: '' @ quoted formatStr @ '', replaced with '' @ quoted (FormatString L defValue)))))"

definition ParseOutput :: "'w log_lib \<Rightarrow> string \<Rightarrow> LogOutput \<Rightarrow> LogOutput \<times> error option" where
  "ParseOutput L outputStr defValue = (let s = ToLower outputStr in
     if s = [] \<or> s = ''default'' then (defValue, None)
     else if s = OutputString L StdErrOutput then (StdErrOutput, None)
     else if s = OutputString L SysLogOutput then (SysLogOutput, None)
     else (defValue, Some (Err (''unknown Output: '' @ quoted outputStr @ '', replaced with '' @ quoted (OutputString L defValue)))))"

text \<open>The two sizes of the buffer: a negative size for low latency disables it, zero stands for the default.\<close>

definition buffer_size :: "configuration_Log \<Rightarrow> int" where
  "buffer_size cfg = (let n = (if lg_LLBufferSize cfg < 0 then lg_BufferSize cfg
       else if lg_LLBufferSize cfg > 0 then lg_LLBufferSize cfg else defaultLowLatencyBufferSize)
     in if n < lg_BufferSize cfg then lg_BufferSize cfg else n)"

text \<open>\<open>strconv.Atoi\<close>.\<close>

definition Atoi :: "'w log_lib \<Rightarrow> string \<Rightarrow> error + int" where
  "Atoi L s = (case ParseInt s of None \<Rightarrow> Inl (AtoiError L s) | Some n \<Rightarrow> Inr n)"

definition ParseLogConfigWithDefaults :: "'w log_lib \<Rightarrow> configuration_Log \<Rightarrow> ParsedLogConfig \<Rightarrow> error + ParsedLogConfig" where
  "ParseLogConfigWithDefaults L cfg defaults = (case ParseOutput L (lg_OutputType cfg) defaultLogOutput of
     (_, Some err) \<Rightarrow> Inl err
   | (output, None) \<Rightarrow> (case ParseFormat L (lg_Formatter cfg) defaultLogFormat of
       (_, Some err) \<Rightarrow> Inl err
     | (format, None) \<Rightarrow> (case ParseLevel L (lg_Level cfg) of
         Inl err \<Rightarrow> Inl err
       | Inr level \<Rightarrow> (case (if length (lg_OutputParallelLimit cfg) > 0 then Atoi L (lg_OutputParallelLimit cfg) else Inr 0) of
           Inl err \<Rightarrow> Inl err
         | Inr writers \<Rightarrow> Inr (defaults\<lparr>pc_OutputType := output, pc_OutputParam := lg_OutputParams cfg, pc_Format := format,
             pc_LogLevel := level, pc_ParallelWriters := writers, pc_BufferSize := buffer_size cfg,
             pc_EnableRegularBuffer := lg_BufferSize cfg > 0\<rparr>)))))"

definition ParseLogConfig :: "'w log_lib \<Rightarrow> configuration_Log \<Rightarrow> error + ParsedLogConfig" where
  "ParseLogConfig L cfg = ParseLogConfigWithDefaults L cfg (DefaultLoggerSettings L)"

definition defaultLogConfig :: configuration_Log where
  "defaultLogConfig = configuration_NewLog\<lparr>lg_BufferSize := 0, lg_LLBufferSize := -1\<rparr>"

definition bePrefix :: string where
  "bePrefix = ''github.com/insolar/block-explorer/''"

definition fileLineMarshaller :: "string \<Rightarrow> int \<Rightarrow> string" where
  "fileLineMarshaller file line = (let idx = Index file bePrefix; skip = (if idx \<noteq> -1 then nat idx + length bePrefix else 0)
     in drop skip file @ '':'' @ Itoa line)"

text \<open>The configuration \<open>logcommon.Config\<close> a builder is made from, with the factory and the level given to \<open>log.NewBuilder\<close>.\<close>

datatype factory = Zlog_factory | Bilog_factory

record 'w LoggerBuilder =
  lb_factory :: factory
  lb_writer :: 'w
  lb_Format :: LogFormat
  lb_ParallelWriters :: int
  lb_BufferSize :: int
  lb_EnableRegularBuffer :: bool
  lb_MetricsMode :: int
  lb_CallerMode :: int
  lb_SkipFrameCountBaseline :: "8 word"
  lb_TimeFmt :: string
  lb_level :: int

definition TimestampFormat :: string where
  "TimestampFormat = ''2006-01-02T15:04:05.000000000Z07:00''"

definition NewBuilder :: "factory \<Rightarrow> 'w \<Rightarrow> ParsedLogConfig \<Rightarrow> 8 word \<Rightarrow> 'w LoggerBuilder" where
  "NewBuilder f writer pCfg sfb = \<lparr>lb_factory = f, lb_writer = writer, lb_Format = pc_Format pCfg, lb_ParallelWriters = pc_ParallelWriters pCfg,
     lb_BufferSize = pc_BufferSize pCfg, lb_EnableRegularBuffer = pc_EnableRegularBuffer pCfg, lb_MetricsMode = pc_MetricsMode pCfg,
     lb_CallerMode = pc_CallerMode pCfg, lb_SkipFrameCountBaseline = sfb, lb_TimeFmt = TimestampFormat, lb_level = pc_LogLevel pCfg\<rparr>"

definition newZerologAdapter :: "'w log_lib \<Rightarrow> ParsedLogConfig \<Rightarrow> error + 'w LoggerBuilder" where
  "newZerologAdapter L pCfg = (case OpenLogBareOutput L (pc_OutputType pCfg) (pc_OutputParam pCfg) of
     Inl err \<Rightarrow> Inl err
   | Inr None \<Rightarrow> Inl (Err ''output is nil'')
   | Inr (Some writer) \<Rightarrow>
     (let sfb = ZerologSkipFrameCount L + pc_SkipFrameBaselineAdjustment pCfg; sfb = (if sint sfb < 0 then 0 else sfb)
      in Inr (NewBuilder Zlog_factory writer pCfg sfb)))"

definition newBilogAdapter :: "'w log_lib \<Rightarrow> ParsedLogConfig \<Rightarrow> error + 'w LoggerBuilder" where
  "newBilogAdapter L pCfg = (case OpenLogBareOutput L (pc_OutputType pCfg) (pc_OutputParam pCfg) of
     Inl err \<Rightarrow> Inl err
   | Inr None \<Rightarrow> Inl (Err ''output is nil'')
   | Inr (Some writer) \<Rightarrow>
     (let sfb = pc_SkipFrameBaselineAdjustment pCfg; sfb = (if sint sfb < 0 then 0 else sfb)
      in Inr (NewBuilder Bilog_factory writer pCfg sfb)))"

text \<open>A builder that was made is not zero, so the last check of \<open>newLogger\<close> never fires.\<close>

definition newLogger :: "'w log_lib \<Rightarrow> configuration_Log \<Rightarrow> error + 'w LoggerBuilder" where
  "newLogger L cfg = (case ParseLogConfigWithDefaults L cfg (DefaultLoggerSettings L) of
     Inl err \<Rightarrow> Inl err
   | Inr pCfg \<Rightarrow>
     (let pCfg = pCfg\<lparr>pc_SkipFrameBaselineAdjustment := 0\<rparr>; adapter = ToLower (lg_Adapter cfg)
      in if adapter = ''zerolog'' then newZerologAdapter L pCfg
         else if adapter = ''bilog'' then newBilogAdapter L pCfg
         else Inl (Err ''invalid logger config, unknown adapter'')))"

definition belogger_NewLog :: "'w log_lib \<Rightarrow> ('w LoggerBuilder \<Rightarrow> error + 'l) \<Rightarrow> configuration_Log \<Rightarrow> error + 'l" where
  "belogger_NewLog L Build cfg = (case newLogger L cfg of Inl err \<Rightarrow> Inl err | Inr b \<Rightarrow> Build b)"

text \<open>The logger of a context: a context without one has a copy of the global logger.  \<open>WithLevel\<close> is the builder's change of level.\<close>

type_synonym 'l log_context = "'l option"

definition getLogger :: "'l \<Rightarrow> 'l log_context \<Rightarrow> 'l" where
  "getLogger global ctx = (case ctx of None \<Rightarrow> global | Some l \<Rightarrow> l)"

definition SetLogger :: "'l log_context \<Rightarrow> 'l \<Rightarrow> 'l log_context" where
  "SetLogger ctx l = Some l"

definition UpdateLogger :: "'l \<Rightarrow> 'l log_context \<Rightarrow> ('l \<Rightarrow> error + 'l) \<Rightarrow> 'l log_context option" where
  "UpdateLogger global ctx fn = (let lOrig = getLogger global ctx in case fn lOrig of
     Inl err \<Rightarrow> None
   | Inr lNew \<Rightarrow> Some (if lOrig = lNew then ctx else SetLogger ctx lNew))"

definition WithLoggerLevel :: "int \<Rightarrow> ('l \<Rightarrow> int) \<Rightarrow> ('l \<Rightarrow> int \<Rightarrow> error + 'l) \<Rightarrow> 'l \<Rightarrow> 'l log_context \<Rightarrow> int \<Rightarrow> 'l log_context" where
  "WithLoggerLevel NoLevel GetLogLevel WithLevel global ctx logLevel = (if logLevel = NoLevel then ctx
     else let oldLogger = getLogger global ctx in
       if GetLogLevel oldLogger = logLevel then ctx
       else case WithLevel oldLogger logLevel of Inl err \<Rightarrow> ctx | Inr logCopy \<Rightarrow> SetLogger ctx logCopy)"

text \<open>The HTTP handler that changes the level; \<open>SetFilter\<close> is the global filter of the library.\<close>

definition loglevel_ServeHTTP :: "'w log_lib \<Rightarrow> (int \<Rightarrow> error option) \<Rightarrow> string list \<Rightarrow> int \<times> string" where
  "loglevel_ServeHTTP L SetFilter levels = (let levelStr = (case levels of [] \<Rightarrow> ''(nil)'' | l # _ \<Rightarrow> l) in
     case ParseLevel L levelStr of
       Inl err \<Rightarrow> (500, ''Invalid level '' @ quoted levelStr @ '': '' @ Error err @ [CHR 0x0A])
     | Inr level \<Rightarrow> (case SetFilter level of
         None \<Rightarrow> (200, ''New log level: '' @ quoted levelStr @ [CHR 0x0A])
       | Some err \<Rightarrow> (500, ''Logger doesn'' @ [CHR 0x27] @ ''t support global log level(s): '' @ Error err @ [CHR 0x0A])))"

section \<open>The profiling agent\<close>

record configuration_Profefe =
  pf_StartAgent :: bool
  pf_Address :: string
  pf_Labels :: string

record 'agent Profefe =
  pe_startAgent :: bool
  pe_address :: string
  pe_serviceName :: string
  pe_labels :: "string list"
  pe_hasStarted :: bool
  pe_pffAgent :: "'agent option"

text \<open>\<open>strings.Trim(v, " ")\<close>\<close>

definition trim_spaces :: "string \<Rightarrow> string" where
  "trim_spaces s = rev (dropWhile (\<lambda>c. c = CHR '' '') (rev (dropWhile (\<lambda>c. c = CHR '' '') s)))"

definition profefe_New :: "configuration_Profefe \<Rightarrow> string \<Rightarrow> 'agent Profefe" where
  "profefe_New cfg serviceName = \<lparr>pe_startAgent = pf_StartAgent cfg, pe_address = pf_Address cfg, pe_serviceName = serviceName,
     pe_labels = map trim_spaces (Split CHR '','' (pf_Labels cfg)), pe_hasStarted = False, pe_pffAgent = None\<rparr>"

definition profefe_Start :: "(string \<Rightarrow> string \<Rightarrow> string list \<Rightarrow> error + 'agent) \<Rightarrow> 'agent Profefe \<Rightarrow> error option \<times> 'agent Profefe" where
  "profefe_Start agent_Start p = (if \<not> pe_hasStarted p
     then (case agent_Start (pe_address p) (pe_serviceName p) (pe_labels p) of
         Inl err \<Rightarrow> (Some (Wrap err ''cannot start profefe agent''), p)
       | Inr pffAgent \<Rightarrow> (None, p\<lparr>pe_pffAgent := Some pffAgent\<rparr>))
     else (None, p))"

definition profefe_Stop :: "('agent option \<Rightarrow> error option) \<Rightarrow> 'agent Profefe \<Rightarrow> error option \<times> 'agent Profefe" where
  "profefe_Stop agent_Stop p = (if pe_hasStarted p
     then (map_option (\<lambda>err. Wrap err ''cannot stop profefe agent'') (agent_Stop (pe_pffAgent p)), p\<lparr>pe_pffAgent := None\<rparr>)
     else (None, p))"

section \<open>Properties\<close>

text \<open>The buffer is never smaller than either size asked for, and empty only if low latency is disabled and no buffer is asked for.\<close>

lemma buffer_size_bounds:
  "lg_BufferSize cfg \<le> buffer_size cfg" "0 < lg_LLBufferSize cfg \<Longrightarrow> lg_LLBufferSize cfg \<le> buffer_size cfg"
  "buffer_size cfg \<le> 0 \<longleftrightarrow> lg_LLBufferSize cfg < 0 \<and> lg_BufferSize cfg \<le> 0"
  by (auto simp: buffer_size_def defaultLowLatencyBufferSize_def Let_def)

text \<open>A configuration is accepted exactly if each of its parts is.\<close>

lemma ParseLogConfig_ok:
  "(\<exists>plc. ParseLogConfig L cfg = Inr plc) \<longleftrightarrow> snd (ParseOutput L (lg_OutputType cfg) defaultLogOutput) = None \<and>
     snd (ParseFormat L (lg_Formatter cfg) defaultLogFormat) = None \<and> (\<exists>level. ParseLevel L (lg_Level cfg) = Inr level) \<and>
     (lg_OutputParallelLimit cfg = [] \<or> (\<exists>n. ParseInt (lg_OutputParallelLimit cfg) = Some n))"
  by (auto simp: ParseLogConfig_def ParseLogConfigWithDefaults_def Atoi_def split: prod.splits option.splits sum.splits)

lemma ParseLogConfig_buffers:
  "ParseLogConfig L cfg = Inr plc \<Longrightarrow> lg_BufferSize cfg \<le> pc_BufferSize plc \<and> (pc_EnableRegularBuffer plc \<longleftrightarrow> 0 < lg_BufferSize cfg)"
  using buffer_size_bounds [of cfg]
  by (auto simp: ParseLogConfig_def ParseLogConfigWithDefaults_def split: prod.splits option.splits sum.splits)

text \<open>The case of the keywords does not matter.\<close>

lemma ToLower_idem [simp]: "ToLower (ToLower s) = ToLower s"
  by (simp add: ToLower_def lower_char_def Let_def)

lemma ParseFormat_lower: "snd (ParseFormat L (ToLower s) d) = None \<longleftrightarrow> snd (ParseFormat L s d) = None"
  by (simp add: ParseFormat_def Let_def)

text \<open>A logger is built exactly if the settings parse, the adapter is known and its output opens, and it has the settings parsed.\<close>

lemma newLogger_ok:
  "newLogger L cfg = Inr b \<longleftrightarrow> (\<exists>plc w. ParseLogConfig L cfg = Inr plc \<and> OpenLogBareOutput L (pc_OutputType plc) (pc_OutputParam plc) = Inr (Some w) \<and>
     (ToLower (lg_Adapter cfg) = ''zerolog'' \<and> b = NewBuilder Zlog_factory w plc (if sint (ZerologSkipFrameCount L) < 0 then 0 else ZerologSkipFrameCount L) \<or>
      ToLower (lg_Adapter cfg) = ''bilog'' \<and> b = NewBuilder Bilog_factory w plc 0))"
  by (auto simp: newLogger_def ParseLogConfig_def newZerologAdapter_def newBilogAdapter_def NewBuilder_def Let_def split: sum.splits option.splits)

text \<open>After a change of level the context has that level, or the logger it had.\<close>

lemma WithLoggerLevel_level:
  assumes "\<And>l n l'. WithLevel l n = Inr l' \<Longrightarrow> GetLogLevel l' = n"
  shows "GetLogLevel (getLogger g (WithLoggerLevel nl GetLogLevel WithLevel g ctx n)) = n \<or> WithLoggerLevel nl GetLogLevel WithLevel g ctx n = ctx"
  using assms by (auto simp: WithLoggerLevel_def Let_def SetLogger_def getLogger_def split: sum.splits option.splits)

text \<open>The agent is started whatever the configuration says, and never stopped: the two flags of the code are not used.\<close>

lemma profefe_never_stops:
  assumes "agent_Start (pf_Address cfg) name (map trim_spaces (Split CHR '','' (pf_Labels cfg))) = Inr a"
  shows "\<exists>p. profefe_Start agent_Start (profefe_New cfg name) = (None, p) \<and> pe_pffAgent p = Some a \<and> profefe_Stop agent_Stop p = (None, p)"
  using assms by (simp add: profefe_Start_def profefe_New_def profefe_Stop_def)

end
