(* ===== verification/Metrics_Registry.thy ===== *)
theory Metrics_Registry
  imports Database
begin

text \<open>The metrics: the variables of \<open>etl/*/metrics.go\<close>, the collectors of \<open>etl/storage\<close> and \<open>instrumentation/metrics\<close>, which registers them
  all.  The registry is a library, a parameter with the laws it documents.  A value is a whole number here: all values the code sets are
  counts.\<close>

section \<open>Metrics\<close>

datatype metric_kind = Summary | Gauge | Counter | CounterVec "string list"

text \<open>\<open>me_Objectives\<close> in thousandths.\<close>

record metric =
  me_kind :: metric_kind
  me_Name :: string
  me_Help :: string
  me_ConstLabels :: "(string, string) gomap"
  me_Objectives :: "(int, int) gomap"

definition metric_opts :: "metric_kind \<Rightarrow> string \<Rightarrow> string \<Rightarrow> (string, string) gomap \<Rightarrow> metric" where
  "metric_opts k name help labels = \<lparr>me_kind = k, me_Name = name, me_Help = help, me_ConstLabels = labels, me_Objectives = []\<rparr>"

definition quntitile :: "(int, int) gomap" where
  "quntitile = [(500, 50), (900, 10), (990, 1)]"

definition summary_opts :: "string \<Rightarrow> string \<Rightarrow> metric" where
  "summary_opts name help = (metric_opts Summary name help [])\<lparr>me_Objectives := quntitile\<rparr>"

definition LabelType :: string where
  "LabelType = ''type''"

text \<open>The variables of the packages.\<close>

datatype storage_var =
    SaveJetDropDataDuration | SavePulseDuration | CompletePulseDuration | SequencePulseDuration | GetRecordDuration | GetLifelineDuration
  | GetPulseDuration | GetPulsesDuration | GetRecordsByJetDropDuration | GetIncompletePulsesDuration | GetPulseByPrevDuration
  | GetSequentialPulseDuration | GetNextSavedPulseDuration | GetJetDropsDuration | GetJetDropsWithParamsDuration | GetJetDropByIDDuration
  | GetJetDropsByJetIDDuration

primrec storage_metric :: "storage_var \<Rightarrow> metric" where
  "storage_metric SaveJetDropDataDuration = summary_opts ''gbe_storage_stats_SaveJetDropDataDuration'' ''The duration of the SaveJetDropData function execution''"
| "storage_metric SavePulseDuration = summary_opts ''gbe_storage_stats_SavePulseDuration'' ''The duration of the SavePulse function execution''"
| "storage_metric CompletePulseDuration = summary_opts ''gbe_storage_stats_CompletePulseDuration'' ''The duration of the CompletePulse function execution''"
| "storage_metric SequencePulseDuration = summary_opts ''gbe_storage_stats_SequencePulseDuration'' ''The duration of the SequencePulse function execution''"
| "storage_metric GetRecordDuration = summary_opts ''gbe_storage_stats_GetRecordDuration'' ''The duration of the GetRecord function execution''"
| "storage_metric GetLifelineDuration = summary_opts ''gbe_storage_stats_GetLifelineDuration'' ''The duration of the GetLifeline function execution''"
| "storage_metric GetPulseDuration = summary_opts ''gbe_storage_stats_GetPulseDuration'' ''The duration of the GetPulse function execution''"
| "storage_metric GetPulsesDuration = summary_opts ''gbe_storage_stats_GetPulsesDuration'' ''The duration of the GetPulses function execution''"
| "storage_metric GetRecordsByJetDropDuration = summary_opts ''gbe_storage_stats_GetRecordsByJetDropDuration'' ''The duration of the GetRecordsByJetDrop function execution''"
| "storage_metric GetIncompletePulsesDuration = summary_opts ''gbe_storage_stats_GetIncompletePulsesDuration'' ''The duration of the GetIncompletePulses function execution''"
| "storage_metric GetPulseByPrevDuration = summary_opts ''gbe_storage_stats_GetPulseByPrevDuration'' ''The duration of the GetPulseByPrev function execution''"
| "storage_metric GetSequentialPulseDuration = summary_opts ''gbe_storage_stats_GetSequentialPulseDuration'' ''The duration of the GetSequentialPulse function execution''"
| "storage_metric GetNextSavedPulseDuration = summary_opts ''gbe_storage_stats_GetNextSavedPulseDuration'' ''The duration of the GetNextSavedPulse function execution''"
| "storage_metric GetJetDropsDuration = summary_opts ''gbe_storage_stats_GetJetDropsDuration'' ''The duration of the GetJetDrops function execution''"
| "storage_metric GetJetDropsWithParamsDuration = summary_opts ''gbe_storage_stats_GetJetDropsWithParamsDuration'' ''The duration of the GetJetDropsWithParams function execution''"
| "storage_metric GetJetDropByIDDuration = summary_opts ''gbe_storage_stats_GetJetDropByIDDuration'' ''The duration of the GetJetDropByID function execution''"
| "storage_metric GetJetDropsByJetIDDuration = summary_opts ''gbe_storage_stats_GetJetDropsByJetIDDuration'' ''The duration of the GetJetDropsByJetID function execution''"

datatype extractor_var =
    ExtractProcessCount | FromExtractorDataQueue | LastPulseFetched | extractor_Errors | ReceivedPulses | ReceivedRecords | RetrievePulsesCount
  | RetrieveRecordsCount

primrec extractor_metric :: "extractor_var \<Rightarrow> metric" where
  "extractor_metric ExtractProcessCount = metric_opts Gauge ''gbe_extractor_process_count'' ''The number of processes fetching data from heavy'' []"
| "extractor_metric FromExtractorDataQueue = metric_opts Gauge ''gbe_extractor_data_queue'' ''The number of elements in extractor export data queue'' []"
| "extractor_metric LastPulseFetched = metric_opts Gauge ''gbe_extractor_last_pulse'' ''The number of last pulse fetched by NextFinalizedPulse'' []"
| "extractor_metric extractor_Errors = metric_opts (CounterVec [LabelType]) ''gbe_extractor_errors'' ''The number of errors received during data fetching'' []"
| "extractor_metric ReceivedPulses = metric_opts Counter ''gbe_extractor_received_pulses'' ''The number of pulses received'' []"
| "extractor_metric ReceivedRecords = metric_opts Counter ''gbe_extractor_received_records'' ''The number of records received'' []"
| "extractor_metric RetrievePulsesCount = metric_opts Gauge ''gbe_extractor_retrieve_pulses_count'' ''The number of retrievePulses goroutines'' []"
| "extractor_metric RetrieveRecordsCount = metric_opts Gauge ''gbe_extractor_retrieve_records_count'' ''The number of retrievePulses goroutines'' []"

datatype transformer_var =
    FromTransformerDataQueue | TransformedPulses | TransformedRecords | transformer_Errors

primrec transformer_metric :: "transformer_var \<Rightarrow> metric" where
  "transformer_metric FromTransformerDataQueue = metric_opts Gauge ''gbe_transformer_data_queue'' ''The number of jetdrops in transformer export data queue'' []"
| "transformer_metric TransformedPulses = metric_opts Counter ''gbe_transformer_pulses'' ''The number of transformed pulses'' []"
| "transformer_metric TransformedRecords = metric_opts Counter ''gbe_transformer_records'' ''The number of transformed records'' []"
| "transformer_metric transformer_Errors = metric_opts Counter ''gbe_transformer_errors'' ''The number of errors received during data transforming'' []"

datatype controller_var =
    IncompletePulsesQueue | CurrentSeqPulse | PulseCompleteCounter | PulseNotCompleteCounter

primrec controller_metric :: "controller_var \<Rightarrow> metric" where
  "controller_metric IncompletePulsesQueue = metric_opts Gauge ''gbe_controller_data_queue'' ''The number of pulses in controller's incomplete pulses queue'' []"
| "controller_metric CurrentSeqPulse = metric_opts Gauge ''gbe_controller_current_seq_pulse'' ''Current sequentual pulse rerequested from platform'' []"
| "controller_metric PulseCompleteCounter = metric_opts Counter ''gbe_controller_pulse_complete_counter'' ''How many pulses is completed by 'pulseIsComplete' check'' []"
| "controller_metric PulseNotCompleteCounter = metric_opts Counter ''gbe_controller_pulse_not_complete_counter'' ''How many pulses is not completed by 'pulseIsComplete' check'' []"

datatype metric_var = StorageV storage_var | ExtractorV extractor_var | TransformerV transformer_var | ControllerV controller_var

primrec metric_of :: "metric_var \<Rightarrow> metric" where
  "metric_of (StorageV v) = storage_metric v"
| "metric_of (ExtractorV v) = extractor_metric v"
| "metric_of (TransformerV v) = transformer_metric v"
| "metric_of (ControllerV v) = controller_metric v"

definition storage_Metrics :: "metric_var list" where
  "storage_Metrics = map StorageV [SaveJetDropDataDuration, SavePulseDuration, CompletePulseDuration, SequencePulseDuration, GetRecordDuration, GetLifelineDuration,
     GetPulseDuration, GetPulsesDuration, GetRecordsByJetDropDuration, GetIncompletePulsesDuration, GetPulseByPrevDuration,
     GetSequentialPulseDuration, GetNextSavedPulseDuration, GetJetDropsDuration, GetJetDropsWithParamsDuration,
     GetJetDropByIDDuration, GetJetDropsByJetIDDuration]"

definition extractor_Metrics :: "metric_var list" where
  "extractor_Metrics = map ExtractorV [ExtractProcessCount, FromExtractorDataQueue, LastPulseFetched, extractor_Errors, ReceivedRecords, ReceivedPulses,
     RetrievePulsesCount, RetrieveRecordsCount]"

definition transformer_Metrics :: "metric_var list" where
  "transformer_Metrics = map TransformerV [FromTransformerDataQueue, TransformedRecords, TransformedPulses, transformer_Errors]"

definition controller_Metrics :: "metric_var list" where
  "controller_Metrics = map ControllerV [IncompletePulsesQueue, CurrentSeqPulse, PulseNotCompleteCounter, PulseCompleteCounter]"

section \<open>The metrics of a running program\<close>

text \<open>A metric is a variable of a package or made while the program runs.  \<open>mw_values\<close> holds the values of the gauges.\<close>

datatype metric_ref = Var metric_var | Made nat

record 'r metrics_world =
  mw_made :: "metric list"
  mw_values :: "metric_ref \<Rightarrow> int"
  mw_registry :: 'r

definition the_metric :: "'r metrics_world \<Rightarrow> metric_ref \<Rightarrow> metric" where
  "the_metric w r = (case r of Var v \<Rightarrow> metric_of v | Made n \<Rightarrow> mw_made w ! n)"

definition NewGauge :: "string \<Rightarrow> string \<Rightarrow> (string, string) gomap \<Rightarrow> 'r metrics_world \<Rightarrow> metric_ref \<times> 'r metrics_world" where
  "NewGauge name help labels w = (Made (length (mw_made w)), w\<lparr>mw_made := mw_made w @ [metric_opts Gauge name help labels],
     mw_values := (mw_values w)(Made (length (mw_made w)) := 0)\<rparr>)"

definition Set_gauge :: "metric_ref \<Rightarrow> int \<Rightarrow> 'r metrics_world \<Rightarrow> 'r metrics_world" where
  "Set_gauge r v w = w\<lparr>mw_values := (mw_values w)(r := v)\<rparr>"

section \<open>The collector of row counts\<close>

record PostgresCollectorConfig =
  pc_Prefix :: string
  pc_Interval :: int
  pc_Labels :: "(string, string) gomap"

text \<open>\<open>pq_status\<close> is \<open>None\<close> for the nil map; \<open>pq_ticking\<close> counts the goroutines that collect.\<close>

record PostgresCollector =
  pq_config :: PostgresCollectorConfig
  pq_status :: "(string, metric_ref) gomap option"
  pq_ticking :: nat

definition NewPostgresCollector :: "PostgresCollectorConfig option \<Rightarrow> PostgresCollector" where
  "NewPostgresCollector config = (let config = (case config of None \<Rightarrow> \<lparr>pc_Prefix = [], pc_Interval = 0, pc_Labels = []\<rparr> | Some c \<Rightarrow> c) in
     \<lparr>pq_config = config, pq_status = None, pq_ticking = 0\<rparr>)"

definition setStats :: "string \<Rightarrow> int \<Rightarrow> PostgresCollector \<times> 'r metrics_world \<Rightarrow> (PostgresCollector \<times> 'r metrics_world) outcome" where
  "setStats variableName variableValue pw = (case pw of (pg, w) \<Rightarrow>
     (case Option.bind (pq_status pg) (\<lambda>m. map_of m variableName) of
        Some gauge \<Rightarrow> Done (pg, Set_gauge gauge variableValue w)
      | None \<Rightarrow> (case NewGauge (pc_Prefix (pq_config pg) @ variableName) [] (pc_Labels (pq_config pg)) w of (gauge, w) \<Rightarrow>
          (case pq_status pg of None \<Rightarrow> Panic AssignToNilMap
           | Some m \<Rightarrow> Done (pg\<lparr>pq_status := Some (map_put variableName gauge m)\<rparr>, Set_gauge gauge variableValue w)))))"

text \<open>A row of the result is scanned into the numbers of jet drops, pulses and records, or cannot be scanned.\<close>

type_synonym count_row = "error + int \<times> int \<times> int"

fun scan_rows :: "count_row list \<Rightarrow> PostgresCollector \<times> 'r metrics_world \<Rightarrow> (PostgresCollector \<times> 'r metrics_world) outcome" where
  "scan_rows [] pw = Done pw"
| "scan_rows (Inl err # rows) pw = scan_rows rows pw"
| "scan_rows (Inr (jetdrops, pulses, records) # rows) pw =
     bind_outcome (setStats ''all_jetdrop_count'' jetdrops pw) (\<lambda>pw. bind_outcome (setStats ''all_pulse_count'' pulses pw) (\<lambda>pw.
       bind_outcome (setStats ''all_record_count'' records pw) (scan_rows rows)))"

text \<open>\<open>rows\<close> is what the query returns; an error is logged.\<close>

definition collect :: "count_row list option \<Rightarrow> PostgresCollector \<times> 'r metrics_world \<Rightarrow> (PostgresCollector \<times> 'r metrics_world) outcome" where
  "collect rows pw = (case rows of None \<Rightarrow> Done pw | Some rows \<Rightarrow> scan_rows rows pw)"

definition postgres_Metrics :: "string range_order \<Rightarrow> int \<Rightarrow> count_row list option \<Rightarrow> PostgresCollector \<times> 'r metrics_world
    \<Rightarrow> (metric_ref list \<times> PostgresCollector \<times> 'r metrics_world) outcome" where
  "postgres_Metrics ro RefreshInterval rows pw = (case pw of (pg, w) \<Rightarrow> let
     cfg = pq_config pg;
     cfg = (if pc_Prefix cfg = [] then cfg\<lparr>pc_Prefix := ''gbe_gorm_status_''\<rparr> else cfg);
     cfg = (if pc_Interval cfg = 0 then cfg\<lparr>pc_Interval := RefreshInterval\<rparr> else cfg);
     pg = pg\<lparr>pq_config := cfg, pq_status := Some (case pq_status pg of None \<Rightarrow> [] | Some m \<Rightarrow> m), pq_ticking := pq_ticking pg + 1\<rparr>
     in bind_outcome (collect rows (pg, w)) (\<lambda>(pg, w).
       (case pq_status pg of None \<Rightarrow> Done ([], pg, w) | Some m \<Rightarrow> Done (map (\<lambda>k. the (map_of m k)) (ro 0 (map_keys m)), pg, w))))"

section \<open>The collector of connection statistics\<close>

record sql_DBStats =
  ss_MaxOpenConnections :: int
  ss_OpenConnections :: int
  ss_InUse :: int
  ss_Idle :: int
  ss_WaitCount :: int
  ss_WaitDuration :: int  \<comment> \<open>nanoseconds\<close>
  ss_MaxIdleClosed :: int
  ss_MaxLifetimeClosed :: int

record DBStats =
  dbs_MaxOpenConnections :: metric_ref
  dbs_OpenConnections :: metric_ref
  dbs_InUse :: metric_ref
  dbs_Idle :: metric_ref
  dbs_WaitCount :: metric_ref
  dbs_WaitDuration :: metric_ref
  dbs_MaxIdleClosed :: metric_ref
  dbs_MaxLifetimeClosed :: metric_ref

definition NewStatsCollector :: "(string, string) gomap \<Rightarrow> 'r metrics_world \<Rightarrow> DBStats \<times> 'r metrics_world" where
  "NewStatsCollector labels w =
     (case NewGauge ''gorm_dbstats_max_open_connections'' ''Maximum number of open connections to the database.'' labels w of (g1, w) \<Rightarrow>
      case NewGauge ''gorm_dbstats_open_connections'' ''The number of established connections both in use and idle.'' labels w of (g2, w) \<Rightarrow>
      case NewGauge ''gorm_dbstats_in_use'' ''The number of connections currently in use.'' labels w of (g3, w) \<Rightarrow>
      case NewGauge ''gorm_dbstats_idle'' ''The number of idle connections.'' labels w of (g4, w) \<Rightarrow>
      case NewGauge ''gorm_dbstats_wait_count'' ''The total number of connections waited for.'' labels w of (g5, w) \<Rightarrow>
      case NewGauge ''gorm_dbstats_wait_duration'' ''The total time blocked waiting for a new connection.'' labels w of (g6, w) \<Rightarrow>
      case NewGauge ''gorm_dbstats_max_idle_closed'' ''The total number of connections closed due to SetMaxIdleConns.'' labels w of (g7, w) \<Rightarrow>
      case NewGauge ''gorm_dbstats_max_lifetime_closed'' ''The total number of connections closed due to SetConnMaxLifetime.'' labels w of (g8, w) \<Rightarrow>
        (\<lparr>dbs_MaxOpenConnections = g1, dbs_OpenConnections = g2, dbs_InUse = g3, dbs_Idle = g4, dbs_WaitCount = g5, dbs_WaitDuration = g6,
          dbs_MaxIdleClosed = g7, dbs_MaxLifetimeClosed = g8\<rparr>, w))"

definition Milliseconds :: "int \<Rightarrow> int" where
  "Milliseconds d = (if d < 0 then - ((- d) div 1000000) else d div 1000000)"

definition DBStats_Set :: "DBStats \<Rightarrow> sql_DBStats \<Rightarrow> 'r metrics_world \<Rightarrow> 'r metrics_world" where
  "DBStats_Set stats dbStats w = (let
     w = Set_gauge (dbs_MaxOpenConnections stats) (ss_MaxOpenConnections dbStats) w;
     w = Set_gauge (dbs_OpenConnections stats) (ss_OpenConnections dbStats) w;
     w = Set_gauge (dbs_InUse stats) (ss_InUse dbStats) w;
     w = Set_gauge (dbs_Idle stats) (ss_Idle dbStats) w;
     w = Set_gauge (dbs_WaitCount stats) (ss_WaitCount dbStats) w;
     w = Set_gauge (dbs_WaitDuration stats) (Milliseconds (ss_WaitDuration dbStats)) w;
     w = Set_gauge (dbs_MaxIdleClosed stats) (ss_MaxIdleClosed dbStats) w
     in Set_gauge (dbs_MaxLifetimeClosed stats) (ss_MaxLifetimeClosed dbStats) w)"

definition Collectors :: "DBStats \<Rightarrow> metric_ref list" where
  "Collectors stats = [dbs_MaxOpenConnections stats, dbs_OpenConnections stats, dbs_InUse stats, dbs_Idle stats, dbs_WaitCount stats, dbs_WaitDuration stats,
     dbs_MaxIdleClosed stats, dbs_MaxLifetimeClosed stats]"

section \<open>The collectors of a program\<close>

datatype collector = Postgres_c PostgresCollector | Stats_c DBStats | Storage_c | Extractor_c | Transformer_c | Controller_c

text \<open>\<open>Collector.Metrics\<close>: the metrics of a collector, which may change it.\<close>

fun Metrics :: "string range_order \<Rightarrow> int \<Rightarrow> count_row list option \<Rightarrow> collector \<Rightarrow> 'r metrics_world \<Rightarrow> (metric_ref list \<times> collector \<times> 'r metrics_world) outcome" where
  "Metrics ro i rows (Postgres_c pg) w = bind_outcome (postgres_Metrics ro i rows (pg, w)) (\<lambda>(rs, pg, w). Done (rs, Postgres_c pg, w))"
| "Metrics ro i rows (Stats_c s) w = Done (Collectors s, Stats_c s, w)"
| "Metrics ro i rows Storage_c w = Done (map Var storage_Metrics, Storage_c, w)"
| "Metrics ro i rows Extractor_c w = Done (map Var extractor_Metrics, Extractor_c, w)"
| "Metrics ro i rows Transformer_c w = Done (map Var transformer_Metrics, Transformer_c, w)"
| "Metrics ro i rows Controller_c w = Done (map Var controller_Metrics, Controller_c, w)"

text \<open>\<open>Collector.Refresh\<close>: only the statistics are refreshed.\<close>

fun Refresh :: "sql_DBStats \<Rightarrow> collector \<Rightarrow> 'r metrics_world \<Rightarrow> 'r metrics_world" where
  "Refresh dbStats (Stats_c s) w = DBStats_Set s dbStats w"
| "Refresh dbStats (Postgres_c pg) w = w"
| "Refresh dbStats Storage_c w = w"
| "Refresh dbStats Extractor_c w = w"
| "Refresh dbStats Transformer_c w = w"
| "Refresh dbStats Controller_c w = w"

section \<open>\<open>instrumentation/metrics\<close>\<close>

record metrics_Config =
  mc_DBName :: string
  mc_RefreshInterval :: int
  mc_StartServer :: bool
  mc_HTTPServerPort :: "32 word"
  mc_MetricsCollectors :: "collector list"

definition defaultRefreshInterval :: int where
  "defaultRefreshInterval = 15000000000"

definition defaultHTTPServerPort :: "32 word" where
  "defaultHTTPServerPort = 8080"

text \<open>\<open>pm_refreshing\<close> counts the refreshing goroutines started, \<open>pm_servers\<close> the server goroutines; of these only the first in the
  process gets past \<open>httpServerOnce\<close>.\<close>

record Prometheus =
  pm_Config :: metrics_Config
  pm_refreshOnce :: bool
  pm_Labels :: "(string, string) gomap"
  pm_collectors :: "metric_ref list"
  pm_refreshing :: nat
  pm_servers :: nat

definition metrics_New :: "metrics_Config \<Rightarrow> Prometheus" where
  "metrics_New config =
     (let config = (if mc_RefreshInterval config = 0 then config\<lparr>mc_RefreshInterval := defaultRefreshInterval\<rparr> else config);
          config = (if mc_HTTPServerPort config = 0 then config\<lparr>mc_HTTPServerPort := defaultHTTPServerPort\<rparr> else config)
      in \<lparr>pm_Config = config, pm_refreshOnce = False, pm_Labels = [], pm_collectors = [], pm_refreshing = 0, pm_servers = 0\<rparr>)"

fun gather :: "string range_order \<Rightarrow> int \<Rightarrow> count_row list option \<Rightarrow> collector list \<Rightarrow> 'r metrics_world \<Rightarrow> (metric_ref list \<times> collector list \<times> 'r metrics_world) outcome" where
  "gather ro i rows [] w = Done ([], [], w)"
| "gather ro i rows (mc # mcs) w = bind_outcome (Metrics ro i rows mc w) (\<lambda>(rs, mc, w).
     bind_outcome (gather ro i rows mcs w) (\<lambda>(rs', mcs, w). Done (rs @ rs', mc # mcs, w)))"

text \<open>\<open>prometheus.Register\<close> of each; an error is logged.\<close>

fun register_all :: "(metric \<Rightarrow> metric_ref \<Rightarrow> 'r \<Rightarrow> error option \<times> 'r) \<Rightarrow> metric_ref list \<Rightarrow> 'r metrics_world \<Rightarrow> error list \<times> 'r metrics_world" where
  "register_all Register [] w = ([], w)"
| "register_all Register (r # rs) w = (case Register (the_metric w r) r (mw_registry w) of (err, reg) \<Rightarrow>
     (case register_all Register rs (w\<lparr>mw_registry := reg\<rparr>) of (errs, w) \<Rightarrow> ((case err of None \<Rightarrow> errs | Some e \<Rightarrow> e # errs), w)))"

definition refresh_once :: "(metric \<Rightarrow> metric_ref \<Rightarrow> 'r \<Rightarrow> error option \<times> 'r) \<Rightarrow> string range_order \<Rightarrow> count_row list option \<Rightarrow> Prometheus \<Rightarrow> 'r metrics_world
    \<Rightarrow> (error list \<times> Prometheus \<times> 'r metrics_world) outcome" where
  "refresh_once Register ro rows p w = bind_outcome (gather ro (mc_RefreshInterval (pm_Config p)) rows (mc_MetricsCollectors (pm_Config p)) w) (\<lambda>(rs, mcs, w).
     let p = p\<lparr>pm_refreshOnce := True, pm_Config := (pm_Config p)\<lparr>mc_MetricsCollectors := mcs\<rparr>, pm_collectors := pm_collectors p @ rs\<rparr>
     in (case register_all Register (pm_collectors p) w of (errs, w) \<Rightarrow> Done (errs, p\<lparr>pm_refreshing := pm_refreshing p + 1\<rparr>, w)))"

definition metrics_Initialize :: "(metric \<Rightarrow> metric_ref \<Rightarrow> 'r \<Rightarrow> error option \<times> 'r) \<Rightarrow> string range_order \<Rightarrow> count_row list option \<Rightarrow> Prometheus \<Rightarrow> 'r metrics_world
    \<Rightarrow> (error list \<times> Prometheus \<times> 'r metrics_world) outcome" where
  "metrics_Initialize Register ro rows p w =
     (let p = (if mc_DBName (pm_Config p) \<noteq> [] then p\<lparr>pm_Labels := map_put ''db_name'' (mc_DBName (pm_Config p)) (pm_Labels p)\<rparr> else p)
      in bind_outcome (if pm_refreshOnce p then Done ([], p, w) else refresh_once Register ro rows p w) (\<lambda>(errs, p, w).
        Done (errs, if mc_StartServer (pm_Config p) then p\<lparr>pm_servers := pm_servers p + 1\<rparr> else p, w)))"

text \<open>The metrics of the three programs.  \<open>cfg\<close> has interval, server and port.\<close>

definition explorer_metrics :: "metrics_Config \<Rightarrow> 'r metrics_world \<Rightarrow> Prometheus \<times> 'r metrics_world" where
  "explorer_metrics cfg w = (case NewStatsCollector [] w of (stats, w) \<Rightarrow>
     (metrics_New (cfg\<lparr>mc_DBName := [], mc_MetricsCollectors := [Postgres_c (NewPostgresCollector None), Stats_c stats, Storage_c, Extractor_c, Transformer_c, Controller_c]\<rparr>), w))"

definition api_metrics :: "metrics_Config \<Rightarrow> 'r metrics_world \<Rightarrow> Prometheus \<times> 'r metrics_world" where
  "api_metrics cfg w = (case NewStatsCollector [] w of (stats, w) \<Rightarrow>
     (metrics_New (cfg\<lparr>mc_DBName := [], mc_MetricsCollectors := [Stats_c stats, Storage_c]\<rparr>), w))"

definition exporter_metrics :: "metrics_Config \<Rightarrow> 'r metrics_world \<Rightarrow> Prometheus \<times> 'r metrics_world" where
  "exporter_metrics cfg w = (metrics_New (cfg\<lparr>mc_DBName := [], mc_MetricsCollectors := []\<rparr>), w)"

section \<open>The two timers\<close>

text \<open>A tick of the collector's own timer, with what the query returned, and one of the refreshing goroutine, with the statistics.\<close>

datatype metrics_event = CollectRows "count_row list option" | RefreshAll sql_DBStats

fun collect_tick :: "count_row list option \<Rightarrow> collector list \<Rightarrow> 'r metrics_world \<Rightarrow> (collector list \<times> 'r metrics_world) outcome" where
  "collect_tick rows [] w = Done ([], w)"
| "collect_tick rows (Postgres_c pg # mcs) w = bind_outcome (collect rows (pg, w)) (\<lambda>(pg, w).
     bind_outcome (collect_tick rows mcs w) (\<lambda>(mcs, w). Done (Postgres_c pg # mcs, w)))"
| "collect_tick rows (mc # mcs) w = bind_outcome (collect_tick rows mcs w) (\<lambda>(mcs, w). Done (mc # mcs, w))"

fun metrics_tick :: "metrics_event \<Rightarrow> collector list \<times> 'r metrics_world \<Rightarrow> (collector list \<times> 'r metrics_world) outcome" where
  "metrics_tick (CollectRows rows) (mcs, w) = collect_tick rows mcs w"
| "metrics_tick (RefreshAll dbStats) (mcs, w) = Done (mcs, fold (Refresh dbStats) mcs w)"

fun metrics_run :: "metrics_event list \<Rightarrow> collector list \<times> 'r metrics_world \<Rightarrow> (collector list \<times> 'r metrics_world) outcome" where
  "metrics_run [] s = Done s"
| "metrics_run (e # es) s = bind_outcome (metrics_tick e s) (metrics_run es)"

section \<open>What a registry promises\<close>

text \<open>Names the registry accepts: letters, digits, underscores and colons, not a digit first.\<close>

definition name_letter :: "char \<Rightarrow> bool" where
  "name_letter c \<longleftrightarrow> (let n = (of_char c :: nat) in 97 \<le> n \<and> n \<le> 122 \<or> 65 \<le> n \<and> n \<le> 90 \<or> n = 95 \<or> n = 58)"

definition name_digit :: "char \<Rightarrow> bool" where
  "name_digit c \<longleftrightarrow> (let n = (of_char c :: nat) in 48 \<le> n \<and> n \<le> 57)"

definition valid_name :: "string \<Rightarrow> bool" where
  "valid_name s \<longleftrightarrow> s \<noteq> [] \<and> name_letter (hd s) \<and> list_all (\<lambda>c. name_letter c \<or> name_digit c) s"

definition valid_metric :: "metric \<Rightarrow> bool" where
  "valid_metric m \<longleftrightarrow> valid_name (me_Name m) \<and> list_all (\<lambda>(k, v). valid_name k \<and> CHR '':'' \<notin> set k) (me_ConstLabels m) \<and>
     (case me_kind m of CounterVec ls \<Rightarrow> list_all (\<lambda>k. valid_name k \<and> CHR '':'' \<notin> set k) ls | _ \<Rightarrow> True)"

locale metric_registry =
  fixes Register :: "metric \<Rightarrow> metric_ref \<Rightarrow> 'r \<Rightarrow> error option \<times> 'r" and exported :: "'r \<Rightarrow> (metric \<times> metric_ref) set"
  assumes accepts: "valid_metric m \<Longrightarrow> me_Name m \<notin> me_Name ` fst ` exported reg \<Longrightarrow> \<exists>reg'. Register m r reg = (None, reg') \<and> exported reg' = insert (m, r) (exported reg)"
    and refuses: "Register m r reg = (Some e, reg') \<Longrightarrow> exported reg' = exported reg"
begin

lemma register_all_distinct:
  assumes "\<forall>r \<in> set rs. valid_metric (the_metric w r)" and "distinct (map (\<lambda>r. me_Name (the_metric w r)) rs)"
    and "(\<lambda>r. me_Name (the_metric w r)) ` set rs \<inter> me_Name ` fst ` exported (mw_registry w) = {}"
  shows "\<exists>reg. register_all Register rs w = ([], w\<lparr>mw_registry := reg\<rparr>) \<and>
    exported reg = exported (mw_registry w) \<union> (\<lambda>r. (the_metric w r, r)) ` set rs"
  using assms
proof (induction rs arbitrary: w)
  case Nil
  then show ?case by (auto intro!: exI [of _ "mw_registry w"])
next
  case (Cons r rs)
  obtain reg where r: "Register (the_metric w r) r (mw_registry w) = (None, reg)" "exported reg = insert (the_metric w r, r) (exported (mw_registry w))"
    using accepts [of "the_metric w r" "mw_registry w" r] Cons.prems by auto
  let ?w = "w\<lparr>mw_registry := reg\<rparr>"
  have m [simp]: "the_metric ?w = the_metric w" by (simp add: the_metric_def fun_eq_iff split: metric_ref.splits)
  have "\<exists>reg'. register_all Register rs ?w = ([], ?w\<lparr>mw_registry := reg'\<rparr>) \<and> exported reg' = exported (mw_registry ?w) \<union> (\<lambda>r. (the_metric ?w r, r)) ` set rs"
    by (rule Cons.IH) (use Cons.prems in \<open>auto simp: r(2)\<close>)
  then show ?case by (auto simp: r)
qed

end

text \<open>A registry that is a list.\<close>

definition list_Register :: "metric \<Rightarrow> metric_ref \<Rightarrow> (metric \<times> metric_ref) list \<Rightarrow> error option \<times> (metric \<times> metric_ref) list" where
  "list_Register m r reg = (if \<not> valid_metric m then (Some (Err ''invalid metric''), reg)
     else if me_Name m \<in> me_Name ` fst ` set reg then (Some (Err ''duplicate metrics collector registration attempted''), reg) else (None, (m, r) # reg))"

interpretation listed: metric_registry list_Register set
  by unfold_locales (auto simp: list_Register_def split: if_splits)

section \<open>The metrics of the block explorer\<close>

definition explorer_stats :: DBStats where
  "explorer_stats = \<lparr>dbs_MaxOpenConnections = Made 0, dbs_OpenConnections = Made 1, dbs_InUse = Made 2, dbs_Idle = Made 3, dbs_WaitCount = Made 4,
     dbs_WaitDuration = Made 5, dbs_MaxIdleClosed = Made 6, dbs_MaxLifetimeClosed = Made 7\<rparr>"

text \<open>The program when its metrics are set up: only the variables of the packages are there, and nothing is registered.\<close>

definition at_start :: "('r \<Rightarrow> (metric \<times> metric_ref) set) \<Rightarrow> 'r metrics_world \<Rightarrow> bool" where
  "at_start exported w \<longleftrightarrow> mw_made w = [] \<and> exported (mw_registry w) = {}"

definition stats_names :: "string list" where
  "stats_names = [''gorm_dbstats_max_open_connections'', ''gorm_dbstats_open_connections'', ''gorm_dbstats_in_use'', ''gorm_dbstats_idle'', ''gorm_dbstats_wait_count'',
     ''gorm_dbstats_wait_duration'', ''gorm_dbstats_max_idle_closed'', ''gorm_dbstats_max_lifetime_closed'']"

definition count_names :: "string list" where
  "count_names = [''gbe_gorm_status_all_jetdrop_count'', ''gbe_gorm_status_all_pulse_count'', ''gbe_gorm_status_all_record_count'']"

definition var_names :: "string list" where
  "var_names = map (\<lambda>v. me_Name (metric_of v)) (storage_Metrics @ extractor_Metrics @ transformer_Metrics @ controller_Metrics)"

lemma names_distinct: "distinct (count_names @ stats_names @ var_names)"
  by code_simp

lemma name_letters:
  "name_letter CHR ''a''" "name_letter CHR ''b''" "name_letter CHR ''c''" "name_letter CHR ''d''" "name_letter CHR ''e''" "name_letter CHR ''f''" "name_letter CHR ''g''"
  "name_letter CHR ''h''" "name_letter CHR ''i''" "name_letter CHR ''j''" "name_letter CHR ''k''" "name_letter CHR ''l''" "name_letter CHR ''m''" "name_letter CHR ''n''"
  "name_letter CHR ''o''" "name_letter CHR ''p''" "name_letter CHR ''q''" "name_letter CHR ''r''" "name_letter CHR ''s''" "name_letter CHR ''t''" "name_letter CHR ''u''"
  "name_letter CHR ''v''" "name_letter CHR ''w''" "name_letter CHR ''x''" "name_letter CHR ''y''" "name_letter CHR ''z''" "name_letter CHR ''B''" "name_letter CHR ''C''"
  "name_letter CHR ''D''" "name_letter CHR ''G''" "name_letter CHR ''I''" "name_letter CHR ''J''" "name_letter CHR ''L''" "name_letter CHR ''P''" "name_letter CHR ''Q''"
  "name_letter CHR ''R''" "name_letter CHR ''S''" "name_letter CHR ''W''" "name_letter CHR ''V''" "name_letter CHR ''N''" "name_letter CHR ''_''"
  by (simp_all add: name_letter_def)

lemma names_valid: "list_all valid_name (count_names @ stats_names @ var_names)"
  by (simp add: count_names_def stats_names_def var_names_def valid_name_def name_letters storage_Metrics_def extractor_Metrics_def transformer_Metrics_def controller_Metrics_def
    summary_opts_def metric_opts_def)

lemma var_kind: "me_ConstLabels (metric_of v) = [] \<and> me_kind (metric_of v) \<in> {Summary, Gauge, Counter, CounterVec [LabelType]}"
proof (cases v)
  case (StorageV x)
  then show ?thesis by (cases x) (simp_all add: summary_opts_def metric_opts_def)
next
  case (ExtractorV x)
  then show ?thesis by (cases x) (simp_all add: metric_opts_def)
next
  case (TransformerV x)
  then show ?thesis by (cases x) (simp_all add: metric_opts_def)
next
  case (ControllerV x)
  then show ?thesis by (cases x) (simp_all add: metric_opts_def)
qed

lemma all_vars: "v \<in> set (storage_Metrics @ extractor_Metrics @ transformer_Metrics @ controller_Metrics)"
proof (cases v)
  case (StorageV x)
  then show ?thesis by (cases x) (simp_all add: storage_Metrics_def)
next
  case (ExtractorV x)
  then show ?thesis by (cases x) (simp_all add: extractor_Metrics_def)
next
  case (TransformerV x)
  then show ?thesis by (cases x) (simp_all add: transformer_Metrics_def)
next
  case (ControllerV x)
  then show ?thesis by (cases x) (simp_all add: controller_Metrics_def)
qed

lemma vars_valid: "valid_metric (metric_of v)"
proof -
  have "me_Name (metric_of v) \<in> set var_names" unfolding var_names_def set_map using all_vars [of v] by (rule imageI)
  then have "valid_name (me_Name (metric_of v))" using names_valid by (auto simp: list_all_iff)
  moreover have "valid_name LabelType" "CHR '':'' \<notin> set LabelType" by (simp_all add: valid_name_def LabelType_def name_letters)
  ultimately show ?thesis using var_kind [of v] by (auto simp: valid_metric_def)
qed

definition stats_metrics :: "metric list" where
  "stats_metrics = map2 (\<lambda>name help. metric_opts Gauge name help []) stats_names
     [''Maximum number of open connections to the database.'', ''The number of established connections both in use and idle.'', ''The number of connections currently in use.'',
      ''The number of idle connections.'', ''The total number of connections waited for.'', ''The total time blocked waiting for a new connection.'',
      ''The total number of connections closed due to SetMaxIdleConns.'', ''The total number of connections closed due to SetConnMaxLifetime.'']"

definition count_metrics :: "metric list" where
  "count_metrics = map (\<lambda>name. metric_opts Gauge name [] []) count_names"

lemma metric_opts_simps [simp]: "me_Name (metric_opts k n h l) = n" "me_ConstLabels (metric_opts k n h l) = l" "me_kind (metric_opts k n h l) = k"
  by (simp_all add: metric_opts_def)

lemma made_simps: "length stats_metrics = 8" "map me_Name stats_metrics = stats_names" "length count_metrics = 3" "map me_Name count_metrics = count_names"
  by (simp_all add: stats_metrics_def stats_names_def count_metrics_def count_names_def)

lemma made_valid: "m \<in> set (stats_metrics @ count_metrics) \<Longrightarrow> valid_metric m"
proof -
  assume m: "m \<in> set (stats_metrics @ count_metrics)"
  have "me_kind m = Gauge \<and> me_ConstLabels m = []" using m by (auto simp: stats_metrics_def stats_names_def count_metrics_def)
  moreover have "me_Name m \<in> set (map me_Name stats_metrics @ map me_Name count_metrics)" using m by auto
  then have "valid_name (me_Name m)" using names_valid unfolding made_simps by (auto simp: list_all_iff)
  ultimately show ?thesis by (simp add: valid_metric_def)
qed

lemma stats_collector_start:
  "mw_made w = [] \<Longrightarrow> NewStatsCollector [] w = (explorer_stats, w\<lparr>mw_made := stats_metrics,
     mw_values := (mw_values w)(Made 0 := 0, Made 1 := 0, Made 2 := 0, Made 3 := 0, Made 4 := 0, Made 5 := 0, Made 6 := 0, Made 7 := 0)\<rparr>)"
  by (simp add: NewStatsCollector_def NewGauge_def explorer_stats_def stats_metrics_def stats_names_def eval_nat_numeral)

subsection \<open>The counts of the rows\<close>

definition count_status :: "(string, metric_ref) gomap" where
  "count_status = [(''all_jetdrop_count'', Made 8), (''all_pulse_count'', Made 9), (''all_record_count'', Made 10)]"

definition postgres_at :: "int \<Rightarrow> (string, metric_ref) gomap \<Rightarrow> PostgresCollector" where
  "postgres_at i m = \<lparr>pq_config = \<lparr>pc_Prefix = ''gbe_gorm_status_'', pc_Interval = i, pc_Labels = []\<rparr>, pq_status = Some m, pq_ticking = 1\<rparr>"

definition set_counts :: "int \<times> int \<times> int \<Rightarrow> (metric_ref \<Rightarrow> int) \<Rightarrow> metric_ref \<Rightarrow> int" where
  "set_counts c f = (case c of (j, n, r) \<Rightarrow> f(Made 8 := j, Made 9 := n, Made 10 := r))"

definition counts_at :: "(metric_ref \<Rightarrow> int) \<Rightarrow> int \<times> int \<times> int" where
  "counts_at f = (f (Made 8), f (Made 9), f (Made 10))"

text \<open>The last row that could be scanned.\<close>

fun last_row :: "count_row list \<Rightarrow> int \<times> int \<times> int \<Rightarrow> int \<times> int \<times> int" where
  "last_row [] c = c"
| "last_row (Inl err # rows) c = last_row rows c"
| "last_row (Inr c' # rows) c = last_row rows c'"

lemma set_counts_simps: "set_counts (counts_at f) f = f" "counts_at (set_counts c f) = c" "set_counts c (set_counts c' f) = set_counts c f"
  "k < 8 \<Longrightarrow> set_counts c f (Made k) = f (Made k)"
  by (auto simp: set_counts_def counts_at_def fun_eq_iff split: prod.splits)

lemma scan_first:
  assumes "length (mw_made w) = 8"
  shows "scan_rows [Inr c] (postgres_at i [], w) = Done (postgres_at i count_status, w\<lparr>mw_made := mw_made w @ count_metrics, mw_values := set_counts c (mw_values w)\<rparr>)"
  using assms by (cases c) (simp add: setStats_def postgres_at_def NewGauge_def Set_gauge_def count_status_def count_metrics_def count_names_def set_counts_def fun_upd_twist)

lemma scan_again: "scan_rows rows (postgres_at i count_status, w) = Done (postgres_at i count_status, w\<lparr>mw_values := set_counts (last_row rows (counts_at (mw_values w))) (mw_values w)\<rparr>)"
proof (induction rows "counts_at (mw_values w)" arbitrary: w rule: last_row.induct)
  case (3 c rows)
  obtain j n r where c: "c = (j, n, r)" by (metis prod_cases3)
  let ?w = "w\<lparr>mw_values := set_counts c (mw_values w)\<rparr>"
  have "scan_rows (Inr c # rows) (postgres_at i count_status, w) = scan_rows rows (postgres_at i count_status, ?w)"
    by (simp add: c setStats_def postgres_at_def count_status_def Set_gauge_def set_counts_def)
  then show ?case using 3 [of ?w] by (simp add: set_counts_simps)
qed (simp_all add: set_counts_simps)

text \<open>Neither timer registers anything.\<close>

lemma setStats_registry: "setStats name v (pg, w) = Done (pg', w') \<Longrightarrow> mw_registry w' = mw_registry w"
  by (auto simp: setStats_def NewGauge_def Set_gauge_def split: option.splits)

lemma scan_registry: "scan_rows rows (pg, w) = Done (pg', w') \<Longrightarrow> mw_registry w' = mw_registry w"
proof (induction rows "(pg, w)" arbitrary: pg w rule: scan_rows.induct)
  case (3 j n r rows pg w)
  then show ?case by (auto simp: bind_outcome_Done_iff dest!: setStats_registry)
qed auto

lemma collect_tick_registry: "collect_tick rows mcs w = Done (mcs', w') \<Longrightarrow> mw_registry w' = mw_registry w"
proof (induction rows mcs w arbitrary: mcs' w' rule: collect_tick.induct)
  case (2 rows pg mcs w)
  then show ?case by (auto simp: bind_outcome_Done_iff collect_def split: option.splits dest!: scan_registry)
qed (auto simp: bind_outcome_Done_iff)

lemma DBStats_Set_rest [simp]: "mw_registry (DBStats_Set s d w) = mw_registry w" "mw_made (DBStats_Set s d w) = mw_made w"
  by (simp_all add: DBStats_Set_def Set_gauge_def)

lemma Refresh_rest [simp]: "mw_registry (Refresh d mc w) = mw_registry w" "mw_made (Refresh d mc w) = mw_made w"
  by (cases mc; simp)+

lemma refresh_all_rest: "mw_registry (fold (Refresh d) mcs w) = mw_registry w" "mw_made (fold (Refresh d) mcs w) = mw_made w"
  by (induction mcs arbitrary: w) simp_all

lemma metrics_run_registry: "metrics_run es (mcs, w) = Done (mcs', w') \<Longrightarrow> mw_registry w' = mw_registry w"
proof (induction es arbitrary: mcs w)
  case (Cons e es)
  then show ?case by (cases e) (auto simp: bind_outcome_Done_iff refresh_all_rest dest!: collect_tick_registry)
qed simp
subsection \<open>Setting up\<close>

definition explorer_collectors :: "int \<Rightarrow> (string, metric_ref) gomap \<Rightarrow> collector list" where
  "explorer_collectors i m = [Postgres_c (postgres_at i m), Stats_c explorer_stats, Storage_c, Extractor_c, Transformer_c, Controller_c]"

definition fixed_refs :: "metric_ref list" where
  "fixed_refs = Collectors explorer_stats @ map Var (storage_Metrics @ extractor_Metrics @ transformer_Metrics @ controller_Metrics)"

definition zeroed :: "'r metrics_world \<Rightarrow> 'r metrics_world" where
  "zeroed w = w\<lparr>mw_made := stats_metrics,
     mw_values := (mw_values w)(Made 0 := 0, Made 1 := 0, Made 2 := 0, Made 3 := 0, Made 4 := 0, Made 5 := 0, Made 6 := 0, Made 7 := 0)\<rparr>"

lemma zeroed_simps [simp]: "mw_made (zeroed w) = stats_metrics" "mw_registry (zeroed w) = mw_registry w"
  by (simp_all add: zeroed_def)

lemma first_query_answered:
  assumes "range_ok ro" and "mw_made w = stats_metrics"
  shows "\<exists>rs. gather ro i (Some [Inr c]) [Postgres_c (NewPostgresCollector None), Stats_c explorer_stats, Storage_c, Extractor_c, Transformer_c, Controller_c] w =
      Done (rs @ fixed_refs, explorer_collectors i count_status, w\<lparr>mw_made := stats_metrics @ count_metrics, mw_values := set_counts c (mw_values w)\<rparr>) \<and>
    mset rs = {#Made 8, Made 9, Made 10#}"
proof -
  let ?rs = "map (\<lambda>k. the (map_of count_status k)) (ro 0 (map_keys count_status))"
  have "mset ?rs = image_mset (\<lambda>k. the (map_of count_status k)) (mset (map_keys count_status))"
    using range_ok_mset [OF assms(1)] by simp
  also have "\<dots> = {#Made 8, Made 9, Made 10#}" by (simp add: map_keys_def count_status_def)
  finally have rs: "mset ?rs = {#Made 8, Made 9, Made 10#}" .
  have first: "scan_rows [Inr c] (postgres_at i [], w) = Done (postgres_at i count_status, w\<lparr>mw_made := mw_made w @ count_metrics, mw_values := set_counts c (mw_values w)\<rparr>)"
    by (rule scan_first) (simp add: assms(2) made_simps)
  have "postgres_Metrics ro i (Some [Inr c]) (NewPostgresCollector None, w) =
      Done (?rs, postgres_at i count_status, w\<lparr>mw_made := stats_metrics @ count_metrics, mw_values := set_counts c (mw_values w)\<rparr>)"
    using first unfolding postgres_Metrics_def NewPostgresCollector_def collect_def postgres_at_def by (simp add: assms(2) del: scan_rows.simps)
  then show ?thesis using rs by (intro exI [of _ ?rs]) (simp add: fixed_refs_def explorer_collectors_def)
qed

lemma first_query_failed:
  "gather ro i None [Postgres_c (NewPostgresCollector None), Stats_c explorer_stats, Storage_c, Extractor_c, Transformer_c, Controller_c] w =
     Done (map (\<lambda>k. the (map_of [] k)) (ro 0 []) @ fixed_refs, explorer_collectors i [], w)"
  by (simp add: postgres_Metrics_def NewPostgresCollector_def collect_def postgres_at_def fixed_refs_def explorer_collectors_def map_keys_def)

lemma fixed_names:
  assumes "mw_made w = stats_metrics @ ms"
  shows "map (\<lambda>r. me_Name (the_metric w r)) fixed_refs = stats_names @ var_names" "r \<in> set fixed_refs \<Longrightarrow> valid_metric (the_metric w r)"
proof -
  have m: "map (the_metric w) (Collectors explorer_stats) = stats_metrics"
    by (rule nth_equalityI) (auto simp: Collectors_def explorer_stats_def the_metric_def assms nth_append made_simps eval_nat_numeral less_Suc_eq)
  have "map (\<lambda>r. me_Name (the_metric w r)) (Collectors explorer_stats) = map me_Name (map (the_metric w) (Collectors explorer_stats))" by simp
  also have "\<dots> = stats_names" unfolding m made_simps ..
  finally show "map (\<lambda>r. me_Name (the_metric w r)) fixed_refs = stats_names @ var_names"
    by (simp add: fixed_refs_def var_names_def the_metric_def o_def)
  assume "r \<in> set fixed_refs"
  then consider "r \<in> set (Collectors explorer_stats)" | v where "r = Var v" by (auto simp: fixed_refs_def)
  then show "valid_metric (the_metric w r)"
  proof cases
    case 1
    then have "the_metric w r \<in> set (map (the_metric w) (Collectors explorer_stats))" by simp
    then show ?thesis unfolding m by (intro made_valid) simp
  qed (simp add: the_metric_def vars_valid)
qed

lemma count_refs:
  assumes "mw_made w = stats_metrics @ count_metrics" and "mset rs = {#Made 8, Made 9, Made 10#}"
  shows "mset (map (\<lambda>r. me_Name (the_metric w r)) rs) = mset count_names" "r \<in> set rs \<Longrightarrow> valid_metric (the_metric w r)"
    "set rs = {Made 8, Made 9, Made 10}"
proof -
  have n: "the_metric w (Made 8) = count_metrics ! 0" "the_metric w (Made 9) = count_metrics ! 1" "the_metric w (Made 10) = count_metrics ! 2"
    by (simp_all add: the_metric_def assms(1) nth_append made_simps)
  have "mset (map (\<lambda>r. me_Name (the_metric w r)) rs) = image_mset (\<lambda>r. me_Name (the_metric w r)) {#Made 8, Made 9, Made 10#}"
    using assms(2) by simp
  also have "\<dots> = mset count_names" by (simp add: n count_metrics_def count_names_def)
  finally show "mset (map (\<lambda>r. me_Name (the_metric w r)) rs) = mset count_names" .
  show set: "set rs = {Made 8, Made 9, Made 10}" using arg_cong [OF assms(2), of set_mset] by simp
  show "valid_metric (the_metric w r)" if "r \<in> set rs"
    using that by (intro made_valid) (auto simp: set n count_metrics_def count_names_def)
qed
subsection \<open>Running\<close>

fun last_counts :: "metrics_event list \<Rightarrow> int \<times> int \<times> int \<Rightarrow> int \<times> int \<times> int" where
  "last_counts [] c = c"
| "last_counts (CollectRows (Some rows) # es) c = last_counts es (last_row rows c)"
| "last_counts (CollectRows None # es) c = last_counts es c"
| "last_counts (RefreshAll d # es) c = last_counts es c"

definition stats_values :: "sql_DBStats \<Rightarrow> int list" where
  "stats_values d = [ss_MaxOpenConnections d, ss_OpenConnections d, ss_InUse d, ss_Idle d, ss_WaitCount d, Milliseconds (ss_WaitDuration d), ss_MaxIdleClosed d, ss_MaxLifetimeClosed d]"

fun last_stats :: "metrics_event list \<Rightarrow> int list \<Rightarrow> int list" where
  "last_stats [] v = v"
| "last_stats (RefreshAll d # es) v = last_stats es (stats_values d)"
| "last_stats (CollectRows rows # es) v = last_stats es v"

abbreviation stats_at :: "'r metrics_world \<Rightarrow> int list" where
  "stats_at w \<equiv> map (mw_values w) (Collectors explorer_stats)"

lemma explorer_collect_tick: "collect_tick rows (explorer_collectors i count_status) w = Done (explorer_collectors i count_status,
    w\<lparr>mw_values := set_counts (case rows of None \<Rightarrow> counts_at (mw_values w) | Some rs \<Rightarrow> last_row rs (counts_at (mw_values w))) (mw_values w)\<rparr>)"
  by (cases rows) (simp_all add: explorer_collectors_def collect_def scan_again set_counts_simps)

lemma explorer_refresh: "fold (Refresh d) (explorer_collectors i m) w = DBStats_Set explorer_stats d w"
  by (simp add: explorer_collectors_def)

lemma DBStats_Set_values: "stats_at (DBStats_Set explorer_stats d w) = stats_values d" "counts_at (mw_values (DBStats_Set explorer_stats d w)) = counts_at (mw_values w)"
  by (simp_all add: DBStats_Set_def Set_gauge_def explorer_stats_def Collectors_def stats_values_def counts_at_def)

lemma stats_set_counts: "map (set_counts c f) (Collectors explorer_stats) = map f (Collectors explorer_stats)"
  by (simp add: Collectors_def explorer_stats_def set_counts_simps)

lemma explorer_run:
  "\<exists>w'. metrics_run es (explorer_collectors i count_status, w) = Done (explorer_collectors i count_status, w') \<and> mw_registry w' = mw_registry w \<and>
     counts_at (mw_values w') = last_counts es (counts_at (mw_values w)) \<and> stats_at w' = last_stats es (stats_at w)"
proof (induction es arbitrary: w)
  case (Cons e es)
  show ?case
  proof (cases e)
    case (CollectRows rows)
    let ?w = "w\<lparr>mw_values := set_counts (case rows of None \<Rightarrow> counts_at (mw_values w) | Some rs \<Rightarrow> last_row rs (counts_at (mw_values w))) (mw_values w)\<rparr>"
    show ?thesis using Cons.IH [of ?w] by (cases rows) (simp_all add: CollectRows explorer_collect_tick set_counts_simps stats_set_counts)
  next
    case (RefreshAll d)
    show ?thesis using Cons.IH [of "DBStats_Set explorer_stats d w"] by (simp add: RefreshAll explorer_refresh DBStats_Set_values del: list.map)
  qed
qed simp

text \<open>A registered metric with a name shows a value.\<close>

definition shows_value :: "('r \<Rightarrow> (metric \<times> metric_ref) set) \<Rightarrow> 'r metrics_world \<Rightarrow> string \<Rightarrow> int \<Rightarrow> bool" where
  "shows_value exported w name v \<longleftrightarrow> (\<exists>m r. (m, r) \<in> exported (mw_registry w) \<and> me_Name m = name \<and> mw_values w r = v)"

definition exported_names :: "('r \<Rightarrow> (metric \<times> metric_ref) set) \<Rightarrow> 'r metrics_world \<Rightarrow> string set" where
  "exported_names exported w = me_Name ` fst ` exported (mw_registry w)"

definition counts_list :: "int \<times> int \<times> int \<Rightarrow> int list" where
  "counts_list c = (case c of (j, n, r) \<Rightarrow> [j, n, r])"

lemma explorer_start:
  assumes "mw_made w = []"
  shows "explorer_metrics cfg w = (metrics_New (cfg\<lparr>mc_DBName := [], mc_MetricsCollectors := [Postgres_c (NewPostgresCollector None), Stats_c explorer_stats, Storage_c, Extractor_c,
    Transformer_c, Controller_c]\<rparr>), zeroed w)"
  by (simp add: explorer_metrics_def stats_collector_start [OF assms] zeroed_def)

lemma Initialize_explorer:
  assumes "gather ro i rows [Postgres_c (NewPostgresCollector None), Stats_c explorer_stats, Storage_c, Extractor_c, Transformer_c, Controller_c] w = Done (rs, mcs, w1)"
    and "register_all Register rs w1 = (errs, w2)"
    and "p = metrics_New (cfg\<lparr>mc_DBName := [], mc_MetricsCollectors := [Postgres_c (NewPostgresCollector None), Stats_c explorer_stats, Storage_c, Extractor_c, Transformer_c, Controller_c]\<rparr>)"
    and "i = mc_RefreshInterval (pm_Config p)"
  shows "\<exists>p'. metrics_Initialize Register ro rows p w = Done (errs, p', w2) \<and> mc_MetricsCollectors (pm_Config p') = mcs"
proof -
  have p: "mc_DBName (pm_Config p) = []" "\<not> pm_refreshOnce p" "pm_collectors p = []"
    "mc_MetricsCollectors (pm_Config p) = [Postgres_c (NewPostgresCollector None), Stats_c explorer_stats, Storage_c, Extractor_c, Transformer_c, Controller_c]"
    unfolding assms(3) by (simp_all add: metrics_New_def Let_def)
  show ?thesis using assms(1,2) by (simp add: metrics_Initialize_def refresh_once_def p assms(4) Let_def)
qed

lemma exported_refs:
  assumes "metric_registry Register exported" and "exported (mw_registry w) = {}" and "mw_made w = stats_metrics @ count_metrics" and "mset rs = {#Made 8, Made 9, Made 10#}"
  shows "\<exists>reg. register_all Register (rs @ fixed_refs) w = ([], w\<lparr>mw_registry := reg\<rparr>) \<and> exported reg = (\<lambda>r. (the_metric w r, r)) ` set (rs @ fixed_refs)"
proof -
  have "mset (map (\<lambda>r. me_Name (the_metric w r)) (rs @ fixed_refs)) = mset (count_names @ stats_names @ var_names)"
    using count_refs(1) [OF assms(3,4)] fixed_names(1) [OF assms(3)] by simp
  then have "distinct (map (\<lambda>r. me_Name (the_metric w r)) (rs @ fixed_refs))" using names_distinct mset_eq_imp_distinct_iff by blast
  then show ?thesis using metric_registry.register_all_distinct [OF assms(1), of "rs @ fixed_refs" w] assms(2) count_refs(2) [OF assms(3,4)] fixed_names(2) [OF assms(3)]
    by (auto simp: ball_Un)
qed

lemma refs_show:
  assumes "exported (mw_registry w) = (\<lambda>r. (the_metric w' r, r)) ` R" and "set rs \<subseteq> R"
  shows "list_all2 (shows_value exported w) (map (\<lambda>r. me_Name (the_metric w' r)) rs) (map (mw_values w) rs)"
proof -
  have "shows_value exported w (me_Name (the_metric w' r)) (mw_values w r)" if "r \<in> set rs" for r
    unfolding shows_value_def assms(1) using that assms(2) by (intro exI [of _ "the_metric w' r"] exI [of _ r]) auto
  then show ?thesis by (simp add: list_all2_map1 list_all2_map2 list_all2_same)
qed

lemma made_names:
  assumes "mw_made w = stats_metrics @ count_metrics"
  shows "map (\<lambda>r. me_Name (the_metric w r)) [Made 8, Made 9, Made 10] = count_names" "map (\<lambda>r. me_Name (the_metric w r)) (Collectors explorer_stats) = stats_names"
proof -
  show "map (\<lambda>r. me_Name (the_metric w r)) [Made 8, Made 9, Made 10] = count_names"
    by (simp add: the_metric_def assms nth_append made_simps count_metrics_def count_names_def)
  show "map (\<lambda>r. me_Name (the_metric w r)) (Collectors explorer_stats) = stats_names"
    using arg_cong [OF fixed_names(1) [OF assms], of "take 8"] by (simp add: fixed_refs_def Collectors_def stats_names_def)
qed


text \<open>If the first query fails, the gauges of the counts are made later and never registered: the counts are not exported until the program is
  started again.\<close>

theorem late_counts_not_exported:
  assumes "metric_registry Register exported" and "range_ok ro" and "at_start exported w0" and "explorer_metrics cfg w0 = (p, w)"
    and "metrics_Initialize Register ro None p w = Done (errs, p', w1)" and "metrics_run es (mc_MetricsCollectors (pm_Config p'), w1) = Done (mcs, w2)"
  shows "exported_names exported w2 \<inter> set count_names = {}"
proof -
  let ?i = "mc_RefreshInterval (pm_Config p)"
  have w0: "mw_made w0 = []" "exported (mw_registry w0) = {}" using assms(3) by (simp_all add: at_start_def)
  note start = explorer_start [OF w0(1), of cfg]
  have w: "w = zeroed w0" and p: "p = metrics_New (cfg\<lparr>mc_DBName := [], mc_MetricsCollectors := [Postgres_c (NewPostgresCollector None), Stats_c explorer_stats, Storage_c,
      Extractor_c, Transformer_c, Controller_c]\<rparr>)" using assms(4) start by auto
  have ro: "ro 0 [] = []" using range_ok_set [OF assms(2), of 0 "[]"] by simp
  have g: "gather ro ?i None [Postgres_c (NewPostgresCollector None), Stats_c explorer_stats, Storage_c, Extractor_c, Transformer_c, Controller_c] w =
      Done (fixed_refs, explorer_collectors ?i [], w)" unfolding first_query_failed ro by simp
  have made: "mw_made w = stats_metrics @ []" by (simp add: w)
  have d: "distinct (map (\<lambda>r. me_Name (the_metric w r)) fixed_refs)" unfolding fixed_names(1) [OF made] using names_distinct by simp
  obtain reg where r: "register_all Register fixed_refs w = ([], w\<lparr>mw_registry := reg\<rparr>)" "exported reg = (\<lambda>r. (the_metric w r, r)) ` set fixed_refs"
    using metric_registry.register_all_distinct [OF assms(1) _ d] fixed_names(2) [OF made] w0(2) w by auto
  from Initialize_explorer [OF g r(1) p refl] assms(5) have w1: "w1 = w\<lparr>mw_registry := reg\<rparr>" by auto
  have "exported_names exported w2 = set (map (\<lambda>r. me_Name (the_metric w r)) fixed_refs)"
    using metrics_run_registry [OF assms(6)] by (simp add: w1 exported_names_def r(2) image_image)
  then show ?thesis unfolding fixed_names(1) [OF made] using names_distinct by (auto simp del: set_append simp: disjoint_iff) 
qed

definition first_world :: "(metric \<times> metric_ref) list metrics_world" where
  "first_world = \<lparr>mw_made = [], mw_values = \<lambda>_. 0, mw_registry = []\<rparr>"

definition default_metrics :: metrics_Config where
  "default_metrics = \<lparr>mc_DBName = [], mc_RefreshInterval = 0, mc_StartServer = True, mc_HTTPServerPort = 0, mc_MetricsCollectors = []\<rparr>"


end
