(* ===== verification/Version_Check.thy ===== *)
theory Version_Check
  imports Extractor
begin

text \<open>The versions a client and the platform agree on: the metadata the extractor adds to its calls (\<open>etl/extractor/platform_impl.go\<close>) and the check of the test
  server (\<open>testutils/grpc.go\<close>), which is the one of the platform.  The keys and the names of the client types are constants of the platform's package.\<close>

section \<open>Metadata\<close>

record version_lib =
  KeyClientType :: string
  KeyClientVersionHeavy :: string
  ClientType_Unknown :: string
  ClientType_ValidateHeavyVersion :: string
  ClientType_ValidateContractVersion :: string
  AllowedOnHeavyVersion :: int
  status_Error :: "string \<Rightarrow> error"  \<comment> \<open>with \<open>codes.InvalidArgument\<close>\<close>

type_synonym MD = "(string, string list) gomap"

definition AppendToOutgoingContext :: "string \<Rightarrow> string \<Rightarrow> MD \<Rightarrow> MD" where
  "AppendToOutgoingContext k v md = map_put k ((case map_of md k of None \<Rightarrow> [] | Some vs \<Rightarrow> vs) @ [v]) md"

definition PlatformAPIVersion :: string where
  "PlatformAPIVersion = ''2''"

definition appendPlatformVersionToCtx :: "version_lib \<Rightarrow> MD \<Rightarrow> MD" where
  "appendPlatformVersionToCtx V md = AppendToOutgoingContext (KeyClientVersionHeavy V) PlatformAPIVersion
     (AppendToOutgoingContext (KeyClientType V) (ClientType_ValidateHeavyVersion V) md)"

text \<open>\<open>%s\<close> of a slice of strings.\<close>

fun join_spaces :: "string list \<Rightarrow> string" where
  "join_spaces [] = []"
| "join_spaces [s] = s"
| "join_spaces (s # t # ss) = s @ '' '' @ join_spaces (t # ss)"

definition print_slice :: "string list \<Rightarrow> string" where
  "print_slice ss = ''['' @ join_spaces ss @ '']''"

definition debugVersionError :: "version_lib \<Rightarrow> MD option \<Rightarrow> string" where
  "debugVersionError V mtd = (case mtd of None \<Rightarrow> ''metadata not found'' | Some mtd \<Rightarrow>
     let Get = (\<lambda>k. case map_of mtd k of None \<Rightarrow> [] | Some vs \<Rightarrow> vs) in
     ''Client Type: '' @ print_slice (Get (KeyClientType V)) @ '', Client version: '' @ print_slice (Get (KeyClientVersionHeavy V)))"

section \<open>The check\<close>

definition compareAllowedVersion :: "version_lib \<Rightarrow> exporter_lib \<Rightarrow> string \<Rightarrow> int \<Rightarrow> MD \<Rightarrow> error option" where
  "compareAllowedVersion V X nameVersion allowedVersion md =
     (case map_of md nameVersion of None \<Rightarrow> Some (status_Error V (''unknown '' @ nameVersion))
      | Some [] \<Rightarrow> Some (status_Error V (''unknown '' @ nameVersion))
      | Some (v # _) \<Rightarrow> (case ParseInt v of None \<Rightarrow> Some (status_Error V (''incorrect format of the '' @ nameVersion))
          | Some versionClient \<Rightarrow> if versionClient < 0 then Some (status_Error V (''incorrect format of the '' @ nameVersion))
              else if versionClient = 0 \<or> versionClient < allowedVersion then Some (Err (ErrDeprecatedClientVersion X)) else None))"

definition validateClientVersion :: "version_lib \<Rightarrow> exporter_lib \<Rightarrow> MD \<Rightarrow> int \<Rightarrow> error option" where
  "validateClientVersion V X md heavyVersion =
     (case map_of md (KeyClientType V) of None \<Rightarrow> Some (status_Error V ''unknown type client'')
      | Some [] \<Rightarrow> Some (status_Error V ''unknown type client'')
      | Some (t # _) \<Rightarrow>
          if t = ClientType_Unknown V then Some (status_Error V ''unknown type client'')
          else if t = ClientType_ValidateHeavyVersion V then compareAllowedVersion V X (KeyClientVersionHeavy V) heavyVersion md
          else if t = ClientType_ValidateContractVersion V then Some (status_Error V ''block explorer should send client type 1'')
          else Some (status_Error V ''unknown type client''))"

section \<open>The test server\<close>

record TestGRPCServerConfig =
  tg_VersionChecker :: bool
  tg_HeavyVersion :: "int option"

text \<open>\<open>ts_checker\<close>: the two interceptors, when they are installed, know the configuration.\<close>

record 'l TestGRPCServer =
  ts_Listener :: 'l
  ts_checker :: "TestGRPCServerConfig option"
  ts_Network :: string
  ts_Address :: string

definition CreateTestGRPCServer :: "(string \<Rightarrow> string \<Rightarrow> error + 'l) \<Rightarrow> ('l \<Rightarrow> string \<times> string) \<Rightarrow> TestGRPCServerConfig option \<Rightarrow> error + 'l TestGRPCServer" where
  "CreateTestGRPCServer Listen Addr config = (let config = (case config of None \<Rightarrow> \<lparr>tg_VersionChecker = False, tg_HeavyVersion = None\<rparr> | Some c \<Rightarrow> c) in
     (case Listen ''tcp'' ''127.0.0.1:0'' of Inl err \<Rightarrow> Inl err | Inr listener \<Rightarrow>
       Inr \<lparr>ts_Listener = listener, ts_checker = (if tg_VersionChecker config then Some config else None),
         ts_Network = fst (Addr listener), ts_Address = snd (Addr listener)\<rparr>))"

text \<open>\<open>versionCheckerUnary\<close> and \<open>versionCheckerStream\<close>: the handler runs unless the check fails.\<close>

definition versionChecker :: "version_lib \<Rightarrow> exporter_lib \<Rightarrow> TestGRPCServerConfig \<Rightarrow> MD option \<Rightarrow> (error + 'a) \<Rightarrow> error + 'a" where
  "versionChecker V X config md handler = (case md of None \<Rightarrow> Inl (status_Error V ''failed to retrieve metadata'')
     | Some md \<Rightarrow> (let hv = (case tg_HeavyVersion config of None \<Rightarrow> AllowedOnHeavyVersion V | Some hv \<Rightarrow> hv) in
        (case validateClientVersion V X md hv of Some err \<Rightarrow> Inl err | None \<Rightarrow> handler)))"

definition serve_call :: "version_lib \<Rightarrow> exporter_lib \<Rightarrow> 'l TestGRPCServer \<Rightarrow> MD option \<Rightarrow> (error + 'a) \<Rightarrow> error + 'a" where
  "serve_call V X server md handler = (case ts_checker server of None \<Rightarrow> handler | Some config \<Rightarrow> versionChecker V X config md handler)"

text \<open>\<open>Serve\<close>: the loop around \<open>Server.Serve\<close>, which answers its k-th call; the requirement after the loop is that the last call failed.\<close>

fun serve_loop :: "(nat \<Rightarrow> error option) \<Rightarrow> nat \<Rightarrow> nat \<Rightarrow> error option \<Rightarrow> nat \<times> error option" where
  "serve_loop Serve k 0 err = (k, err)"
| "serve_loop Serve k (Suc n) err = (case Serve k of Some e \<Rightarrow> serve_loop Serve (Suc k) n (Some e) | None \<Rightarrow> serve_loop Serve (Suc k) n None)"

definition Serve_requires :: "(nat \<Rightarrow> error option) \<Rightarrow> bool" where
  "Serve_requires Serve = (snd (serve_loop Serve 0 100 None) \<noteq> None)"

section \<open>The handshake\<close>

definition versions_ok :: "version_lib \<Rightarrow> bool" where
  "versions_ok V \<longleftrightarrow> KeyClientVersionHeavy V = ''heavy-version'' \<and> KeyClientType V \<noteq> KeyClientVersionHeavy V \<and>
     distinct [ClientType_Unknown V, ClientType_ValidateHeavyVersion V, ClientType_ValidateContractVersion V] \<and> (\<forall>m. Contains (Error (status_Error V m)) m)"

text \<open>Metadata that name nothing but what the extractor itself appends, as often as it did.\<close>

definition own_metadata :: "version_lib \<Rightarrow> MD \<Rightarrow> bool" where
  "own_metadata V md \<longleftrightarrow> (\<exists>n. map_of md (KeyClientType V) = (if n = 0 then None else Some (replicate n (ClientType_ValidateHeavyVersion V))) \<and>
     map_of md (KeyClientVersionHeavy V) = (if n = 0 then None else Some (replicate n PlatformAPIVersion)))"

lemma own_metadata_append:
  assumes "versions_ok V" and "own_metadata V md"
  shows "own_metadata V (appendPlatformVersionToCtx V md)"
    "\<exists>ts vs. map_of (appendPlatformVersionToCtx V md) (KeyClientType V) = Some (ClientType_ValidateHeavyVersion V # ts) \<and>
       map_of (appendPlatformVersionToCtx V md) (KeyClientVersionHeavy V) = Some (PlatformAPIVersion # vs)"
proof -
  obtain n where n: "map_of md (KeyClientType V) = (if n = 0 then None else Some (replicate n (ClientType_ValidateHeavyVersion V)))"
      "map_of md (KeyClientVersionHeavy V) = (if n = 0 then None else Some (replicate n PlatformAPIVersion))" using assms(2) unfolding own_metadata_def by blast
  have k: "KeyClientType V \<noteq> KeyClientVersionHeavy V" using assms(1) unfolding versions_ok_def by blast
  have e: "map_of (appendPlatformVersionToCtx V md) (KeyClientType V) = Some (replicate (Suc n) (ClientType_ValidateHeavyVersion V))"
    "map_of (appendPlatformVersionToCtx V md) (KeyClientVersionHeavy V) = Some (replicate (Suc n) PlatformAPIVersion)"
    using n k k [symmetric] by (auto simp: appendPlatformVersionToCtx_def AppendToOutgoingContext_def replicate_append_same)
  then show "own_metadata V (appendPlatformVersionToCtx V md)" unfolding own_metadata_def by (intro exI [of _ "Suc n"]) simp
  from e show "\<exists>ts vs. map_of (appendPlatformVersionToCtx V md) (KeyClientType V) = Some (ClientType_ValidateHeavyVersion V # ts) \<and>
       map_of (appendPlatformVersionToCtx V md) (KeyClientVersionHeavy V) = Some (PlatformAPIVersion # vs)" by simp
qed

lemma own_version: "ParseInt PlatformAPIVersion = Some 2"
  by (simp add: ParseInt_def PlatformAPIVersion_def is_digit_def dec_val_def digit_val_def int64_range_def Let_def)

text \<open>Every refusal is one the extractor takes for a version error, but for those of a client of the other type.\<close>

lemma refusals_recognised:
  assumes "versions_ok V" and "validateClientVersion V X md hv = Some err"
  shows "isVersionError X err \<or> (\<exists>ts. map_of md (KeyClientType V) = Some (ClientType_ValidateContractVersion V # ts))"
proof -
  have s: "Contains (Error (status_Error V m)) m" for m using assms(1) by (simp add: versions_ok_def)
  have h: "KeyClientVersionHeavy V = ''heavy-version''" using assms(1) by (simp add: versions_ok_def)
  have d: "Contains (Error (Err m)) m" for m by (rule Contains_prefix) (simp add: Error_def)
  have "isVersionError X (status_Error V ''unknown type client'')" using s [of "''unknown type client''"] by (simp add: isVersionError_def)
  moreover have "isVersionError X (status_Error V ''unknown heavy-version'')" using s [of "''unknown heavy-version''"] by (simp add: isVersionError_def)
  moreover have "isVersionError X (status_Error V ''incorrect format of the heavy-version'')" using s [of "''incorrect format of the heavy-version''"] by (simp add: isVersionError_def)
  moreover have "isVersionError X (Err (ErrDeprecatedClientVersion X))" using d by (simp add: isVersionError_def)
  ultimately show ?thesis using assms(2) unfolding validateClientVersion_def compareAllowedVersion_def h
    by (auto split: option.splits list.splits if_splits)
qed

text \<open>C14: a server that checks versions lets the extractor's calls through to the handler exactly if it allows clients of version two; whatever it refuses of the
  extractor's own calls the extractor recognises as a version error, on which it shuts the explorer down.\<close>

theorem version_handshake:
  assumes "versions_ok V" and "own_metadata V md" and "ts_checker server = Some config"
  shows "serve_call V X server (Some (appendPlatformVersionToCtx V md)) handler =
      (if (case tg_HeavyVersion config of None \<Rightarrow> AllowedOnHeavyVersion V | Some hv \<Rightarrow> hv) \<le> 2 then handler else Inl (Err (ErrDeprecatedClientVersion X))) \<and>
    isVersionError X (Err (ErrDeprecatedClientVersion X)) \<and> own_metadata V (appendPlatformVersionToCtx V md)"
proof -
  obtain ts vs where m: "map_of (appendPlatformVersionToCtx V md) (KeyClientType V) = Some (ClientType_ValidateHeavyVersion V # ts)"
      "map_of (appendPlatformVersionToCtx V md) (KeyClientVersionHeavy V) = Some (PlatformAPIVersion # vs)" using own_metadata_append(2) [OF assms(1,2)] by blast
  have t: "ClientType_ValidateHeavyVersion V \<noteq> ClientType_Unknown V" using assms(1) by (auto simp: versions_ok_def)
  have v: "validateClientVersion V X (appendPlatformVersionToCtx V md) hv = (if hv \<le> 2 then None else Some (Err (ErrDeprecatedClientVersion X)))" for hv
    unfolding validateClientVersion_def compareAllowedVersion_def by (simp add: m t own_version)
  have "Contains (Error (Err m)) m" for m by (rule Contains_prefix) (simp add: Error_def)
  then show ?thesis using own_metadata_append(1) [OF assms(1,2)] assms(3) by (auto simp: serve_call_def versionChecker_def v isVersionError_def Let_def split: option.splits)
qed

definition plain_versions :: version_lib where
  "plain_versions = \<lparr>KeyClientType = ''client-type'', KeyClientVersionHeavy = ''heavy-version'', ClientType_Unknown = ''0'', ClientType_ValidateHeavyVersion = ''1'',
     ClientType_ValidateContractVersion = ''2'', AllowedOnHeavyVersion = 2, status_Error = Err\<rparr>"

theorem version_handshake_witness:
  "serve_call plain_versions sample_errors \<lparr>ts_Listener = (), ts_checker = Some \<lparr>tg_VersionChecker = True, tg_HeavyVersion = Some 3\<rparr>, ts_Network = ''tcp'', ts_Address = []\<rparr>
      (Some (appendPlatformVersionToCtx plain_versions [])) (Inr ()) = Inl (Err ''deprecated client version'')"
proof -
  have "versions_ok plain_versions" unfolding versions_ok_def plain_versions_def by (auto simp: Error_def intro: Contains_prefix)
  moreover have "own_metadata plain_versions []" by (simp add: own_metadata_def)
  ultimately show ?thesis
    using version_handshake [of plain_versions "[]" "\<lparr>ts_Listener = (), ts_checker = Some \<lparr>tg_VersionChecker = True, tg_HeavyVersion = Some 3\<rparr>, ts_Network = ''tcp'', ts_Address = []\<rparr>"
        "\<lparr>tg_VersionChecker = True, tg_HeavyVersion = Some 3\<rparr>" sample_errors "Inr ()"] by (simp add: sample_errors_def)
qed

text \<open>The loop of \<open>Serve\<close> goes on after a call that ended without an error: it always calls a hundred times, and the test fails in the goroutine unless the
  last call failed.\<close>

lemma serve_loop_all: "serve_loop Serve k n err = (k + n, if n = 0 then err else Serve (k + n - 1))"
proof (induction n arbitrary: k err)
  case (Suc n)
  then show ?case by (auto split: option.splits)
qed simp

lemma Serve_requires_failure: "Serve_requires Serve \<longleftrightarrow> Serve 99 \<noteq> None"
  by (simp add: Serve_requires_def serve_loop_all)

end
