(* ===== verification/Generators.thy ===== *)
theory Generators
  imports Transformer
begin

text \<open>\<open>testutils/generators.go\<close>: the generators of platform records the tests and the load database are fed with.  Their randomness is
  a parameter: the n-th draw of each source.  A generator is a function of the state of the sources that returns a value and the
  next state, panics, or does not return (\<open>None\<close>): a unique jet identifier is drawn again and again until a new one comes.\<close>

section \<open>Sources of randomness\<close>

text \<open>The functions of the packages \<open>gen\<close>, \<open>rand\<close>, \<open>uuid\<close> by number of the draw, and the constructors of identifiers.  \<open>gl_rest\<close> gives
  the fields of a record that no code reads, from its three polymorph numbers.\<close>

record gen_lib =
  gl_ID :: "nat \<Rightarrow> bytes"                       \<comment> \<open>gen.ID\<close>
  gl_IDWithPulse :: "nat \<Rightarrow> 32 word \<Rightarrow> bytes"   \<comment> \<open>gen.IDWithPulse\<close>
  gl_PulseNumber :: "nat \<Rightarrow> 32 word"            \<comment> \<open>gen.PulseNumber\<close>
  gl_JetID :: "nat \<Rightarrow> bytes"                    \<comment> \<open>gen.JetID\<close>
  gl_Reference :: "nat \<Rightarrow> bytes"                \<comment> \<open>gen.Reference\<close>
  gl_Int63n :: "nat \<Rightarrow> int \<Rightarrow> int"              \<comment> \<open>rand.Int63n, rand.Intn\<close>
  gl_UUID :: "nat \<Rightarrow> bytes"                     \<comment> \<open>uuid.NewV4().Bytes()\<close>
  gl_NewID :: "32 word \<Rightarrow> bytes"                \<comment> \<open>insolar.NewID(pn, nil)\<close>
  gl_NewReference :: "bytes \<Rightarrow> bytes"           \<comment> \<open>insolar.NewReference\<close>
  gl_NewJetID :: "byte \<Rightarrow> bytes \<Rightarrow> bytes"       \<comment> \<open>insolar.NewJetID\<close>
  gl_Siblings :: "bytes \<Rightarrow> bytes \<times> bytes"       \<comment> \<open>jet.Siblings\<close>
  gl_zeroID :: bytes                            \<comment> \<open>insolar.ID{}\<close>
  gl_zeroReference :: bytes                     \<comment> \<open>insolar.Reference{}\<close>
  gl_rest :: "int \<Rightarrow> int \<Rightarrow> int \<Rightarrow> bytes"

record rstate =
  rs_draws :: nat
  rs_jets :: nat
  uniqueJetID :: "64 word list"

type_synonym 'a gen = "rstate \<Rightarrow> ('a \<times> rstate) outcome option"

definition ret :: "'a \<Rightarrow> 'a gen" where
  "ret x s = Some (Done (x, s))"

definition crash :: "panic \<Rightarrow> 'a gen" where
  "crash p s = Some (Panic p)"

definition gbind :: "'a gen \<Rightarrow> ('a \<Rightarrow> 'b gen) \<Rightarrow> 'b gen" where
  "gbind m f s = (case m s of None \<Rightarrow> None | Some (Panic p) \<Rightarrow> Some (Panic p) | Some (Done (x, s')) \<Rightarrow> f x s')"

definition draw :: "(nat \<Rightarrow> 'a) \<Rightarrow> 'a gen" where
  "draw source s = Some (Done (source (rs_draws s), s\<lparr>rs_draws := Suc (rs_draws s)\<rparr>))"

definition draw_jet :: "gen_lib \<Rightarrow> bytes gen" where
  "draw_jet g s = Some (Done (gl_JetID g (rs_jets s), s\<lparr>rs_jets := Suc (rs_jets s)\<rparr>))"

text \<open>A loop over a list that collects the results.\<close>

fun gen_map :: "('a \<Rightarrow> 'b gen) \<Rightarrow> 'a list \<Rightarrow> 'b list gen" where
  "gen_map f [] = ret []"
| "gen_map f (x # xs) = gbind (f x) (\<lambda>y. gbind (gen_map f xs) (\<lambda>ys. ret (y # ys)))"

section \<open>Unique jets, numbers, texts\<close>

text \<open>\<open>binary.BigEndian.Uint64\<close> reads eight bytes and panics when there are fewer.\<close>

definition big_endian :: "bytes \<Rightarrow> 64 word" where
  "big_endian bs = foldl (\<lambda>a b. a * 256 + ucast b) 0 (take 8 bs)"

definition saveUniqueJetID :: "insolar_lib \<Rightarrow> bytes \<Rightarrow> bool gen" where
  "saveUniqueJetID L jetID s =
     (if length (Prefix L jetID) < 8 then Some (Panic IndexOutOfRange)
      else let n = big_endian (Prefix L jetID) in
        if n = 0 then Some (Done (False, s))
        else if n \<notin> set (uniqueJetID s) then Some (Done (True, s\<lparr>uniqueJetID := n # uniqueJetID s\<rparr>))
        else Some (Done (False, s)))"

partial_function (option) GenerateUniqueJetID :: "insolar_lib \<Rightarrow> gen_lib \<Rightarrow> rstate \<Rightarrow> (bytes \<times> rstate) outcome option" where
  "GenerateUniqueJetID L g s =
     (case draw_jet g s of None \<Rightarrow> None | Some (Panic p) \<Rightarrow> Some (Panic p) | Some (Done (jetID, s)) \<Rightarrow>
       (case saveUniqueJetID L jetID s of None \<Rightarrow> None | Some (Panic p) \<Rightarrow> Some (Panic p) | Some (Done (new, s)) \<Rightarrow>
         if new then Some (Done (jetID, s)) else GenerateUniqueJetID L g s))"

definition RandNumberOverRange :: "gen_lib \<Rightarrow> int \<Rightarrow> int \<Rightarrow> int gen" where
  "RandNumberOverRange g lo hi = gbind (draw (\<lambda>n. gl_Int63n g n (hi - lo + 1))) (\<lambda>r. ret (r + lo))"

definition GenerateRandBytes :: "gen_lib \<Rightarrow> bytes gen" where
  "GenerateRandBytes g = draw (gl_UUID g)"

definition letterRunes :: string where
  "letterRunes = ''abcdefghijklmnopqrstuvwxyzABCDEFGHIJKLMNOPQRSTUVWXYZ''"

definition RandomString :: "gen_lib \<Rightarrow> nat \<Rightarrow> string gen" where
  "RandomString g n = gen_map (\<lambda>_. gbind (draw (\<lambda>k. gl_Int63n g k (int (length letterRunes)))) (\<lambda>i. ret (letterRunes ! nat i))) [0..<n]"

section \<open>Records\<close>

text \<open>The closure that \<open>GenerateRecords\<close> returns keeps a pulse number, a counter and a flag.\<close>

record records_closure =
  rc_pn :: "32 word"
  rc_cnt :: int
  rc_eof :: bool

datatype generated = Generated ex_Record | GeneratedEOF

definition GenerateRecords :: "gen_lib \<Rightarrow> records_closure gen" where
  "GenerateRecords g = gbind (draw (gl_PulseNumber g)) (\<lambda>pn. ret \<lparr>rc_pn = pn, rc_cnt = 0, rc_eof = True\<rparr>)"

definition generateRecords :: "insolar_lib \<Rightarrow> gen_lib \<Rightarrow> int \<Rightarrow> records_closure \<Rightarrow> (generated \<times> records_closure) gen" where
  "generateRecords L g batchSize c =
     (if \<not> rc_eof c \<and> batchSize = 0 then crash DivideByZero
      else if \<not> rc_eof c \<and> rc_cnt c mod batchSize = 0 then ret (GeneratedEOF, c\<lparr>rc_eof := True\<rparr>)
      else let cnt = rc_cnt c + 1 in
        gbind (RandNumberOverRange g 100 500) (\<lambda>p1. gbind (RandNumberOverRange g 100 500) (\<lambda>p2.
        gbind (draw (gl_Reference g)) (\<lambda>ref. gbind (draw (\<lambda>n. gl_IDWithPulse g n (rc_pn c))) (\<lambda>i.
        gbind (draw (gl_ID g)) (\<lambda>obj. gbind (GenerateUniqueJetID L g) (\<lambda>jet. gbind (RandNumberOverRange g 100 500) (\<lambda>p3.
        ret (Generated \<lparr>er_RecordNumber = of_int cnt, er_ID = i, er_ObjectID = obj, er_JetID = jet,
                 er_Virtual = Virtual_Amend (gl_zeroReference g) [] (gl_zeroID g) ref,
                 er_ShouldIterateFrom = Some (rc_pn c), er_Rest = gl_rest g p1 p2 p3\<rparr>,
             c\<lparr>rc_cnt := cnt, rc_eof := False\<rparr>)))))))))"

partial_function (option) silence_loop :: "insolar_lib \<Rightarrow> gen_lib \<Rightarrow> nat \<Rightarrow> records_closure \<Rightarrow> ex_Record list \<Rightarrow> rstate \<Rightarrow> (ex_Record list \<times> rstate) outcome option" where
  "silence_loop L g n c res s =
     (if length res \<ge> n then Some (Done (res, s))
      else case generateRecords L g (int n) c s of None \<Rightarrow> None | Some (Panic p) \<Rightarrow> Some (Panic p) | Some (Done (r, s)) \<Rightarrow>
        (case r of (GeneratedEOF, c) \<Rightarrow> silence_loop L g n c res s
         | (Generated rec, c) \<Rightarrow> silence_loop L g n c (res @ [rec]) s))"

definition GenerateRecordsSilence :: "insolar_lib \<Rightarrow> gen_lib \<Rightarrow> nat \<Rightarrow> ex_Record list gen" where
  "GenerateRecordsSilence L g n = gbind (GenerateRecords g) (\<lambda>c. silence_loop L g n c [])"

text \<open>\<open>GenerateRecordsSilence(1)[0]\<close>\<close>

definition single_record :: "insolar_lib \<Rightarrow> gen_lib \<Rightarrow> ex_Record gen" where
  "single_record L g = gbind (GenerateRecordsSilence L g 1) (\<lambda>rs. case rs of [] \<Rightarrow> crash IndexOutOfRange | r # _ \<Rightarrow> ret r)"

definition GenerateRequestRecord :: "insolar_lib \<Rightarrow> gen_lib \<Rightarrow> 32 word \<Rightarrow> bytes \<Rightarrow> ex_Record gen" where
  "GenerateRequestRecord L g pulse objectID = gbind (single_record L g) (\<lambda>r. gbind (draw (\<lambda>n. gl_IDWithPulse g n pulse)) (\<lambda>i.
     gbind (RandomString g 20) (\<lambda>method. ret (r\<lparr>er_ID := i, er_ObjectID := objectID, er_ShouldIterateFrom := None,
       er_Virtual := Virtual_IncomingRequest method\<rparr>))))"

definition GenerateVirtualActivateRecord :: "insolar_lib \<Rightarrow> gen_lib \<Rightarrow> 32 word \<Rightarrow> bytes \<Rightarrow> bytes \<Rightarrow> ex_Record gen" where
  "GenerateVirtualActivateRecord L g pulse objectID requestID = gbind (single_record L g) (\<lambda>r. gbind (draw (\<lambda>n. gl_IDWithPulse g n pulse)) (\<lambda>i.
     gbind (draw (gl_Reference g)) (\<lambda>image. ret (r\<lparr>er_ID := i, er_ObjectID := objectID, er_ShouldIterateFrom := None,
       er_Virtual := Virtual_Activate image [] (gl_NewReference g requestID)\<rparr>))))"

definition GenerateVirtualRequestRecord :: "insolar_lib \<Rightarrow> gen_lib \<Rightarrow> 32 word \<Rightarrow> bytes \<Rightarrow> ex_Record gen" where
  "GenerateVirtualRequestRecord L g pulse objectID = gbind (single_record L g) (\<lambda>r. gbind (draw (\<lambda>n. gl_IDWithPulse g n pulse)) (\<lambda>i.
     ret (r\<lparr>er_ID := i, er_ObjectID := objectID, er_ShouldIterateFrom := None, er_Virtual := Virtual_IncomingRequest []\<rparr>)))"

definition GenerateVirtualResultRecord :: "insolar_lib \<Rightarrow> gen_lib \<Rightarrow> 32 word \<Rightarrow> bytes \<Rightarrow> bytes \<Rightarrow> ex_Record gen" where
  "GenerateVirtualResultRecord L g pulse objectID requestID = gbind (single_record L g) (\<lambda>r. gbind (draw (\<lambda>n. gl_IDWithPulse g n pulse)) (\<lambda>i.
     gbind (draw (gl_ID g)) (\<lambda>object. ret (r\<lparr>er_ID := i, er_ObjectID := objectID, er_ShouldIterateFrom := None,
       er_Virtual := Virtual_Result [] object\<rparr>))))"

definition GenerateVirtualAmendRecord :: "insolar_lib \<Rightarrow> gen_lib \<Rightarrow> 32 word \<Rightarrow> bytes \<Rightarrow> bytes \<Rightarrow> ex_Record gen" where
  "GenerateVirtualAmendRecord L g pulse objectID prevStateID = gbind (single_record L g) (\<lambda>r. gbind (draw (\<lambda>n. gl_IDWithPulse g n pulse)) (\<lambda>i.
     gbind (draw (gl_Reference g)) (\<lambda>image. ret (r\<lparr>er_ID := i, er_ObjectID := objectID, er_ShouldIterateFrom := None,
       er_Virtual := Virtual_Amend image [] prevStateID (gl_zeroReference g)\<rparr>))))"

definition GenerateVirtualDeactivateRecord :: "insolar_lib \<Rightarrow> gen_lib \<Rightarrow> 32 word \<Rightarrow> bytes \<Rightarrow> bytes \<Rightarrow> ex_Record gen" where
  "GenerateVirtualDeactivateRecord L g pulse objectID prevStateID = gbind (single_record L g) (\<lambda>r. gbind (draw (\<lambda>n. gl_IDWithPulse g n pulse)) (\<lambda>i.
     ret (r\<lparr>er_ID := i, er_ObjectID := objectID, er_ShouldIterateFrom := None, er_Virtual := Virtual_Deactivate prevStateID\<rparr>)))"

fun GenerateVirtualAmendRecordsLinkedArray ::
  "insolar_lib \<Rightarrow> gen_lib \<Rightarrow> 32 word \<Rightarrow> bytes \<Rightarrow> bytes \<Rightarrow> bytes \<Rightarrow> nat \<Rightarrow> ex_Record list gen" where
  "GenerateVirtualAmendRecordsLinkedArray L g pulse jetID objectID prevStateID 0 = ret []"
| "GenerateVirtualAmendRecordsLinkedArray L g pulse jetID objectID prevStateID (Suc n) =
     gbind (GenerateVirtualAmendRecord L g pulse objectID prevStateID) (\<lambda>r.
     gbind (GenerateVirtualAmendRecordsLinkedArray L g pulse jetID objectID (er_ID r) n) (\<lambda>rs. ret (r\<lparr>er_JetID := jetID\<rparr> # rs)))"

definition GenerateRecordInNextPulse :: "insolar_lib \<Rightarrow> gen_lib \<Rightarrow> 32 word \<Rightarrow> ex_Record gen" where
  "GenerateRecordInNextPulse L g prevPulse = gbind (single_record L g) (\<lambda>r. gbind (draw (\<lambda>n. gl_IDWithPulse g n (prevPulse + 10))) (\<lambda>i.
     ret (r\<lparr>er_ID := i, er_ShouldIterateFrom := None\<rparr>)))"

section \<open>Records of several pulses\<close>

record pulses_closure =
  pc_i :: nat
  pc_localRecordCount :: nat
  pc_prevRecord :: ex_Record

definition GenerateRecordsWithDifferencePulses :: "insolar_lib \<Rightarrow> gen_lib \<Rightarrow> int \<Rightarrow> pulses_closure gen" where
  "GenerateRecordsWithDifferencePulses L g startpn = gbind (single_record L g) (\<lambda>r.
     ret \<lparr>pc_i = 0, pc_localRecordCount = 0, pc_prevRecord = r\<lparr>er_ID := gl_NewID g (of_int startpn)\<rparr>\<rparr>)"

definition difference_fn :: "insolar_lib \<Rightarrow> gen_lib \<Rightarrow> nat \<Rightarrow> nat \<Rightarrow> pulses_closure \<Rightarrow> (generated \<times> pulses_closure) gen" where
  "difference_fn L g differentPulseSize recordCount c =
     (if pc_i c < differentPulseSize then
        gbind (single_record L g) (\<lambda>r.
          if pc_localRecordCount c < recordCount then
            gbind (draw (\<lambda>n. gl_IDWithPulse g n (IDPulse L (er_ID (pc_prevRecord c))))) (\<lambda>i.
              let r = r\<lparr>er_ShouldIterateFrom := None, er_ID := i\<rparr> in
              ret (Generated r, c\<lparr>pc_localRecordCount := pc_localRecordCount c + 1, pc_prevRecord := r\<rparr>))
          else
            gbind (draw (\<lambda>n. gl_IDWithPulse g n (IDPulse L (er_ID (pc_prevRecord c)) + 10))) (\<lambda>i.
              let r = r\<lparr>er_ShouldIterateFrom := None, er_ID := i\<rparr> in
              ret (Generated r, c\<lparr>pc_i := pc_i c + 1, pc_localRecordCount := 1, pc_prevRecord := r\<rparr>)))
      else ret (GeneratedEOF, c))"

text \<open>The results of \<open>n\<close> calls of the closure.\<close>

fun difference_calls :: "insolar_lib \<Rightarrow> gen_lib \<Rightarrow> nat \<Rightarrow> nat \<Rightarrow> nat \<Rightarrow> pulses_closure \<Rightarrow> generated list gen" where
  "difference_calls L g differentPulseSize recordCount 0 c = ret []"
| "difference_calls L g differentPulseSize recordCount (Suc n) c =
     gbind (difference_fn L g differentPulseSize recordCount c) (\<lambda>(r, c).
     gbind (difference_calls L g differentPulseSize recordCount n c) (\<lambda>rs. ret (r # rs)))"

definition only_records :: "generated list \<Rightarrow> ex_Record list" where
  "only_records rs = concat (map (\<lambda>r. case r of Generated x \<Rightarrow> [x] | GeneratedEOF \<Rightarrow> []) rs)"

definition GenerateRecordsWithDifferencePulsesSilence :: "insolar_lib \<Rightarrow> gen_lib \<Rightarrow> nat \<Rightarrow> nat \<Rightarrow> ex_Record list gen" where
  "GenerateRecordsWithDifferencePulsesSilence L g differentPulseSize recordCount =
     gbind (GenerateRecordsWithDifferencePulses L g (uint (MinTimePulse L))) (\<lambda>c.
     gbind (difference_calls L g differentPulseSize recordCount (differentPulseSize * recordCount) c) (\<lambda>rs. ret (only_records rs)))"

definition GenerateRecordsFromOneJetSilence :: "insolar_lib \<Rightarrow> gen_lib \<Rightarrow> nat \<Rightarrow> nat \<Rightarrow> ex_Record list gen" where
  "GenerateRecordsFromOneJetSilence L g differentPulseSize recordCount =
     gbind (GenerateRecordsWithDifferencePulsesSilence L g differentPulseSize recordCount) (\<lambda>records.
     gbind (GenerateUniqueJetID L g) (\<lambda>jetID. ret (map (\<lambda>r. r\<lparr>er_JetID := jetID\<rparr>) records)))"

section \<open>Total correctness of generators\<close>

text \<open>\<open>jets_left n\<close>: the source of jets still has \<open>n\<close> new prefixes other than zero.  \<open>gspec k m Q\<close>: with \<open>k\<close> new prefixes left the
  generator returns, has used at most these, and \<open>Q\<close> relates its result to the numbers of draws before and after.\<close>

definition fresh_jets :: "insolar_lib \<Rightarrow> gen_lib \<Rightarrow> rstate \<Rightarrow> 64 word set" where
  "fresh_jets L g s = {v. v \<noteq> 0 \<and> v \<notin> set (uniqueJetID s) \<and> (\<exists>k \<ge> rs_jets s. big_endian (Prefix L (gl_JetID g k)) = v)}"

definition jets_left :: "insolar_lib \<Rightarrow> gen_lib \<Rightarrow> nat \<Rightarrow> rstate \<Rightarrow> bool" where
  "jets_left L g n s \<longleftrightarrow> (\<forall>k. 8 \<le> length (Prefix L (gl_JetID g k))) \<and> n \<le> card (fresh_jets L g s)"

definition gspec :: "insolar_lib \<Rightarrow> gen_lib \<Rightarrow> nat \<Rightarrow> 'a gen \<Rightarrow> (nat \<Rightarrow> 'a \<Rightarrow> nat \<Rightarrow> bool) \<Rightarrow> bool" where
  "gspec L g k m Q \<longleftrightarrow> (\<forall>n s. jets_left L g (k + n) s \<longrightarrow>
     (\<exists>x s'. m s = Some (Done (x, s')) \<and> jets_left L g n s' \<and> rs_draws s \<le> rs_draws s' \<and> Q (rs_draws s) x (rs_draws s')))"

lemma jets_left_mono: "jets_left L g n s \<Longrightarrow> m \<le> n \<Longrightarrow> jets_left L g m s"
  by (simp add: jets_left_def)

lemma jets_left_draws [simp]: "jets_left L g n (s\<lparr>rs_draws := d\<rparr>) = jets_left L g n s"
  by (simp add: jets_left_def fresh_jets_def)

lemma fresh_jets_skip:
  assumes "big_endian (Prefix L (gl_JetID g (rs_jets s))) = v" and "v = 0 \<or> v \<in> set (uniqueJetID s)"
  shows "fresh_jets L g (s\<lparr>rs_jets := Suc (rs_jets s)\<rparr>) = fresh_jets L g s"
proof -
  have "(\<exists>k \<ge> rs_jets s. big_endian (Prefix L (gl_JetID g k)) = w) \<longleftrightarrow> (\<exists>k \<ge> Suc (rs_jets s). big_endian (Prefix L (gl_JetID g k)) = w)"
    if "w \<noteq> v" for w
    using that assms(1) by (metis Suc_leD le_eq_less_or_eq less_eq_Suc_le)
  then have "w \<in> fresh_jets L g (s\<lparr>rs_jets := Suc (rs_jets s)\<rparr>) \<longleftrightarrow> w \<in> fresh_jets L g s" if "w \<noteq> v" for w
    using that by (simp add: fresh_jets_def)
  moreover have "v \<notin> fresh_jets L g (s\<lparr>rs_jets := Suc (rs_jets s)\<rparr>)" "v \<notin> fresh_jets L g s"
    using assms(2) by (auto simp: fresh_jets_def)
  ultimately have "w \<in> fresh_jets L g (s\<lparr>rs_jets := Suc (rs_jets s)\<rparr>) \<longleftrightarrow> w \<in> fresh_jets L g s" for w by metis
  then show ?thesis by (rule set_eqI)
qed

lemma fresh_jets_take:
  assumes "big_endian (Prefix L (gl_JetID g (rs_jets s))) = v"
  shows "fresh_jets L g s - {v} \<subseteq> fresh_jets L g (s\<lparr>rs_jets := Suc (rs_jets s), uniqueJetID := v # uniqueJetID s\<rparr>)"
proof
  fix w
  assume w: "w \<in> fresh_jets L g s - {v}"
  then obtain k where "k \<ge> rs_jets s" "big_endian (Prefix L (gl_JetID g k)) = w" by (auto simp: fresh_jets_def)
  moreover from this w assms have "k \<noteq> rs_jets s" by auto
  ultimately show "w \<in> fresh_jets L g (s\<lparr>rs_jets := Suc (rs_jets s), uniqueJetID := v # uniqueJetID s\<rparr>)"
    using w by (auto simp: fresh_jets_def intro!: exI [of _ k])
qed

lemma GenerateUniqueJetID_step:
  assumes "\<forall>k. 8 \<le> length (Prefix L (gl_JetID g k))"
  shows "GenerateUniqueJetID L g s = (let v = big_endian (Prefix L (gl_JetID g (rs_jets s))) in
     if v = 0 \<or> v \<in> set (uniqueJetID s) then GenerateUniqueJetID L g (s\<lparr>rs_jets := Suc (rs_jets s)\<rparr>)
     else Some (Done (gl_JetID g (rs_jets s), s\<lparr>rs_jets := Suc (rs_jets s), uniqueJetID := v # uniqueJetID s\<rparr>)))"
proof -
  have "\<not> length (Prefix L (gl_JetID g (rs_jets s))) < 8" using assms by (simp add: not_less)
  then show ?thesis by (subst GenerateUniqueJetID.simps) (simp add: draw_jet_def saveUniqueJetID_def Let_def)
qed

text \<open>As long as a new prefix comes some time, a jet is returned: one that was not returned before and never will be again.\<close>

lemma GenerateUniqueJetID_returns:
  assumes "jets_left L g (Suc n) s"
  shows "\<exists>j s'. GenerateUniqueJetID L g s = Some (Done (j, s')) \<and> jets_left L g n s' \<and> rs_draws s' = rs_draws s \<and>
    big_endian (Prefix L j) \<notin> set (uniqueJetID s) \<and> uniqueJetID s' = big_endian (Prefix L j) # uniqueJetID s"
proof -
  from assms have "fresh_jets L g s \<noteq> {}" by (auto simp: jets_left_def)
  then obtain k where "rs_jets s \<le> k" "big_endian (Prefix L (gl_JetID g k)) \<in> fresh_jets L g s" by (auto simp: fresh_jets_def)
  then show ?thesis using assms
  proof (induction "k - rs_jets s" arbitrary: s rule: less_induct)
    case less
    let ?v = "big_endian (Prefix L (gl_JetID g (rs_jets s)))"
    from less.prems(3) have len: "\<forall>k. 8 \<le> length (Prefix L (gl_JetID g k))" by (simp add: jets_left_def)
    note step = GenerateUniqueJetID_step [OF len, of s, unfolded Let_def]
    show ?case
    proof (cases "?v = 0 \<or> ?v \<in> set (uniqueJetID s)")
      case True
      note skip = fresh_jets_skip [OF refl True]
      from True less.prems(2) have "k \<noteq> rs_jets s" by (auto simp: fresh_jets_def)
      with less.prems(1) have "k - rs_jets (s\<lparr>rs_jets := Suc (rs_jets s)\<rparr>) < k - rs_jets s" "Suc (rs_jets s) \<le> k" by auto
      moreover have "jets_left L g (Suc n) (s\<lparr>rs_jets := Suc (rs_jets s)\<rparr>)" using less.prems(3) skip by (simp add: jets_left_def)
      ultimately have "\<exists>j s'. GenerateUniqueJetID L g (s\<lparr>rs_jets := Suc (rs_jets s)\<rparr>) = Some (Done (j, s')) \<and> jets_left L g n s' \<and>
          rs_draws s' = rs_draws s \<and> big_endian (Prefix L j) \<notin> set (uniqueJetID s) \<and> uniqueJetID s' = big_endian (Prefix L j) # uniqueJetID s"
        using less.hyps [of "s\<lparr>rs_jets := Suc (rs_jets s)\<rparr>"] less.prems(2) skip by simp
      then show ?thesis unfolding step if_P [OF True] .
    next
      case False
      let ?s = "s\<lparr>rs_jets := Suc (rs_jets s), uniqueJetID := ?v # uniqueJetID s\<rparr>"
      have "card (fresh_jets L g s - {?v}) \<le> card (fresh_jets L g ?s)"
        by (rule card_mono [OF finite fresh_jets_take [OF refl]])
      moreover have "card (fresh_jets L g s) - 1 \<le> card (fresh_jets L g s - {?v})" by (simp add: card_Diff_singleton_if)
      ultimately have "n \<le> card (fresh_jets L g ?s)" using less.prems(3) unfolding jets_left_def by linarith
      with len have "jets_left L g n ?s" by (simp add: jets_left_def)
      with False show ?thesis unfolding step if_not_P [OF False] by simp
    qed
  qed
qed

subsection \<open>Rules\<close>

lemma gspecD:
  assumes "gspec L g k m Q" and "jets_left L g (k + n) s"
  shows "\<exists>x s'. m s = Some (Done (x, s')) \<and> jets_left L g n s' \<and> rs_draws s \<le> rs_draws s' \<and> Q (rs_draws s) x (rs_draws s')"
  using assms by (simp add: gspec_def)

lemma gspec_weaken: "gspec L g k m Q \<Longrightarrow> k \<le> k' \<Longrightarrow> (\<And>a x b. a \<le> b \<Longrightarrow> Q a x b \<Longrightarrow> Q' a x b) \<Longrightarrow> gspec L g k' m Q'"
  unfolding gspec_def by (metis add.assoc jets_left_mono le_add1 le_add_diff_inverse add_le_mono1)

lemma gspec_ret: "(\<And>a. Q a x a) \<Longrightarrow> gspec L g 0 (ret x) Q"
  by (simp add: gspec_def ret_def)

lemma gspec_draw: "(\<And>a. Q a (source a) (Suc a)) \<Longrightarrow> gspec L g 0 (draw source) Q"
  by (simp add: gspec_def draw_def)

lemma gspec_jet: "gspec L g 1 (GenerateUniqueJetID L g) (\<lambda>a j b. b = a)"
  unfolding gspec_def
proof (intro allI impI)
  fix n s
  assume "jets_left L g (1 + n) s"
  then have "jets_left L g (Suc n) s" by simp
  from GenerateUniqueJetID_returns [OF this] show "\<exists>x s'. GenerateUniqueJetID L g s = Some (Done (x, s')) \<and> jets_left L g n s' \<and>
      rs_draws s \<le> rs_draws s' \<and> rs_draws s' = rs_draws s" by auto
qed

lemma gspec_bind:
  assumes m: "gspec L g k m P" and f: "\<And>x a b. P a x b \<Longrightarrow> gspec L g l (f x) (R x)"
    and Q: "\<And>a x b y c. a \<le> b \<Longrightarrow> b \<le> c \<Longrightarrow> P a x b \<Longrightarrow> R x b y c \<Longrightarrow> Q a y c"
  shows "gspec L g (k + l) (gbind m f) Q"
  unfolding gspec_def
proof (intro allI impI)
  fix n s
  assume "jets_left L g (k + l + n) s"
  then have "jets_left L g (k + (l + n)) s" by (simp add: add.assoc)
  from gspecD [OF m this] obtain x s1 where 1: "m s = Some (Done (x, s1))" "jets_left L g (l + n) s1" "rs_draws s \<le> rs_draws s1"
    "P (rs_draws s) x (rs_draws s1)" by blast
  from gspecD [OF f [OF 1(4)] 1(2)] obtain y s2 where 2: "f x s1 = Some (Done (y, s2))" "jets_left L g n s2" "rs_draws s1 \<le> rs_draws s2"
    "R x (rs_draws s1) y (rs_draws s2)" by blast
  have "gbind m f s = Some (Done (y, s2))" using 1(1) 2(1) by (simp add: gbind_def)
  then show "\<exists>x s'. gbind m f s = Some (Done (x, s')) \<and> jets_left L g n s' \<and> rs_draws s \<le> rs_draws s' \<and> Q (rs_draws s) x (rs_draws s')"
    using 2(2) Q [OF 1(3) 2(3) 1(4) 2(4)] 1(3) 2(3) by auto
qed

text \<open>The rule when the continuation uses no new prefixes, and the rule that keeps nothing of the first result.\<close>

lemma gspec_draw_bind: "(\<And>a. gspec L g k (f (source a)) (\<lambda>b y c. b = Suc a \<longrightarrow> Q a y c)) \<Longrightarrow> gspec L g k (gbind (draw source) f) Q"
  unfolding gspec_def
proof (intro allI impI)
  fix n s
  assume f: "\<And>a. \<forall>n s. jets_left L g (k + n) s \<longrightarrow> (\<exists>x s'. f (source a) s = Some (Done (x, s')) \<and> jets_left L g n s' \<and>
      rs_draws s \<le> rs_draws s' \<and> (rs_draws s = Suc a \<longrightarrow> Q a x (rs_draws s')))" and s: "jets_left L g (k + n) s"
  have "jets_left L g (k + n) (s\<lparr>rs_draws := Suc (rs_draws s)\<rparr>)" using s by simp
  with f [of "rs_draws s"] obtain x s' where "f (source (rs_draws s)) (s\<lparr>rs_draws := Suc (rs_draws s)\<rparr>) = Some (Done (x, s'))"
    "jets_left L g n s'" "Suc (rs_draws s) \<le> rs_draws s'" "Q (rs_draws s) x (rs_draws s')" by fastforce
  then show "\<exists>x s'. gbind (draw source) f s = Some (Done (x, s')) \<and> jets_left L g n s' \<and> rs_draws s \<le> rs_draws s' \<and> Q (rs_draws s) x (rs_draws s')"
    by (auto simp: gbind_def draw_def)
qed

lemma gspec_bind_const:
  assumes "gspec L g k m P" and "\<And>x. gspec L g l (f x) (\<lambda>_ y _. R y)"
  shows "gspec L g (k + l) (gbind m f) (\<lambda>_ y _. R y)"
  by (rule gspec_bind [OF assms])

lemma gspec_number: "gspec L g 0 (RandNumberOverRange g lo hi) (\<lambda>a r b. b = Suc a \<and> r = gl_Int63n g a (hi - lo + 1) + lo)"
  unfolding RandNumberOverRange_def by (intro gspec_draw_bind gspec_ret) simp

lemma gspec_map:
  assumes "\<And>x. x \<in> set xs \<Longrightarrow> gspec L g k (f x) (\<lambda>_ _ _. True)"
  shows "gspec L g (length xs * k) (gen_map f xs) (\<lambda>a ys b. length ys = length xs)"
  using assms
proof (induction xs)
  case Nil
  then show ?case by (auto intro: gspec_ret)
next
  case (Cons x xs)
  have "gspec L g (length xs * k + 0) (gbind (gen_map f xs) (\<lambda>ys. ret (y # ys))) (\<lambda>a ys b. length ys = length (x # xs))" for y
    by (rule gspec_bind [OF Cons.IH, where R = "\<lambda>ys a zs b. zs = y # ys"]) (auto intro: gspec_ret Cons.prems)
  then have r: "gspec L g (length xs * k) (gbind (gen_map f xs) (\<lambda>ys. ret (y # ys))) (\<lambda>a ys b. length ys = length (x # xs))" for y by simp
  have "gspec L g (k + length xs * k) (gen_map f (x # xs)) (\<lambda>a ys b. length ys = length (x # xs))"
    unfolding gen_map.simps by (rule gspec_bind [OF Cons.prems r]) auto
  then show ?case by simp
qed

lemma gspec_text: "gspec L g 0 (RandomString g n) (\<lambda>a t b. length t = n)"
proof -
  have "gspec L g (length [0..<n] * 0) (RandomString g n) (\<lambda>a t b. length t = length [0..<n])"
    unfolding RandomString_def by (rule gspec_map) (auto intro!: gspec_draw_bind gspec_ret)
  then show ?thesis by simp
qed

subsection \<open>Generated records\<close>

text \<open>\<open>id_drawn\<close>: the identifier of a record is one of the draws between two numbers.\<close>

definition id_drawn :: "gen_lib \<Rightarrow> 32 word \<Rightarrow> nat \<Rightarrow> ex_Record \<Rightarrow> nat \<Rightarrow> bool" where
  "id_drawn g pn a r b \<longleftrightarrow> (\<exists>n. a \<le> n \<and> n < b \<and> er_ID r = gl_IDWithPulse g n pn)"

lemma id_drawn_mono: "id_drawn g pn a r b \<Longrightarrow> a' \<le> a \<Longrightarrow> b \<le> b' \<Longrightarrow> id_drawn g pn a' r b'"
  unfolding id_drawn_def by (meson le_trans less_le_trans)

definition fill_record :: "gen_lib \<Rightarrow> records_closure \<Rightarrow> int \<Rightarrow> int \<Rightarrow> bytes \<Rightarrow> bytes \<Rightarrow> bytes \<Rightarrow> bytes \<Rightarrow> int \<Rightarrow> generated \<times> records_closure" where
  "fill_record g c p1 p2 ref i obj jet p3 =
     (Generated \<lparr>er_RecordNumber = of_int (rc_cnt c + 1), er_ID = i, er_ObjectID = obj, er_JetID = jet,
        er_Virtual = Virtual_Amend (gl_zeroReference g) [] (gl_zeroID g) ref,
        er_ShouldIterateFrom = Some (rc_pn c), er_Rest = gl_rest g p1 p2 p3\<rparr>, c\<lparr>rc_cnt := rc_cnt c + 1, rc_eof := False\<rparr>)"

lemma generateRecords_fill:
  "rc_eof c \<or> n \<noteq> 0 \<and> \<not> int n dvd rc_cnt c \<Longrightarrow> generateRecords L g (int n) c =
     gbind (RandNumberOverRange g 100 500) (\<lambda>p1. gbind (RandNumberOverRange g 100 500) (\<lambda>p2. gbind (draw (gl_Reference g)) (\<lambda>ref.
     gbind (draw (\<lambda>n. gl_IDWithPulse g n (rc_pn c))) (\<lambda>i. gbind (draw (gl_ID g)) (\<lambda>obj. gbind (GenerateUniqueJetID L g) (\<lambda>jet.
     gbind (RandNumberOverRange g 100 500) (\<lambda>p3. ret (fill_record g c p1 p2 ref i obj jet p3))))))))"
  by (auto simp: generateRecords_def Let_def dvd_eq_mod_eq_0 fill_record_def)

definition filled :: "records_closure \<Rightarrow> bytes \<Rightarrow> generated \<times> records_closure \<Rightarrow> bool" where
  "filled c i y \<longleftrightarrow> (\<exists>x. y = (Generated x, c\<lparr>rc_cnt := rc_cnt c + 1, rc_eof := False\<rparr>) \<and> er_ID x = i \<and>
     er_RecordNumber x = of_int (rc_cnt c + 1) \<and> er_ShouldIterateFrom x = Some (rc_pn c))"

lemma gspec_generateRecords:
  assumes "rc_eof c \<or> n \<noteq> 0 \<and> \<not> int n dvd rc_cnt c"
  shows "gspec L g 1 (generateRecords L g (int n) c) (\<lambda>a y b. \<exists>k. a \<le> k \<and> k < b \<and> filled c (gl_IDWithPulse g k (rc_pn c)) y)"
proof -
  let ?Q = "\<lambda>a y b. \<exists>k. a \<le> k \<and> k < b \<and> filled c (gl_IDWithPulse g k (rc_pn c)) y"
  have f: "gspec L g 0 (ret (fill_record g c p1 p2 ref i obj jet p3)) (\<lambda>_ y _. filled c i y)" for p1 p2 ref i obj jet p3
    by (rule gspec_ret) (simp add: fill_record_def filled_def)
  have "gspec L g (1 + (0 + 0)) (gbind (GenerateUniqueJetID L g) (\<lambda>jet. gbind (RandNumberOverRange g 100 500) (\<lambda>p3.
      ret (fill_record g c p1 p2 ref i obj jet p3)))) (\<lambda>_ y _. filled c i y)" for p1 p2 ref i obj
    by (rule gspec_bind_const [OF gspec_jet], rule gspec_bind_const [OF gspec_number], rule f)
  then have j: "gspec L g 1 (gbind (GenerateUniqueJetID L g) (\<lambda>jet. gbind (RandNumberOverRange g 100 500) (\<lambda>p3.
      ret (fill_record g c p1 p2 ref i obj jet p3)))) (\<lambda>_ y _. filled c i y)" for p1 p2 ref i obj by simp
  have d: "gspec L g 1 (gbind (draw (gl_Reference g)) (\<lambda>ref. gbind (draw (\<lambda>n. gl_IDWithPulse g n (rc_pn c))) (\<lambda>i.
      gbind (draw (gl_ID g)) (\<lambda>obj. gbind (GenerateUniqueJetID L g) (\<lambda>jet. gbind (RandNumberOverRange g 100 500) (\<lambda>p3.
      ret (fill_record g c p1 p2 ref i obj jet p3))))))) ?Q" for p1 p2
    by (rule gspec_draw_bind, rule gspec_draw_bind, rule gspec_draw_bind, rule gspec_weaken [OF j])
      (auto, metis Suc_lessD Suc_le_lessD le_SucI order_refl)
  have "gspec L g (0 + 1) (gbind (RandNumberOverRange g 100 500) (\<lambda>p2. gbind (draw (gl_Reference g)) (\<lambda>ref.
      gbind (draw (\<lambda>n. gl_IDWithPulse g n (rc_pn c))) (\<lambda>i. gbind (draw (gl_ID g)) (\<lambda>obj. gbind (GenerateUniqueJetID L g) (\<lambda>jet.
      gbind (RandNumberOverRange g 100 500) (\<lambda>p3. ret (fill_record g c p1 p2 ref i obj jet p3)))))))) ?Q" for p1
    by (rule gspec_bind [OF gspec_number d]) (meson le_trans)
  then have "gspec L g (0 + (0 + 1)) (generateRecords L g (int n) c) ?Q"
    unfolding generateRecords_fill [OF assms] by (rule gspec_bind [OF gspec_number]) (meson le_trans)
  then show ?thesis by simp
qed

lemma silence_loop_bind:
  "length res < n \<Longrightarrow> silence_loop L g n c res = gbind (generateRecords L g (int n) c) (\<lambda>(r, c). case r of
     GeneratedEOF \<Rightarrow> silence_loop L g n c res | Generated x \<Rightarrow> silence_loop L g n c (res @ [x]))"
  by (rule ext, subst silence_loop.simps) (auto simp: gbind_def split: option.splits outcome.splits prod.splits generated.splits)

text \<open>The loop of \<open>GenerateRecordsSilence\<close> never meets the end of a batch: it returns records numbered from one on.\<close>

definition fresh_record :: "gen_lib \<Rightarrow> 32 word \<Rightarrow> ex_Record \<Rightarrow> bool" where
  "fresh_record g pn x \<longleftrightarrow> (\<exists>k. er_ID x = gl_IDWithPulse g k pn) \<and> er_ShouldIterateFrom x = Some pn"

lemma gspec_silence_loop:
  "rc_cnt c = int (length res) \<Longrightarrow> rc_eof c = (res = []) \<Longrightarrow> length res \<le> n \<Longrightarrow>
   gspec L g (n - length res) (silence_loop L g n c res) (\<lambda>a ys b. \<exists>zs. ys = res @ zs \<and> length ys = n \<and>
     (\<forall>i < length zs. er_RecordNumber (zs ! i) = of_nat (length res + i + 1) \<and> fresh_record g (rc_pn c) (zs ! i)))"
proof (induction "n - length res" arbitrary: c res)
  case 0
  have "silence_loop L g n c res = ret res"
    by (rule ext, subst silence_loop.simps) (use 0 in \<open>simp add: ret_def\<close>)
  with 0 show ?case by (auto intro: gspec_ret)
next
  case (Suc m)
  have c: "rc_eof c \<or> n \<noteq> 0 \<and> \<not> int n dvd rc_cnt c"
  proof (cases "res = []")
    case False
    then have "0 < length res" "length res < n" using Suc.hyps(2) by simp_all
    moreover from this have "\<not> n dvd length res" by (simp add: nat_dvd_not_less)
    ultimately show ?thesis by (simp add: Suc.prems(1))
  qed (use Suc.prems(2) in simp)
  let ?c = "c\<lparr>rc_cnt := rc_cnt c + 1, rc_eof := False\<rparr>"
  have IH: "gspec L g m (silence_loop L g n ?c (res @ [x])) (\<lambda>a ys b. \<exists>zs. ys = (res @ [x]) @ zs \<and> length ys = n \<and>
     (\<forall>i < length zs. er_RecordNumber (zs ! i) = of_nat (length (res @ [x]) + i + 1) \<and> fresh_record g (rc_pn c) (zs ! i)))" for x
  proof -
    have "m = n - length (res @ [x])" using Suc.hyps(2) by simp
    moreover from this have "length (res @ [x]) \<le> n" using Suc.hyps(2) by simp
    ultimately show ?thesis using Suc.hyps(1) [of "res @ [x]" ?c] Suc.prems(1) by simp
  qed
  have "gspec L g (1 + m) (gbind (generateRecords L g (int n) c) (\<lambda>(r, c). case r of
     GeneratedEOF \<Rightarrow> silence_loop L g n c res | Generated x \<Rightarrow> silence_loop L g n c (res @ [x])))
     (\<lambda>a ys b. \<exists>zs. ys = res @ zs \<and> length ys = n \<and>
     (\<forall>i < length zs. er_RecordNumber (zs ! i) = of_nat (length res + i + 1) \<and> fresh_record g (rc_pn c) (zs ! i)))"
  proof (rule gspec_bind [OF gspec_generateRecords [OF c], where R = "\<lambda>y a ys b. \<exists>x zs. y = (Generated x, ?c) \<and> ys = (res @ [x]) @ zs \<and> length ys = n \<and>
      (\<forall>i < length zs. er_RecordNumber (zs ! i) = of_nat (length (res @ [x]) + i + 1) \<and> fresh_record g (rc_pn c) (zs ! i))"], goal_cases)
    case (1 y a b)
    then obtain x where y: "y = (Generated x, ?c)" by (auto simp: filled_def)
    have "gspec L g m (silence_loop L g n ?c (res @ [x])) (\<lambda>a ys b. \<exists>x' zs. y = (Generated x', ?c) \<and> ys = (res @ [x']) @ zs \<and> length ys = n \<and>
      (\<forall>i < length zs. er_RecordNumber (zs ! i) = of_nat (length (res @ [x']) + i + 1) \<and> fresh_record g (rc_pn c) (zs ! i)))"
      by (rule gspec_weaken [OF IH order_refl]) (unfold y, blast)
    then show ?case unfolding y by (simp only: prod.case generated.case)
  next
    case (2 a y b ys d)
    from 2(4) obtain x zs where y: "y = (Generated x, ?c)" and zs: "ys = (res @ [x]) @ zs" "length ys = n"
      "\<forall>i < length zs. er_RecordNumber (zs ! i) = of_nat (length (res @ [x]) + i + 1) \<and> fresh_record g (rc_pn c) (zs ! i)" by blast
    from 2(3) y have x: "er_RecordNumber x = of_nat (length res + 1)" "fresh_record g (rc_pn c) x"
      using Suc.prems(1) by (auto simp: fresh_record_def filled_def)
    from zs x show ?case by (intro exI [of _ "x # zs"]) (auto simp: nth_Cons split: nat.splits)
  qed
  moreover have "length res < n" using Suc.hyps(2) by simp
  ultimately show ?case by (simp only: Suc.hyps(2) [symmetric] silence_loop_bind [of res n L g c] plus_1_eq_Suc)
qed

lemma gspec_records:
  "gspec L g n (GenerateRecordsSilence L g n) (\<lambda>a ys b. length ys = n \<and> (\<exists>pn. \<forall>i < n. er_RecordNumber (ys ! i) = of_nat (i + 1) \<and> fresh_record g pn (ys ! i)))"
proof -
  note loop = gspec_silence_loop [where res = "[]" and n = n and L = L and g = g, simplified]
  have start: "gspec L g 0 (GenerateRecords g) (\<lambda>a c b. \<exists>pn. c = \<lparr>rc_pn = pn, rc_cnt = 0, rc_eof = True\<rparr>)"
    unfolding GenerateRecords_def by (rule gspec_draw_bind, rule gspec_ret) blast
  have "gspec L g (0 + n) (GenerateRecordsSilence L g n) (\<lambda>a ys b. length ys = n \<and> (\<exists>pn. \<forall>i < n. er_RecordNumber (ys ! i) = of_nat (i + 1) \<and> fresh_record g pn (ys ! i)))"
    unfolding GenerateRecordsSilence_def
  proof (rule gspec_bind [OF start])
    fix c a b
    assume "\<exists>pn. c = \<lparr>rc_pn = pn, rc_cnt = 0, rc_eof = True\<rparr>"
    then obtain pn where c: "c = \<lparr>rc_pn = pn, rc_cnt = 0, rc_eof = True\<rparr>" by blast
    show "gspec L g n (silence_loop L g n c []) (\<lambda>a ys b. length ys = n \<and> (\<exists>pn. \<forall>i < n. er_RecordNumber (ys ! i) = of_nat (i + 1) \<and> fresh_record g pn (ys ! i)))"
      unfolding c by (rule gspec_weaken [OF loop]) auto
  qed
  then show ?thesis by simp
qed

lemma gspec_single_record: "gspec L g 1 (single_record L g) (\<lambda>a r b. True)"
proof -
  have "gspec L g (1 + 0) (single_record L g) (\<lambda>a r b. True)"
    unfolding single_record_def by (rule gspec_bind [OF gspec_records]) (auto simp: length_Suc_conv intro: gspec_ret)
  then show ?thesis by simp
qed

text \<open>A record of an object: its identifier is drawn for the pulse, the other fields are set.\<close>

definition record_for :: "gen_lib \<Rightarrow> 32 word \<Rightarrow> bytes \<Rightarrow> (Virtual \<Rightarrow> bool) \<Rightarrow> nat \<Rightarrow> ex_Record \<Rightarrow> nat \<Rightarrow> bool" where
  "record_for g pn objectID V a r b \<longleftrightarrow> id_drawn g pn a r b \<and> er_ObjectID r = objectID \<and> er_ShouldIterateFrom r = None \<and> V (er_Virtual r)"

lemma gspec_record_for:
  assumes "\<And>r a. gspec L g 0 (f r (gl_IDWithPulse g a pn)) (\<lambda>b y c. er_ID y = gl_IDWithPulse g a pn \<and> er_ObjectID y = objectID \<and>
    er_ShouldIterateFrom y = None \<and> V (er_Virtual y))"
  shows "gspec L g 1 (gbind (single_record L g) (\<lambda>r. gbind (draw (\<lambda>n. gl_IDWithPulse g n pn)) (f r))) (record_for g pn objectID V)"
proof -
  have d: "gspec L g 0 (gbind (draw (\<lambda>n. gl_IDWithPulse g n pn)) (f r)) (record_for g pn objectID V)" for r
    by (rule gspec_draw_bind, rule gspec_weaken [OF assms]) (auto simp: record_for_def id_drawn_def)
  have "gspec L g (1 + 0) (gbind (single_record L g) (\<lambda>r. gbind (draw (\<lambda>n. gl_IDWithPulse g n pn)) (f r))) (record_for g pn objectID V)"
    by (rule gspec_bind [OF gspec_single_record d]) (auto simp: record_for_def elim: id_drawn_mono)
  then show ?thesis by simp
qed

lemma gspec_request: "gspec L g 1 (GenerateRequestRecord L g pn objectID) (record_for g pn objectID (\<lambda>v. \<exists>m. v = Virtual_IncomingRequest m))"
proof -
  have "gspec L g (0 + 0) (gbind (RandomString g 20) (\<lambda>method. ret (r\<lparr>er_ID := i, er_ObjectID := objectID, er_ShouldIterateFrom := None,
      er_Virtual := Virtual_IncomingRequest method\<rparr>))) (\<lambda>_ y _. er_ID y = i \<and> er_ObjectID y = objectID \<and> er_ShouldIterateFrom y = None \<and>
      (\<exists>m. er_Virtual y = Virtual_IncomingRequest m))" for r i
    by (rule gspec_bind_const [OF gspec_text], rule gspec_ret) auto
  then show ?thesis unfolding GenerateRequestRecord_def by (intro gspec_record_for) simp
qed

lemma gspec_activate: "gspec L g 1 (GenerateVirtualActivateRecord L g pn objectID requestID)
    (record_for g pn objectID (\<lambda>v. \<exists>img. v = Virtual_Activate img [] (gl_NewReference g requestID)))"
  unfolding GenerateVirtualActivateRecord_def by (intro gspec_record_for gspec_draw_bind gspec_ret) auto

lemma gspec_amend: "gspec L g 1 (GenerateVirtualAmendRecord L g pn objectID prevStateID)
    (record_for g pn objectID (\<lambda>v. \<exists>img. v = Virtual_Amend img [] prevStateID (gl_zeroReference g)))"
  unfolding GenerateVirtualAmendRecord_def by (intro gspec_record_for gspec_draw_bind gspec_ret) auto

lemma gspec_deactivate: "gspec L g 1 (GenerateVirtualDeactivateRecord L g pn objectID prevStateID)
    (record_for g pn objectID (\<lambda>v. v = Virtual_Deactivate prevStateID))"
  unfolding GenerateVirtualDeactivateRecord_def by (intro gspec_record_for gspec_ret) auto

lemma gspec_next_pulse: "gspec L g 1 (GenerateRecordInNextPulse L g pn) (\<lambda>a r b. id_drawn g (pn + 10) a r b \<and> er_ShouldIterateFrom r = None)"
proof -
  have d: "gspec L g 0 (gbind (draw (\<lambda>n. gl_IDWithPulse g n (pn + 10))) (\<lambda>i. ret (r\<lparr>er_ID := i, er_ShouldIterateFrom := None\<rparr>)))
      (\<lambda>a r b. id_drawn g (pn + 10) a r b \<and> er_ShouldIterateFrom r = None)" for r
    by (rule gspec_draw_bind, rule gspec_ret) (auto simp: id_drawn_def)
  have "gspec L g (1 + 0) (GenerateRecordInNextPulse L g pn) (\<lambda>a r b. id_drawn g (pn + 10) a r b \<and> er_ShouldIterateFrom r = None)"
    unfolding GenerateRecordInNextPulse_def by (rule gspec_bind [OF gspec_single_record d]) (auto elim: id_drawn_mono)
  then show ?thesis by simp
qed

text \<open>What the platform's packages promise: drawn identifiers carry their pulse, are not empty and do not repeat, also as texts, and every
  record has an encoding.\<close>

definition ids_ok :: "insolar_lib \<Rightarrow> gen_lib \<Rightarrow> bool" where
  "ids_ok L g \<longleftrightarrow> (\<forall>k pn. IDPulse L (gl_IDWithPulse g k pn) = pn \<and> \<not> IsEmpty (gl_IDWithPulse g k pn) \<and> IDString L (gl_IDWithPulse g k pn) \<noteq> IDString L []) \<and>
     (\<forall>k pn k' pn'. IDString L (gl_IDWithPulse g k pn) = IDString L (gl_IDWithPulse g k' pn') \<longrightarrow> k = k') \<and> (\<forall>r. \<exists>b. Marshal L r = Inr b)"

section \<open>How many records for each pulse\<close>

text \<open>The state of the closure after \<open>m\<close> records.\<close>

definition after_records :: "insolar_lib \<Rightarrow> 32 word \<Rightarrow> nat \<Rightarrow> nat \<Rightarrow> pulses_closure \<Rightarrow> bool" where
  "after_records L startpn rc m c \<longleftrightarrow> pc_i c = (m - 1) div rc \<and> pc_localRecordCount c = (if m = 0 then 0 else (m - 1) mod rc + 1) \<and>
     IDPulse L (er_ID (pc_prevRecord c)) = startpn + of_nat (10 * ((m - 1) div rc))"

lemma gspec_difference_fn:
  assumes ids: "ids_ok L g" and rc: "0 < rc" and c: "after_records L startpn rc m c"
  shows "gspec L g 1 (difference_fn L g ps rc c) (\<lambda>a (r, c') b. if m \<le> ps * rc \<and> 0 < ps
    then \<exists>x. r = Generated x \<and> IDPulse L (er_ID x) = startpn + of_nat (10 * (m div rc)) \<and> er_ShouldIterateFrom x = None \<and> after_records L startpn rc (Suc m) c'
    else r = GeneratedEOF \<and> c' = c)"
proof (cases "pc_i c < ps")
  case True
  have le: "m \<le> ps * rc \<and> 0 < ps"
  proof -
    have "(m - 1) div rc < ps" using True c by (simp add: after_records_def)
    then have "m - 1 < ps * rc" using rc by (simp add: div_less_iff_less_mult)
    then show ?thesis using True by auto
  qed
  let ?same = "pc_localRecordCount c < rc"
  have d: "m div rc = (m - 1) div rc + (if ?same then 0 else 1)" "\<not> ?same \<Longrightarrow> m mod rc = 0" "?same \<Longrightarrow> m mod rc = pc_localRecordCount c"
  proof -
    have "m div rc = (m - 1) div rc + (if ?same then 0 else 1) \<and> (\<not> ?same \<longrightarrow> m mod rc = 0) \<and> (?same \<longrightarrow> m mod rc = pc_localRecordCount c)"
    proof (cases m)
      case (Suc k)
      have "k mod rc < rc" using rc by simp
      then show ?thesis using c unfolding Suc after_records_def by (simp add: div_Suc mod_Suc)
    qed (use c rc in \<open>simp add: after_records_def\<close>)
    then show "m div rc = (m - 1) div rc + (if ?same then 0 else 1)" "\<not> ?same \<Longrightarrow> m mod rc = 0" "?same \<Longrightarrow> m mod rc = pc_localRecordCount c" by simp_all
  qed
  have pn: "startpn + of_nat (10 * ((m - 1) div rc)) + (if ?same then 0 else 10) = startpn + of_nat (10 * (m div rc))" unfolding d(1) by (simp add: algebra_simps)
  let ?Q = "\<lambda>a (r, c') b. \<exists>x. r = Generated x \<and> IDPulse L (er_ID x) = startpn + of_nat (10 * (m div rc)) \<and> er_ShouldIterateFrom x = None \<and> after_records L startpn rc (Suc m) c'"
  have ip: "IDPulse L (gl_IDWithPulse g k q) = q" for k q using ids by (simp add: ids_ok_def)
  have body: "gspec L g 0 (if ?same then
        gbind (draw (\<lambda>n. gl_IDWithPulse g n (IDPulse L (er_ID (pc_prevRecord c))))) (\<lambda>i. let r = r\<lparr>er_ShouldIterateFrom := None, er_ID := i\<rparr> in
          ret (Generated r, c\<lparr>pc_localRecordCount := pc_localRecordCount c + 1, pc_prevRecord := r\<rparr>))
      else gbind (draw (\<lambda>n. gl_IDWithPulse g n (IDPulse L (er_ID (pc_prevRecord c)) + 10))) (\<lambda>i. let r = r\<lparr>er_ShouldIterateFrom := None, er_ID := i\<rparr> in
          ret (Generated r, c\<lparr>pc_i := pc_i c + 1, pc_localRecordCount := 1, pc_prevRecord := r\<rparr>))) ?Q" for r
  proof (cases ?same)
    case True
    then show ?thesis using c d pn ip by (auto simp: Let_def after_records_def intro!: gspec_draw_bind gspec_ret)
  next
    case False
    then show ?thesis using c d pn ip by (auto simp: Let_def after_records_def add.assoc intro!: gspec_draw_bind gspec_ret)
  qed
  have "gspec L g (1 + 0) (difference_fn L g ps rc c) ?Q"
    unfolding difference_fn_def if_P [OF True] by (rule gspec_bind [OF gspec_single_record body]) auto
  then show ?thesis using le by simp
next
  case False
  have "\<not> (m \<le> ps * rc \<and> 0 < ps)"
  proof
    assume m: "m \<le> ps * rc \<and> 0 < ps"
    then have "m - 1 < ps * rc" using rc by (cases m) auto
    then have "(m - 1) div rc < ps" using rc by (simp add: div_less_iff_less_mult)
    with False c show False by (simp add: after_records_def)
  qed
  then have "gspec L g 0 (difference_fn L g ps rc c) (\<lambda>a (r, c') b. if m \<le> ps * rc \<and> 0 < ps
    then \<exists>x. r = Generated x \<and> IDPulse L (er_ID x) = startpn + of_nat (10 * (m div rc)) \<and> er_ShouldIterateFrom x = None \<and> after_records L startpn rc (Suc m) c'
    else r = GeneratedEOF \<and> c' = c)"
    unfolding difference_fn_def if_not_P [OF False] by (auto intro: gspec_ret)
  then show ?thesis by (rule gspec_weaken) auto
qed

definition nth_result :: "insolar_lib \<Rightarrow> 32 word \<Rightarrow> nat \<Rightarrow> nat \<Rightarrow> nat \<Rightarrow> generated \<Rightarrow> bool" where
  "nth_result L startpn ps rc m r \<longleftrightarrow> (if m \<le> ps * rc \<and> 0 < ps
     then \<exists>x. r = Generated x \<and> IDPulse L (er_ID x) = startpn + of_nat (10 * (m div rc)) \<and> er_ShouldIterateFrom x = None else r = GeneratedEOF)"

lemma gspec_difference_calls:
  assumes "ids_ok L g" and "0 < rc"
  shows "after_records L startpn rc m c \<or> (ps * rc < m \<or> ps = 0) \<and> (\<exists>k. (ps * rc < k \<or> ps = 0) \<and> after_records L startpn rc k c) \<Longrightarrow>
    gspec L g n (difference_calls L g ps rc n c) (\<lambda>a rs b. length rs = n \<and> (\<forall>j < n. nth_result L startpn ps rc (m + j) (rs ! j)))"
proof (induction n arbitrary: m c)
  case 0
  then show ?case by (auto intro: gspec_ret)
next
  case (Suc n)
  let ?ok = "\<lambda>m c. after_records L startpn rc m c \<or> (ps * rc < m \<or> ps = 0) \<and> (\<exists>k. (ps * rc < k \<or> ps = 0) \<and> after_records L startpn rc k c)"
  have step: "gspec L g 1 (difference_fn L g ps rc c) (\<lambda>a (r, c') b. nth_result L startpn ps rc m r \<and> ?ok (Suc m) c')"
  proof (cases "after_records L startpn rc m c")
    case True
    show ?thesis by (rule gspec_weaken [OF gspec_difference_fn [OF assms True]]) (use True in \<open>auto simp: nth_result_def not_le intro: exI [of _ m] split: if_splits\<close>)
  next
    case False
    with Suc.prems obtain k where m: "ps * rc < m \<or> ps = 0" and k: "ps * rc < k \<or> ps = 0" "after_records L startpn rc k c" by blast
    show ?thesis by (rule gspec_weaken [OF gspec_difference_fn [OF assms k(2)]]) (use m k in \<open>auto simp: nth_result_def split: if_splits\<close>)
  qed
  let ?R = "\<lambda>(r, c') b ys d. \<exists>rs. ys = r # rs \<and> length rs = n \<and> (\<forall>j < n. nth_result L startpn ps rc (Suc m + j) (rs ! j))"
  have rest: "gspec L g (n + 0) (gbind (difference_calls L g ps rc n c') (\<lambda>rs. ret (r # rs))) (?R (r, c'))" if "?ok (Suc m) c'" for r c'
    by (rule gspec_bind [OF Suc.IH [OF that], where R = "\<lambda>rs b ys d. ys = r # rs"]) (auto intro: gspec_ret)
  have "gspec L g (1 + n) (difference_calls L g ps rc (Suc n) c) (\<lambda>a rs b. length rs = Suc n \<and> (\<forall>j < Suc n. nth_result L startpn ps rc (m + j) (rs ! j)))"
    unfolding difference_calls.simps
  proof (rule gspec_bind [OF step, where R = ?R], goal_cases)
    case (1 x a b)
    then show ?case using rest [of "snd x" "fst x"] by (cases x) simp
  next
    case (2 a x b ys d)
    then show ?case by (cases x) (auto simp: nth_Cons split: nat.splits)
  qed
  then show ?case by simp
qed

text \<open>Called on, the closure gives the wanted number of records for each of the wanted pulses, then one record of one pulse more,
  and only then the end.\<close>

lemma difference_pulses:
  assumes "ids_ok L g" and "0 < rc" and "IDPulse L (gl_NewID g (of_int startpn)) = of_int startpn"
  shows "gspec L g (1 + n) (gbind (GenerateRecordsWithDifferencePulses L g startpn) (difference_calls L g ps rc n))
    (\<lambda>a rs b. length rs = n \<and> (\<forall>j < n. nth_result L (of_int startpn) ps rc j (rs ! j)))"
proof -
  have start: "gspec L g (1 + 0) (GenerateRecordsWithDifferencePulses L g startpn) (\<lambda>a c b. after_records L (of_int startpn) rc 0 c)"
    unfolding GenerateRecordsWithDifferencePulses_def
    by (rule gspec_bind_const [OF gspec_single_record], rule gspec_ret) (use assms(3) in \<open>simp add: after_records_def\<close>)
  have calls: "gspec L g n (difference_calls L g ps rc n c) (\<lambda>a rs b. length rs = n \<and> (\<forall>j < n. nth_result L (of_int startpn) ps rc j (rs ! j)))"
    if "after_records L (of_int startpn) rc 0 c" for c
    using gspec_difference_calls [OF assms(1,2), of "of_int startpn" 0 c ps n] that by simp
  have "gspec L g ((1 + 0) + n) (gbind (GenerateRecordsWithDifferencePulses L g startpn) (difference_calls L g ps rc n))
    (\<lambda>a rs b. length rs = n \<and> (\<forall>j < n. nth_result L (of_int startpn) ps rc j (rs ! j)))"
    by (rule gspec_bind [OF start calls]) auto
  then show ?thesis by simp
qed

lemma one_record_too_many:
  assumes "nth_result L startpn ps rc (ps * rc) r" and "0 < ps" and "0 < rc"
  shows "\<exists>x. r = Generated x \<and> IDPulse L (er_ID x) = startpn + of_nat (10 * ps)"
  using assms by (auto simp: nth_result_def)

text \<open>The list version stops before that record: it has exactly the wanted number of records of each pulse.\<close>

lemma only_records_all: "\<forall>j < length rs. \<exists>x. rs ! j = Generated x \<Longrightarrow> map Generated (only_records rs) = rs"
proof (induction rs)
  case (Cons r rs)
  from Cons.prems obtain x where "r = Generated x" by fastforce
  moreover have "\<forall>j < length rs. \<exists>x. rs ! j = Generated x" using Cons.prems by fastforce
  ultimately show ?case using Cons.IH by (simp add: only_records_def)
qed (simp add: only_records_def)

lemma silence_pulses:
  assumes "ids_ok L g" and "0 < rc" and "0 < ps" and "IDPulse L (gl_NewID g (MinTimePulse L)) = MinTimePulse L"
  shows "gspec L g (1 + ps * rc) (GenerateRecordsWithDifferencePulsesSilence L g ps rc) (\<lambda>a rs b. length rs = ps * rc \<and>
    (\<forall>j < ps * rc. IDPulse L (er_ID (rs ! j)) = MinTimePulse L + of_nat (10 * (j div rc)) \<and> er_ShouldIterateFrom (rs ! j) = None))"
proof -
  let ?pn = "uint (MinTimePulse L)"
  let ?P = "\<lambda>rs. length rs = ps * rc \<and> (\<forall>j < ps * rc. nth_result L (of_int ?pn) ps rc j (rs ! j))"
  let ?Q = "\<lambda>rs. length rs = ps * rc \<and> (\<forall>j < ps * rc. IDPulse L (er_ID (rs ! j)) = MinTimePulse L + of_nat (10 * (j div rc)) \<and> er_ShouldIterateFrom (rs ! j) = None)"
  have out: "?Q (only_records rs)" if "?P rs" for rs
  proof -
    have "\<forall>j < length rs. \<exists>x. rs ! j = Generated x" using that assms(3) by (fastforce simp: nth_result_def split: if_splits)
    from only_records_all [OF this] obtain xs where xs: "rs = map Generated xs" "only_records rs = xs" by metis
    with that assms(3) show ?thesis by (auto simp: nth_result_def)
  qed
  have "gbind (gbind (GenerateRecordsWithDifferencePulses L g ?pn) (difference_calls L g ps rc (ps * rc))) (\<lambda>rs. ret (only_records rs)) =
      GenerateRecordsWithDifferencePulsesSilence L g ps rc"
    unfolding GenerateRecordsWithDifferencePulsesSilence_def by (rule ext) (simp add: gbind_def split: option.splits outcome.splits prod.splits)
  moreover have "gspec L g ((1 + ps * rc) + 0) (gbind (gbind (GenerateRecordsWithDifferencePulses L g ?pn) (difference_calls L g ps rc (ps * rc)))
      (\<lambda>rs. ret (only_records rs))) (\<lambda>a rs b. ?Q rs)"
  proof (rule gspec_bind [OF difference_pulses [OF assms(1,2)], where R = "\<lambda>rs a ys b. ys = only_records rs"], goal_cases)
    case 1
    then show ?case using assms(4) by simp
  next
    case 2
    then show ?case by (auto intro: gspec_ret)
  next
    case (3 a rs b ys c)
    then show ?case using out by simp
  qed
  ultimately show ?thesis by simp
qed

section \<open>A concrete source\<close>

text \<open>Identifiers in unary: as many zeros as the pulse says, as many ones as the number of the draw.\<close>

definition unary_lib :: insolar_lib where
  "unary_lib = plain_lib\<lparr>IDPulse := \<lambda>b. of_nat (length (filter (\<lambda>x. x = 0) b)), IDString := \<lambda>b. replicate (length (filter (\<lambda>x. x = 1) b)) CHR ''x''\<rparr>"

definition unary_gen :: gen_lib where
  "unary_gen = \<lparr>gl_ID = \<lambda>n. replicate (Suc n) 1, gl_IDWithPulse = \<lambda>n pn. replicate (unat pn) 0 @ replicate (Suc n) 1, gl_PulseNumber = \<lambda>n. 70000,
     gl_JetID = \<lambda>n. [0, 0, 0, 0, 0, 0, 0, of_nat n], gl_Reference = \<lambda>n. [1], gl_Int63n = \<lambda>n k. 0, gl_UUID = \<lambda>n. [of_nat n], gl_NewID = \<lambda>pn. replicate (unat pn) 0,
     gl_NewReference = \<lambda>b. b, gl_NewJetID = \<lambda>d b. b, gl_Siblings = \<lambda>b. (b @ [0], b @ [1]), gl_zeroID = [], gl_zeroReference = [], gl_rest = \<lambda>a b c. []\<rparr>"

definition gen_start :: rstate where
  "gen_start = \<lparr>rs_draws = 0, rs_jets = 0, uniqueJetID = []\<rparr>"

lemma unary_ids_ok: "ids_ok unary_lib unary_gen"
  unfolding ids_ok_def
proof (intro conjI allI impI)
  show "\<not> IsEmpty (gl_IDWithPulse unary_gen k pn)" for k pn by (simp add: unary_gen_def IsEmpty_iff)
  show "\<exists>b. Marshal unary_lib r = Inr b" for r by (simp add: unary_lib_def plain_lib_def)
qed (simp_all add: unary_lib_def unary_gen_def)

lemma unary_jets: "n < 256 \<Longrightarrow> jets_left unary_lib unary_gen n gen_start"
proof -
  assume n: "n < 256"
  have v: "big_endian (Prefix unary_lib (gl_JetID unary_gen k)) = of_nat k" if "k < 256" for k
    using that by (simp add: big_endian_def unary_lib_def plain_lib_def unary_gen_def unsigned_of_nat take_bit_nat_eq_self)
  have "of_nat ` {1..n} \<subseteq> fresh_jets unary_lib unary_gen gen_start"
  proof
    fix w :: "64 word"
    assume "w \<in> of_nat ` {1..n}"
    then obtain k where k: "w = of_nat k" "1 \<le> k" "k \<le> n" by auto
    have "unat w = k" using k n by (simp add: unsigned_of_nat take_bit_nat_eq_self)
    then have "w \<noteq> 0" using k by auto
    moreover have "big_endian (Prefix unary_lib (gl_JetID unary_gen k)) = w" using v [of k] k n by simp
    ultimately show "w \<in> fresh_jets unary_lib unary_gen gen_start" by (auto simp: fresh_jets_def gen_start_def)
  qed
  moreover have "inj_on (of_nat :: nat \<Rightarrow> 64 word) {1..n}"
    by (rule inj_on_inverseI [of _ unat]) (use n in \<open>simp add: unsigned_of_nat take_bit_nat_eq_self\<close>)
  ultimately have "n \<le> card (fresh_jets unary_lib unary_gen gen_start)"
    using card_mono [OF finite, of "of_nat ` {1..n}" "fresh_jets unary_lib unary_gen gen_start"] by (simp add: card_image)
  then show ?thesis by (simp add: jets_left_def unary_lib_def plain_lib_def unary_gen_def)
qed

end
