(* ===== verification/Test_Data.thy ===== *)
theory Test_Data
  imports Generators Storage_Write
begin

text \<open>\<open>testutils/models.go\<close>, \<open>testutils/canonical.go\<close> and the second half of \<open>testutils/generators.go\<close>: random rows, jet trees that split from pulse to
  pulse, and records for them.  The pulse numbers of the platform are a library.\<close>

section \<open>Rows\<close>

record pulse_lib =
  pn_AsApproximateTime :: "32 word \<Rightarrow> error + int"  \<comment> \<open>in seconds, as \<open>Unix\<close> gives them\<close>
  pn_Prev :: "32 word \<Rightarrow> 16 word \<Rightarrow> 32 word"
  pn_Next :: "32 word \<Rightarrow> 16 word \<Rightarrow> 32 word"

definition pulseDelta :: "16 word" where
  "pulseDelta = 10"

definition of_outcome :: "'a outcome \<Rightarrow> 'a gen" where
  "of_outcome x s = (case x of Panic p \<Rightarrow> Some (Panic p) | Done a \<Rightarrow> Some (Done (a, s)))"

definition InitRecordDB :: "gen_lib \<Rightarrow> models_JetDrop \<Rightarrow> models_Record gen" where
  "InitRecordDB g jetDrop = gbind (draw (gl_ID g)) (\<lambda>ref. gbind (draw (gl_ID g)) (\<lambda>obj. gbind (draw (gl_ID g)) (\<lambda>proto. gbind (GenerateRandBytes g) (\<lambda>payload.
     gbind (draw (gl_ID g)) (\<lambda>prev. gbind (GenerateRandBytes g) (\<lambda>hash. gbind (GenerateRandBytes g) (\<lambda>raw.
       ret \<lparr>mr_Reference = ref, mr_Type = ''state'', mr_ObjectReference = obj, mr_PrototypeReference = proto, mr_Payload = payload, mr_PrevRecordReference = prev,
         mr_Hash = hash, mr_RawData = raw, mr_JetID = mj_JetID jetDrop, mr_PulseNumber = mj_PulseNumber jetDrop, mr_Order = 1, mr_Timestamp = mj_Timestamp jetDrop\<rparr>)))))))"

definition InitJetDropDB :: "insolar_lib \<Rightarrow> gen_lib \<Rightarrow> models_Pulse \<Rightarrow> models_JetDrop gen" where
  "InitJetDropDB L g pulse = gbind (GenerateUniqueJetID L g) (\<lambda>jet. gbind (of_outcome (JetIDToString L jet)) (\<lambda>str. gbind (GenerateRandBytes g) (\<lambda>h1.
     gbind (GenerateRandBytes g) (\<lambda>h2. gbind (GenerateRandBytes g) (\<lambda>hash. gbind (GenerateRandBytes g) (\<lambda>raw.
       ret \<lparr>mj_PulseNumber = mp_PulseNumber pulse, mj_JetID = str, mj_FirstPrevHash = h1, mj_SecondPrevHash = h2, mj_Hash = hash, mj_RawData = raw,
         mj_Timestamp = mp_Timestamp pulse, mj_RecordAmount = 0\<rparr>))))))"

definition pulse_row_of :: "pulse_lib \<Rightarrow> 32 word \<Rightarrow> error + models_Pulse" where
  "pulse_row_of P n = (case pn_AsApproximateTime P n of Inl err \<Rightarrow> Inl err | Inr timestamp \<Rightarrow>
     Inr \<lparr>mp_PulseNumber = uint n, mp_PrevPulseNumber = uint (pn_Prev P n pulseDelta), mp_NextPulseNumber = uint (pn_Next P n pulseDelta), mp_IsComplete = False,
       mp_IsSequential = False, mp_Timestamp = timestamp, mp_JetDropAmount = 0, mp_RecordAmount = 0\<rparr>)"

definition InitPulseDB :: "pulse_lib \<Rightarrow> gen_lib \<Rightarrow> (error + models_Pulse) gen" where
  "InitPulseDB P g = gbind (draw (gl_PulseNumber g)) (\<lambda>n. ret (pulse_row_of P n))"

definition InitNextPulseDB :: "pulse_lib \<Rightarrow> int \<Rightarrow> error + models_Pulse" where
  "InitNextPulseDB P pn = pulse_row_of P (of_int (pn + uint pulseDelta))"

text \<open>\<open>require.NoError\<close> ends the test: here the error is returned.  The loops over the pulses after the first: each row, and what is made from it.\<close>

fun next_pulses :: "pulse_lib \<Rightarrow> (models_Pulse \<Rightarrow> 'r gen) \<Rightarrow> nat \<Rightarrow> int \<Rightarrow> (error + (models_Pulse \<times> 'r) list) gen" where
  "next_pulses P mk 0 pn = ret (Inr [])"
| "next_pulses P mk (Suc n) pn = (case InitNextPulseDB P pn of Inl err \<Rightarrow> ret (Inl err) | Inr pulse \<Rightarrow>
     gbind (mk pulse) (\<lambda>r. gbind (next_pulses P mk n (mp_PulseNumber pulse)) (\<lambda>rs. case rs of Inl err \<Rightarrow> ret (Inl err) | Inr rs \<Rightarrow> ret (Inr ((pulse, r) # rs)))))"

definition GenerateJetDropsWithSomeJetID :: "insolar_lib \<Rightarrow> gen_lib \<Rightarrow> pulse_lib \<Rightarrow> nat \<Rightarrow> (error + string \<times> models_JetDrop list \<times> models_Pulse list) gen" where
  "GenerateJetDropsWithSomeJetID L g P jCount = gbind (InitPulseDB P g) (\<lambda>p. case p of Inl err \<Rightarrow> ret (Inl err) | Inr pulse \<Rightarrow>
     if jCount = 0 then crash IndexOutOfRange
     else gbind (InitJetDropDB L g pulse) (\<lambda>jDrop.
       gbind (next_pulses P (\<lambda>pulse. gbind (InitJetDropDB L g pulse) (\<lambda>jd. ret (jd\<lparr>mj_JetID := mj_JetID jDrop\<rparr>))) (jCount - 1) (mp_PulseNumber pulse)) (\<lambda>rs.
         case rs of Inl err \<Rightarrow> ret (Inl err) | Inr rs \<Rightarrow> ret (Inr (mj_JetID jDrop, jDrop # map snd rs, pulse # map fst rs)))))"

section \<open>Canonical data\<close>

definition CreateJetDropCanonical :: "insolar_lib \<Rightarrow> gen_lib \<Rightarrow> types_Record list \<Rightarrow> types_JetDrop gen" where
  "CreateJetDropCanonical L g records = gbind (draw (gl_PulseNumber g)) (\<lambda>n. let pn = uint n in
     gbind (draw_jet g) (\<lambda>j1. gbind (of_outcome (JetIDToString L j1)) (\<lambda>prefix. gbind (draw_jet g) (\<lambda>j2. gbind (GenerateRandBytes g) (\<lambda>raw. gbind (GenerateRandBytes g) (\<lambda>hash.
       ret \<lparr>tj_MainSection = \<lparr>ms_Start = \<lparr>ds_PulseData = \<lparr>tp_PulseNo = pn, tp_EpochPulseNo = 0, tp_PulseTimestamp = 0, tp_NextPulseNumber = pn + 10, tp_PrevPulseNumber = pn - 10\<rparr>,
           ds_JetDropPrefix = prefix, ds_JetDropPrefixLength = unat (Depth L j2)\<rparr>, ms_DropContinue = \<lparr>dc_PrevDropHash = []\<rparr>, ms_Records = records\<rparr>,
         tj_Sections = [], tj_RawData = raw, tj_Hash = hash\<rparr>))))))"

definition CreateRecordCanonical :: "gen_lib \<Rightarrow> types_Record gen" where
  "CreateRecordCanonical g = gbind (draw (gl_Reference g)) (\<lambda>ref. gbind (draw (gl_Reference g)) (\<lambda>obj. gbind (draw (gl_Reference g)) (\<lambda>proto. gbind (draw (gl_Reference g)) (\<lambda>prev.
     gbind (GenerateRandBytes g) (\<lambda>payload. gbind (GenerateRandBytes g) (\<lambda>hash. gbind (GenerateRandBytes g) (\<lambda>raw.
       ret \<lparr>tr_Type = STATE, tr_Ref = ref, tr_ObjectReference = obj, tr_PrototypeReference = proto, tr_PrevRecordReference = prev, tr_RecordPayload = payload,
         tr_Hash = hash, tr_RawData = raw, tr_Order = 0\<rparr>)))))))"

section \<open>Rows of jets that split\<close>

text \<open>\<open>createChildren\<close>: the two jets below a jet, then those below these.\<close>

fun createChildren :: "insolar_lib \<Rightarrow> gen_lib \<Rightarrow> models_Pulse \<Rightarrow> string \<Rightarrow> nat \<Rightarrow> models_JetDrop list gen" where
  "createChildren L g pulse jetID 0 = ret []"
| "createChildren L g pulse jetID (Suc depth) = gbind (InitJetDropDB L g pulse) (\<lambda>l. gbind (InitJetDropDB L g pulse) (\<lambda>r.
     gbind (createChildren L g pulse (jetID @ ''0'') depth) (\<lambda>ls. gbind (createChildren L g pulse (jetID @ ''1'') depth) (\<lambda>rs.
       ret ([l\<lparr>mj_JetID := jetID @ ''0''\<rparr>, r\<lparr>mj_JetID := jetID @ ''1''\<rparr>] @ ls @ rs)))))"

definition GenerateJetDropsWithSplit :: "insolar_lib \<Rightarrow> gen_lib \<Rightarrow> pulse_lib \<Rightarrow> nat \<Rightarrow> nat \<Rightarrow> nat \<Rightarrow> (error + models_JetDrop list \<times> models_Pulse list) gen" where
  "GenerateJetDropsWithSplit L g P pulseCount jDCount depth = gbind (InitPulseDB P g) (\<lambda>p. case p of Inl err \<Rightarrow> ret (Inl err) | Inr pulse \<Rightarrow>
     if pulseCount = 0 then crash IndexOutOfRange
     else gbind (next_pulses P (\<lambda>_. ret ()) (pulseCount - 1) (mp_PulseNumber pulse)) (\<lambda>rs. case rs of Inl err \<Rightarrow> ret (Inl err) | Inr rs \<Rightarrow>
       let pulses = pulse # map fst rs in
       gbind (gen_map (\<lambda>pulse. gen_map (\<lambda>_. gbind (InitJetDropDB L g pulse) (\<lambda>jDrop. gbind (createChildren L g pulse (mj_JetID jDrop) depth) (\<lambda>ds. ret (jDrop # ds)))) [0..<jDCount]) pulses)
         (\<lambda>dss. ret (Inr (concat (concat dss), pulses)))))"

definition InitJetDropWithRecords :: "insolar_lib \<Rightarrow> gen_lib \<Rightarrow> 'db gorm \<Rightarrow> nat \<Rightarrow> models_Pulse \<Rightarrow> 'db \<Rightarrow> ((error + models_JetDrop) \<times> 'db) gen" where
  "InitJetDropWithRecords L g G recordAmount pulse db = gbind (InitJetDropDB L g pulse) (\<lambda>jetDrop. let jetDrop = jetDrop\<lparr>mj_RecordAmount := int recordAmount\<rparr> in
     gbind (gen_map (\<lambda>_. InitRecordDB g jetDrop) [0..<recordAmount]) (\<lambda>record.
       (case SaveJetDropData G jetDrop record (mp_PulseNumber pulse) db of (Inl err, db) \<Rightarrow> ret (Inl err, db) | (Inr _, db) \<Rightarrow> ret (Inr jetDrop, db))))"

section \<open>Saving rows\<close>

text \<open>\<open>create\<close> is \<open>db.Create\<close>.\<close>

definition test_CreateRecord :: "(models_Record \<Rightarrow> ('db, unit) dbop) \<Rightarrow> models_Record \<Rightarrow> ('db, unit) dbop" where
  "test_CreateRecord create record = wrap_db ''error while saving record'' (create record)"

definition test_CreateJetDrop :: "'db gorm \<Rightarrow> models_JetDrop \<Rightarrow> ('db, unit) dbop" where
  "test_CreateJetDrop G jetDrop = wrap_db ''error while saving jetDrop'' (CreateJetDrop G jetDrop)"

definition test_CreatePulse :: "(models_Pulse \<Rightarrow> ('db, unit) dbop) \<Rightarrow> models_Pulse \<Rightarrow> ('db, unit) dbop" where
  "test_CreatePulse create pulse = wrap_db ''error while saving pulse'' (create pulse)"

fun create_all :: "('r \<Rightarrow> ('db, unit) dbop) \<Rightarrow> 'r list \<Rightarrow> ('db, unit) dbop" where
  "create_all create [] db = (Inr (), db)"
| "create_all create (r # rs) db = (case create r db of (Inl err, db) \<Rightarrow> (Inl err, db) | (Inr _, db) \<Rightarrow> create_all create rs db)"

definition CreateJetDrops :: "'db gorm \<Rightarrow> models_JetDrop list \<Rightarrow> ('db, unit) dbop" where
  "CreateJetDrops G jetDrops = Transaction G (create_all (test_CreateJetDrop G) jetDrops)"

definition CreatePulses :: "'db gorm \<Rightarrow> (models_Pulse \<Rightarrow> ('db, unit) dbop) \<Rightarrow> models_Pulse list \<Rightarrow> ('db, unit) dbop" where
  "CreatePulses G create pulses = Transaction G (create_all (test_CreatePulse create) pulses)"

fun ordered_loop :: "gen_lib \<Rightarrow> (models_Record \<Rightarrow> ('db, unit) dbop) \<Rightarrow> models_JetDrop \<Rightarrow> bytes \<Rightarrow> nat list \<Rightarrow> 'db \<Rightarrow> ((error + models_Record list) \<times> 'db) gen" where
  "ordered_loop g create jetDrop objRef [] db = ret (Inr [], db)"
| "ordered_loop g create jetDrop objRef (i # is) db = gbind (InitRecordDB g jetDrop) (\<lambda>record.
     let record = record\<lparr>mr_ObjectReference := objRef, mr_Order := int i\<rparr> in
     (case test_CreateRecord create record db of (Inl err, db) \<Rightarrow> ret (Inl err, db) | (Inr _, db) \<Rightarrow>
        gbind (ordered_loop g create jetDrop objRef is db) (\<lambda>rd. case rd of (Inl err, db) \<Rightarrow> ret (Inl err, db) | (Inr rs, db) \<Rightarrow> ret (Inr (record # rs), db))))"

definition OrderedRecords :: "gen_lib \<Rightarrow> (models_Record \<Rightarrow> ('db, unit) dbop) \<Rightarrow> models_JetDrop \<Rightarrow> bytes \<Rightarrow> nat \<Rightarrow> 'db \<Rightarrow> ((error + models_Record list) \<times> 'db) gen" where
  "OrderedRecords g create jetDrop objRef amount = ordered_loop g create jetDrop objRef [1..<Suc amount]"

section \<open>Trees of jets over several pulses\<close>

type_synonym jet_tree = "(32 word, (bytes, bytes list) gomap) gomap"

text \<open>The loop that adds the tree of a child: the keys it puts are different, so the order of the iteration does not matter.\<close>

definition merge_tree :: "jet_tree \<Rightarrow> jet_tree \<Rightarrow> jet_tree" where
  "merge_tree result l = foldl (\<lambda>result (p, j). case map_of result p of None \<Rightarrow> map_put p j result
     | Some jds \<Rightarrow> map_put p (foldl (\<lambda>jds (jd, b). map_put jd b jds) jds j) result) result l"

fun getSiblings :: "gen_lib \<Rightarrow> bytes \<Rightarrow> 32 word \<Rightarrow> nat \<Rightarrow> bytes list \<Rightarrow> jet_tree gen" where
  "getSiblings g parent parentPn 0 hashes = ret []"
| "getSiblings g parent parentPn (Suc depth) hashes = (case gl_Siblings g parent of (left, right) \<Rightarrow> let pn = parentPn + 10 in
     if length hashes < 2 then crash IndexOutOfRange else let prevHash = hashes ! 1 in
     gbind (GenerateRandBytes g) (\<lambda>h1. gbind (GenerateRandBytes g) (\<lambda>h2.
       let level = map_put right [prevHash, h2] (map_put left [prevHash, h1] []); result = map_put pn level [] in
       gbind (getSiblings g left pn depth (the (map_of level left))) (\<lambda>l. let result = merge_tree result l in
       gbind (getSiblings g right pn depth (the (map_of level right))) (\<lambda>r. ret (merge_tree result r))))))"

text \<open>The loop ends with the first jet that is new, or with the timeout: \<open>turns\<close> is the number of turns before it.\<close>

fun GenerateJetIDTree :: "insolar_lib \<Rightarrow> gen_lib \<Rightarrow> nat \<Rightarrow> 32 word \<Rightarrow> nat \<Rightarrow> jet_tree gen" where
  "GenerateJetIDTree L g 0 pn depth = ret []"
| "GenerateJetIDTree L g (Suc turns) pn depth = gbind (RandNumberOverRange g 15 40) (\<lambda>length. gbind (draw (\<lambda>n. gl_IDWithPulse g n pn)) (\<lambda>i.
     let rootJetID = gl_NewJetID g (of_int length) i in
     gbind (saveUniqueJetID L rootJetID) (\<lambda>new.
       if \<not> new then GenerateJetIDTree L g turns pn depth
       else gbind (GenerateRandBytes g) (\<lambda>rootHash. gbind (getSiblings g rootJetID pn depth [[], rootHash]) (\<lambda>childs.
         ret (foldl (\<lambda>result (p, c). map_put p c result) [(pn, [(rootJetID, [[], rootHash])])] childs))))))"

text \<open>\<open>rp\<close> and \<open>rj\<close> order the iterations over the pulses and over the jets of a pulse.\<close>

definition tree_pairs :: "(32 word) range_order \<Rightarrow> bytes range_order \<Rightarrow> jet_tree \<Rightarrow> (32 word \<times> bytes) list" where
  "tree_pairs rp rj t = concat (map (\<lambda>p. map (Pair p) (rj (unat p) (map_keys (the (map_of t p))))) (rp 0 (map_keys t)))"

definition GenerateRecordsWIthSplitJetDrops :: "insolar_lib \<Rightarrow> gen_lib \<Rightarrow> (32 word) range_order \<Rightarrow> bytes range_order \<Rightarrow> nat \<Rightarrow> 32 word \<Rightarrow> nat \<Rightarrow> nat \<Rightarrow> (ex_Record list \<times> jet_tree) gen" where
  "GenerateRecordsWIthSplitJetDrops L g rp rj turns pn depth recordsInJetDrop = gbind (GenerateJetIDTree L g turns pn depth) (\<lambda>jdTree.
     gbind (gen_map (\<lambda>(p, jd). gbind (GenerateRecordsSilence L g recordsInJetDrop) (\<lambda>records.
       gen_map (\<lambda>r. gbind (draw (\<lambda>n. gl_IDWithPulse g n p)) (\<lambda>i. ret (r\<lparr>er_ID := i, er_JetID := jd, er_ShouldIterateFrom := None\<rparr>))) records)) (tree_pairs rp rj jdTree)) (\<lambda>rss.
       ret (concat rss, jdTree)))"

section \<open>Children\<close>

lemma gspec_of_outcome: "x = Done a \<Longrightarrow> Q a \<Longrightarrow> gspec L g 0 (of_outcome x) (\<lambda>_ y _. Q y)"
  by (simp add: gspec_def of_outcome_def)

text \<open>The prefix of a jet has a bit for each level of its depth.\<close>

definition jets_ok :: "insolar_lib \<Rightarrow> bool" where
  "jets_ok L \<longleftrightarrow> (\<forall>j. unat (Depth L j) \<le> 8 * length (Prefix L j))"

definition drop_for :: "models_Pulse \<Rightarrow> models_JetDrop \<Rightarrow> bool" where
  "drop_for pulse d \<longleftrightarrow> mj_PulseNumber d = mp_PulseNumber pulse \<and> mj_Timestamp d = mp_Timestamp pulse \<and> mj_RecordAmount d = 0"

lemma drop_for_JetID [simp]: "drop_for pulse (d\<lparr>mj_JetID := j\<rparr>) = drop_for pulse d"
  by (simp add: drop_for_def)

lemma gspec_any: "gspec L g 0 (GenerateRandBytes g) (\<lambda>_ _ _. True)"
  unfolding GenerateRandBytes_def by (rule gspec_draw) simp

lemma gspec_InitJetDrop:
  assumes "jets_ok L"
  shows "gspec L g 1 (InitJetDropDB L g pulse) (\<lambda>_ d _. drop_for pulse d \<and> bitstring (mj_JetID d))"
proof -
  let ?Q = "\<lambda>_ d _. drop_for pulse d \<and> bitstring (mj_JetID d)"
  have str: "gspec L g 0 (of_outcome (JetIDToString L j)) (\<lambda>_ s _. bitstring s)" for j
  proof -
    obtain s where "JetIDToString L j = Done s" using assms by (auto simp: JetIDToString_eq jets_ok_def)
    from gspec_of_outcome [where Q = bitstring, OF this] JetIDToString_bitstring [OF this] show ?thesis by simp
  qed
  have rest: "gspec L g 0 (gbind (GenerateRandBytes g) (\<lambda>h1. gbind (GenerateRandBytes g) (\<lambda>h2. gbind (GenerateRandBytes g) (\<lambda>hash. gbind (GenerateRandBytes g) (\<lambda>raw.
      ret \<lparr>mj_PulseNumber = mp_PulseNumber pulse, mj_JetID = s, mj_FirstPrevHash = h1, mj_SecondPrevHash = h2, mj_Hash = hash, mj_RawData = raw,
        mj_Timestamp = mp_Timestamp pulse, mj_RecordAmount = 0\<rparr>))))) (\<lambda>_ d _. drop_for pulse d \<and> mj_JetID d = s)" for s
    unfolding GenerateRandBytes_def by (intro gspec_draw_bind gspec_ret) (simp add: drop_for_def)
  have "gspec L g (1 + (0 + 0)) (InitJetDropDB L g pulse) ?Q"
    unfolding InitJetDropDB_def
  proof (rule gspec_bind [OF gspec_jet, where R = "\<lambda>_. ?Q"])
    fix j and a b :: nat
    show "gspec L g (0 + 0) (gbind (of_outcome (JetIDToString L j)) (\<lambda>s. gbind (GenerateRandBytes g) (\<lambda>h1. gbind (GenerateRandBytes g) (\<lambda>h2. gbind (GenerateRandBytes g) (\<lambda>hash.
        gbind (GenerateRandBytes g) (\<lambda>raw. ret \<lparr>mj_PulseNumber = mp_PulseNumber pulse, mj_JetID = s, mj_FirstPrevHash = h1, mj_SecondPrevHash = h2, mj_Hash = hash, mj_RawData = raw,
          mj_Timestamp = mp_Timestamp pulse, mj_RecordAmount = 0\<rparr>)))))) ?Q"
      by (rule gspec_bind [OF str rest]) simp
  qed
  then show ?thesis by simp
qed

text \<open>The jets below a jet, down to a depth.\<close>

fun jets_below :: "nat \<Rightarrow> string \<Rightarrow> string list" where
  "jets_below 0 j = []"
| "jets_below (Suc d) j = [j @ ''0'', j @ ''1''] @ jets_below d (j @ ''0'') @ jets_below d (j @ ''1'')"

lemma gspec_createChildren:
  assumes "jets_ok L"
  shows "gspec L g (2 ^ Suc d - 2) (createChildren L g pulse j d) (\<lambda>_ ds _. map mj_JetID ds = jets_below d j \<and> list_all (drop_for pulse) ds)"
proof (induction d arbitrary: j)
  case 0
  then show ?case by (auto intro: gspec_ret)
next
  case (Suc d)
  let ?k = "2 ^ Suc d - 2" and ?Q = "\<lambda>_ ds _. map mj_JetID ds = jets_below (Suc d) j \<and> list_all (drop_for pulse) ds"
  note drop = gspec_InitJetDrop [OF assms, of g pulse]
  have "gspec L g (?k + 0) (gbind (createChildren L g pulse (j @ ''1'') d) (\<lambda>rs. ret ([l\<lparr>mj_JetID := j @ ''0''\<rparr>, r\<lparr>mj_JetID := j @ ''1''\<rparr>] @ ls @ rs))) ?Q"
    if "drop_for pulse l" "drop_for pulse r" "map mj_JetID ls = jets_below d (j @ ''0'')" "list_all (drop_for pulse) ls" for l r ls
    by (rule gspec_bind [OF Suc.IH, where R = "\<lambda>rs a x b. x = [l\<lparr>mj_JetID := j @ ''0''\<rparr>, r\<lparr>mj_JetID := j @ ''1''\<rparr>] @ ls @ rs"])
      (use that in \<open>auto intro: gspec_ret\<close>)
  then have "gspec L g (?k + (?k + 0)) (gbind (createChildren L g pulse (j @ ''0'') d) (\<lambda>ls. gbind (createChildren L g pulse (j @ ''1'') d) (\<lambda>rs.
      ret ([l\<lparr>mj_JetID := j @ ''0''\<rparr>, r\<lparr>mj_JetID := j @ ''1''\<rparr>] @ ls @ rs)))) ?Q" if "drop_for pulse l" "drop_for pulse r" for l r
    by (rule gspec_bind [OF Suc.IH, where R = "\<lambda>_. ?Q"]) (use that in simp_all)
  then have 2: "gspec L g (1 + (?k + (?k + 0))) (gbind (InitJetDropDB L g pulse) (\<lambda>r. gbind (createChildren L g pulse (j @ ''0'') d) (\<lambda>ls.
      gbind (createChildren L g pulse (j @ ''1'') d) (\<lambda>rs. ret ([l\<lparr>mj_JetID := j @ ''0''\<rparr>, r\<lparr>mj_JetID := j @ ''1''\<rparr>] @ ls @ rs))))) ?Q" if "drop_for pulse l" for l
    using that by (intro gspec_bind [OF drop, where R = "\<lambda>_. ?Q"]) blast+
  have "gspec L g (1 + (1 + (?k + (?k + 0)))) (createChildren L g pulse j (Suc d)) ?Q"
    unfolding createChildren.simps by (rule gspec_bind [OF drop, where R = "\<lambda>_. ?Q"]) (use 2 in blast)+
  moreover obtain n :: nat where "2 ^ d = Suc n" by (metis not0_implies_Suc power_not_zero zero_neq_numeral)
  ultimately show ?case by simp
qed

lemma set_jets_below: "set (jets_below d j) = {j @ bs |bs. bitstring bs \<and> bs \<noteq> [] \<and> length bs \<le> d}"
proof (induction d arbitrary: j)
  case (Suc d)
  have "{j @ bs |bs. bitstring bs \<and> bs \<noteq> [] \<and> length bs \<le> Suc d} = {j @ ''0'', j @ ''1''} \<union>
      {(j @ ''0'') @ bs |bs. bitstring bs \<and> bs \<noteq> [] \<and> length bs \<le> d} \<union> {(j @ ''1'') @ bs |bs. bitstring bs \<and> bs \<noteq> [] \<and> length bs \<le> d}" (is "?A = ?B")
  proof (intro set_eqI iffI)
    fix x
    assume "x \<in> ?A"
    then obtain b bs where "x = j @ b # bs" "bitstring (b # bs)" "length bs \<le> d" by (auto simp: neq_Nil_conv)
    then show "x \<in> ?B" by (cases bs) (auto simp: bitstring_def is_bit_def)
  next
    fix x
    assume "x \<in> ?B"
    then show "x \<in> ?A" by (auto simp: bitstring_def is_bit_def)
  qed
  then show ?case using Suc.IH by simp
qed auto

lemma length_jets_below: "length (jets_below d j) = 2 ^ Suc d - 2"
proof (induction d arbitrary: j)
  case (Suc d)
  obtain n :: nat where n: "2 ^ d = Suc n" by (metis not0_implies_Suc power_not_zero zero_neq_numeral)
  show ?case using Suc by (simp add: n)
qed simp

lemma distinct_jets_below: "distinct (jets_below d j)"
proof (induction d arbitrary: j)
  case (Suc d)
  then show ?case by (auto simp: set_jets_below)
qed simp

text \<open>The lowest jets cover everything below the jet they split from.\<close>

lemma lowest_cover:
  assumes "bitstring b" and "prefix j b" and "length j + d \<le> length b" and "0 < d"
  shows "\<exists>x \<in> set (jets_below d j). length x = length j + d \<and> prefix x b"
proof -
  from assms(2) obtain bs where b: "b = j @ bs" by (auto simp: prefix_def)
  have "bitstring (take d bs)" "take d bs \<noteq> []" "length (take d bs) = d" using assms(1,3,4) by (auto simp: b bitstring_def list_all_iff dest: in_set_takeD)
  then have "j @ take d bs \<in> set (jets_below d j)" by (auto simp: set_jets_below)
  moreover have "prefix (j @ take d bs) b" by (simp add: b take_is_prefix)
  ultimately show ?thesis using assms(3) by (intro bexI [of _ "j @ take d bs"]) (auto simp: b)
qed

section \<open>Trees\<close>

definition entry :: "jet_tree \<Rightarrow> 32 word \<Rightarrow> bytes \<Rightarrow> bytes list option" where
  "entry t p j = Option.bind (map_of t p) (\<lambda>m. map_of m j)"

definition tree_ok :: "jet_tree \<Rightarrow> bool" where
  "tree_ok t \<longleftrightarrow> gomap t \<and> (\<forall>(p, m) \<in> set t. gomap m \<and> m \<noteq> [])"

lemma map_of_foldl_put: "gomap l \<Longrightarrow> map_of (foldl (\<lambda>m (k, v). map_put k v m) m l) = map_of m ++ map_of l"
proof (induction l arbitrary: m)
  case (Cons e l)
  obtain k v where e: "e = (k, v)" by (cases e)
  have l: "gomap l" "map_of l k = None" using Cons.prems by (auto simp: gomap_def e map_of_eq_None_iff)
  have "map_of (foldl (\<lambda>m (k, v). map_put k v m) m (e # l)) = map_of (map_put k v m) ++ map_of l" using Cons.IH [OF l(1)] by (simp add: e fun_upd_def)
  also have "\<dots> = map_of m ++ map_of (e # l)" using l(2) by (auto simp: e fun_eq_iff map_add_def split: option.splits)
  finally show ?case .
qed (simp add: fun_eq_iff)

lemma gomap_foldl_put: "gomap m \<Longrightarrow> gomap (foldl (\<lambda>m (k, v). map_put k v m) m l)"
  by (induction l arbitrary: m) (auto split: prod.splits)

lemma foldl_put_Nil: "m \<noteq> [] \<or> l \<noteq> [] \<Longrightarrow> foldl (\<lambda>m (k, v). map_put k v m) m l \<noteq> []"
proof (induction l arbitrary: m)
  case (Cons e l)
  have "map_put (fst e) (snd e) m \<noteq> []" by (cases m) (auto split: if_splits)
  then show ?case using Cons.IH by (cases e) auto
qed simp

lemma tree_ok_lookup: "tree_ok t \<Longrightarrow> map_of t p = Some m \<Longrightarrow> gomap m"
  unfolding tree_ok_def by (auto dest!: map_of_SomeD)

lemma set_map_put: "set (map_put k v m) \<subseteq> insert (k, v) (set m)"
  by (induction m) (auto split: if_splits)

lemma set_foldl_put: "set (foldl (\<lambda>m (k, v). map_put k v m) m l) \<subseteq> set m \<union> set l"
proof (induction l arbitrary: m)
  case (Cons e l)
  obtain k v where "e = (k, v)" by (cases e)
  then show ?case using Cons.IH [of "map_put k v m"] set_map_put [of k v m] by auto
qed simp

lemma tree_ok_put: "tree_ok t \<Longrightarrow> gomap m \<Longrightarrow> m \<noteq> [] \<Longrightarrow> tree_ok (map_put p m t)"
  unfolding tree_ok_def using set_map_put [of p m t] by auto

lemma merge_tree_entry:
  assumes "tree_ok t" and "tree_ok l"
  shows "tree_ok (merge_tree t l)" "entry (merge_tree t l) p j = (case entry l p j of None \<Rightarrow> entry t p j | Some e \<Rightarrow> Some e)"
proof -
  have "tree_ok (merge_tree t l) \<and> (\<forall>p j. entry (merge_tree t l) p j = (case entry l p j of None \<Rightarrow> entry t p j | Some e \<Rightarrow> Some e))"
    using assms
  proof (induction l arbitrary: t)
    case Nil
    then show ?case by (simp add: merge_tree_def entry_def)
  next
    case (Cons x l)
    obtain q m where x: "x = (q, m)" by (cases x)
    have l: "tree_ok l" "gomap m" "map_of l q = None" "m \<noteq> []" using Cons.prems(2) by (auto simp: tree_ok_def gomap_def x map_of_eq_None_iff)
    define t' where "t' = (case map_of t q of None \<Rightarrow> map_put q m t | Some jds \<Rightarrow> map_put q (foldl (\<lambda>jds (jd, b). map_put jd b jds) jds m) t)"
    have ok: "tree_ok t'" using Cons.prems(1) l(2,4) unfolding t'_def by (auto split: option.splits intro!: tree_ok_put gomap_foldl_put foldl_put_Nil dest: tree_ok_lookup)
    have t: "entry t' p j = (if p = q then (case map_of m j of None \<Rightarrow> entry t p j | Some e \<Rightarrow> Some e) else entry t p j)" for p j
      unfolding t'_def by (auto simp: entry_def map_of_foldl_put [OF l(2)] map_add_def split: option.splits)
    have "merge_tree t (x # l) = merge_tree t' l" by (simp add: merge_tree_def x t'_def split: option.split)
    moreover have "entry (x # l) p j = (if p = q then map_of m j else entry l p j)" for p j by (auto simp: entry_def x)
    moreover have "entry l q j = None" for j using l(3) by (simp add: entry_def)
    ultimately show ?case using Cons.IH [OF ok l(1)] by (auto simp: t split: option.splits)
  qed
  then show "tree_ok (merge_tree t l)" "entry (merge_tree t l) p j = (case entry l p j of None \<Rightarrow> entry t p j | Some e \<Rightarrow> Some e)" by blast+
qed

text \<open>The jets after \<open>k\<close> splits.\<close>

fun jets_at :: "gen_lib \<Rightarrow> nat \<Rightarrow> bytes \<Rightarrow> bytes list" where
  "jets_at g 0 j = [j]"
| "jets_at g (Suc k) j = jets_at g k (fst (gl_Siblings g j)) @ jets_at g k (snd (gl_Siblings g j))"

definition child_of :: "gen_lib \<Rightarrow> bytes \<Rightarrow> bytes \<Rightarrow> bool" where
  "child_of g c j \<longleftrightarrow> c = fst (gl_Siblings g j) \<or> c = snd (gl_Siblings g j)"

lemma jets_at_child: "q \<in> set (jets_at g k j) \<Longrightarrow> child_of g c q \<Longrightarrow> c \<in> set (jets_at g (Suc k) j)"
  by (induction k arbitrary: j) (auto simp: child_of_def)

lemma length_jets_at: "length (jets_at g k j) = 2 ^ k"
  by (induction k arbitrary: j) auto

definition pulse_at :: "32 word \<Rightarrow> nat \<Rightarrow> 32 word" where
  "pulse_at pn k = pn + of_nat (10 * k)"

lemma pulse_at_inj: "10 * k < 2 ^ 32 \<Longrightarrow> 10 * l < 2 ^ 32 \<Longrightarrow> pulse_at pn k = pulse_at pn l \<Longrightarrow> k = l"
  unfolding pulse_at_def by (simp add: word_of_nat_eq_iff take_bit_nat_eq_self del: of_nat_mult)

lemma pulse_at_Suc: "pulse_at (pulse_at pn 1) k = pulse_at pn (Suc k)" "pulse_at pn (Suc k) = pulse_at pn k + 10" "pulse_at pn 0 = pn"
  by (simp_all add: pulse_at_def algebra_simps)

text \<open>A tree below a jet of a pulse: the jets of each level at their pulse, each with the hash of the jet it split from.\<close>

definition tree_below :: "gen_lib \<Rightarrow> bytes \<Rightarrow> 32 word \<Rightarrow> nat \<Rightarrow> bytes \<Rightarrow> jet_tree \<Rightarrow> bool" where
  "tree_below g parent pn d h t \<longleftrightarrow> tree_ok t \<and>
     (\<forall>p j. entry t p j \<noteq> None \<longleftrightarrow> (\<exists>k. 1 \<le> k \<and> k \<le> d \<and> p = pulse_at pn k \<and> j \<in> set (jets_at g k parent))) \<and>
     (\<forall>p j e. entry t p j = Some e \<longrightarrow> length e = 2 \<and> (p = pn + 10 \<and> e ! 0 = h \<and> child_of g j parent \<or>
        (\<exists>q e'. entry t (p - 10) q = Some e' \<and> e' ! 1 = e ! 0 \<and> child_of g j q)))"

lemma tree_belowD:
  assumes "tree_below g parent pn d h t"
  shows "tree_ok t" "entry t p j \<noteq> None \<longleftrightarrow> (\<exists>k. 1 \<le> k \<and> k \<le> d \<and> p = pulse_at pn k \<and> j \<in> set (jets_at g k parent))"
    "entry t p j = Some e \<Longrightarrow> length e = 2 \<and> (p = pn + 10 \<and> e ! 0 = h \<and> child_of g j parent \<or> (\<exists>q e'. entry t (p - 10) q = Some e' \<and> e' ! 1 = e ! 0 \<and> child_of g j q))"
  using assms unfolding tree_below_def by blast+

text \<open>A jet of a lower level has its children one level lower.\<close>

lemma tree_below_children:
  assumes "tree_below g parent pn d h t" and "entry t (p - 10) q \<noteq> None" and "child_of g j q" and "p = pulse_at pn k" and "k \<le> d" and "10 * Suc d < 2 ^ 32"
  shows "entry t p j \<noteq> None"
proof -
  from assms(2) obtain l where l: "1 \<le> l" "l \<le> d" "p - 10 = pulse_at pn l" "q \<in> set (jets_at g l parent)" unfolding tree_belowD(2) [OF assms(1)] by blast
  have "pulse_at pn (Suc l) = pulse_at pn k" using assms(4) l(3) by (metis diff_add_cancel pulse_at_Suc(2))
  then have "Suc l = k" by (rule pulse_at_inj [rotated 2]) (use assms(5,6) l(2) in simp_all)
  then show ?thesis unfolding tree_belowD(2) [OF assms(1)] using assms(4,5) jets_at_child [OF l(4) assms(3)] by (intro exI [of _ k]) auto
qed

lemma tree_below_merge:
  assumes ta: "tree_below g l (pn + 10) d hl ta" and tb: "tree_below g r (pn + 10) d hr tb" and sib: "gl_Siblings g parent = (l, r)" and d: "10 * Suc d < 2 ^ 32"
    and level: "gomap m" "map_of m l = Some [h, hl]" "map_of m r = Some [h, hr]" "dom (map_of m) = {l, r}"
  shows "tree_below g parent pn (Suc d) h (merge_tree (merge_tree [(pn + 10, m)] ta) tb)"
proof -
  let ?T = "merge_tree (merge_tree [(pn + 10, m)] ta) tb"
  have ok0: "tree_ok [(pn + 10, m)]" using level(1,2) by (auto simp: tree_ok_def gomap_def)
  note ok1 = merge_tree_entry(1) [OF ok0 tree_belowD(1) [OF ta]]
  have T: "entry ?T p j = (case entry tb p j of Some e \<Rightarrow> Some e | None \<Rightarrow> (case entry ta p j of Some e \<Rightarrow> Some e | None \<Rightarrow> if p = pn + 10 then map_of m j else None))" for p j
    unfolding merge_tree_entry(2) [OF ok1 tree_belowD(1) [OF tb]] merge_tree_entry(2) [OF ok0 tree_belowD(1) [OF ta]] by (auto simp: entry_def split: option.splits)
  have pn: "pn + 10 = pulse_at pn 1" by (simp add: pulse_at_def)
  have away: "pulse_at (pn + 10) k \<noteq> pn + 10" if "1 \<le> k" "k \<le> d" for k
    using pulse_at_inj [of k 0 "pn + 10"] that d by (auto simp: pulse_at_Suc(3))
  have later: "entry ta (pn + 10) j = None" "entry tb (pn + 10) j = None" for j
  proof -
    show "entry ta (pn + 10) j = None" using tree_belowD(2) [OF ta, of "pn + 10" j] away [THEN not_sym] by blast
    show "entry tb (pn + 10) j = None" using tree_belowD(2) [OF tb, of "pn + 10" j] away [THEN not_sym] by blast
  qed
  have dom: "entry ?T p j \<noteq> None \<longleftrightarrow> (\<exists>k. 1 \<le> k \<and> k \<le> Suc d \<and> p = pulse_at pn k \<and> j \<in> set (jets_at g k parent))" for p j
  proof -
    have "entry ?T p j \<noteq> None \<longleftrightarrow> entry tb p j \<noteq> None \<or> entry ta p j \<noteq> None \<or> p = pn + 10 \<and> j \<in> {l, r}"
      unfolding T level(4) [symmetric] by (auto simp: dom_def split: option.splits)
    also have "\<dots> \<longleftrightarrow> (\<exists>k. 1 \<le> k \<and> k \<le> d \<and> p = pulse_at pn (Suc k) \<and> j \<in> set (jets_at g (Suc k) parent)) \<or> p = pulse_at pn 1 \<and> j \<in> set (jets_at g 1 parent)"
      unfolding tree_belowD(2) [OF ta] tree_belowD(2) [OF tb] pn pulse_at_Suc(1) by (auto simp: sib)
    also have "\<dots> \<longleftrightarrow> (\<exists>k. 1 \<le> k \<and> k \<le> Suc d \<and> p = pulse_at pn k \<and> j \<in> set (jets_at g k parent))" (is "?a \<longleftrightarrow> ?b")
    proof
      assume ?b
      then obtain k where k: "1 \<le> k" "k \<le> Suc d" "p = pulse_at pn k" "j \<in> set (jets_at g k parent)" by blast
      then obtain l where "k = Suc l" by (cases k) auto
      with k show ?a by (cases l) auto
    next
      assume ?a
      then show ?b
      proof (elim disjE exE conjE)
        fix k
        assume "1 \<le> k" "k \<le> d" "p = pulse_at pn (Suc k)" "j \<in> set (jets_at g (Suc k) parent)"
        then show ?b by (intro exI [of _ "Suc k"]) simp
      next
        assume "p = pulse_at pn 1" "j \<in> set (jets_at g 1 parent)"
        then show ?b by (intro exI [of _ 1]) simp
      qed
    qed
    finally show ?thesis .
  qed
  have link: "length e = 2 \<and> (p = pn + 10 \<and> e ! 0 = h \<and> child_of g j parent \<or> (\<exists>q e'. entry ?T (p - 10) q = Some e' \<and> e' ! 1 = e ! 0 \<and> child_of g j q))"
    if e: "entry ?T p j = Some e" for p j e
  proof -
    consider (right) "entry tb p j = Some e" | (left) "entry tb p j = None" "entry ta p j = Some e" | (level) "p = pn + 10" "map_of m j = Some e"
      using e unfolding T by (auto split: option.splits if_splits)
    then show ?thesis
    proof cases
      case right
      note b = tree_belowD(3) [OF tb right]
      show ?thesis
      proof (cases "p = pn + 10 + 10 \<and> e ! 0 = hr \<and> child_of g j r")
        case True
        then have "p - 10 = pn + 10" by simp
        then have "entry ?T (p - 10) r = Some [h, hr]" unfolding T by (simp only: later level(3) option.case if_True refl)
        then show ?thesis using b True by (intro conjI disjI2 exI [of _ r] exI [of _ "[h, hr]"]) auto
      next
        case False
        with b obtain q e' where q: "entry tb (p - 10) q = Some e'" "e' ! 1 = e ! 0" "child_of g j q" by blast
        then have "entry ?T (p - 10) q = Some e'" by (simp add: T)
        then show ?thesis using b q by blast
      qed
    next
      case left
      note b = tree_belowD(3) [OF ta left(2)]
      show ?thesis
      proof (cases "p = pn + 10 + 10 \<and> e ! 0 = hl \<and> child_of g j l")
        case True
        then have "p - 10 = pn + 10" by simp
        then have "entry ?T (p - 10) l = Some [h, hl]" unfolding T by (simp only: later level(2) option.case if_True refl)
        then show ?thesis using b True by (intro conjI disjI2 exI [of _ l] exI [of _ "[h, hl]"]) auto
      next
        case False
        with b obtain q e' where q: "entry ta (p - 10) q = Some e'" "e' ! 1 = e ! 0" "child_of g j q" by blast
        obtain k where k: "k \<le> d" "p = pulse_at (pn + 10) k" using left(2) tree_belowD(2) [OF ta, of p j] by auto
        have "entry tb (p - 10) q = None" using tree_below_children [OF tb _ q(3) k(2,1) d] left(1) by blast
        then have "entry ?T (p - 10) q = Some e'" using q(1) by (simp add: T)
        then show ?thesis using b q by blast
      qed
    next
      case level
      then have "j \<in> {l, r}" using \<open>dom (map_of m) = {l, r}\<close> by blast
      then show ?thesis using level \<open>map_of m l = Some [h, hl]\<close> \<open>map_of m r = Some [h, hr]\<close> by (auto simp: child_of_def sib)
    qed
  qed
  show ?thesis unfolding tree_below_def using merge_tree_entry(1) [OF ok1 tree_belowD(1) [OF tb]] dom link by blast
qed

lemma gspec_getSiblings:
  assumes "10 * d < 2 ^ 32" and "length hashes = 2"
  shows "gspec L g 0 (getSiblings g parent pn d hashes) (\<lambda>_ t _. tree_below g parent pn d (hashes ! 1) t)"
  using assms
proof (induction d arbitrary: parent pn hashes)
  case 0
  have "tree_below g parent pn 0 (hashes ! 1) []" by (simp add: tree_below_def tree_ok_def entry_def)
  then show ?case by (auto intro: gspec_ret)
next
  case (Suc d)
  obtain l r where sib: "gl_Siblings g parent = (l, r)" by (cases "gl_Siblings g parent")
  let ?h = "hashes ! 1" and ?Q = "\<lambda>_ t _. tree_below g parent pn (Suc d) (hashes ! 1) t"
  let ?m = "\<lambda>h1 h2. map_put r [?h, h2] (map_put l [?h, h1] [])"
  have d: "10 * d < 2 ^ 32" using Suc.prems(1) by simp
  have below: "gspec L g 0 (gbind (getSiblings g l (pn + 10) d (the (map_of (?m h1 h2) l))) (\<lambda>ta. let result = merge_tree (map_put (pn + 10) (?m h1 h2) []) ta in
      gbind (getSiblings g r (pn + 10) d (the (map_of (?m h1 h2) r))) (\<lambda>tb. ret (merge_tree result tb)))) ?Q" for h1 h2
  proof -
    let ?hl = "the (map_of (?m h1 h2) l)" and ?hr = "the (map_of (?m h1 h2) r)"
    have len: "length ?hl = 2" "length ?hr = 2" by auto
    have m: "gomap (?m h1 h2)" "map_of (?m h1 h2) l = Some [?h, ?hl ! 1]" "map_of (?m h1 h2) r = Some [?h, ?hr ! 1]" "dom (map_of (?m h1 h2)) = {l, r}" by (auto simp: gomap_def)
    have "gspec L g (0 + 0) (gbind (getSiblings g r (pn + 10) d ?hr) (\<lambda>tb. ret (merge_tree (merge_tree (map_put (pn + 10) (?m h1 h2) []) ta) tb))) ?Q"
      if "tree_below g l (pn + 10) d (?hl ! 1) ta" for ta
      by (rule gspec_bind [OF Suc.IH [OF d len(2)], where R = "\<lambda>tb _ t _. t = merge_tree (merge_tree [(pn + 10, ?m h1 h2)] ta) tb"])
        (use tree_below_merge [OF that _ sib Suc.prems(1) m] in \<open>auto intro: gspec_ret simp del: map_put.simps(2)\<close>)
    then have "gspec L g (0 + (0 + 0)) (gbind (getSiblings g l (pn + 10) d ?hl) (\<lambda>ta. gbind (getSiblings g r (pn + 10) d ?hr)
        (\<lambda>tb. ret (merge_tree (merge_tree (map_put (pn + 10) (?m h1 h2) []) ta) tb)))) ?Q"
      by (rule gspec_bind [OF Suc.IH [OF d len(1)], where R = "\<lambda>_. ?Q"]) auto
    then show ?thesis by (simp add: Let_def)
  qed
  have "\<not> length hashes < 2" using Suc.prems(2) by simp
  then show ?case
    unfolding getSiblings.simps sib prod.case Let_def GenerateRandBytes_def if_not_P [OF \<open>\<not> length hashes < 2\<close>]
    by (intro gspec_draw_bind) (rule gspec_weaken [OF below [unfolded Let_def]], simp_all)
qed

text \<open>The tree of a root jet.\<close>

definition tree_from :: "gen_lib \<Rightarrow> bytes \<Rightarrow> 32 word \<Rightarrow> nat \<Rightarrow> jet_tree \<Rightarrow> bool" where
  "tree_from g root pn d t \<longleftrightarrow> tree_ok t \<and>
     (\<forall>p j. entry t p j \<noteq> None \<longleftrightarrow> (\<exists>k \<le> d. p = pulse_at pn k \<and> j \<in> set (jets_at g k root))) \<and>
     (\<forall>p j e. entry t p j = Some e \<longrightarrow> length e = 2 \<and> (p = pn \<and> j = root \<or> (\<exists>q e'. entry t (p - 10) q = Some e' \<and> e' ! 1 = e ! 0 \<and> child_of g j q)))"

lemma tree_from_below:
  assumes t: "tree_below g root pn d h t" and d: "10 * d < 2 ^ 32"
  shows "tree_from g root pn d (foldl (\<lambda>m (k, v). map_put k v m) [(pn, [(root, [[], h])])] t)"
proof -
  let ?T = "foldl (\<lambda>m (k, v). map_put k v m) [(pn, [(root, [[], h])])] t"
  have ok: "tree_ok t" by (rule tree_belowD(1) [OF t])
  have none: "entry t pn j = None" for j
  proof (rule ccontr)
    assume "entry t pn j \<noteq> None"
    then obtain k where "1 \<le> k" "k \<le> d" "pn = pulse_at pn k" unfolding tree_belowD(2) [OF t] by blast
    then show False using pulse_at_inj [of k 0 pn] d by (simp add: pulse_at_Suc(3))
  qed
  have pn: "map_of t pn = None"
  proof (rule ccontr)
    assume "map_of t pn \<noteq> None"
    then obtain m where m: "map_of t pn = Some m" by blast
    then have "m \<noteq> []" using ok map_of_SomeD [OF m] by (auto simp: tree_ok_def)
    then obtain j e m' where "m = (j, e) # m'" by (metis list.exhaust surj_pair)
    then show False using none [of j] m by (simp add: entry_def)
  qed
  have T: "entry ?T p j = (if p = pn then (if j = root then Some [[], h] else None) else entry t p j)" for p j
  proof -
    have "map_of ?T = map_of [(pn, [(root, [[], h])])] ++ map_of t" by (rule map_of_foldl_put) (use ok in \<open>simp add: tree_ok_def\<close>)
    then show ?thesis using pn by (simp add: entry_def map_add_def split: option.splits)
  qed
  have "set ?T \<subseteq> set [(pn, [(root, [[], h])])] \<union> set t" by (rule set_foldl_put)
  moreover have "gomap ?T" by (rule gomap_foldl_put) (simp add: gomap_def)
  ultimately have "tree_ok ?T" using ok by (auto simp: tree_ok_def gomap_def)
  moreover have "entry ?T p j \<noteq> None \<longleftrightarrow> (\<exists>k \<le> d. p = pulse_at pn k \<and> j \<in> set (jets_at g k root))" for p j
  proof (cases "p = pn")
    case True
    have "k = 0" if "k \<le> d" "pn = pulse_at pn k" for k using pulse_at_inj [of k 0 pn] d that by (simp add: pulse_at_Suc(3))
    then have "(\<exists>k \<le> d. p = pulse_at pn k \<and> j \<in> set (jets_at g k root)) \<longleftrightarrow> j \<in> set (jets_at g 0 root)" unfolding True by (metis le0 pulse_at_Suc(3))
    then show ?thesis by (simp add: T True)
  next
    case False
    have "1 \<le> k" if "p = pulse_at pn k" for k using False that by (cases k) (auto simp: pulse_at_Suc(3))
    then show ?thesis using False tree_belowD(2) [OF t, of p j] by (auto simp: T)
  qed
  moreover have "length e = 2 \<and> (p = pn \<and> j = root \<or> (\<exists>q e'. entry ?T (p - 10) q = Some e' \<and> e' ! 1 = e ! 0 \<and> child_of g j q))" if e: "entry ?T p j = Some e" for p j e
  proof (cases "p = pn")
    case False
    with e have "entry t p j = Some e" by (simp add: T)
    from tree_belowD(3) [OF t this] have len: "length e = 2" and link: "p = pn + 10 \<and> e ! 0 = h \<and> child_of g j root \<or> (\<exists>q e'. entry t (p - 10) q = Some e' \<and> e' ! 1 = e ! 0 \<and> child_of g j q)" by auto
    from link show ?thesis
    proof (elim disjE exE conjE)
      assume "p = pn + 10" "e ! 0 = h" "child_of g j root"
      then show ?thesis using len by (intro conjI disjI2 exI [of _ root] exI [of _ "[[], h]"]) (simp_all add: T)
    next
      fix q e'
      assume q: "entry t (p - 10) q = Some e'" "e' ! 1 = e ! 0" "child_of g j q"
      then have "p - 10 \<noteq> pn" using none by auto
      then show ?thesis using len q by (intro conjI disjI2 exI [of _ q] exI [of _ e']) (simp_all add: T)
    qed
  qed (use e in \<open>auto simp: T split: if_splits\<close>)
  ultimately show ?thesis unfolding tree_from_def by blast
qed

text \<open>The first root the loop draws, when it is new.\<close>

definition first_root :: "insolar_lib \<Rightarrow> gen_lib \<Rightarrow> 32 word \<Rightarrow> rstate \<Rightarrow> bytes \<Rightarrow> bool" where
  "first_root L g pn s root \<longleftrightarrow> root = gl_NewJetID g (of_int (gl_Int63n g (rs_draws s) 26 + 15)) (gl_IDWithPulse g (Suc (rs_draws s)) pn) \<and>
     8 \<le> length (Prefix L root) \<and> big_endian (Prefix L root) \<noteq> 0 \<and> big_endian (Prefix L root) \<notin> set (uniqueJetID s)"

lemma jets_left_save:
  assumes "jets_left L g (Suc n) s"
  shows "jets_left L g n (s\<lparr>uniqueJetID := v # uniqueJetID s\<rparr>)"
proof -
  have "fresh_jets L g (s\<lparr>uniqueJetID := v # uniqueJetID s\<rparr>) = fresh_jets L g s - {v}" by (auto simp: fresh_jets_def)
  then show ?thesis using assms by (auto simp: jets_left_def card_Diff_singleton_if)
qed

lemma tree_generated:
  assumes "first_root L g pn s root" and "jets_left L g (Suc n) s" and "10 * d < 2 ^ 32"
  shows "\<exists>t s'. GenerateJetIDTree L g (Suc turns) pn d s = Some (Done (t, s')) \<and> jets_left L g n s' \<and> tree_from g root pn d t"
proof -
  let ?s = "s\<lparr>rs_draws := Suc (Suc (rs_draws s)), uniqueJetID := big_endian (Prefix L root) # uniqueJetID s\<rparr>"
  let ?rest = "gbind (GenerateRandBytes g) (\<lambda>rootHash. gbind (getSiblings g root pn d [[], rootHash]) (\<lambda>childs.
    ret (foldl (\<lambda>result (p, c). map_put p c result) [(pn, [(root, [[], rootHash])])] childs)))"
  have root: "gl_NewJetID g (of_int (gl_Int63n g (rs_draws s) 26 + 15)) (gl_IDWithPulse g (Suc (rs_draws s)) pn) = root" "\<not> length (Prefix L root) < 8"
      "big_endian (Prefix L root) \<noteq> 0" "big_endian (Prefix L root) \<notin> set (uniqueJetID s)"
    using assms(1) by (auto simp: first_root_def)
  have step: "GenerateJetIDTree L g (Suc turns) pn d s = ?rest ?s"
    by (simp add: RandNumberOverRange_def gbind_def [of "draw f" for f] gbind_def [of "gbind m f" for m f] gbind_def [of "saveUniqueJetID L j" for j] draw_def ret_def Let_def
      saveUniqueJetID_def root(2-4) root(1) [simplified])
  have "gspec L g (0 + 0) (gbind (getSiblings g root pn d [[], h]) (\<lambda>childs. ret (foldl (\<lambda>result (p, c). map_put p c result) [(pn, [(root, [[], h])])] childs))) (\<lambda>_ t _. tree_from g root pn d t)" for h
    by (rule gspec_bind [OF gspec_getSiblings [OF assms(3)], where R = "\<lambda>c _ t _. t = foldl (\<lambda>m (k, v). map_put k v m) [(pn, [(root, [[], h])])] c"])
      (use tree_from_below [OF _ assms(3)] in \<open>auto intro: gspec_ret\<close>)
  from gspec_weaken [OF this] have "gspec L g 0 ?rest (\<lambda>_ t _. tree_from g root pn d t)"
    unfolding GenerateRandBytes_def by (intro gspec_draw_bind) simp
  moreover have "jets_left L g (0 + n) ?s" using jets_left_save [of L g n "s\<lparr>rs_draws := Suc (Suc (rs_draws s))\<rparr>"] assms(2) by simp
  ultimately show ?thesis unfolding step using gspecD [of L g 0 ?rest _ n ?s] by blast
qed

section \<open>Records of a tree\<close>

lemma gspec_map_all2:
  assumes "\<And>x. x \<in> set xs \<Longrightarrow> gspec L g k (f x) (\<lambda>_ y _. R x y)"
  shows "gspec L g (length xs * k) (gen_map f xs) (\<lambda>_ ys _. list_all2 R xs ys)"
  using assms
proof (induction xs)
  case Nil
  then show ?case by (auto intro: gspec_ret)
next
  case (Cons x xs)
  have IH: "gspec L g (length xs * k) (gen_map f xs) (\<lambda>_ ys _. list_all2 R xs ys)" by (rule Cons.IH) (simp add: Cons.prems)
  have "gspec L g (length xs * k + 0) (gbind (gen_map f xs) (\<lambda>ys. ret (y # ys))) (\<lambda>_ ys _. list_all2 R (x # xs) ys)" if "R x y" for y
    by (rule gspec_bind [OF IH, where R = "\<lambda>ys _ zs _. zs = y # ys"]) (use that in \<open>auto intro: gspec_ret\<close>)
  then have r: "gspec L g (length xs * k) (gbind (gen_map f xs) (\<lambda>ys. ret (y # ys))) (\<lambda>_ ys _. list_all2 R (x # xs) ys)" if "R x y" for y
    using that by simp
  have "gspec L g (k + length xs * k) (gen_map f (x # xs)) (\<lambda>_ ys _. list_all2 R (x # xs) ys)"
    unfolding gen_map.simps by (rule gspec_bind [OF Cons.prems r]) auto
  then show ?case by simp
qed

text \<open>The records of a jet drop: as many as wanted, of its pulse and its jet.\<close>

definition own_records :: "gen_lib \<Rightarrow> nat \<Rightarrow> 32 word \<times> bytes \<Rightarrow> ex_Record list \<Rightarrow> bool" where
  "own_records g n pj rs \<longleftrightarrow> length rs = n \<and> (\<forall>r \<in> set rs. er_JetID r = snd pj \<and> er_ShouldIterateFrom r = None \<and> (\<exists>k. er_ID r = gl_IDWithPulse g k (fst pj)))"

lemma gspec_drop_records:
  "gspec L g n (gbind (GenerateRecordsSilence L g n) (\<lambda>records. gen_map (\<lambda>r. gbind (draw (\<lambda>k. gl_IDWithPulse g k p)) (\<lambda>i.
     ret (r\<lparr>er_ID := i, er_JetID := jd, er_ShouldIterateFrom := None\<rparr>))) records)) (\<lambda>_ rs _. own_records g n (p, jd) rs)"
proof -
  let ?f = "\<lambda>r :: ex_Record. gbind (draw (\<lambda>k. gl_IDWithPulse g k p)) (\<lambda>i. ret (r\<lparr>er_ID := i, er_JetID := jd, er_ShouldIterateFrom := None\<rparr>))"
  let ?R = "\<lambda>(_ :: ex_Record) r'. er_JetID r' = jd \<and> er_ShouldIterateFrom r' = None \<and> (\<exists>k. er_ID r' = gl_IDWithPulse g k p)"
  have one: "gspec L g 0 (?f r) (\<lambda>_ r' _. ?R r r')" for r by (intro gspec_draw_bind gspec_ret) auto
  have all: "gspec L g 0 (gen_map ?f rs) (\<lambda>_ ys _. list_all2 ?R rs ys)" for rs using gspec_map_all2 [OF one, of rs] by simp
  have "gspec L g (n + 0) (gbind (GenerateRecordsSilence L g n) (gen_map ?f)) (\<lambda>_ rs _. own_records g n (p, jd) rs)"
    by (rule gspec_bind [OF gspec_records all]) (auto simp: own_records_def list_all2_conv_all_nth in_set_conv_nth)
  then show ?thesis by simp
qed

lemma tree_pairs_set:
  assumes "range_ok rp" and "range_ok rj" and "tree_ok t"
  shows "set (tree_pairs rp rj t) = {(p, j). entry t p j \<noteq> None}" "distinct (tree_pairs rp rj t)"
proof -
  have "(p, j) \<in> set (tree_pairs rp rj t) \<longleftrightarrow> entry t p j \<noteq> None" for p j
  proof -
    have "(p, j) \<in> set (tree_pairs rp rj t) \<longleftrightarrow> p \<in> set (map_keys t) \<and> j \<in> set (map_keys (the (map_of t p)))"
      by (auto simp: tree_pairs_def range_ok_set [OF assms(1)] range_ok_set [OF assms(2)])
    also have "\<dots> \<longleftrightarrow> entry t p j \<noteq> None" using map_of_None_keys [of t p] map_of_None_keys [of "the (map_of t p)" j] by (cases "map_of t p") (auto simp: entry_def)
    finally show ?thesis .
  qed
  then show "set (tree_pairs rp rj t) = {(p, j). entry t p j \<noteq> None}" by (intro set_eqI) (simp split: prod.splits)
  have keys: "distinct (rp 0 (map_keys t))" using assms(3) range_ok_distinct [OF assms(1)] by (simp add: tree_ok_def gomap_def map_keys_def)
  have inner: "distinct (rj n (map_keys (the (map_of t p))))" if k: "p \<in> set (map_keys t)" for n p
  proof -
    obtain m where "map_of t p = Some m" using k map_of_None_keys [of t p] by (cases "map_of t p") auto
    then show ?thesis using tree_ok_lookup [OF assms(3), of p m] range_ok_distinct [OF assms(2)] by (simp add: gomap_def map_keys_def)
  qed
  have "distinct (concat (map (\<lambda>p. map (Pair p) (rj (unat p) (map_keys (the (map_of t p))))) ps))" if "distinct ps" "set ps \<subseteq> set (map_keys t)" for ps
    using that
  proof (induction ps)
    case (Cons p ps)
    have "distinct (map (Pair p) (rj (unat p) (map_keys (the (map_of t p)))))" using inner [of p] Cons.prems(2) by (simp add: distinct_map inj_on_def)
    then show ?case using Cons by (auto simp del: distinct_map)
  qed simp
  then show "distinct (tree_pairs rp rj t)" unfolding tree_pairs_def using keys by (simp add: range_ok_set [OF assms(1)])
qed

lemma tree_pairs_length:
  assumes "range_ok rp" and "range_ok rj" and "tree_from g root pn d t"
  shows "length (tree_pairs rp rj t) \<le> 2 ^ Suc d - 1"
proof -
  have ok: "tree_ok t" and dom: "entry t p j \<noteq> None \<longleftrightarrow> (\<exists>k \<le> d. p = pulse_at pn k \<and> j \<in> set (jets_at g k root))" for p j
    using assms(3) unfolding tree_from_def by blast+
  note pairs = tree_pairs_set [OF assms(1,2) ok]
  have "set (tree_pairs rp rj t) = (\<Union>k \<in> {0..<Suc d}. Pair (pulse_at pn k) ` set (jets_at g k root))" unfolding pairs(1) dom by (auto simp: less_Suc_eq_le)
  then have "card (set (tree_pairs rp rj t)) \<le> (\<Sum>k = 0..<Suc d. card (Pair (pulse_at pn k) ` set (jets_at g k root)))" by (simp only: card_UN_le finite_atLeastLessThan)
  also have "\<dots> \<le> (\<Sum>k = 0..<Suc d. 2 ^ k)"
  proof (rule sum_mono)
    fix k
    have "card (Pair (pulse_at pn k) ` set (jets_at g k root)) \<le> card (set (jets_at g k root))" by (rule card_image_le) simp
    also have "\<dots> \<le> 2 ^ k" using card_length [of "jets_at g k root"] by (simp add: length_jets_at)
    finally show "card (Pair (pulse_at pn k) ` set (jets_at g k root)) \<le> 2 ^ k" .
  qed
  also have "\<dots> = 2 ^ Suc d - 1" by (rule sum_power2)
  finally show ?thesis using distinct_card [OF pairs(2)] by simp
qed

text \<open>When the first root that is drawn is new and the source of jets has enough prefixes, a tree of split jets is generated: at the pulse after \<open>k\<close> splits it has
  exactly the jets that \<open>k\<close> splits of the root give, each with the hash of the jet it split from, and every jet of the tree gets the wanted number of
  records of its own jet and pulse, and nothing else is returned.\<close>

theorem split_tree_records:
  assumes "range_ok rp" and "range_ok rj" and "10 * depth < 2 ^ 32" and "0 < turns" and "first_root L g pn s root" and "jets_left L g (Suc ((2 ^ Suc depth - 1) * n)) s"
  shows "\<exists>records t s'. GenerateRecordsWIthSplitJetDrops L g rp rj turns pn depth n s = Some (Done ((records, t), s')) \<and> tree_from g root pn depth t \<and>
    (\<exists>pairs rss. distinct pairs \<and> set pairs = {(p, j). entry t p j \<noteq> None} \<and> list_all2 (own_records g n) pairs rss \<and> records = concat rss)"
proof -
  obtain m where m: "turns = Suc m" using assms(4) by (cases turns) auto
  obtain t s1 where t: "GenerateJetIDTree L g turns pn depth s = Some (Done (t, s1))" "jets_left L g ((2 ^ Suc depth - 1) * n) s1" "tree_from g root pn depth t"
    unfolding m using tree_generated [OF assms(5,6,3)] by blast
  let ?pairs = "tree_pairs rp rj t"
  have ok: "tree_ok t" using t(3) by (simp add: tree_from_def)
  have "jets_left L g (length ?pairs * n + 0) s1" using t(2) by (rule jets_left_mono) (use tree_pairs_length [OF assms(1,2) t(3)] in simp)
  moreover have "gspec L g (length ?pairs * n) (gen_map (\<lambda>(p, jd). gbind (GenerateRecordsSilence L g n) (\<lambda>records. gen_map (\<lambda>r. gbind (draw (\<lambda>n. gl_IDWithPulse g n p))
        (\<lambda>i. ret (r\<lparr>er_ID := i, er_JetID := jd, er_ShouldIterateFrom := None\<rparr>))) records)) ?pairs) (\<lambda>_ rss _. list_all2 (own_records g n) ?pairs rss)"
    by (rule gspec_map_all2) (use gspec_drop_records in \<open>auto split: prod.splits\<close>)
  ultimately obtain rss s' where r: "gen_map (\<lambda>(p, jd). gbind (GenerateRecordsSilence L g n) (\<lambda>records. gen_map (\<lambda>r. gbind (draw (\<lambda>n. gl_IDWithPulse g n p))
        (\<lambda>i. ret (r\<lparr>er_ID := i, er_JetID := jd, er_ShouldIterateFrom := None\<rparr>))) records)) ?pairs s1 = Some (Done (rss, s'))" "list_all2 (own_records g n) ?pairs rss"
    using gspecD by blast
  have "GenerateRecordsWIthSplitJetDrops L g rp rj turns pn depth n s = Some (Done ((concat rss, t), s'))"
    unfolding GenerateRecordsWIthSplitJetDrops_def gbind_def [of "GenerateJetIDTree L g turns pn depth"] t(1) by (simp add: gbind_def [of "gen_map f xs" for f xs] r(1) ret_def)
  then show ?thesis using t(3) tree_pairs_set [OF assms(1,2) ok] r(2) by blast
qed

lemma unary_first_root: "first_root unary_lib unary_gen 6 gen_start [0, 0, 0, 0, 0, 0, 1, 1]"
proof -
  have "replicate 6 (0 :: byte) = [0, 0, 0, 0, 0, 0]" by (simp add: eval_nat_numeral)
  then show ?thesis by (simp add: first_root_def unary_gen_def unary_lib_def plain_lib_def gen_start_def big_endian_def)
qed

theorem split_tree_records_witness:
  "\<exists>records t s'. GenerateRecordsWIthSplitJetDrops unary_lib unary_gen range_reverse range_insertion 1 6 1 2 gen_start = Some (Done ((records, t), s')) \<and>
     entry t 16 [0, 0, 0, 0, 0, 0, 1, 1, 0] \<noteq> None"
proof -
  have "jets_left unary_lib unary_gen (Suc ((2 ^ Suc 1 - 1) * 2)) gen_start" by (rule unary_jets) simp
  from split_tree_records [OF range_ok_reverse range_ok_insertion _ _ unary_first_root this, of 1]
  obtain records t s' where t: "GenerateRecordsWIthSplitJetDrops unary_lib unary_gen range_reverse range_insertion 1 6 1 2 gen_start = Some (Done ((records, t), s'))"
      "tree_from unary_gen [0, 0, 0, 0, 0, 0, 1, 1] 6 1 t" by auto
  have "\<exists>k \<le> 1. (16 :: 32 word) = pulse_at 6 k \<and> [0, 0, 0, 0, 0, 0, 1, 1, 0] \<in> set (jets_at unary_gen k [0, 0, 0, 0, 0, 0, 1, 1])"
    by (intro exI [of _ 1]) (simp add: pulse_at_def unary_gen_def)
  then show ?thesis using t unfolding tree_from_def by blast
qed

section \<open>Prefixes of canonical jet drops\<close>

text \<open>\<open>CreateJetDropCanonical\<close> takes the prefix of one jet and the length of another.\<close>

lemma canonical_two_jets:
  assumes "CreateJetDropCanonical L g records s = Some (Done (d, s'))"
  shows "length (ds_JetDropPrefix (ms_Start (tj_MainSection d))) = unat (Depth L (gl_JetID g (rs_jets s)))"
    "ds_JetDropPrefixLength (ms_Start (tj_MainSection d)) = unat (Depth L (gl_JetID g (Suc (rs_jets s))))"
proof -
  obtain str where str: "JetIDToString L (gl_JetID g (rs_jets s)) = Done str"
    using assms by (cases "JetIDToString L (gl_JetID g (rs_jets s))") (auto simp: CreateJetDropCanonical_def gbind_def draw_def draw_jet_def of_outcome_def Let_def)
  have "ds_JetDropPrefix (ms_Start (tj_MainSection d)) = str \<and> ds_JetDropPrefixLength (ms_Start (tj_MainSection d)) = unat (Depth L (gl_JetID g (Suc (rs_jets s))))"
    using assms by (auto simp: CreateJetDropCanonical_def gbind_def draw_def draw_jet_def of_outcome_def Let_def str ret_def GenerateRandBytes_def)
  then show "length (ds_JetDropPrefix (ms_Start (tj_MainSection d))) = unat (Depth L (gl_JetID g (rs_jets s)))"
    "ds_JetDropPrefixLength (ms_Start (tj_MainSection d)) = unat (Depth L (gl_JetID g (Suc (rs_jets s))))" using JetIDToString_bitstring [OF str] by simp_all
qed

end
