(* ===== verification/Generated_Lifelines.thy ===== *)
theory Generated_Lifelines
  imports Generators
begin

text \<open>\<open>GenerateObjectLifeline\<close> of \<open>testutils/generators.go\<close>: the generator of the life of an object over several pulses, and that the transformer
  accepts what it generates.\<close>

section \<open>Lifelines\<close>

record RecordsByPulse =
  rp_Pn :: "32 word"
  rp_Records :: "ex_Record list"

record gen_ObjectLifeline =
  ol_StateRecords :: "RecordsByPulse list"
  ol_SideRecords :: "RecordsByPulse list"
  ol_ObjID :: bytes

definition GetStateRecords :: "gen_ObjectLifeline \<Rightarrow> ex_Record list" where
  "GetStateRecords l = concat (map rp_Records (ol_StateRecords l))"

definition GetAllRecords :: "gen_ObjectLifeline \<Rightarrow> ex_Record list" where
  "GetAllRecords l = GetStateRecords l @ concat (map rp_Records (ol_SideRecords l))"

text \<open>The records of the first pulse begin with the activation after its request, those of a later pulse only amend.  The result
  has the records, the amendments among them, the last state before the amendments and the side records.\<close>

definition lifeline_amends :: "insolar_lib \<Rightarrow> gen_lib \<Rightarrow> nat \<Rightarrow> bytes \<Rightarrow> bytes \<Rightarrow> nat \<Rightarrow> 32 word \<Rightarrow> bytes \<Rightarrow> RecordsByPulse
    \<Rightarrow> (ex_Record list \<times> ex_Record list \<times> bytes \<times> RecordsByPulse) gen" where
  "lifeline_amends L g recordsInPulse objectID jetID i pn prevState side =
     (if i = 0 then
        gbind (GenerateRequestRecord L g pn objectID) (\<lambda>request.
        gbind (GenerateVirtualActivateRecord L g pn objectID (er_ID request)) (\<lambda>activate.
          if recordsInPulse = 0 then crash IndexOutOfRange
          else gbind (GenerateVirtualAmendRecordsLinkedArray L g pn jetID objectID (er_ID activate) (recordsInPulse - 1)) (\<lambda>amends.
            ret (activate\<lparr>er_JetID := jetID\<rparr> # amends, amends, er_ID activate, \<lparr>rp_Pn = pn, rp_Records = [request]\<rparr>))))
      else gbind (GenerateVirtualAmendRecordsLinkedArray L g pn jetID objectID prevState recordsInPulse) (\<lambda>amends.
        ret (amends, amends, prevState, side)))"

text \<open>The last pulse: the deactivation takes the place of the last record, so its previous state is the record before that one.\<close>

definition close_line :: "insolar_lib \<Rightarrow> gen_lib \<Rightarrow> nat \<Rightarrow> nat \<Rightarrow> bytes \<Rightarrow> bytes \<Rightarrow> nat \<Rightarrow> 32 word
    \<Rightarrow> ex_Record list \<times> ex_Record list \<times> bytes \<times> RecordsByPulse \<Rightarrow> (ex_Record list \<times> bytes \<times> RecordsByPulse) gen" where
  "close_line L g pulseCount n objectID jetID i pn = (\<lambda>(records, amends, prevState, side).
     let prevState = (if amends \<noteq> [] then er_ID (last amends) else prevState) in
     if Suc i = pulseCount \<and> n > 1 then
       if length amends < 2 then crash IndexOutOfRange
       else let prevState = er_ID (amends ! (length amends - 2)) in
         gbind (GenerateVirtualDeactivateRecord L g pn objectID prevState) (\<lambda>deactivate.
           ret (records[length records - 1 := deactivate\<lparr>er_JetID := jetID\<rparr>], prevState, side))
     else ret (records, prevState, side))"

text \<open>One turn of the loop.\<close>

definition lifeline_pulse :: "insolar_lib \<Rightarrow> gen_lib \<Rightarrow> nat \<Rightarrow> nat \<Rightarrow> bytes \<Rightarrow> nat \<Rightarrow> 32 word \<Rightarrow> bytes \<Rightarrow> RecordsByPulse
    \<Rightarrow> (ex_Record list \<times> bytes \<times> RecordsByPulse) gen" where
  "lifeline_pulse L g pulseCount recordsInPulse objectID i pn prevState side =
     gbind (GenerateUniqueJetID L g) (\<lambda>jetID.
     gbind (lifeline_amends L g recordsInPulse objectID jetID i pn prevState side)
       (close_line L g pulseCount recordsInPulse objectID jetID i pn))"

fun lifeline_loop :: "insolar_lib \<Rightarrow> gen_lib \<Rightarrow> nat \<Rightarrow> nat \<Rightarrow> bytes \<Rightarrow> nat \<Rightarrow> nat \<Rightarrow> 32 word \<Rightarrow> bytes \<Rightarrow> RecordsByPulse
    \<Rightarrow> (RecordsByPulse list \<times> RecordsByPulse) gen" where
  "lifeline_loop L g pulseCount recordsInPulse objectID 0 i pn prevState side = ret ([], side)"
| "lifeline_loop L g pulseCount recordsInPulse objectID (Suc n) i pn prevState side =
     gbind (lifeline_pulse L g pulseCount recordsInPulse objectID i (pn + 10) prevState side) (\<lambda>(records, prevState, side).
     gbind (lifeline_loop L g pulseCount recordsInPulse objectID n (Suc i) (pn + 10) prevState side) (\<lambda>(stateRecords, side).
       ret (\<lparr>rp_Pn = pn + 10, rp_Records = records\<rparr> # stateRecords, side)))"

definition GenerateObjectLifeline :: "insolar_lib \<Rightarrow> gen_lib \<Rightarrow> nat \<Rightarrow> nat \<Rightarrow> gen_ObjectLifeline gen" where
  "GenerateObjectLifeline L g pulseCount recordsInPulse =
     gbind (draw (gl_ID g)) (\<lambda>objectID. gbind (draw (gl_PulseNumber g)) (\<lambda>pn.
     gbind (lifeline_loop L g pulseCount recordsInPulse objectID pulseCount 0 pn (gl_zeroID g) \<lparr>rp_Pn = 0, rp_Records = []\<rparr>)
       (\<lambda>(stateRecords, side). ret \<lparr>ol_StateRecords = stateRecords, ol_SideRecords = [side], ol_ObjID = objectID\<rparr>)))"

section \<open>Generated lifelines are lifelines\<close>

definition prev_state :: "ex_Record \<Rightarrow> bytes" where
  "prev_state r = (case er_Virtual r of Virtual_Amend _ _ p _ \<Rightarrow> p | Virtual_Deactivate p \<Rightarrow> p | _ \<Rightarrow> [])"

definition is_activation :: "ex_Record \<Rightarrow> bool" where
  "is_activation r \<longleftrightarrow> (\<exists>img mem req. er_Virtual r = Virtual_Activate img mem req)"

definition changes_state :: "ex_Record \<Rightarrow> bool" where
  "changes_state r \<longleftrightarrow> is_activation r \<or> (\<exists>img mem p req. er_Virtual r = Virtual_Amend img mem p req) \<or> (\<exists>p. er_Virtual r = Virtual_Deactivate p)"

abbreviation next_state :: "ex_Record \<Rightarrow> ex_Record \<Rightarrow> bool" where
  "next_state x y \<equiv> prev_state y = er_ID x"

text \<open>\<open>line_in\<close>: records of one object and one jet that follow each other, with identifiers drawn in their order between two numbers.\<close>

definition drawn_in_order :: "gen_lib \<Rightarrow> 32 word \<Rightarrow> nat \<Rightarrow> ex_Record list \<Rightarrow> nat \<Rightarrow> bool" where
  "drawn_in_order g pn a rs b \<longleftrightarrow> (\<exists>ks. sorted_wrt (<) ks \<and> set ks \<subseteq> {a..<b} \<and> map er_ID rs = map (\<lambda>k. gl_IDWithPulse g k pn) ks)"

definition in_line :: "bytes \<Rightarrow> bytes \<Rightarrow> ex_Record \<Rightarrow> bool" where
  "in_line objectID jetID r \<longleftrightarrow> er_ObjectID r = objectID \<and> er_JetID r = jetID \<and> er_ShouldIterateFrom r = None \<and> changes_state r"

definition line_in :: "gen_lib \<Rightarrow> 32 word \<Rightarrow> bytes \<Rightarrow> bytes \<Rightarrow> nat \<Rightarrow> ex_Record list \<Rightarrow> nat \<Rightarrow> bool" where
  "line_in g pn objectID jetID a rs b \<longleftrightarrow> drawn_in_order g pn a rs b \<and> (\<forall>r \<in> set rs. in_line objectID jetID r) \<and> chained next_state rs"

lemma drawn_Nil: "drawn_in_order g pn a [] b"
  by (auto simp: drawn_in_order_def intro: exI [of _ "[]"])

lemma drawn_Cons:
  assumes "id_drawn g pn a r b" and "drawn_in_order g pn b rs c" and "b \<le> c"
  shows "drawn_in_order g pn a (r # rs) c"
proof -
  from assms(1) obtain k where k: "a \<le> k" "k < b" "er_ID r = gl_IDWithPulse g k pn" by (auto simp: id_drawn_def)
  from assms(2) obtain ks where ks: "sorted_wrt (<) ks" "set ks \<subseteq> {b..<c}" "map er_ID rs = map (\<lambda>k. gl_IDWithPulse g k pn) ks"
    by (auto simp: drawn_in_order_def)
  have "sorted_wrt (<) (k # ks) \<and> set (k # ks) \<subseteq> {a..<c} \<and> map er_ID (r # rs) = map (\<lambda>k. gl_IDWithPulse g k pn) (k # ks)"
    using k ks assms(3) by fastforce
  then show ?thesis unfolding drawn_in_order_def by blast
qed

lemma drawn_replace_last:
  assumes "drawn_in_order g pn a (xs @ [x]) b" and "id_drawn g pn b d c"
  shows "drawn_in_order g pn a (xs @ [d]) c"
proof -
  from assms(2) obtain k where k: "b \<le> k" "k < c" "er_ID d = gl_IDWithPulse g k pn" by (auto simp: id_drawn_def)
  from assms(1) obtain ks where ks: "sorted_wrt (<) ks" "set ks \<subseteq> {a..<b}" "map er_ID (xs @ [x]) = map (\<lambda>k. gl_IDWithPulse g k pn) ks"
    by (auto simp: drawn_in_order_def)
  from ks(3) obtain js j where js: "ks = js @ [j]" "map er_ID xs = map (\<lambda>k. gl_IDWithPulse g k pn) js"
    by (cases ks rule: rev_cases) simp_all
  from ks(2) js(1) have "a \<le> j" "j < b" "set js \<subseteq> {a..<b}" by auto
  with k ks js have "sorted_wrt (<) (js @ [k]) \<and> set (js @ [k]) \<subseteq> {a..<c} \<and> map er_ID (xs @ [d]) = map (\<lambda>k. gl_IDWithPulse g k pn) (js @ [k])"
    by (fastforce simp: sorted_wrt_append)
  then show ?thesis unfolding drawn_in_order_def by blast
qed

lemma line_in_Nil: "line_in g pn objectID jetID a [] b"
  by (simp add: line_in_def drawn_Nil)

lemma drawn_mono: "drawn_in_order g pn a rs b \<Longrightarrow> a' \<le> a \<Longrightarrow> b \<le> b' \<Longrightarrow> drawn_in_order g pn a' rs b'"
  unfolding drawn_in_order_def by (elim exE conjE, intro exI conjI) (assumption | force)+

lemma line_in_mono: "line_in g pn objectID jetID a rs b \<Longrightarrow> a' \<le> a \<Longrightarrow> b \<le> b' \<Longrightarrow> line_in g pn objectID jetID a' rs b'"
  by (auto simp: line_in_def intro: drawn_mono)

lemma line_in_Cons:
  assumes "id_drawn g pn a r b" and "in_line objectID jetID r" and "line_in g pn objectID jetID b rs c" and "rs \<noteq> [] \<Longrightarrow> prev_state (hd rs) = er_ID r"
    and "b \<le> c"
  shows "line_in g pn objectID jetID a (r # rs) c"
proof -
  have "chained next_state (r # rs)" using assms(3,4) by (cases rs) (auto simp: line_in_def)
  then show ?thesis using assms(2,3) drawn_Cons [OF assms(1) _ assms(5)] by (simp add: line_in_def)
qed

lemma line_in_replace_last:
  assumes "line_in g pn objectID jetID a (xs @ [x]) b" and "id_drawn g pn b d c" and "in_line objectID jetID d"
    and "xs \<noteq> [] \<Longrightarrow> prev_state d = er_ID (last xs)"
  shows "line_in g pn objectID jetID a (xs @ [d]) c"
  using assms drawn_replace_last [of g pn a xs x b d c] by (auto simp: line_in_def chained_append_single)

lemma gspec_amends:
  "gspec L g n (GenerateVirtualAmendRecordsLinkedArray L g pn jetID objectID prevStateID n) (\<lambda>a rs b. line_in g pn objectID jetID a rs b \<and>
     length rs = n \<and> (rs \<noteq> [] \<longrightarrow> prev_state (hd rs) = prevStateID))"
proof (induction n arbitrary: prevStateID)
  case 0
  then show ?case by (auto intro: gspec_ret line_in_Nil)
next
  case (Suc n)
  let ?Q = "\<lambda>r a rs b. \<exists>rs'. rs = r\<lparr>er_JetID := jetID\<rparr> # rs' \<and> line_in g pn objectID jetID a rs' b \<and> length rs' = n \<and> (rs' \<noteq> [] \<longrightarrow> prev_state (hd rs') = er_ID r)"
  have r: "gspec L g (n + 0) (gbind (GenerateVirtualAmendRecordsLinkedArray L g pn jetID objectID (er_ID r) n) (\<lambda>rs. ret (r\<lparr>er_JetID := jetID\<rparr> # rs))) (?Q r)" for r
    by (rule gspec_bind [OF Suc.IH, where R = "\<lambda>rs a ys b. b = a \<and> ys = r\<lparr>er_JetID := jetID\<rparr> # rs"]) (auto intro: gspec_ret)
  have "gspec L g (1 + n) (GenerateVirtualAmendRecordsLinkedArray L g pn jetID objectID prevStateID (Suc n)) (\<lambda>a rs b. line_in g pn objectID jetID a rs b \<and>
     length rs = Suc n \<and> (rs \<noteq> [] \<longrightarrow> prev_state (hd rs) = prevStateID))"
    unfolding GenerateVirtualAmendRecordsLinkedArray.simps
  proof (rule gspec_bind [OF gspec_amend, where R = ?Q], goal_cases)
    case 1
    then show ?case using r by simp
  next
    case (2 a x b y c)
    then obtain rs' where y: "y = x\<lparr>er_JetID := jetID\<rparr> # rs'" "line_in g pn objectID jetID b rs' c" "length rs' = n" "rs' \<noteq> [] \<longrightarrow> prev_state (hd rs') = er_ID x"
      by blast
    have "line_in g pn objectID jetID a y c" unfolding y(1)
      by (rule line_in_Cons [OF _ _ y(2)]) (use 2 y(4) in \<open>auto simp: record_for_def id_drawn_def in_line_def changes_state_def\<close>)
    moreover have "prev_state (hd y) = prevStateID" using 2(3) y(1) by (auto simp: record_for_def prev_state_def)
    ultimately show ?case using y(1,3) by simp
  qed
  then show ?case by simp
qed

text \<open>The records of one pulse: those of the first begin with the activation, those of another continue a state drawn before.\<close>

definition id_before :: "gen_lib \<Rightarrow> nat \<Rightarrow> bytes \<Rightarrow> bool" where
  "id_before g a i \<longleftrightarrow> (\<exists>k < a. \<exists>pn. i = gl_IDWithPulse g k pn)"

lemma id_before_mono: "id_before g a i \<Longrightarrow> a \<le> b \<Longrightarrow> id_before g b i"
  unfolding id_before_def by (elim exE conjE) (intro exI conjI, rule less_le_trans)

definition starts_line :: "nat \<Rightarrow> bytes \<Rightarrow> ex_Record list \<Rightarrow> bool" where
  "starts_line i prevState rs \<longleftrightarrow> rs \<noteq> [] \<and> (if i = 0 then is_activation (hd rs) else prev_state (hd rs) = prevState)"

lemma gspec_lifeline_amends:
  assumes "0 < n"
  shows "gspec L g (n + 2) (lifeline_amends L g n objectID jetID i pn prevState side) (\<lambda>a (records, amends, prevState', side') b.
    line_in g pn objectID jetID a records b \<and> length records = n \<and> starts_line i prevState records \<and>
    (if i = 0 then \<exists>act. records = act # amends \<and> prevState' = er_ID act else records = amends))"
proof (cases "i = 0")
  case True
  let ?amends = "\<lambda>activate. GenerateVirtualAmendRecordsLinkedArray L g pn jetID objectID (er_ID activate) (n - 1)"
  let ?R = "\<lambda>act a y b. \<exists>amends side'. y = (act\<lparr>er_JetID := jetID\<rparr> # amends, amends, er_ID act, side') \<and> line_in g pn objectID jetID a amends b \<and> length amends = n - 1 \<and>
    (amends \<noteq> [] \<longrightarrow> prev_state (hd amends) = er_ID act)"
  let ?Q = "\<lambda>a (records, amends, prevState', side') b. line_in g pn objectID jetID a records b \<and> length records = n \<and> starts_line 0 prevState records \<and>
    (\<exists>act. records = act # amends \<and> prevState' = er_ID act)"
  have r: "gspec L g ((n - 1) + 0) (gbind (?amends act) (\<lambda>amends. ret (act\<lparr>er_JetID := jetID\<rparr> # amends, amends, er_ID act, \<lparr>rp_Pn = pn, rp_Records = [request]\<rparr>))) (?R act)"
    for act request
    by (rule gspec_bind [OF gspec_amends, where R = "\<lambda>amends a y b. b = a \<and> y = (act\<lparr>er_JetID := jetID\<rparr> # amends, amends, er_ID act, \<lparr>rp_Pn = pn, rp_Records = [request]\<rparr>)"])
      (auto intro: gspec_ret)
  have "gspec L g (1 + (n - 1)) (gbind (GenerateVirtualActivateRecord L g pn objectID requestID) (\<lambda>activate.
      gbind (?amends activate) (\<lambda>amends. ret (activate\<lparr>er_JetID := jetID\<rparr> # amends, amends, er_ID activate, \<lparr>rp_Pn = pn, rp_Records = [request]\<rparr>)))) ?Q"
    for requestID request
  proof (rule gspec_bind [OF gspec_activate, where R = ?R], goal_cases)
    case (2 a act b y c)
    then obtain amends side' where y: "y = (act\<lparr>er_JetID := jetID\<rparr> # amends, amends, er_ID act, side')" "line_in g pn objectID jetID b amends c" "length amends = n - 1"
      "amends \<noteq> [] \<longrightarrow> prev_state (hd amends) = er_ID act" by blast
    have "line_in g pn objectID jetID a (act\<lparr>er_JetID := jetID\<rparr> # amends) c"
      by (rule line_in_Cons [OF _ _ y(2)]) (use 2 y(4) in \<open>auto simp: record_for_def id_drawn_def in_line_def changes_state_def is_activation_def\<close>)
    moreover have "is_activation (act\<lparr>er_JetID := jetID\<rparr>)" using 2(3) by (auto simp: record_for_def is_activation_def)
    ultimately show ?case using y(1,3) assms by (auto simp: starts_line_def)
  qed (use r in simp)
  note act = this
  have "gspec L g (1 + (1 + (n - 1))) (gbind (GenerateRequestRecord L g pn objectID) (\<lambda>request.
      gbind (GenerateVirtualActivateRecord L g pn objectID (er_ID request)) (\<lambda>activate.
      gbind (?amends activate) (\<lambda>amends. ret (activate\<lparr>er_JetID := jetID\<rparr> # amends, amends, er_ID activate, \<lparr>rp_Pn = pn, rp_Records = [request]\<rparr>))))) ?Q"
    by (rule gspec_bind [OF gspec_request act]) (auto elim: line_in_mono)
  moreover have "lifeline_amends L g n objectID jetID 0 pn prevState side = gbind (GenerateRequestRecord L g pn objectID) (\<lambda>request.
      gbind (GenerateVirtualActivateRecord L g pn objectID (er_ID request)) (\<lambda>activate.
      gbind (?amends activate) (\<lambda>amends. ret (activate\<lparr>er_JetID := jetID\<rparr> # amends, amends, er_ID activate, \<lparr>rp_Pn = pn, rp_Records = [request]\<rparr>))))"
    using assms by (simp add: lifeline_amends_def)
  ultimately have "gspec L g (1 + (1 + (n - 1))) (lifeline_amends L g n objectID jetID 0 pn prevState side) ?Q" by (simp only:)
  then show ?thesis unfolding True by (rule gspec_weaken) auto
next
  case False
  have "gspec L g (n + 0) (gbind (GenerateVirtualAmendRecordsLinkedArray L g pn jetID objectID prevState n) (\<lambda>amends. ret (amends, amends, prevState, side)))
     (\<lambda>a (records, amends, prevState', side') b. line_in g pn objectID jetID a records b \<and> length records = n \<and> starts_line i prevState records \<and> records = amends)"
    by (rule gspec_bind [OF gspec_amends, where R = "\<lambda>amends a y b. b = a \<and> y = (amends, amends, prevState, side)"])
      (use assms False in \<open>auto intro: gspec_ret simp: starts_line_def\<close>)
  then show ?thesis using False by (auto simp: lifeline_amends_def elim: gspec_weaken)
qed

lemma gspec_close_line_open:
  assumes "\<not> (Suc i = pulseCount \<and> n > 1)" and "records \<noteq> []"
    and "if i = 0 then \<exists>act. records = act # amends \<and> prevState = er_ID act else records = amends"
  shows "gspec L g 1 (close_line L g pulseCount n objectID jetID i pn (records, amends, prevState, side))
    (\<lambda>b z c. c = b \<and> z = (records, er_ID (last records), side))"
proof -
  have "(if amends \<noteq> [] then er_ID (last amends) else prevState) = er_ID (last records)"
    using assms(2,3) by (auto split: if_splits)
  then have "gspec L g 0 (close_line L g pulseCount n objectID jetID i pn (records, amends, prevState, side))
      (\<lambda>b z c. c = b \<and> z = (records, er_ID (last records), side))"
    unfolding close_line_def prod.case Let_def if_not_P [OF assms(1)] by (simp add: gspec_ret)
  then show ?thesis by (rule gspec_weaken) simp_all
qed

lemma gspec_close_line_last:
  assumes "Suc i = pulseCount \<and> n > 1" and "length records = n" and "\<not> (i = 0 \<and> n = 2)"
    and "if i = 0 then \<exists>act. records = act # amends \<and> prevState = er_ID act else records = amends"
  shows "gspec L g 1 (close_line L g pulseCount n objectID jetID i pn (records, amends, prevState, side))
    (\<lambda>b z c. \<exists>d p. z = (butlast records @ [d], p, side) \<and> id_drawn g pn b d c \<and> in_line objectID jetID d \<and> prev_state d = er_ID (last (butlast records)))"
proof -
  have am: "\<not> length amends < 2" using assms by (auto split: if_splits dest: less_2_cases)
  have "records \<noteq> []" "butlast records \<noteq> []" using assms(1,2) by (auto simp: butlast_conv_take)
  have "amends ! (length amends - 2) = records ! (length records - 2)"
    using assms(4) am by (auto split: if_splits simp: nth_Cons' numeral_2_eq_2)
  also have "\<dots> = last (butlast records)"
  proof -
    have "length records - 2 < length (butlast records)" using assms(1,2) by auto
    then show ?thesis using \<open>butlast records \<noteq> []\<close> by (simp add: last_conv_nth nth_butlast numeral_2_eq_2)
  qed
  finally have p: "amends ! (length amends - 2) = last (butlast records)" .
  have u: "records[length records - 1 := d] = butlast records @ [d]" for d
    using \<open>records \<noteq> []\<close> by (metis One_nat_def append_butlast_last_id length_butlast list_update_length)
  have "gspec L g (1 + 0) (gbind (GenerateVirtualDeactivateRecord L g pn objectID (er_ID (last (butlast records)))) (\<lambda>deactivate.
      ret (butlast records @ [deactivate\<lparr>er_JetID := jetID\<rparr>], er_ID (last (butlast records)), side)))
    (\<lambda>b z c. \<exists>d p. z = (butlast records @ [d], p, side) \<and> id_drawn g pn b d c \<and> in_line objectID jetID d \<and> prev_state d = er_ID (last (butlast records)))"
    by (rule gspec_bind [OF gspec_deactivate, where R = "\<lambda>r b z c. c = b \<and> z = (butlast records @ [r\<lparr>er_JetID := jetID\<rparr>], er_ID (last (butlast records)), side)"])
      (auto intro: gspec_ret simp: record_for_def id_drawn_def in_line_def changes_state_def prev_state_def)
  moreover have "close_line L g pulseCount n objectID jetID i pn (records, amends, prevState, side) =
      gbind (GenerateVirtualDeactivateRecord L g pn objectID (er_ID (last (butlast records)))) (\<lambda>deactivate.
      ret (butlast records @ [deactivate\<lparr>er_JetID := jetID\<rparr>], er_ID (last (butlast records)), side))"
    unfolding close_line_def prod.case Let_def if_P [OF assms(1)] if_not_P [OF am] p u ..
  ultimately show ?thesis by simp
qed

lemma gspec_lifeline_pulse:
  assumes "0 < n" and "\<not> (pulseCount = 1 \<and> n = 2)"
  shows "gspec L g (n + 4) (lifeline_pulse L g pulseCount n objectID i pn prevState side) (\<lambda>a (records, prevState', side') b.
    \<exists>jetID. line_in g pn objectID jetID a records b \<and> length records = n \<and> starts_line i prevState records \<and>
      (Suc i \<noteq> pulseCount \<longrightarrow> prevState' = er_ID (last records)))"
proof -
  let ?Q = "\<lambda>jetID a (records, prevState', side') b. line_in g pn objectID jetID a records b \<and> length records = n \<and> starts_line i prevState records \<and>
      (Suc i \<noteq> pulseCount \<longrightarrow> prevState' = er_ID (last records))"
  let ?R = "\<lambda>jetID (records, amends, p, side') b z c. if Suc i = pulseCount \<and> n > 1
    then \<exists>d p. z = (butlast records @ [d], p, side') \<and> id_drawn g pn b d c \<and> in_line objectID jetID d \<and> prev_state d = er_ID (last (butlast records))
    else c = b \<and> z = (records, er_ID (last records), side')"
  have "gspec L g ((n + 2) + 1) (gbind (lifeline_amends L g n objectID jetID i pn prevState side) (close_line L g pulseCount n objectID jetID i pn)) (?Q jetID)" for jetID
  proof (rule gspec_bind [OF gspec_lifeline_amends [OF assms(1)], where R = "?R jetID"], goal_cases)
    case (1 y a b)
    obtain records amends p side' where y: "y = (records, amends, p, side')" by (metis prod_cases4)
    with 1 have "length records = n" "records \<noteq> []" and sh: "if i = 0 then \<exists>act. records = act # amends \<and> p = er_ID act else records = amends"
      using assms(1) by auto
    show ?case unfolding y prod.case
    proof (cases "Suc i = pulseCount \<and> n > 1")
      case True
      then have "\<not> (i = 0 \<and> n = 2)" using assms(2) by auto
      from gspec_close_line_last [OF True \<open>length records = n\<close> this sh] True show "gspec L g 1 (close_line L g pulseCount n objectID jetID i pn (records, amends, p, side'))
        (\<lambda>b z c. if Suc i = pulseCount \<and> n > 1
          then \<exists>d p. z = (butlast records @ [d], p, side') \<and> id_drawn g pn b d c \<and> in_line objectID jetID d \<and> prev_state d = er_ID (last (butlast records))
          else c = b \<and> z = (records, er_ID (last records), side'))" by simp
    next
      case False
      from gspec_close_line_open [OF False \<open>records \<noteq> []\<close> sh] False show "gspec L g 1 (close_line L g pulseCount n objectID jetID i pn (records, amends, p, side'))
        (\<lambda>b z c. if Suc i = pulseCount \<and> n > 1
          then \<exists>d p. z = (butlast records @ [d], p, side') \<and> id_drawn g pn b d c \<and> in_line objectID jetID d \<and> prev_state d = er_ID (last (butlast records))
          else c = b \<and> z = (records, er_ID (last records), side'))" by (simp only: if_False)
    qed
  next
    case (2 a y b z c)
    obtain records amends p side' where y: "y = (records, amends, p, side')" by (metis prod_cases4)
    from 2(3) have li: "line_in g pn objectID jetID a records b" "length records = n" "starts_line i prevState records" unfolding y by simp_all
    show ?case
    proof (cases "Suc i = pulseCount \<and> n > 1")
      case True
      with 2(4) y obtain d q where z: "z = (butlast records @ [d], q, side')" "id_drawn g pn b d c" "in_line objectID jetID d" "prev_state d = er_ID (last (butlast records))"
        by auto
      have ne: "records \<noteq> []" "butlast records \<noteq> []" using True li(2) by (auto simp: butlast_conv_take)
      have "line_in g pn objectID jetID a (butlast records @ [d]) c"
        by (rule line_in_replace_last [where x = "last records", OF _ z(2,3,4)]) (use li(1) ne in simp)
      moreover have "starts_line i prevState (butlast records @ [d])" using li(3) ne by (cases records) (auto simp: starts_line_def split: if_splits)
      ultimately show ?thesis using z(1) li(2) True ne by (simp add: length_butlast)
    next
      case False
      with 2(4) y have "c = b" "z = (records, er_ID (last records), side')" by (simp_all split: if_splits)
      with li show ?thesis by simp
    qed
  qed
  note body = this
  have "gspec L g (1 + ((n + 2) + 1)) (gbind (GenerateUniqueJetID L g) (\<lambda>jetID. gbind (lifeline_amends L g n objectID jetID i pn prevState side)
      (close_line L g pulseCount n objectID jetID i pn))) (\<lambda>a (records, prevState', side') b. \<exists>jetID. ?Q jetID a (records, prevState', side') b)"
    by (rule gspec_bind [OF gspec_jet body]) auto
  then have "gspec L g (1 + ((n + 2) + 1)) (lifeline_pulse L g pulseCount n objectID i pn prevState side) (\<lambda>a (records, prevState', side') b. \<exists>jetID. ?Q jetID a (records, prevState', side') b)"
    unfolding lifeline_pulse_def .
  then show ?thesis by (rule gspec_weaken) auto
qed

lemma chained_append:
  "chained R xs \<Longrightarrow> chained R ys \<Longrightarrow> (xs \<noteq> [] \<Longrightarrow> ys \<noteq> [] \<Longrightarrow> R (last xs) (hd ys)) \<Longrightarrow> chained R (xs @ ys)"
proof (induction R xs rule: chained.induct)
  case (2 R x)
  then show ?case by (cases ys) auto
qed auto

definition pulse_line :: "gen_lib \<Rightarrow> bytes \<Rightarrow> nat \<Rightarrow> RecordsByPulse \<Rightarrow> bool" where
  "pulse_line g objectID n p \<longleftrightarrow> (\<exists>jetID a b. line_in g (rp_Pn p) objectID jetID a (rp_Records p) b \<and> length (rp_Records p) = n \<and>
     (is_activation (hd (rp_Records p)) \<or> id_before g a (prev_state (hd (rp_Records p)))))"

lemma line_in_last_before: "line_in g pn objectID jetID a rs b \<Longrightarrow> rs \<noteq> [] \<Longrightarrow> id_before g b (er_ID (last rs))"
proof -
  assume "line_in g pn objectID jetID a rs b" "rs \<noteq> []"
  then obtain ks where "set ks \<subseteq> {a..<b}" "map er_ID rs = map (\<lambda>k. gl_IDWithPulse g k pn) ks" "ks \<noteq> []"
    unfolding line_in_def drawn_in_order_def by (metis map_is_Nil_conv)
  then have "er_ID (last rs) = gl_IDWithPulse g (last ks) pn" "last ks < b"
    using last_in_set [of ks] by (metis \<open>rs \<noteq> []\<close> last_map, fastforce)
  then show ?thesis by (auto simp: id_before_def)
qed

lemma gspec_lifeline_loop:
  assumes "0 < n" and "\<not> (pulseCount = 1 \<and> n = 2)"
  shows "i + m = pulseCount \<Longrightarrow> gspec L g (m * (n + 4)) (lifeline_loop L g pulseCount n objectID m i pn prevState side) (\<lambda>a (sts, side') b.
    length sts = m \<and> (i = 0 \<or> id_before g a prevState \<longrightarrow> (\<forall>j < m. rp_Pn (sts ! j) = pn + of_nat (10 * (j + 1)) \<and> pulse_line g objectID n (sts ! j)) \<and>
      chained next_state (concat (map rp_Records sts)) \<and> (m > 0 \<longrightarrow> starts_line i prevState (rp_Records (hd sts)))))"
proof (induction m arbitrary: i pn prevState side)
  case 0
  then show ?case by (auto intro: gspec_ret)
next
  case (Suc m)
  let ?Q = "\<lambda>m i pn prevState a (sts, side' :: RecordsByPulse) b. length sts = m \<and> (i = 0 \<or> id_before g a prevState \<longrightarrow>
      (\<forall>j < m. rp_Pn (sts ! j) = pn + of_nat (10 * (j + 1)) \<and> pulse_line g objectID n (sts ! j)) \<and>
      chained next_state (concat (map rp_Records sts)) \<and> (m > 0 \<longrightarrow> starts_line i prevState (rp_Records (hd sts))))"
  let ?R = "\<lambda>(records, prev, side') b y c. \<exists>sts side''. y = (\<lparr>rp_Pn = pn + 10, rp_Records = records\<rparr> # sts, side'') \<and> ?Q m (Suc i) (pn + 10) prev b (sts, side'') c"
  have IH: "gspec L g (m * (n + 4)) (lifeline_loop L g pulseCount n objectID m (Suc i) (pn + 10) prev side') (?Q m (Suc i) (pn + 10) prev)" for prev side'
    using Suc.IH [of "Suc i" "pn + 10" prev side'] Suc.prems by simp
  have rest: "gspec L g (m * (n + 4) + 0) (gbind (lifeline_loop L g pulseCount n objectID m (Suc i) (pn + 10) prev side') (\<lambda>(sts, side).
      ret (\<lparr>rp_Pn = pn + 10, rp_Records = records\<rparr> # sts, side))) (?R (records, prev, side'))" for records prev side'
    by (rule gspec_bind [OF IH, where R = "\<lambda>(sts, side) b y c. c = b \<and> y = (\<lparr>rp_Pn = pn + 10, rp_Records = records\<rparr> # sts, side)"]) (auto intro: gspec_ret)
  have "gspec L g ((n + 4) + m * (n + 4)) (lifeline_loop L g pulseCount n objectID (Suc m) i pn prevState side) (?Q (Suc m) i pn prevState)"
    unfolding lifeline_loop.simps
  proof (rule gspec_bind [OF gspec_lifeline_pulse [OF assms], where R = ?R], goal_cases)
    case (1 x a b)
    then show ?case using rest by (cases x) simp
  next
    case (2 a x b y c)
    obtain records prev side' where x: "x = (records, prev, side')" by (metis prod_cases3)
    from 2(4) x obtain sts side'' where y: "y = (\<lparr>rp_Pn = pn + 10, rp_Records = records\<rparr> # sts, side'')" and tail: "?Q m (Suc i) (pn + 10) prev b (sts, side'') c" by auto
    from 2(3) x obtain jetID where li: "line_in g (pn + 10) objectID jetID a records b" "length records = n" "starts_line i prevState records"
      "Suc i \<noteq> pulseCount \<longrightarrow> prev = er_ID (last records)" by auto
    have ne: "records \<noteq> []" using li(2) assms(1) by auto
    have len: "length sts = m" using tail by simp
    show ?case unfolding y prod.case
    proof (intro impI conjI [of "_ = _"])
      show "length (\<lparr>rp_Pn = pn + 10, rp_Records = records\<rparr> # sts) = Suc m" using len by simp
      assume start: "i = 0 \<or> id_before g a prevState"
      have pl: "pulse_line g objectID n \<lparr>rp_Pn = pn + 10, rp_Records = records\<rparr>"
        using li start unfolding pulse_line_def starts_line_def by (intro exI [of _ jetID] exI [of _ a] exI [of _ b]) (auto split: if_splits)
      show "(\<forall>j < Suc m. rp_Pn ((\<lparr>rp_Pn = pn + 10, rp_Records = records\<rparr> # sts) ! j) = pn + of_nat (10 * (j + 1)) \<and> pulse_line g objectID n ((\<lparr>rp_Pn = pn + 10, rp_Records = records\<rparr> # sts) ! j)) \<and>
        chained next_state (concat (map rp_Records (\<lparr>rp_Pn = pn + 10, rp_Records = records\<rparr> # sts))) \<and>
        (Suc m > 0 \<longrightarrow> starts_line i prevState (rp_Records (hd (\<lparr>rp_Pn = pn + 10, rp_Records = records\<rparr> # sts))))"
      proof (cases "m = 0")
        case True
        then have "sts = []" using len by simp
        then show ?thesis using True pl li by (simp add: line_in_def)
      next
        case False
        then have "prev = er_ID (last records)" using li(4) Suc.prems by simp
        with line_in_last_before [OF li(1) ne] tail have t: "\<forall>j < m. rp_Pn (sts ! j) = pn + 10 + of_nat (10 * (j + 1)) \<and> pulse_line g objectID n (sts ! j)"
          "chained next_state (concat (map rp_Records sts))" "starts_line (Suc i) prev (rp_Records (hd sts))" using False by simp_all
        have "hd (concat (map rp_Records sts)) = hd (rp_Records (hd sts))" using len t(3) False by (cases sts) (auto simp: starts_line_def)
        then have "chained next_state (records @ concat (map rp_Records sts))"
          using t(2,3) li(1) \<open>prev = er_ID (last records)\<close> by (intro chained_append) (auto simp: line_in_def starts_line_def)
        then show ?thesis using t pl li(3) by (auto simp: nth_Cons algebra_simps split: nat.splits)
      qed
    qed
  qed
  then show ?case by simp
qed

definition canonical_of :: "ex_Record \<Rightarrow> types_Record \<Rightarrow> bool" where
  "canonical_of r c \<longleftrightarrow> tr_Type c = STATE \<and> tr_Ref c = er_ID r \<and> tr_ObjectReference c = er_ObjectID r \<and> tr_PrevRecordReference c = prev_state r"

lemma transfer_state:
  assumes "changes_state r" and "\<exists>b. Marshal L r = Inr b" and "IDPulse L (er_ID r) \<noteq> MinTimePulse L"
  shows "\<exists>c. transferToCanonicalRecord L r = Inr c \<and> canonical_of r c"
  using assms by (auto simp: changes_state_def is_activation_def transferToCanonicalRecord_def Let_def canonical_of_def prev_state_def)

lemma transfer_line:
  assumes "ids_ok L g" and "line_in g pn objectID jetID a rs b" and "pn \<noteq> MinTimePulse L"
  shows "\<exists>cs. map (transferToCanonicalRecord L) rs = map Inr cs \<and> list_all2 canonical_of rs cs"
proof -
  from assms(2) obtain ks where ks: "map er_ID rs = map (\<lambda>k. gl_IDWithPulse g k pn) ks" by (auto simp: line_in_def drawn_in_order_def)
  have "IDPulse L (er_ID r) = pn" if "r \<in> set rs" for r
  proof -
    have "er_ID r \<in> set (map er_ID rs)" using that by simp
    then show ?thesis using assms(1) unfolding ks by (auto simp: ids_ok_def)
  qed
  then have "\<forall>r \<in> set rs. \<exists>c. transferToCanonicalRecord L r = Inr c \<and> canonical_of r c"
    using assms by (auto simp: ids_ok_def line_in_def in_line_def intro!: transfer_state)
  then show ?thesis
  proof (induction rs)
    case (Cons r rs)
    then obtain c cs where "transferToCanonicalRecord L r = Inr c" "canonical_of r c" "map (transferToCanonicalRecord L) rs = map Inr cs" "list_all2 canonical_of rs cs"
      by auto
    then show ?case by (intro exI [of _ "c # cs"]) simp
  qed simp
qed

lemma canonical_of_refs: "list_all2 canonical_of rs cs \<Longrightarrow> map tr_Ref cs = map er_ID rs"
  by (induction rule: list_all2_induct) (simp_all add: canonical_of_def)

lemma canonical_objects:
  "list_all2 canonical_of rs cs \<Longrightarrow> (\<And>r. r \<in> set rs \<Longrightarrow> er_ObjectID r = obj) \<Longrightarrow> \<forall>c \<in> set cs. tr_Type c = STATE \<and> objkey L c = restoreInsolarID L obj"
  by (induction rule: list_all2_induct) (simp_all add: canonical_of_def)

lemma canonical_chained: "list_all2 canonical_of rs cs \<Longrightarrow> chained next_state rs \<Longrightarrow> chained (\<lambda>x y. tr_PrevRecordReference y = tr_Ref x) cs"
  by (auto simp: chained_nth list_all2_conv_all_nth canonical_of_def)

text \<open>The canonical records of a generated line are a lifeline for the transformer.\<close>

lemma line_is_lifeline:
  assumes ids: "ids_ok L g" and line: "line_in g pn objectID jetID a rs b" and ne: "rs \<noteq> []" and can: "list_all2 canonical_of rs cs"
    and start: "is_activation (hd rs) \<or> id_before g a (prev_state (hd rs))"
  shows "lifeline L cs"
proof -
  from line obtain ks where ks: "sorted_wrt (<) ks" "set ks \<subseteq> {a..<b}" "map er_ID rs = map (\<lambda>k. gl_IDWithPulse g k pn) ks"
    by (auto simp: line_in_def drawn_in_order_def)
  have key: "restoreInsolarID L (gl_IDWithPulse g k q) = IDString L (gl_IDWithPulse g k q)" for k q
    using ids by (simp add: restoreInsolarID_def ids_ok_def)
  have "map (refkey L) cs = map (restoreInsolarID L) (map tr_Ref cs)" by simp
  then have refs: "map (refkey L) cs = map (\<lambda>k. IDString L (gl_IDWithPulse g k pn)) ks" unfolding canonical_of_refs [OF can] ks(3) by (simp add: key)
  have "distinct ks" using ks(1) by (metis strict_sorted_iff)
  moreover have "inj_on (\<lambda>k. IDString L (gl_IDWithPulse g k pn)) (set ks)"
    using ids unfolding ids_ok_def inj_on_def by blast
  ultimately have d: "distinct (map (refkey L) cs)" unfolding refs by (simp add: distinct_map)
  have c: "chained (\<lambda>x y. prevkey L y = refkey L x) cs" using canonical_chained [OF can] line by (auto simp: line_in_def chained_nth)
  from can ne obtain r rs' e cs' where cons: "rs = r # rs'" "cs = e # cs'" "canonical_of r e" by (cases rs; cases cs) simp_all
  then have "cs \<noteq> []" "canonical_of (hd rs) (hd cs)" by simp_all
  then have hd: "prevkey L (hd cs) = restoreInsolarID L (prev_state (hd rs))" by (simp add: canonical_of_def)
  have "prevkey L (hd cs) \<notin> set (map (refkey L) cs)"
  proof (cases "is_activation (hd rs)")
    case True
    then have "prevkey L (hd cs) = IDString L []" unfolding hd by (auto simp: is_activation_def prev_state_def restoreInsolarID_def)
    moreover have "IDString L [] \<notin> (\<lambda>k. IDString L (gl_IDWithPulse g k pn)) ` A" for A using ids unfolding ids_ok_def by force
    ultimately show ?thesis unfolding refs set_map by simp
  next
    case False
    with start obtain k q where k: "k < a" "prev_state (hd rs) = gl_IDWithPulse g k q" by (auto simp: id_before_def)
    then have "prevkey L (hd cs) = IDString L (gl_IDWithPulse g k q)" unfolding hd by (simp add: key)
    moreover have "k \<notin> set ks" using k(1) ks(2) by auto
    then have "IDString L (gl_IDWithPulse g k q) \<notin> (\<lambda>k. IDString L (gl_IDWithPulse g k pn)) ` set ks" using ids unfolding ids_ok_def by blast
    ultimately show ?thesis unfolding refs set_map by simp
  qed
  then show ?thesis using d c \<open>cs \<noteq> []\<close> by (simp add: lifeline_def)
qed

lemma sort_one_object:
  assumes "range_ok ro" and "lifeline L cs" and "mset xs = mset cs" and "\<forall>c \<in> set cs. tr_Type c = STATE \<and> objkey L c = obj"
  shows "sortRecords L ro xs = Inr cs"
proof -
  have xs: "\<forall>c \<in> set xs. tr_Type c = STATE \<and> objkey L c = obj" using assms(3,4) by (metis mset_eq_setD)
  have ne: "xs \<noteq> []" using assms(2,3) by (auto simp: lifeline_def)
  have st: "state_records xs = xs" "filter (\<lambda>r. tr_Type r \<noteq> STATE) xs = []" "records_of L obj xs = xs"
    using xs by (simp_all add: state_records_def records_of_def)
  have k: "objkey L ` set (state_records xs) = {obj}" unfolding st(1) using xs ne by (cases xs) auto
  have "\<forall>ob \<in> objkey L ` set (state_records xs). lifeline L cs \<and> mset cs = mset (records_of L ob xs)" unfolding k using assms(2,3) st(3) by simp
  from sortRecords_succeeds [OF assms(1) this] obtain objs where o': "distinct objs" "set objs = {obj}" "sortRecords L ro xs = Inr (concat (map (\<lambda>_. cs) objs))"
    unfolding k st(2) append_Nil by (elim exE conjE)
  moreover have "length objs = 1" using distinct_card [OF o'(1)] o'(2) by simp
  then obtain x where "objs = [x]" by (metis length_0_conv length_Suc_conv One_nat_def)
  with o'(2) have "objs = [obj]" by simp
  ultimately show ?thesis by simp
qed



text \<open>Two records in a single pulse: there is only one amendment and the index of the last but one is negative.\<close>

lemma lifeline_two_panics:
  assumes "jets_left L g 7 s"
  shows "GenerateObjectLifeline L g 1 2 s = Some (Panic IndexOutOfRange)"
proof -
  let ?obj = "gl_ID g (rs_draws s)" and ?pn = "gl_PulseNumber g (Suc (rs_draws s)) + 10"
  let ?s = "s\<lparr>rs_draws := Suc (Suc (rs_draws s))\<rparr>" and ?side = "\<lparr>rp_Pn = 0, rp_Records = []\<rparr>"
  have "jets_left L g (1 + 4) ?s" using assms jets_left_mono by fastforce
  from gspecD [OF gspec_jet this] obtain jetID s1 where j: "GenerateUniqueJetID L g ?s = Some (Done (jetID, s1))" "jets_left L g 4 s1" by blast
  have "jets_left L g ((2 + 2) + 0) s1" using j(2) by simp
  from gspecD [OF gspec_lifeline_amends this, of ?obj jetID 0 ?pn "gl_zeroID g" ?side] obtain y s2 where
    y: "lifeline_amends L g 2 ?obj jetID 0 ?pn (gl_zeroID g) ?side s1 = Some (Done (y, s2))"
    "case y of (records, amends, p, side) \<Rightarrow> length records = 2 \<and> (\<exists>act. records = act # amends)" by (auto split: prod.splits)
  obtain records amends p side where "y = (records, amends, p, side)" by (metis prod_cases4)
  with y have "close_line L g 1 2 ?obj jetID 0 ?pn y s2 = Some (Panic IndexOutOfRange)" by (auto simp: close_line_def crash_def)
  with j(1) y(1) show ?thesis by (simp add: GenerateObjectLifeline_def gbind_def draw_def lifeline_pulse_def numeral_2_eq_2)
qed

end
