(* ===== verification/Heavymock.thy ===== *)
theory Heavymock
  imports Generators Extractor_Pulses
begin

text \<open>\<open>test/heavymock\<close> and \<open>testutils/clients/pulse_client.go\<close>: the platform the integration tests run the explorer against.  Records are imported
  into a server and kept with a mark whether they were sent; the pulse client answers with the lowest pulse that has records not
  yet sent; the export of a pulse sends its records and, to mark the end, one of the next pulse.\<close>

section \<open>The importer\<close>

record savedRecord =
  sv_record :: ex_Record
  sv_isSent :: bool

record ImporterServer =
  im_records :: "savedRecord list"

definition NewHeavymockImporter :: ImporterServer where
  "NewHeavymockImporter = \<lparr>im_records = []\<rparr>"

definition collectRecords :: "ex_Record list \<Rightarrow> ImporterServer \<Rightarrow> ImporterServer" where
  "collectRecords records s = s\<lparr>im_records := im_records s @ map (\<lambda>r. \<lparr>sv_record = r, sv_isSent = False\<rparr>) records\<rparr>"

fun import_loop :: "recv list \<Rightarrow> ex_Record list \<Rightarrow> error + ex_Record list" where
  "import_loop [] received = Inr received"
| "import_loop (RecvEOF # rest) received = Inr received"
| "import_loop (RecvErr err # rest) received = Inl err"
| "import_loop (RecvRecord r # rest) received = import_loop rest (received @ [r])"

text \<open>\<open>close\<close> is what \<open>stream.SendAndClose\<close> returns.\<close>

definition Import :: "error option \<Rightarrow> recv list \<Rightarrow> ImporterServer \<Rightarrow> error option \<times> ImporterServer" where
  "Import close stream s = (case import_loop stream [] of
     Inl err \<Rightarrow> (Some err, s) | Inr received \<Rightarrow> (close, collectRecords received s))"

definition GetUnsentRecords :: "ImporterServer \<Rightarrow> ex_Record list" where
  "GetUnsentRecords s = map sv_record (filter (\<lambda>r. \<not> sv_isSent r) (im_records s))"

fun mark_first :: "ex_Record \<Rightarrow> savedRecord list \<Rightarrow> savedRecord list" where
  "mark_first r [] = []"
| "mark_first r (s # ss) = (if r = sv_record s \<and> \<not> sv_isSent s then s\<lparr>sv_isSent := True\<rparr> # ss else s # mark_first r ss)"

definition MarkAsSent :: "ex_Record list \<Rightarrow> ImporterServer \<Rightarrow> ImporterServer" where
  "MarkAsSent records s = s\<lparr>im_records := foldl (\<lambda>ss r. mark_first r ss) (im_records s) records\<rparr>"

text \<open>The loop of \<open>GetLowestUnsentPulse\<close> keeps the lowest pulse so far and, for each pulse that was the lowest at some time, its jets.\<close>

type_synonym jets_map = "(32 word, (bytes, JetDropContinue) gomap) gomap"

fun lowest_loop :: "insolar_lib \<Rightarrow> gen_lib \<Rightarrow> ex_Record list \<Rightarrow> 32 word \<Rightarrow> jets_map \<Rightarrow> (32 word \<times> jets_map) gen" where
  "lowest_loop L g [] pulse jets = ret (pulse, jets)"
| "lowest_loop L g (r # rs) pulse jets =
     (if IDPulse L (er_ID r) > pulse then lowest_loop L g rs pulse jets
      else let pulse = IDPulse L (er_ID r) in gbind (GenerateRandBytes g) (\<lambda>h.
        lowest_loop L g rs pulse (map_put pulse (map_put (er_JetID r) \<lparr>jc_JetID = er_JetID r, jc_Hash = h, jc_PrevDropHashes = []\<rparr> (map_get pulse jets)) jets)))"

definition GetLowestUnsentPulse :: "insolar_lib \<Rightarrow> gen_lib \<Rightarrow> bytes range_order \<Rightarrow> ImporterServer \<Rightarrow> (32 word \<times> JetDropContinue list) gen" where
  "GetLowestUnsentPulse L g ro s = gbind (lowest_loop L g (GetUnsentRecords s) (2 ^ 32 - 1) []) (\<lambda>(pulse, jets).
     ret (pulse, map (\<lambda>k. the (map_of (map_get pulse jets) k)) (ro 0 (map_keys (map_get pulse jets)))))"

section \<open>The exporter\<close>

text \<open>\<open>send i\<close> is what the i-th \<open>stream.Send\<close> returns.\<close>

fun send_loop :: "(nat \<Rightarrow> error option) \<Rightarrow> nat \<Rightarrow> ex_Record list \<Rightarrow> ex_Record list \<times> error option" where
  "send_loop send i [] = ([], None)"
| "send_loop send i (r # rs) = (case send i of Some err \<Rightarrow> ([], Some err)
     | None \<Rightarrow> (case send_loop send (Suc i) rs of (sent, err) \<Rightarrow> (r # sent, err)))"

definition mock_Export :: "insolar_lib \<Rightarrow> gen_lib \<Rightarrow> (nat \<Rightarrow> error option) \<Rightarrow> GetRecords \<Rightarrow> ImporterServer
    \<Rightarrow> (ex_Record list \<times> error option \<times> ImporterServer) gen" where
  "mock_Export L g send request s =
     (let records = filter (\<lambda>r. IDPulse L (er_ID r) = gr_PulseNumber request) (GetUnsentRecords s); s = MarkAsSent records s in
      gbind (GenerateRecordInNextPulse L g (gr_PulseNumber request)) (\<lambda>marker.
        case send_loop send 0 (records @ [marker]) of (sent, err) \<Rightarrow> ret (sent, err, s)))"

text \<open>The stream as its client sees it.\<close>

definition client_stream :: "ex_Record list \<Rightarrow> error option \<Rightarrow> recv list" where
  "client_stream sent err = map RecvRecord sent @ (case err of None \<Rightarrow> [RecvEOF] | Some e \<Rightarrow> [RecvErr e])"

section \<open>Clients\<close>

text \<open>\<open>approx\<close> is \<open>PulseNumber.AsApproximateTime\<close> in nanoseconds.\<close>

definition GetFullPulse :: "(32 word \<Rightarrow> error + 64 word) \<Rightarrow> 32 word \<Rightarrow> JetDropContinue list \<Rightarrow> error + FullPulse" where
  "GetFullPulse approx pn jetDropContinue = (case approx pn of Inl err \<Rightarrow> Inl err | Inr nanos \<Rightarrow>
     Inr \<lparr>fp_PulseNumber = pn, fp_PulseTimestamp = nanos, fp_NextPulseNumber = pn + 10, fp_PrevPulseNumber = pn - 10, fp_Jets = jetDropContinue\<rparr>)"

text \<open>The function that \<open>SetNextFinalizedPulseFunc\<close> installs.\<close>

definition mock_NextFinalizedPulse :: "insolar_lib \<Rightarrow> gen_lib \<Rightarrow> bytes range_order \<Rightarrow> (32 word \<Rightarrow> error + 64 word) \<Rightarrow> ImporterServer \<Rightarrow> (error + FullPulse) gen" where
  "mock_NextFinalizedPulse L g ro approx s = gbind (GetLowestUnsentPulse L g ro s) (\<lambda>(pulse, jetDropContinue).
     ret (if pulse = 2 ^ 32 - 1 then Inl (Err ''unready yet'') else GetFullPulse approx pulse jetDropContinue))"

text \<open>\<open>ImportRecords\<close>: what each \<open>Send\<close> of the stream returns, then the reply; a record may be a nil pointer.\<close>

datatype send_result = SendOk | SendEOF | SendErr error

fun import_sends :: "(nat \<Rightarrow> send_result) \<Rightarrow> nat \<Rightarrow> ex_Record option list \<Rightarrow> error option" where
  "import_sends send i [] = None"
| "import_sends send i (None # rs) = Some (Err ''unable to send nil record'')"
| "import_sends send i (Some r # rs) = (case send i of SendOk \<Rightarrow> import_sends send (Suc i) rs | SendEOF \<Rightarrow> None
     | SendErr err \<Rightarrow> Some (Wrap err ''Error sending to stream''))"

definition ImportRecords :: "error option \<Rightarrow> (nat \<Rightarrow> send_result) \<Rightarrow> bool option \<times> error option \<Rightarrow> ex_Record option list \<Rightarrow> error option" where
  "ImportRecords opened send reply records = (case opened of Some err \<Rightarrow> Some err | None \<Rightarrow>
     (case import_sends send 0 records of Some err \<Rightarrow> Some err | None \<Rightarrow>
       (case reply of (r, err) \<Rightarrow> if r = Some True then None else map_option (\<lambda>e. Wrap e ''Error in Importer reply'') err)))"

fun receive_loop :: "recv list \<Rightarrow> ex_Record list \<Rightarrow> error + ex_Record list" where
  "receive_loop [] records = Inr records"
| "receive_loop (RecvEOF # rest) records = Inr records"
| "receive_loop (RecvErr err # rest) records = Inl (Wrap err ''Unexpected error'')"
| "receive_loop (RecvRecord r # rest) records = receive_loop rest (records @ [r])"

definition ReceiveRecords :: "error + recv list \<Rightarrow> error + ex_Record list" where
  "ReceiveRecords stream = (case stream of Inl err \<Rightarrow> Inl (Wrap err ''Error when sending client request'') | Inr stream \<Rightarrow> receive_loop stream [])"

section \<open>Records of the tests\<close>

definition SimpleRecord :: "gen_lib \<Rightarrow> ex_Record" where
  "SimpleRecord g = \<lparr>er_RecordNumber = 100, er_ID = gl_NewID g 65537, er_ObjectID = gl_zeroID g, er_JetID = gl_zeroID g, er_Virtual = Virtual_Other,
     er_ShouldIterateFrom = None, er_Rest = gl_rest g 0 0 1\<rparr>"

definition GetRecordsByPulse :: "gen_lib \<Rightarrow> 32 word \<Rightarrow> nat \<Rightarrow> ex_Record list gen" where
  "GetRecordsByPulse g pulse n = gen_map (\<lambda>i. gbind (draw (\<lambda>k. gl_IDWithPulse g k pulse)) (\<lambda>idn.
     ret \<lparr>er_RecordNumber = of_nat i, er_ID = idn, er_ObjectID = gl_zeroID g, er_JetID = gl_zeroID g, er_Virtual = Virtual_Other,
       er_ShouldIterateFrom = Some pulse, er_Rest = gl_rest g 0 0 1\<rparr>)) [0..<n]"

text \<open>The client for unit tests answers every question with the same pulse.\<close>

record TestPulseClient =
  tc_topSyncPulse :: "32 word \<times> error option"
  tc_NextFinalizedPulse :: "int \<Rightarrow> error + FullPulse"

definition GetTestPulseClient :: "(32 word \<Rightarrow> error + 64 word) \<Rightarrow> 32 word \<Rightarrow> error option \<Rightarrow> TestPulseClient" where
  "GetTestPulseClient approx pn err = \<lparr>tc_topSyncPulse = (pn, err), tc_NextFinalizedPulse = \<lambda>_. GetFullPulse approx pn []\<rparr>"

section \<open>What is sent\<close>

lemma unsent_mark_first: "map sv_record (filter (\<lambda>r. \<not> sv_isSent r) (mark_first r ss)) = remove1 r (map sv_record (filter (\<lambda>r. \<not> sv_isSent r) ss))"
  by (induction ss) auto

lemma unsent_MarkAsSent: "GetUnsentRecords (MarkAsSent rs s) = foldl (\<lambda>xs r. remove1 r xs) (GetUnsentRecords s) rs"
proof -
  have "map sv_record (filter (\<lambda>r. \<not> sv_isSent r) (foldl (\<lambda>ss r. mark_first r ss) ss rs)) =
      foldl (\<lambda>xs r. remove1 r xs) (map sv_record (filter (\<lambda>r. \<not> sv_isSent r) ss)) rs" for ss
    by (induction rs arbitrary: ss) (simp_all add: unsent_mark_first)
  then show ?thesis by (simp add: GetUnsentRecords_def MarkAsSent_def)
qed

lemma remove_others: "x \<notin> set ys \<Longrightarrow> foldl (\<lambda>xs r. remove1 r xs) (x # xs) ys = x # foldl (\<lambda>xs r. remove1 r xs) xs ys"
  by (induction ys arbitrary: xs) auto

lemma remove_filtered: "foldl (\<lambda>xs r. remove1 r xs) xs (filter P xs) = filter (\<lambda>x. \<not> P x) xs"
  by (induction xs) (simp_all add: remove_others)

lemma unsent_after_export: "GetUnsentRecords (MarkAsSent (filter P (GetUnsentRecords s)) s) = filter (\<lambda>r. \<not> P r) (GetUnsentRecords s)"
  by (simp add: unsent_MarkAsSent remove_filtered)

lemma unsent_import:
  "fst (Import close (map RecvRecord rs @ [RecvEOF]) s) = close \<and>
   GetUnsentRecords (snd (Import close (map RecvRecord rs @ [RecvEOF]) s)) = GetUnsentRecords s @ rs"
proof -
  have "import_loop (map RecvRecord rs @ [RecvEOF]) acc = Inr (acc @ rs)" for acc by (induction rs arbitrary: acc) simp_all
  then show ?thesis by (simp add: Import_def collectRecords_def GetUnsentRecords_def comp_def)
qed

lemma import_broken: "Import close (map RecvRecord rs @ RecvErr err # rest) s = (Some err, s)"
proof -
  have "import_loop (map RecvRecord rs @ RecvErr err # rest) acc = Inl err" for acc by (induction rs arbitrary: acc) simp_all
  then show ?thesis by (simp add: Import_def)
qed

lemma send_loop_ok: "(\<And>i. send i = None) \<Longrightarrow> send_loop send i rs = (rs, None)"
  by (induction rs arbitrary: i) simp_all

lemma send_loop_broken: "(\<And>i. i < n \<Longrightarrow> send i = None) \<Longrightarrow> send n = Some err \<Longrightarrow> j \<le> n \<Longrightarrow> n < j + length rs \<Longrightarrow> send_loop send j rs = (take (n - j) rs, Some err)"
proof (induction rs arbitrary: j)
  case (Cons r rs)
  show ?case
  proof (cases "j = n")
    case False
    then have "send j = None" "n - j = Suc (n - Suc j)" using Cons.prems by auto
    then show ?thesis using Cons False by simp
  qed (use Cons.prems in simp)
qed simp

lemma gspec_export:
  assumes "records = filter (\<lambda>r. IDPulse L (er_ID r) = gr_PulseNumber request) (GetUnsentRecords s)"
  shows "gspec L g 1 (mock_Export L g send request s) (\<lambda>a (sent, err, s') b. s' = MarkAsSent records s \<and> (\<exists>marker k. er_ID marker = gl_IDWithPulse g k (gr_PulseNumber request + 10) \<and>
    send_loop send 0 (records @ [marker]) = (sent, err)))"
proof -
  have "gspec L g (1 + 0) (gbind (GenerateRecordInNextPulse L g (gr_PulseNumber request)) (\<lambda>marker.
      case send_loop send 0 (records @ [marker]) of (sent, err) \<Rightarrow> ret (sent, err, MarkAsSent records s)))
    (\<lambda>a (sent, err, s') b. s' = MarkAsSent records s \<and> (\<exists>marker k. er_ID marker = gl_IDWithPulse g k (gr_PulseNumber request + 10) \<and> send_loop send 0 (records @ [marker]) = (sent, err)))"
    by (rule gspec_bind [OF gspec_next_pulse, where R = "\<lambda>marker a y b. y = (fst (send_loop send 0 (records @ [marker])), snd (send_loop send 0 (records @ [marker])), MarkAsSent records s)"])
      (auto simp: id_drawn_def intro: gspec_ret split: prod.splits)
  then show ?thesis unfolding mock_Export_def assms Let_def by simp
qed

text \<open>The stream of a pulse that is sent without failure makes the extractor hand over the pulse with its records.\<close>

lemma retrieve_stream:
  assumes "ids_ok L g" and "\<forall>r \<in> set records. belongs L (fp_PulseNumber pu) r" and "er_ID marker = gl_IDWithPulse g k (fp_PulseNumber pu + 10)"
    and "export 0 \<lparr>gr_PulseNumber = fp_PulseNumber pu, gr_RecordNumber = 0, gr_Count = batch\<rparr> = Inr (client_stream (records @ [marker]) None)"
  shows "\<exists>itf. retrieveRecords L X export (\<lambda>_ _. False) batch pu False (Suc fuel) = Some (Emitted \<lparr>pp_Pulse = Some pu, pp_Records = records\<rparr> (Some itf))"
proof -
  have "IDPulse L (er_ID marker) = fp_PulseNumber pu + 10" using assms(1,3) by (simp add: ids_ok_def)
  then have "IDPulse L (er_ID marker) \<noteq> fp_PulseNumber pu" by simp
  then have "\<exists>itf. recv_loop L X (\<lambda>i. False) (fp_PulseNumber pu) 0 (client_stream (records @ [marker]) None) [] = Whole records itf"
    using recv_loop_prefix [OF assms(2), of X "\<lambda>_. False" 0 "RecvRecord marker # [RecvEOF]" "[]"] by (auto simp: client_stream_def)
  then show ?thesis using assms(4) by (auto simp: retrieveRecords_def)
qed

text \<open>When the stream breaks, the records behind the break are lost: they are marked as sent before they are sent, and the next request of the
  extractor brings nothing but the end of the pulse.\<close>

lemma broken_stream_loses_records:
  assumes "ids_ok L g" and "\<forall>r \<in> set records. belongs L (fp_PulseNumber pu) r" and "retryable X err" and "er_ID marker = gl_IDWithPulse g k (fp_PulseNumber pu + 10)"
    and "export 0 \<lparr>gr_PulseNumber = fp_PulseNumber pu, gr_RecordNumber = 0, gr_Count = batch\<rparr> = Inr (client_stream (take n records) (Some err))"
    and "\<And>req. export 1 req = Inr (client_stream [marker] None)"
  shows "\<exists>itf. retrieveRecords L X export (\<lambda>_ _. False) batch pu False 2 = Some (Emitted \<lparr>pp_Pulse = Some pu, pp_Records = take n records\<rparr> (Some itf))"
proof -
  have b: "\<forall>r \<in> set (take n records). belongs L (fp_PulseNumber pu) r" using assms(2) by (meson in_set_takeD)
  have "IDPulse L (er_ID marker) = fp_PulseNumber pu + 10" using assms(1,4) by (simp add: ids_ok_def)
  then have m: "\<exists>itf. recv_loop L X (\<lambda>i. False) (fp_PulseNumber pu) 0 (client_stream [marker] None) (take n records) = Whole (take n records) itf"
    by (auto simp: client_stream_def)
  have "recv_loop L X (\<lambda>i. False) (fp_PulseNumber pu) 0 (client_stream (take n records) (Some err)) [] = More (take n records)"
    using recv_loop_prefix [OF b, of X "\<lambda>_. False" 0 "[RecvErr err]" "[]"] assms(3) by (auto simp: client_stream_def retryable_def)
  with m assms(5,6) show ?thesis by (auto simp: retrieveRecords_def numeral_2_eq_2)
qed

lemma second_export_is_empty:
  assumes "records = filter (\<lambda>r. IDPulse L (er_ID r) = gr_PulseNumber request) (GetUnsentRecords s)"
  shows "filter (\<lambda>r. IDPulse L (er_ID r) = gr_PulseNumber request) (GetUnsentRecords (MarkAsSent records s)) = []"
  unfolding assms unsent_after_export by (simp add: filter_empty_conv)

section \<open>The lowest pulse\<close>

lemma map_get_Nil [simp]: "map_get q [] = []"
  by (simp add: map_get_def)

definition jets_keyed :: "jets_map \<Rightarrow> bool" where
  "jets_keyed jets \<longleftrightarrow> (\<forall>q. gomap (map_get q jets) \<and> (\<forall>k v. map_of (map_get q jets) k = Some v \<longrightarrow> jc_JetID v = k))"

lemma map_get_put_jets: "map_get q (map_put p m jets) = (if q = p then m else map_get q jets)"
  by (simp add: map_get_def)

lemma jets_keyed_put: "jets_keyed jets \<Longrightarrow> jets_keyed (map_put p (map_put j \<lparr>jc_JetID = j, jc_Hash = h, jc_PrevDropHashes = []\<rparr> (map_get p jets)) jets)"
  by (auto simp: jets_keyed_def map_get_put_jets)

definition pulses_of_records :: "insolar_lib \<Rightarrow> ex_Record list \<Rightarrow> 32 word set" where
  "pulses_of_records L rs = (\<lambda>r. IDPulse L (er_ID r)) ` set rs"

definition jets_at :: "insolar_lib \<Rightarrow> 32 word \<Rightarrow> ex_Record list \<Rightarrow> bytes set" where
  "jets_at L p rs = er_JetID ` {r \<in> set rs. IDPulse L (er_ID r) = p}"

fun lowest_pulse :: "insolar_lib \<Rightarrow> ex_Record list \<Rightarrow> 32 word \<Rightarrow> 32 word" where
  "lowest_pulse L [] p = p"
| "lowest_pulse L (r # rs) p = lowest_pulse L rs (min p (IDPulse L (er_ID r)))"

lemma lowest_pulse_le: "lowest_pulse L rs p \<le> p"
proof (induction rs arbitrary: p)
  case (Cons r rs)
  have "lowest_pulse L rs (min p (IDPulse L (er_ID r))) \<le> min p (IDPulse L (er_ID r))" by (rule Cons.IH)
  then show ?case by simp
qed simp

definition lowest_ok :: "insolar_lib \<Rightarrow> ex_Record list \<Rightarrow> 32 word \<Rightarrow> jets_map \<Rightarrow> 32 word \<times> jets_map \<Rightarrow> bool" where
  "lowest_ok L rs pulse jets y \<longleftrightarrow> fst y = lowest_pulse L rs pulse \<and> jets_keyed (snd y) \<and>
     fst ` set (map_get (fst y) (snd y)) = jets_at L (fst y) rs \<union> (if fst y = pulse then fst ` set (map_get pulse jets) else {})"

lemma lowest_okD:
  assumes "lowest_ok L rs pulse jets y"
  shows "fst y = lowest_pulse L rs pulse" "jets_keyed (snd y)"
    "fst ` set (map_get (fst y) (snd y)) = jets_at L (fst y) rs \<union> (if fst y = pulse then fst ` set (map_get pulse jets) else {})"
  using assms unfolding lowest_ok_def by blast+

lemma lowest_ok_skip:
  assumes "lowest_ok L rs pulse jets y" and "IDPulse L (er_ID r) > pulse"
  shows "lowest_ok L (r # rs) pulse jets y"
proof -
  have "fst y \<le> pulse" using assms(1) lowest_pulse_le by (simp add: lowest_ok_def)
  then have "jets_at L (fst y) (r # rs) = jets_at L (fst y) rs" using assms(2) by (auto simp: jets_at_def)
  then have "fst ` set (map_get (fst y) (snd y)) = jets_at L (fst y) (r # rs) \<union> (if fst y = pulse then fst ` set (map_get pulse jets) else {})"
    using lowest_okD(3) [OF assms(1)] by (simp only:)
  moreover have "min pulse (IDPulse L (er_ID r)) = pulse" using assms(2) by simp
  then have "fst y = lowest_pulse L (r # rs) pulse" using lowest_okD(1) [OF assms(1)] by (simp only: lowest_pulse.simps)
  ultimately show ?thesis using lowest_okD(2) [OF assms(1)] unfolding lowest_ok_def by blast
qed

lemma lowest_ok_take:
  assumes y: "lowest_ok L rs q (map_put q (map_put (er_JetID r) v (map_get q jets)) jets) y" and q: "q = IDPulse L (er_ID r)" "q \<le> pulse"
    and new: "q < pulse \<Longrightarrow> map_get q jets = []"
  shows "lowest_ok L (r # rs) pulse jets y"
proof -
  have le: "fst y \<le> q" using y lowest_pulse_le by (simp add: lowest_ok_def)
  note ok = lowest_okD(1,2) [OF y] lowest_okD(3) [OF y, unfolded map_get_put_jets, simplified]
  have at: "jets_at L (fst y) (r # rs) = jets_at L (fst y) rs \<union> (if fst y = q then {er_JetID r} else {})" using q(1) by (auto simp: jets_at_def)
  have "fst ` set (map_get (fst y) (snd y)) = jets_at L (fst y) (r # rs) \<union> (if fst y = pulse then fst ` set (map_get pulse jets) else {})"
  proof (cases "q = pulse")
    case True
    then show ?thesis unfolding ok(3) at by (simp add: Un_commute)
  next
    case False
    then show ?thesis unfolding ok(3) at using new q(2) le by auto
  qed
  moreover have "min pulse (IDPulse L (er_ID r)) = q" using q by simp
  then have "fst y = lowest_pulse L (r # rs) pulse" using ok(1) by (simp only: lowest_pulse.simps)
  ultimately show ?thesis using ok(2) unfolding lowest_ok_def by blast
qed

lemma gspec_lowest_loop:
  "jets_keyed jets \<Longrightarrow> (\<And>q. q < pulse \<Longrightarrow> map_get q jets = []) \<Longrightarrow> gspec L g 0 (lowest_loop L g rs pulse jets) (\<lambda>a y b. lowest_ok L rs pulse jets y)"
proof (induction rs arbitrary: pulse jets)
  case Nil
  then have "lowest_ok L [] pulse jets (pulse, jets)" by (simp add: lowest_ok_def jets_at_def)
  then show ?case by (simp add: gspec_ret)
next
  case (Cons r rs)
  show ?case
  proof (cases "IDPulse L (er_ID r) > pulse")
    case True
    have "gspec L g 0 (lowest_loop L g rs pulse jets) (\<lambda>a y b. lowest_ok L (r # rs) pulse jets y)"
      by (rule gspec_weaken [OF Cons.IH [OF Cons.prems]]) (use True lowest_ok_skip in auto)
    then show ?thesis using True by simp
  next
    case False
    let ?q = "IDPulse L (er_ID r)"
    let ?jets = "\<lambda>h. map_put ?q (map_put (er_JetID r) \<lparr>jc_JetID = er_JetID r, jc_Hash = h, jc_PrevDropHashes = []\<rparr> (map_get ?q jets)) jets"
    have IH: "gspec L g 0 (lowest_loop L g rs ?q (?jets h)) (\<lambda>a y b. lowest_ok L rs ?q (?jets h) y)" for h
      by (rule Cons.IH) (use Cons.prems False jets_keyed_put in \<open>auto simp: map_get_put_jets\<close>)
    have take: "lowest_ok L (r # rs) pulse jets y" if "lowest_ok L rs ?q (?jets h) y" for h y
      by (rule lowest_ok_take [OF that refl]) (use False Cons.prems(2) in auto)
    have "gspec L g 0 (gbind (draw (gl_UUID g)) (\<lambda>h. lowest_loop L g rs ?q (?jets h))) (\<lambda>a y b. lowest_ok L (r # rs) pulse jets y)"
      by (rule gspec_draw_bind, rule gspec_weaken [OF IH]) (use take in blast)+
    then show ?thesis using False by (simp add: Let_def GenerateRandBytes_def)
  qed
qed

text \<open>\<open>GetLowestUnsentPulse\<close> answers with the lowest pulse of the records not yet sent and each of its jets once; with the highest
  number there is when all are sent.\<close>

lemma gspec_lowest:
  assumes "range_ok ro"
  shows "gspec L g 0 (GetLowestUnsentPulse L g ro s) (\<lambda>a y b. fst y = lowest_pulse L (GetUnsentRecords s) (2 ^ 32 - 1) \<and>
    distinct (map jc_JetID (snd y)) \<and> set (map jc_JetID (snd y)) = jets_at L (fst y) (GetUnsentRecords s))"
proof -
  let ?U = "GetUnsentRecords s" and ?top = "2 ^ 32 - 1 :: 32 word"
  have keyed: "jets_keyed []" by (simp add: jets_keyed_def map_get_def)
  have loop: "gspec L g 0 (lowest_loop L g ?U ?top []) (\<lambda>a y b. lowest_ok L ?U ?top [] y)"
    by (rule gspec_lowest_loop [OF keyed]) (simp add: map_get_def)
  have jets: "map jc_JetID (map (\<lambda>k. the (map_of (map_get p js) k)) (ro 0 (map_keys (map_get p js)))) = ro 0 (map_keys (map_get p js))" if "jets_keyed js" for p js
  proof (simp add: map_idI, rule map_idI)
    fix k
    assume "k \<in> set (ro 0 (map_keys (map_get p js)))"
    then have "k \<in> set (map_keys (map_get p js))" by (simp add: range_ok_set [OF assms])
    then obtain v where "map_of (map_get p js) k = Some v" by (metis map_of_None_keys option.exhaust)
    with that show "(jc_JetID \<circ> (\<lambda>k. the (map_of (map_get p js) k))) k = k" by (simp add: jets_keyed_def)
  qed
  have "gspec L g (0 + 0) (GetLowestUnsentPulse L g ro s) (\<lambda>a y b. fst y = lowest_pulse L ?U ?top \<and>
      distinct (map jc_JetID (snd y)) \<and> set (map jc_JetID (snd y)) = jets_at L (fst y) ?U)"
    unfolding GetLowestUnsentPulse_def
  proof (rule gspec_bind [OF loop, where R = "\<lambda>(p, js) a y b. y = (p, map (\<lambda>k. the (map_of (map_get p js) k)) (ro 0 (map_keys (map_get p js))))"], goal_cases)
    case (1 x a b)
    then show ?case by (cases x) (auto intro: gspec_ret)
  next
    case (2 a x b y c)
    obtain p js where x: "x = (p, js)" by (cases x)
    then have ok: "p = lowest_pulse L ?U ?top" "jets_keyed js" "fst ` set (map_get p js) = jets_at L p ?U"
      using lowest_okD [OF 2(3)] by (simp_all only: x fst_conv snd_conv map_get_Nil list.set image_empty if_cancel Un_empty_right)
    from 2(4) x have y: "y = (p, map (\<lambda>k. the (map_of (map_get p js) k)) (ro 0 (map_keys (map_get p js))))" by simp
    show ?case using ok unfolding y fst_conv snd_conv jets [OF ok(2)]
      by (simp add: range_ok_set [OF assms] range_ok_distinct [OF assms] jets_keyed_def gomap_def map_keys_def)
  qed
  then show ?thesis by simp
qed

section \<open>The extractor against the mock\<close>

text \<open>Rounds of the integration tests: the extractor asks for the next pulse and then for its records, until there is no next pulse.\<close>

fun mock_rounds :: "insolar_lib \<Rightarrow> exporter_lib \<Rightarrow> gen_lib \<Rightarrow> bytes range_order \<Rightarrow> (32 word \<Rightarrow> error + 64 word) \<Rightarrow> 32 word \<Rightarrow> nat \<Rightarrow> ImporterServer
    \<Rightarrow> (PlatformPulseData list \<times> error option) gen" where
  "mock_rounds L X g ro approx batch 0 s = ret ([], None)"
| "mock_rounds L X g ro approx batch (Suc n) s = gbind (mock_NextFinalizedPulse L g ro approx s) (\<lambda>r. case r of
     Inl err \<Rightarrow> ret ([], Some err)
   | Inr pu \<Rightarrow> gbind (mock_Export L g (\<lambda>_. None) \<lparr>gr_PulseNumber = fp_PulseNumber pu, gr_RecordNumber = 0, gr_Count = batch\<rparr> s) (\<lambda>(sent, err, s).
       case retrieveRecords L X (\<lambda>_ _. Inr (client_stream sent err)) (\<lambda>_ _. False) batch pu False 1 of
         Some (Emitted d itf) \<Rightarrow> gbind (mock_rounds L X g ro approx batch n s) (\<lambda>(ds, err). ret (d # ds, err))
       | _ \<Rightarrow> ret ([], None)))"

lemma lowest_pulse_Min: "lowest_pulse L rs p = Min (insert p (pulses_of_records L rs))"
proof (induction rs arbitrary: p)
  case (Cons r rs)
  let ?q = "IDPulse L (er_ID r)" and ?S = "pulses_of_records L rs"
  have fin: "finite ?S" by (simp add: pulses_of_records_def)
  have "Min (insert p (insert ?q ?S)) = Min (insert (min p ?q) ?S)"
  proof (rule Min_eqI)
    have "Min (insert (min p ?q) ?S) \<in> insert (min p ?q) ?S" using fin by (intro Min_in) auto
    then show "Min (insert (min p ?q) ?S) \<in> insert p (insert ?q ?S)" by (auto simp: min_def)
    show "Min (insert (min p ?q) ?S) \<le> y" if "y \<in> insert p (insert ?q ?S)" for y
    proof -
      have "\<exists>z \<in> insert (min p ?q) ?S. z \<le> y" using that by auto
      then show ?thesis using fin by (meson Min_le finite_insert order_trans)
    qed
  qed (use fin in simp)
  then show ?case using Cons.IH by (simp add: pulses_of_records_def)
qed (simp add: pulses_of_records_def)

abbreviation at_pulse :: "insolar_lib \<Rightarrow> 32 word \<Rightarrow> ex_Record list \<Rightarrow> ex_Record list" where
  "at_pulse L p rs \<equiv> filter (\<lambda>r. IDPulse L (er_ID r) = p) rs"

text \<open>A pulse as the client answers it.\<close>

definition full_pulse :: "insolar_lib \<Rightarrow> ex_Record list \<Rightarrow> 32 word \<Rightarrow> FullPulse \<Rightarrow> bool" where
  "full_pulse L U p pu \<longleftrightarrow> fp_PulseNumber pu = p \<and> fp_PrevPulseNumber pu = p - 10 \<and> fp_NextPulseNumber pu = p + 10 \<and>
     distinct (map jc_JetID (fp_Jets pu)) \<and> set (map jc_JetID (fp_Jets pu)) = jets_at L p U"

lemma gspec_next:
  assumes "range_ok ro" and "\<And>p. \<exists>t. approx p = Inr t"
  shows "gspec L g 0 (mock_NextFinalizedPulse L g ro approx s) (\<lambda>a r b. let p = lowest_pulse L (GetUnsentRecords s) (2 ^ 32 - 1) in
    if p = 2 ^ 32 - 1 then r = Inl (Err ''unready yet'') else \<exists>pu. r = Inr pu \<and> full_pulse L (GetUnsentRecords s) p pu)"
proof -
  have "gspec L g (0 + 0) (mock_NextFinalizedPulse L g ro approx s) (\<lambda>a r b. let p = lowest_pulse L (GetUnsentRecords s) (2 ^ 32 - 1) in
    if p = 2 ^ 32 - 1 then r = Inl (Err ''unready yet'') else \<exists>pu. r = Inr pu \<and> full_pulse L (GetUnsentRecords s) p pu)"
    unfolding mock_NextFinalizedPulse_def
  proof (rule gspec_bind [OF gspec_lowest [OF assms(1)], where R = "\<lambda>(p, jets) a r b. r = (if p = 2 ^ 32 - 1 then Inl (Err ''unready yet'') else GetFullPulse approx p jets)"], goal_cases)
    case (1 x a b)
    show ?case by (cases x) (auto intro: gspec_ret)
  next
    case (2 a x b r c)
    obtain p jets where x: "x = (p, jets)" by (cases x)
    obtain t where "approx p = Inr t" using assms(2) by blast
    then show ?case using 2(3,4) unfolding x by (simp add: GetFullPulse_def full_pulse_def Let_def)
  qed
  then show ?thesis by simp
qed

lemma top_pulse: "p \<le> (2 ^ 32 - 1 :: 32 word)"
proof -
  have "(2 ^ 32 - 1 :: 32 word) = - 1" by simp
  then show ?thesis by (metis word_order.extremum)
qed

lemma lowest_is_first: "sorted_wrt (<) (p # ps) \<Longrightarrow> pulses_of_records L U = set (p # ps) \<Longrightarrow> lowest_pulse L U (2 ^ 32 - 1) = p"
  unfolding lowest_pulse_Min using top_pulse [of p] by (intro Min_eqI) (auto intro: less_imp_le simp del: )

lemma pulses_rest:
  assumes "sorted_wrt (<) (p # ps)" and "pulses_of_records L U = set (p # ps)"
  shows "pulses_of_records L (filter (\<lambda>r. IDPulse L (er_ID r) \<noteq> p) U) = set ps"
proof -
  have "pulses_of_records L (filter (\<lambda>r. IDPulse L (er_ID r) \<noteq> p) U) = pulses_of_records L U - {p}" by (auto simp: pulses_of_records_def)
  also have "\<dots> = set ps" using assms by auto
  finally show ?thesis .
qed

definition handed_over :: "insolar_lib \<Rightarrow> ex_Record list \<Rightarrow> 32 word \<Rightarrow> PlatformPulseData \<Rightarrow> bool" where
  "handed_over L U p d \<longleftrightarrow> (\<exists>pu. full_pulse L U p pu \<and> d = \<lparr>pp_Pulse = Some pu, pp_Records = at_pulse L p U\<rparr>)"

lemma handed_over_rest: "q \<noteq> p \<Longrightarrow> handed_over L (filter (\<lambda>r. IDPulse L (er_ID r) \<noteq> p) U) q d \<Longrightarrow> handed_over L U q d"
proof -
  assume "q \<noteq> p" and h: "handed_over L (filter (\<lambda>r. IDPulse L (er_ID r) \<noteq> p) U) q d"
  then have "jets_at L q (filter (\<lambda>r. IDPulse L (er_ID r) \<noteq> p) U) = jets_at L q U" "at_pulse L q (filter (\<lambda>r. IDPulse L (er_ID r) \<noteq> p) U) = at_pulse L q U"
    by (auto simp: jets_at_def intro!: filter_cong)
  with h show ?thesis by (simp add: handed_over_def full_pulse_def)
qed

text \<open>One round: the lowest pulse is handed over with its records, and they are the ones sent afterwards.\<close>

lemma gspec_round:
  assumes "ids_ok L g" and "full_pulse L (GetUnsentRecords s) p pu" and "\<forall>r \<in> set (GetUnsentRecords s). er_ShouldIterateFrom r = None"
    and rest: "\<And>s'. GetUnsentRecords s' = filter (\<lambda>r. IDPulse L (er_ID r) \<noteq> p) (GetUnsentRecords s) \<Longrightarrow> gspec L g k (mock_rounds L X g ro approx batch n s') (\<lambda>a y b. Q y)"
  shows "gspec L g (1 + (k + 0)) (gbind (mock_Export L g (\<lambda>_. None) \<lparr>gr_PulseNumber = fp_PulseNumber pu, gr_RecordNumber = 0, gr_Count = batch\<rparr> s) (\<lambda>(sent, err, s).
       case retrieveRecords L X (\<lambda>_ _. Inr (client_stream sent err)) (\<lambda>_ _. False) batch pu False 1 of
         Some (Emitted d itf) \<Rightarrow> gbind (mock_rounds L X g ro approx batch n s) (\<lambda>(ds, err). ret (d # ds, err))
       | _ \<Rightarrow> ret ([], None)))
    (\<lambda>a y b. \<exists>ds err. y = (\<lparr>pp_Pulse = Some pu, pp_Records = at_pulse L p (GetUnsentRecords s)\<rparr> # ds, err) \<and> Q (ds, err))"
proof -
  let ?records = "at_pulse L p (GetUnsentRecords s)" and ?req = "\<lparr>gr_PulseNumber = fp_PulseNumber pu, gr_RecordNumber = 0, gr_Count = batch\<rparr> :: GetRecords"
  have pn: "fp_PulseNumber pu = p" using assms(2) by (simp add: full_pulse_def)
  have b: "\<forall>r \<in> set ?records. belongs L (fp_PulseNumber pu) r" using assms(3) pn by (simp add: belongs_def)
  have export: "gspec L g 1 (mock_Export L g (\<lambda>_. None) ?req s) (\<lambda>a (sent, err, s') b. s' = MarkAsSent ?records s \<and> (\<exists>marker k. er_ID marker = gl_IDWithPulse g k (gr_PulseNumber ?req + 10) \<and>
    send_loop (\<lambda>_. None) 0 (?records @ [marker]) = (sent, err)))" by (rule gspec_export) (simp add: pn)
  have tail: "gspec L g (k + 0) (gbind (mock_rounds L X g ro approx batch n (MarkAsSent ?records s)) (\<lambda>(ds, err). ret (d # ds, err))) (\<lambda>a y b. \<exists>ds err. y = (d # ds, err) \<and> Q (ds, err))" for d
  proof (rule gspec_bind [OF rest, where R = "\<lambda>(ds, err) a y b. y = (d # ds, err)"], goal_cases)
    case 1
    then show ?case by (rule unsent_after_export)
  next
    case (2 x a b)
    then show ?case by (cases x) (auto intro: gspec_ret)
  next
    case (3 a x b y c)
    then show ?case by (cases x) auto
  qed
  show ?thesis
  proof (rule gspec_bind [OF export, where R = "\<lambda>_ a y b. \<exists>ds err. y = (\<lparr>pp_Pulse = Some pu, pp_Records = ?records\<rparr> # ds, err) \<and> Q (ds, err)"], goal_cases)
    case (1 x a b)
    obtain sent err s' where x: "x = (sent, err, s')" by (metis prod_cases3)
    with 1 obtain marker j where m: "s' = MarkAsSent ?records s" "er_ID marker = gl_IDWithPulse g j (fp_PulseNumber pu + 10)" "sent = ?records @ [marker]" "err = None"
      by (auto simp: send_loop_ok)
    from retrieve_stream [OF assms(1) b m(2), of "\<lambda>_ _. Inr (client_stream sent err)" batch X 0] obtain itf where
      "retrieveRecords L X (\<lambda>_ _. Inr (client_stream sent err)) (\<lambda>_ _. False) batch pu False 1 = Some (Emitted \<lparr>pp_Pulse = Some pu, pp_Records = ?records\<rparr> (Some itf))"
      using m(3,4) by auto
    then show ?case unfolding x using tail by (simp add: m(1))
  qed
qed

definition drained :: "insolar_lib \<Rightarrow> ex_Record list \<Rightarrow> 32 word list \<Rightarrow> PlatformPulseData list \<times> error option \<Rightarrow> bool" where
  "drained L U ps y \<longleftrightarrow> snd y = Some (Err ''unready yet'') \<and> list_all2 (handed_over L U) ps (fst y)"

lemma drained_Cons:
  assumes "full_pulse L U p pu" and "drained L (filter (\<lambda>r. IDPulse L (er_ID r) \<noteq> p) U) ps (ds, err)" and "p \<notin> set ps"
  shows "drained L U (p # ps) (\<lparr>pp_Pulse = Some pu, pp_Records = at_pulse L p U\<rparr> # ds, err)"
proof -
  have "handed_over L U p \<lparr>pp_Pulse = Some pu, pp_Records = at_pulse L p U\<rparr>" using assms(1) by (auto simp: handed_over_def)
  moreover have "list_all2 (handed_over L (filter (\<lambda>r. IDPulse L (er_ID r) \<noteq> p) U)) ps ds" using assms(2) by (simp add: drained_def)
  then have "list_all2 (handed_over L U) ps ds" by (rule list.rel_mono_strong) (metis assms(3) handed_over_rest)
  ultimately show ?thesis using assms(2) by (simp add: drained_def)
qed

lemma gspec_first_round:
  assumes "ids_ok L g" and "range_ok ro" and "\<And>p. \<exists>t. approx p = Inr t" and "\<forall>r \<in> set (GetUnsentRecords s). er_ShouldIterateFrom r = None"
    and low: "lowest_pulse L (GetUnsentRecords s) (2 ^ 32 - 1) = p" "p \<noteq> 2 ^ 32 - 1" and "p \<notin> set ps"
    and rest: "\<And>s'. GetUnsentRecords s' = filter (\<lambda>r. IDPulse L (er_ID r) \<noteq> p) (GetUnsentRecords s) \<Longrightarrow>
      gspec L g k (mock_rounds L X g ro approx batch n s') (\<lambda>a y b. drained L (GetUnsentRecords s') ps y)"
  shows "gspec L g (Suc k) (mock_rounds L X g ro approx batch (Suc n) s) (\<lambda>a y b. drained L (GetUnsentRecords s) (p # ps) y)"
proof -
  let ?U = "GetUnsentRecords s"
  have rest': "gspec L g k (mock_rounds L X g ro approx batch n s') (\<lambda>a y b. drained L (filter (\<lambda>r. IDPulse L (er_ID r) \<noteq> p) ?U) ps y)"
    if "GetUnsentRecords s' = filter (\<lambda>r. IDPulse L (er_ID r) \<noteq> p) ?U" for s'
    using rest [OF that] unfolding that .
  have "gspec L g (0 + (1 + (k + 0))) (mock_rounds L X g ro approx batch (Suc n) s) (\<lambda>a y b. drained L ?U (p # ps) y)"
    unfolding mock_rounds.simps(2)
  proof (rule gspec_bind [OF gspec_next [OF assms(2,3)], where R = "\<lambda>_ a y b. drained L ?U (p # ps) y"], goal_cases)
    case (1 r a b)
    then obtain pu where r: "r = Inr pu" and pu: "full_pulse L ?U p pu" unfolding low(1) Let_def if_not_P [OF low(2)] by blast
    show ?case unfolding r sum.case
      by (rule gspec_weaken [OF gspec_round [OF assms(1) pu assms(4) rest']]) (use drained_Cons [OF pu _ assms(7)] in blast)+
  qed
  then show ?thesis by simp
qed

lemma gspec_rounds:
  assumes "ids_ok L g" and "range_ok ro" and "\<And>p. \<exists>t. approx p = Inr t"
  shows "\<forall>r \<in> set (GetUnsentRecords s). er_ShouldIterateFrom r = None \<and> IDPulse L (er_ID r) \<noteq> 2 ^ 32 - 1 \<Longrightarrow> sorted_wrt (<) ps \<Longrightarrow>
    pulses_of_records L (GetUnsentRecords s) = set ps \<Longrightarrow>
    gspec L g (length ps) (mock_rounds L X g ro approx batch (Suc (length ps)) s) (\<lambda>a y b. drained L (GetUnsentRecords s) ps y)"
proof (induction ps arbitrary: s)
  case Nil
  then have low: "lowest_pulse L (GetUnsentRecords s) (2 ^ 32 - 1) = 2 ^ 32 - 1" by (simp add: lowest_pulse_Min)
  have "gspec L g (0 + 0) (mock_rounds L X g ro approx batch (Suc 0) s) (\<lambda>a y b. drained L (GetUnsentRecords s) [] y)"
    unfolding mock_rounds.simps(2)
    by (rule gspec_bind [OF gspec_next [OF assms(2,3)], where R = "\<lambda>_ a y b. drained L (GetUnsentRecords s) [] y"])
      (unfold low Let_def, auto simp: drained_def intro: gspec_ret)
  then show ?case by simp
next
  case (Cons p ps)
  have "p \<in> pulses_of_records L (GetUnsentRecords s)" using Cons.prems(3) by simp
  then have top: "p \<noteq> 2 ^ 32 - 1" using Cons.prems(1) by (auto simp: pulses_of_records_def)
  have "p \<notin> set ps" "sorted_wrt (<) ps" using Cons.prems(2) by auto
  show ?case unfolding list.size(4) Nat.add_Suc_right Nat.add_0_right
  proof (rule gspec_first_round [OF assms _ lowest_is_first [OF Cons.prems(2,3)] top \<open>p \<notin> set ps\<close>])
    show "\<forall>r \<in> set (GetUnsentRecords s). er_ShouldIterateFrom r = None" using Cons.prems(1) by blast
    fix s'
    assume u: "GetUnsentRecords s' = filter (\<lambda>r. IDPulse L (er_ID r) \<noteq> p) (GetUnsentRecords s)"
    show "gspec L g (length ps) (mock_rounds L X g ro approx batch (Suc (length ps)) s') (\<lambda>a y b. drained L (GetUnsentRecords s') ps y)"
      by (rule Cons.IH [OF _ \<open>sorted_wrt (<) ps\<close>]) (use u Cons.prems(1) pulses_rest [OF Cons.prems(2,3)] in auto)
  qed
qed


text \<open>Records of two pulses, imported out of order.\<close>

definition mock_record :: "nat \<Rightarrow> 32 word \<Rightarrow> ex_Record" where
  "mock_record k pn = \<lparr>er_RecordNumber = of_nat k, er_ID = gl_IDWithPulse unary_gen k pn, er_ObjectID = [1], er_JetID = [1], er_Virtual = Virtual_Other,
     er_ShouldIterateFrom = None, er_Rest = []\<rparr>"

definition mock_records :: "ex_Record list" where
  "mock_records = [mock_record 1 70010, mock_record 2 70000, mock_record 3 70010]"

definition mock_messages :: exporter_lib where
  "mock_messages = \<lparr>ErrDeprecatedClientVersion = ''deprecated'', RateLimitExceededMsg = ''limit'', ErrNotFinalPulseData = ''not final'', ErrPulseNotFound = ''not found''\<rparr>"

definition mock_server :: ImporterServer where
  "mock_server = snd (Import None (map RecvRecord mock_records @ [RecvEOF]) NewHeavymockImporter)"


section \<open>Helpers of the clients\<close>

text \<open>Receiving over the stream of a pulse returns its records and the mark of the end.\<close>

lemma ReceiveRecords_stream: "ReceiveRecords (Inr (client_stream rs None)) = Inr rs"
proof -
  have "receive_loop (map RecvRecord rs @ [RecvEOF]) acc = Inr (acc @ rs)" for acc by (induction rs arbitrary: acc) simp_all
  then show ?thesis by (simp add: ReceiveRecords_def client_stream_def)
qed

text \<open>A reply that refuses without an error of the call is taken for success: wrapping no error gives none.\<close>

lemma ImportRecords_hides_refusal: "(\<And>i. send i = SendOk) \<Longrightarrow> ImportRecords None send (Some False, None) (map Some rs) = None"
proof -
  assume "\<And>i. send i = SendOk"
  then have "import_sends send i (map Some rs) = None" for i by (induction rs arbitrary: i) simp_all
  then show ?thesis by (simp add: ImportRecords_def)
qed

text \<open>The records of \<open>GetRecordsByPulse\<close> all say where to go on from, which the extractor takes for the end of the pulse: it hands over a pulse
  without records.\<close>

lemma GetRecordsByPulse_ends_pulse:
  assumes "er_ShouldIterateFrom r = Some p"
  shows "recv_loop L X (\<lambda>_. False) pn 0 (client_stream (r # rs) err) [] = Whole [] p"
  using assms by (simp add: client_stream_def)

lemma gspec_records_by_pulse: "gspec L g 0 (GetRecordsByPulse g pulse n) (\<lambda>a rs b. length rs = n)"
proof -
  have "gspec L g (length [0..<n] * 0) (GetRecordsByPulse g pulse n) (\<lambda>a rs b. length rs = length [0..<n])"
    unfolding GetRecordsByPulse_def by (rule gspec_map) (auto intro!: gspec_draw_bind gspec_ret)
  then show ?thesis by simp
qed

end
