(* ===== verification/Migration.thy ===== *)
theory Migration
  imports Database
begin

text \<open>\<open>migrations/migrations.go\<close>: the statements that create the tables, with their keys.  The statements go to the database library, a
  parameter; its laws say what a successful statement adds to the schema.  The schema that results demands of the rows exactly the
  constraints the rest of the development works with.\<close>

section \<open>Schemas\<close>

record foreign_key =
  fk_columns :: "string list"
  fk_table :: string
  fk_references :: "string list"
  fk_onDelete :: string
  fk_onUpdate :: string

text \<open>The type of a column is the type of the field, or the one its tag gives.\<close>

datatype column_type = Int64 | GoInt | GoBool | GoString | GoBytes | VarChar nat

record column =
  col_name :: string
  col_type :: column_type
  col_primary :: bool

record table_def =
  td_name :: string
  td_columns :: "(string \<times> column_type) list"
  td_primary :: "string list"
  td_indexes :: "(string \<times> string list) list"
  td_foreign :: "foreign_key list"

type_synonym schema = "table_def list"

definition new_table :: "string \<Rightarrow> column list \<Rightarrow> table_def" where
  "new_table name cols = \<lparr>td_name = name, td_columns = map (\<lambda>c. (col_name c, col_type c)) cols,
     td_primary = map col_name (filter col_primary cols), td_indexes = [], td_foreign = []\<rparr>"

definition change_table :: "string \<Rightarrow> (table_def \<Rightarrow> table_def) \<Rightarrow> schema \<Rightarrow> schema" where
  "change_table name f s = map (\<lambda>t. if td_name t = name then f t else t) s"

section \<open>The statements\<close>

record 'db ddl =
  CreateTable :: "string \<Rightarrow> column list \<Rightarrow> 'db \<Rightarrow> error option \<times> 'db"
  AddIndex :: "string \<Rightarrow> string \<Rightarrow> string list \<Rightarrow> 'db \<Rightarrow> error option \<times> 'db"
  AddForeignKey :: "string \<Rightarrow> string list \<Rightarrow> string \<Rightarrow> string list \<Rightarrow> string \<Rightarrow> string \<Rightarrow> 'db \<Rightarrow> error option \<times> 'db"
  DropTableIfExists :: "string list \<Rightarrow> 'db \<Rightarrow> error option \<times> 'db"

text \<open>Each statement is followed by \<open>if err != nil { return err }\<close>.\<close>

fun run_statements :: "('db \<Rightarrow> error option \<times> 'db) list \<Rightarrow> 'db \<Rightarrow> error option \<times> 'db" where
  "run_statements [] db = (None, db)"
| "run_statements (p # ps) db = (case p db of (Some err, db) \<Rightarrow> (Some err, db) | (None, db) \<Rightarrow> run_statements ps db)"

definition column_of :: "string \<Rightarrow> column_type \<Rightarrow> column" where
  "column_of name ty = \<lparr>col_name = name, col_type = ty, col_primary = False\<rparr>"

definition key_column :: "string \<Rightarrow> column_type \<Rightarrow> column" where
  "key_column name ty = \<lparr>col_name = name, col_type = ty, col_primary = True\<rparr>"

definition Pulse_columns :: "column list" where
  "Pulse_columns = [key_column ''pulse_number'' Int64, column_of ''prev_pulse_number'' Int64, column_of ''next_pulse_number'' Int64, column_of ''is_complete'' GoBool,
     column_of ''is_sequential'' GoBool, column_of ''timestamp'' Int64, column_of ''jet_drop_amount'' Int64, column_of ''record_amount'' Int64]"

definition JetDrop_columns :: "column list" where
  "JetDrop_columns = [key_column ''pulse_number'' Int64, key_column ''jet_id'' (VarChar 255), column_of ''first_prev_hash'' GoBytes, column_of ''second_prev_hash'' GoBytes,
     column_of ''hash'' GoBytes, column_of ''raw_data'' GoBytes, column_of ''timestamp'' Int64, column_of ''record_amount'' GoInt]"

definition Record_columns :: "column list" where
  "Record_columns = [key_column ''reference'' GoBytes, column_of ''type'' GoString, column_of ''object_reference'' GoBytes, column_of ''prototype_reference'' GoBytes,
     column_of ''payload'' GoBytes, column_of ''prev_record_reference'' GoBytes, column_of ''hash'' GoBytes, column_of ''raw_data'' GoBytes,
     column_of ''jet_id'' GoString, column_of ''pulse_number'' Int64, column_of ''order'' GoInt, column_of ''timestamp'' Int64]"

definition migrate_initial :: "'db ddl \<Rightarrow> 'db \<Rightarrow> error option \<times> 'db" where
  "migrate_initial M = run_statements
     [CreateTable M ''pulses'' Pulse_columns,
      AddIndex M ''pulses'' ''idx_pulse_prevpulsenumber'' [''prev_pulse_number''],
      CreateTable M ''jet_drops'' JetDrop_columns,
      AddIndex M ''jet_drops'' ''idx_jetdrop_pulsenumber_jetid'' [''pulse_number'', ''jet_id''],
      AddForeignKey M ''jet_drops'' [''pulse_number''] ''pulses'' [''pulse_number''] ''CASCADE'' ''CASCADE'',
      CreateTable M ''records'' Record_columns,
      AddIndex M ''records'' ''idx_record_objectreference_type_pulsenumber_order'' [''object_reference'', ''type'', ''pulse_number'', ''order''],
      AddIndex M ''records'' ''idx_record_jetid_pulsenumber_order'' [''jet_id'', ''pulse_number'', ''order''],
      AddForeignKey M ''records'' [''jet_id'', ''pulse_number''] ''jet_drops'' [''jet_id'', ''pulse_number''] ''CASCADE'' ''CASCADE'']"

definition rollback_initial :: "'db ddl \<Rightarrow> 'db \<Rightarrow> error option \<times> 'db" where
  "rollback_initial M = DropTableIfExists M [''records'', ''jet_drops'', ''pulses'']"

record 'db Migration =
  mg_ID :: string
  mg_Migrate :: "'db \<Rightarrow> error option \<times> 'db"
  mg_Rollback :: "'db \<Rightarrow> error option \<times> 'db"

definition Migrations :: "'db ddl \<Rightarrow> 'db Migration list" where
  "Migrations M = [\<lparr>mg_ID = ''202005180421'', mg_Migrate = migrate_initial M, mg_Rollback = rollback_initial M\<rparr>]"

text \<open>The migration that fills the tables of a load test; what it fills them with is an argument here and defined in \<open>Load_Data\<close>.\<close>

definition LoadTestMigrations :: "'db ddl \<Rightarrow> ('db \<Rightarrow> error option \<times> 'db) \<Rightarrow> 'db Migration" where
  "LoadTestMigrations M generateData = \<lparr>mg_ID = ''202005180425'',
     mg_Migrate = (\<lambda>db. case generateData db of (Some err, db) \<Rightarrow> (Some err, db) | (None, db) \<Rightarrow> (None, db)),
     mg_Rollback = DropTableIfExists M [''records'', ''jet_drops'', ''pulses'']\<rparr>"

record migration_options =
  UseTransaction :: bool
  ValidateUnknownMigrations :: bool

definition MigrationOptions :: "migration_options \<Rightarrow> migration_options" where
  "MigrationOptions DefaultOptions = DefaultOptions\<lparr>UseTransaction := True, ValidateUnknownMigrations := True\<rparr>"

section \<open>What the library promises\<close>

definition add_index :: "string \<Rightarrow> string list \<Rightarrow> table_def \<Rightarrow> table_def" where
  "add_index name cols t = t\<lparr>td_indexes := td_indexes t @ [(name, cols)]\<rparr>"

definition add_foreign :: "string list \<Rightarrow> string \<Rightarrow> string list \<Rightarrow> string \<Rightarrow> string \<Rightarrow> table_def \<Rightarrow> table_def" where
  "add_foreign cols ref refcols del upd t = t\<lparr>td_foreign := td_foreign t @ [\<lparr>fk_columns = cols, fk_table = ref, fk_references = refcols, fk_onDelete = del, fk_onUpdate = upd\<rparr>]\<rparr>"

locale schema_library =
  fixes M :: "'db ddl" and V :: "'db \<Rightarrow> schema"
  assumes create: "CreateTable M name columns db = (None, db') \<Longrightarrow> V db' = V db @ [new_table name columns] \<and> name \<notin> td_name ` set (V db)"
    and index: "AddIndex M name idx cols db = (None, db') \<Longrightarrow> V db' = change_table name (add_index idx cols) (V db)"
    and foreign: "AddForeignKey M name cols ref refcols del upd db = (None, db') \<Longrightarrow> V db' = change_table name (add_foreign cols ref refcols del upd) (V db)"
    and drop: "DropTableIfExists M names db = (None, db') \<Longrightarrow> V db' = filter (\<lambda>t. td_name t \<notin> set names) (V db)"

text \<open>The schema of the explorer.\<close>

definition explorer_schema :: schema where
  "explorer_schema =
     [add_index ''idx_pulse_prevpulsenumber'' [''prev_pulse_number''] (new_table ''pulses'' Pulse_columns),
      add_foreign [''pulse_number''] ''pulses'' [''pulse_number''] ''CASCADE'' ''CASCADE''
        (add_index ''idx_jetdrop_pulsenumber_jetid'' [''pulse_number'', ''jet_id''] (new_table ''jet_drops'' JetDrop_columns)),
      add_foreign [''jet_id'', ''pulse_number''] ''jet_drops'' [''jet_id'', ''pulse_number''] ''CASCADE'' ''CASCADE''
        (add_index ''idx_record_jetid_pulsenumber_order'' [''jet_id'', ''pulse_number'', ''order'']
        (add_index ''idx_record_objectreference_type_pulsenumber_order'' [''object_reference'', ''type'', ''pulse_number'', ''order'']
        (new_table ''records'' Record_columns)))]"

lemma table_names [simp]: "td_name (new_table name columns) = name" "td_name (add_index i cs t) = td_name t" "td_name (add_foreign cs r rs del upd t) = td_name t"
  by (simp_all add: new_table_def add_index_def add_foreign_def)

lemma change_last: "name \<notin> td_name ` set s \<Longrightarrow> td_name t = name \<Longrightarrow> change_table name f (s @ [t]) = s @ [f t]"
  by (induction s) (auto simp: change_table_def)

lemma run_Cons: "run_statements (p # ps) db = (None, db') \<longleftrightarrow> (\<exists>db1. p db = (None, db1) \<and> run_statements ps db1 = (None, db'))"
  by (auto split: prod.splits option.splits)

context schema_library
begin

lemma create_index:
  assumes "CreateTable M name columns db = (None, d1)" and "AddIndex M name idx cols d1 = (None, d2)"
  shows "V d2 = V db @ [add_index idx cols (new_table name columns)]" "name \<notin> td_name ` set (V db)"
  using create [OF assms(1)] index [OF assms(2)] by (simp_all add: change_last)

lemma index_last: "AddIndex M name idx cols db = (None, db') \<Longrightarrow> V db = s @ [t] \<Longrightarrow> td_name t = name \<Longrightarrow> name \<notin> td_name ` set s \<Longrightarrow> V db' = s @ [add_index idx cols t]"
  using index by (simp add: change_last)

lemma foreign_last:
  "AddForeignKey M name cols ref refcols del upd db = (None, db') \<Longrightarrow> V db = s @ [t] \<Longrightarrow> td_name t = name \<Longrightarrow> name \<notin> td_name ` set s \<Longrightarrow> V db' = s @ [add_foreign cols ref refcols del upd t]"
  using foreign by (simp add: change_last)

lemma migrate_adds:
  assumes "migrate_initial M db = (None, db')"
  shows "V db' = V db @ explorer_schema" "td_name ` set (V db) \<inter> {''pulses'', ''jet_drops'', ''records''} = {}"
proof -
  from assms obtain d1 d2 d3 d4 d5 d6 d7 d8 where
    1: "CreateTable M ''pulses'' Pulse_columns db = (None, d1)" "AddIndex M ''pulses'' ''idx_pulse_prevpulsenumber'' [''prev_pulse_number''] d1 = (None, d2)" and
    2: "CreateTable M ''jet_drops'' JetDrop_columns d2 = (None, d3)"
      "AddIndex M ''jet_drops'' ''idx_jetdrop_pulsenumber_jetid'' [''pulse_number'', ''jet_id''] d3 = (None, d4)" and
    3: "AddForeignKey M ''jet_drops'' [''pulse_number''] ''pulses'' [''pulse_number''] ''CASCADE'' ''CASCADE'' d4 = (None, d5)" and
    4: "CreateTable M ''records'' Record_columns d5 = (None, d6)"
      "AddIndex M ''records'' ''idx_record_objectreference_type_pulsenumber_order'' [''object_reference'', ''type'', ''pulse_number'', ''order''] d6 = (None, d7)" and
    5: "AddIndex M ''records'' ''idx_record_jetid_pulsenumber_order'' [''jet_id'', ''pulse_number'', ''order''] d7 = (None, d8)" and
    6: "AddForeignKey M ''records'' [''jet_id'', ''pulse_number''] ''jet_drops'' [''jet_id'', ''pulse_number''] ''CASCADE'' ''CASCADE'' d8 = (None, db')"
    unfolding migrate_initial_def run_Cons run_statements.simps(1) by blast
  let ?p = "add_index ''idx_pulse_prevpulsenumber'' [''prev_pulse_number''] (new_table ''pulses'' Pulse_columns)"
  let ?j = "add_index ''idx_jetdrop_pulsenumber_jetid'' [''pulse_number'', ''jet_id''] (new_table ''jet_drops'' JetDrop_columns)"
  let ?r = "add_index ''idx_record_objectreference_type_pulsenumber_order'' [''object_reference'', ''type'', ''pulse_number'', ''order''] (new_table ''records'' Record_columns)"
  note p = create_index [OF 1] and j = create_index [OF 2] and r = create_index [OF 4]
  have d5: "V d5 = V d2 @ [add_foreign [''pulse_number''] ''pulses'' [''pulse_number''] ''CASCADE'' ''CASCADE'' ?j]" by (rule foreign_last [OF 3 j(1)]) (use j(2) in simp_all)
  have d8: "V d8 = V d5 @ [add_index ''idx_record_jetid_pulsenumber_order'' [''jet_id'', ''pulse_number'', ''order''] ?r]"
    by (rule index_last [OF 5 r(1)]) (use r(2) in simp_all)
  have "V db' = V d5 @ [add_foreign [''jet_id'', ''pulse_number''] ''jet_drops'' [''jet_id'', ''pulse_number''] ''CASCADE'' ''CASCADE''
      (add_index ''idx_record_jetid_pulsenumber_order'' [''jet_id'', ''pulse_number'', ''order''] ?r)]" by (rule foreign_last [OF 6 d8]) (use r(2) in simp_all)
  then show "V db' = V db @ explorer_schema" unfolding d5 p(1) by (simp add: explorer_schema_def)
  show "td_name ` set (V db) \<inter> {''pulses'', ''jet_drops'', ''records''} = {}"
    using p(2) j(2) r(2) unfolding d5 p(1) by auto
qed

lemma rollback_restores:
  assumes "migrate_initial M db = (None, db1)" and "rollback_initial M db1 = (None, db2)"
  shows "V db2 = V db"
proof -
  have "V db2 = filter (\<lambda>t. td_name t \<notin> {''records'', ''jet_drops'', ''pulses''}) (V db @ explorer_schema)"
    using drop [of "[''records'', ''jet_drops'', ''pulses'']" db1 db2] assms(2) migrate_adds(1) [OF assms(1)] by (simp add: rollback_initial_def)
  also have "\<dots> = filter (\<lambda>t. td_name t \<notin> {''records'', ''jet_drops'', ''pulses''}) (V db)" by (simp add: explorer_schema_def)
  also have "\<dots> = V db"
  proof -
    have "\<forall>t \<in> set (V db). td_name t \<notin> {''records'', ''jet_drops'', ''pulses''}" using migrate_adds(2) [OF assms(1)] by blast
    then show ?thesis by (simp only: filter_id_conv)
  qed
  finally show ?thesis .
qed

end

section \<open>A schema in memory\<close>

definition mem_ddl :: "schema ddl" where
  "mem_ddl = \<lparr>CreateTable = \<lambda>name columns s. if name \<in> td_name ` set s then (Some (Err ''table exists''), s) else (None, s @ [new_table name columns]),
     AddIndex = \<lambda>name idx cols s. if name \<in> td_name ` set s then (None, change_table name (add_index idx cols) s) else (Some (Err ''no table''), s),
     AddForeignKey = \<lambda>name cols ref refcols del upd s. if {name, ref} \<subseteq> td_name ` set s then (None, change_table name (add_foreign cols ref refcols del upd) s) else (Some (Err ''no table''), s),
     DropTableIfExists = \<lambda>names s. (None, filter (\<lambda>t. td_name t \<notin> set names) s)\<rparr>"

interpretation mem: schema_library mem_ddl "\<lambda>s. s"
  by unfold_locales (auto simp: mem_ddl_def split: if_splits)

lemma mem_migrates: "migrate_initial mem_ddl [] = (None, explorer_schema)"
  by (simp add: migrate_initial_def mem_ddl_def explorer_schema_def change_table_def)

section \<open>What the schema demands of the rows\<close>

datatype sql_value = SqlInt int | SqlText string | SqlBytes bytes | SqlBool bool

type_synonym row = "string \<Rightarrow> sql_value option"

definition pulse_row :: "models_Pulse \<Rightarrow> row" where
  "pulse_row p = map_of [(''pulse_number'', SqlInt (mp_PulseNumber p)), (''prev_pulse_number'', SqlInt (mp_PrevPulseNumber p)), (''next_pulse_number'', SqlInt (mp_NextPulseNumber p)),
     (''is_complete'', SqlBool (mp_IsComplete p)), (''is_sequential'', SqlBool (mp_IsSequential p)), (''timestamp'', SqlInt (mp_Timestamp p)),
     (''jet_drop_amount'', SqlInt (mp_JetDropAmount p)), (''record_amount'', SqlInt (mp_RecordAmount p))]"

definition jet_drop_row :: "models_JetDrop \<Rightarrow> row" where
  "jet_drop_row j = map_of [(''pulse_number'', SqlInt (mj_PulseNumber j)), (''jet_id'', SqlText (mj_JetID j)), (''first_prev_hash'', SqlBytes (mj_FirstPrevHash j)),
     (''second_prev_hash'', SqlBytes (mj_SecondPrevHash j)), (''hash'', SqlBytes (mj_Hash j)), (''raw_data'', SqlBytes (mj_RawData j)),
     (''timestamp'', SqlInt (mj_Timestamp j)), (''record_amount'', SqlInt (mj_RecordAmount j))]"

definition record_row :: "models_Record \<Rightarrow> row" where
  "record_row r = map_of [(''reference'', SqlBytes (mr_Reference r)), (''type'', SqlText (mr_Type r)), (''object_reference'', SqlBytes (mr_ObjectReference r)),
     (''prototype_reference'', SqlBytes (mr_PrototypeReference r)), (''payload'', SqlBytes (mr_Payload r)), (''prev_record_reference'', SqlBytes (mr_PrevRecordReference r)),
     (''hash'', SqlBytes (mr_Hash r)), (''raw_data'', SqlBytes (mr_RawData r)), (''jet_id'', SqlText (mr_JetID r)), (''pulse_number'', SqlInt (mr_PulseNumber r)),
     (''order'', SqlInt (mr_Order r)), (''timestamp'', SqlInt (mr_Timestamp r))]"

definition table_rows :: "database \<Rightarrow> string \<Rightarrow> row set" where
  "table_rows t name = (if name = ''pulses'' then pulse_row ` db_pulses t else if name = ''jet_drops'' then jet_drop_row ` db_jet_drops t
     else if name = ''records'' then record_row ` db_records t else {})"

definition enforced :: "schema \<Rightarrow> (string \<Rightarrow> row set) \<Rightarrow> bool" where
  "enforced s R \<longleftrightarrow> (\<forall>t \<in> set s. finite (R (td_name t)) \<and> inj_on (\<lambda>r. map r (td_primary t)) (R (td_name t)) \<and>
     (\<forall>f \<in> set (td_foreign t). (\<lambda>r. map r (fk_columns f)) ` R (td_name t) \<subseteq> (\<lambda>r. map r (fk_references f)) ` R (fk_table f)))"

lemma inj_pulse_row: "inj pulse_row"
proof (rule injI)
  fix x y
  assume e: "pulse_row x = pulse_row y"
  show "x = y"
    using fun_cong [OF e, of "''pulse_number''"] fun_cong [OF e, of "''prev_pulse_number''"] fun_cong [OF e, of "''next_pulse_number''"] fun_cong [OF e, of "''is_complete''"] fun_cong [OF e, of "''is_sequential''"] fun_cong [OF e, of "''timestamp''"] fun_cong [OF e, of "''jet_drop_amount''"] fun_cong [OF e, of "''record_amount''"]
    by (simp add: pulse_row_def)
qed

lemma inj_jet_drop_row: "inj jet_drop_row"
proof (rule injI)
  fix x y
  assume e: "jet_drop_row x = jet_drop_row y"
  show "x = y"
    using fun_cong [OF e, of "''pulse_number''"] fun_cong [OF e, of "''jet_id''"] fun_cong [OF e, of "''first_prev_hash''"] fun_cong [OF e, of "''second_prev_hash''"] fun_cong [OF e, of "''hash''"] fun_cong [OF e, of "''raw_data''"] fun_cong [OF e, of "''timestamp''"] fun_cong [OF e, of "''record_amount''"]
    by (simp add: jet_drop_row_def)
qed

lemma inj_record_row: "inj record_row"
proof (rule injI)
  fix x y
  assume e: "record_row x = record_row y"
  show "x = y"
    using fun_cong [OF e, of "''reference''"] fun_cong [OF e, of "''type''"] fun_cong [OF e, of "''object_reference''"] fun_cong [OF e, of "''prototype_reference''"] fun_cong [OF e, of "''payload''"] fun_cong [OF e, of "''prev_record_reference''"] fun_cong [OF e, of "''hash''"] fun_cong [OF e, of "''raw_data''"] fun_cong [OF e, of "''jet_id''"] fun_cong [OF e, of "''pulse_number''"] fun_cong [OF e, of "''order''"] fun_cong [OF e, of "''timestamp''"]
    by (simp add: record_row_def)
qed

lemma inj_on_rows: "inj g \<Longrightarrow> inj_on f (g ` A) \<longleftrightarrow> inj_on (\<lambda>x. f (g x)) A"
  by (auto simp: inj_on_def inj_def)

lemma finite_rows: "inj g \<Longrightarrow> finite (g ` A) \<longleftrightarrow> finite A"
  by (meson finite_imageD finite_imageI inj_on_subset subset_UNIV)

lemma schema_demands: "enforced explorer_schema (table_rows t) \<longleftrightarrow> constraints t"
proof -
  have key_p: "map (pulse_row p) [''pulse_number''] = [Some (SqlInt (mp_PulseNumber p))]" for p by (simp add: pulse_row_def)
  have key_j: "map (jet_drop_row j) [''pulse_number'', ''jet_id''] = [Some (SqlInt (mj_PulseNumber j)), Some (SqlText (mj_JetID j))]"
    "map (jet_drop_row j) [''jet_id'', ''pulse_number''] = [Some (SqlText (mj_JetID j)), Some (SqlInt (mj_PulseNumber j))]"
    "map (jet_drop_row j) [''pulse_number''] = [Some (SqlInt (mj_PulseNumber j))]" for j by (simp_all add: jet_drop_row_def)
  have key_r: "map (record_row r) [''reference''] = [Some (SqlBytes (mr_Reference r))]"
    "map (record_row r) [''jet_id'', ''pulse_number''] = [Some (SqlText (mr_JetID r)), Some (SqlInt (mr_PulseNumber r))]" for r by (simp_all add: record_row_def)
  have e: "enforced explorer_schema (table_rows t) \<longleftrightarrow>
      (finite (pulse_row ` db_pulses t) \<and> inj_on (\<lambda>r. map r [''pulse_number'']) (pulse_row ` db_pulses t)) \<and>
      (finite (jet_drop_row ` db_jet_drops t) \<and> inj_on (\<lambda>r. map r [''pulse_number'', ''jet_id'']) (jet_drop_row ` db_jet_drops t) \<and>
        (\<lambda>r. map r [''pulse_number'']) ` jet_drop_row ` db_jet_drops t \<subseteq> (\<lambda>r. map r [''pulse_number'']) ` pulse_row ` db_pulses t) \<and>
      (finite (record_row ` db_records t) \<and> inj_on (\<lambda>r. map r [''reference'']) (record_row ` db_records t) \<and>
        (\<lambda>r. map r [''jet_id'', ''pulse_number'']) ` record_row ` db_records t \<subseteq> (\<lambda>r. map r [''jet_id'', ''pulse_number'']) ` jet_drop_row ` db_jet_drops t)"
    by (simp add: enforced_def explorer_schema_def table_rows_def new_table_def add_index_def add_foreign_def Pulse_columns_def JetDrop_columns_def Record_columns_def
      key_column_def column_of_def)
  have fk_j: "(\<lambda>r. map r [''pulse_number'']) ` jet_drop_row ` db_jet_drops t \<subseteq> (\<lambda>r. map r [''pulse_number'']) ` pulse_row ` db_pulses t \<longleftrightarrow>
      mj_PulseNumber ` db_jet_drops t \<subseteq> mp_PulseNumber ` db_pulses t"
    unfolding image_image key_j key_p by (auto simp: subset_iff image_iff)
  have fk_r: "(\<lambda>r. map r [''jet_id'', ''pulse_number'']) ` record_row ` db_records t \<subseteq> (\<lambda>r. map r [''jet_id'', ''pulse_number'']) ` jet_drop_row ` db_jet_drops t \<longleftrightarrow>
      rec_jd_key ` db_records t \<subseteq> jd_key ` db_jet_drops t"
    unfolding image_image key_r key_j by (auto simp: subset_iff image_iff rec_jd_key_def jd_key_def)
  have "inj_on (\<lambda>x. [Some (SqlInt (mj_PulseNumber x)), Some (SqlText (mj_JetID x))]) (db_jet_drops t) \<longleftrightarrow> inj_on jd_key (db_jet_drops t)"
    by (auto simp: inj_on_def jd_key_def)
  moreover have "inj_on (\<lambda>x. [Some (SqlInt (mp_PulseNumber x))]) (db_pulses t) \<longleftrightarrow> inj_on mp_PulseNumber (db_pulses t)"
    "inj_on (\<lambda>x. [Some (SqlBytes (mr_Reference x))]) (db_records t) \<longleftrightarrow> inj_on mr_Reference (db_records t)" by (auto simp: inj_on_def)
  ultimately show ?thesis
    unfolding e fk_j fk_r inj_on_rows [OF inj_pulse_row] inj_on_rows [OF inj_jet_drop_row] inj_on_rows [OF inj_record_row]
      finite_rows [OF inj_pulse_row] finite_rows [OF inj_jet_drop_row] finite_rows [OF inj_record_row] key_p key_j key_r constraints_def
    by blast
qed

text \<open>C25: a successful migration of an empty database declares keys that demand of the rows exactly the constraints this development
  works with: unique pulse numbers, unique pairs of jet and pulse, unique references, a pulse for every jet drop and a jet drop for
  every record.\<close>

theorem migration_declares_constraints:
  assumes "schema_library M V" and "V db = []" and "migrate_initial M db = (None, db')"
  shows "enforced (V db') (table_rows t) \<longleftrightarrow> constraints t"
  using schema_library.migrate_adds(1) [OF assms(1,3)] assms(2) schema_demands by simp

theorem migration_declares_constraints_witness:
  "enforced (snd (migrate_initial mem_ddl [])) (table_rows \<lparr>db_pulses = {}, db_jet_drops = {}, db_records = {}\<rparr>) \<longleftrightarrow>
     constraints \<lparr>db_pulses = {}, db_jet_drops = {}, db_records = {}\<rparr>"
  using migration_declares_constraints [OF mem.schema_library_axioms refl mem_migrates] by (simp add: mem_migrates)

text \<open>Rolling the migration of the load test back drops the tables of the first migration with it.\<close>

lemma load_rollback_drops_all:
  assumes "schema_library M V" and "V db = s @ explorer_schema" and "mg_Rollback (LoadTestMigrations M gd) db = (None, db')"
  shows "\<forall>t \<in> set (V db'). td_name t \<notin> td_name ` set explorer_schema"
  using schema_library.drop [OF assms(1), of "[''records'', ''jet_drops'', ''pulses'']" db db'] assms(3)
  by (auto simp: LoadTestMigrations_def explorer_schema_def)

end
