(* ===== verification/Load_Data.thy ===== *)
theory Load_Data
  imports Generators Storage_Write
begin

text \<open>\<open>migrations/generate.go\<close>: the rows that fill the database of a load test.  Beside the sources of the generators there is
  \<open>crypto/rand\<close>, which may fail.\<close>

section \<open>Rows\<close>

record configuration_TestDB =
  tdb_TestPulses :: nat
  tdb_TestJetDrops :: nat
  tdb_TestRecords :: nat

definition generatePulses :: "int \<Rightarrow> nat \<Rightarrow> models_Pulse list" where
  "generatePulses tNow amount = map (\<lambda>k. let i = 4000000 + int k in
     \<lparr>mp_PulseNumber = i, mp_PrevPulseNumber = i - 1, mp_NextPulseNumber = i + 1, mp_IsComplete = True, mp_IsSequential = True,
      mp_Timestamp = tNow + i * 10, mp_JetDropAmount = 0, mp_RecordAmount = 0\<rparr>) [0..<amount]"

text \<open>\<open>rand.Intn\<close> panics when its bound is not positive.\<close>

definition Intn :: "gen_lib \<Rightarrow> nat \<Rightarrow> nat gen" where
  "Intn g n = (if n = 0 then crash InvalidArgument else gbind (draw (\<lambda>k. gl_Int63n g k (int n))) (\<lambda>i. ret (nat i)))"

definition generateRandBytesLen :: "(nat \<Rightarrow> nat \<Rightarrow> error + bytes) \<Rightarrow> nat \<Rightarrow> (error + bytes) gen" where
  "generateRandBytesLen crand l = draw (\<lambda>n. crand n l)"

text \<open>\<open>notNullJetID\<close> draws until the prefix is not zero.\<close>

partial_function (option) notNullJetID :: "insolar_lib \<Rightarrow> gen_lib \<Rightarrow> rstate \<Rightarrow> (string \<times> rstate) outcome option" where
  "notNullJetID L g s = (case draw_jet g s of None \<Rightarrow> None | Some (Panic p) \<Rightarrow> Some (Panic p) | Some (Done (jetID, s)) \<Rightarrow>
     if length (Prefix L jetID) < 8 then Some (Panic IndexOutOfRange)
     else if big_endian (Prefix L jetID) = 0 then notNullJetID L g s
     else (case JetIDToString L jetID of Panic p \<Rightarrow> Some (Panic p) | Done str \<Rightarrow> Some (Done (str, s))))"

definition one_jet_drop :: "insolar_lib \<Rightarrow> gen_lib \<Rightarrow> int \<Rightarrow> models_Pulse list \<Rightarrow> nat \<Rightarrow> bytes \<Rightarrow> models_JetDrop gen" where
  "one_jet_drop L g tNow pulses i rawData = gbind (Intn g (length pulses)) (\<lambda>k. let rPnum = mp_PulseNumber (pulses ! k); pn = of_int rPnum in
     gbind (notNullJetID L g) (\<lambda>jID. gbind (draw (\<lambda>n. gl_IDWithPulse g n pn)) (\<lambda>h1. gbind (draw (\<lambda>n. gl_IDWithPulse g n pn)) (\<lambda>h2.
       ret \<lparr>mj_PulseNumber = rPnum, mj_JetID = jID, mj_FirstPrevHash = h1, mj_SecondPrevHash = h2, mj_Hash = rawData, mj_RawData = rawData,
         mj_Timestamp = tNow + int (i * 2), mj_RecordAmount = 100\<rparr>))))"

definition one_load_record :: "gen_lib \<Rightarrow> int \<Rightarrow> models_JetDrop list \<Rightarrow> nat \<Rightarrow> bytes \<Rightarrow> models_Record gen" where
  "one_load_record g tNow jDrops i rawData = gbind (Intn g (length jDrops)) (\<lambda>k. let j = jDrops ! k; pn = of_int (mj_PulseNumber j) in
     gbind (draw (\<lambda>n. gl_IDWithPulse g n pn)) (\<lambda>ref. gbind (draw (\<lambda>n. gl_IDWithPulse g n pn)) (\<lambda>obj. gbind (draw (\<lambda>n. gl_IDWithPulse g n pn)) (\<lambda>proto.
     gbind (draw (\<lambda>n. gl_IDWithPulse g n pn)) (\<lambda>prev.
       ret \<lparr>mr_Reference = ref, mr_Type = ''state'', mr_ObjectReference = obj, mr_PrototypeReference = proto, mr_Payload = rawData, mr_PrevRecordReference = prev,
         mr_Hash = rawData, mr_RawData = rawData, mr_JetID = mj_JetID j, mr_PulseNumber = mj_PulseNumber j, mr_Order = 0, mr_Timestamp = tNow + int (i * 2)\<rparr>)))))"

text \<open>The loops \<open>for i := 1; i < amount; i++\<close>: fresh bytes first, which may fail, then a row from them.\<close>

fun rows_loop :: "(nat \<Rightarrow> nat \<Rightarrow> error + bytes) \<Rightarrow> (nat \<Rightarrow> bytes \<Rightarrow> 'r gen) \<Rightarrow> nat list \<Rightarrow> 'r list \<Rightarrow> (error + 'r list) gen" where
  "rows_loop crand mk [] rows = ret (Inr rows)"
| "rows_loop crand mk (i # is) rows = gbind (generateRandBytesLen crand 32) (\<lambda>b. case b of
     Inl err \<Rightarrow> ret (Inl err) | Inr rawData \<Rightarrow> gbind (mk i rawData) (\<lambda>row. rows_loop crand mk is (rows @ [row])))"

definition generateJetDrops :: "insolar_lib \<Rightarrow> gen_lib \<Rightarrow> (nat \<Rightarrow> nat \<Rightarrow> error + bytes) \<Rightarrow> int \<Rightarrow> models_Pulse list \<Rightarrow> nat \<Rightarrow> (error + models_JetDrop list) gen" where
  "generateJetDrops L g crand tNow pulses amount = rows_loop crand (one_jet_drop L g tNow pulses) [1..<amount] []"

definition load_records :: "gen_lib \<Rightarrow> (nat \<Rightarrow> nat \<Rightarrow> error + bytes) \<Rightarrow> int \<Rightarrow> models_JetDrop list \<Rightarrow> nat \<Rightarrow> (error + models_Record list) gen" where
  "load_records g crand tNow jDrops amount = rows_loop crand (one_load_record g tNow jDrops) [1..<amount] []"

section \<open>Saving them\<close>

text \<open>\<open>save\<close> is \<open>tx.Save\<close> of a pulse, \<open>clock\<close> what the three calls of \<open>time.Now\<close> return.\<close>

fun save_all :: "('r \<Rightarrow> ('db, unit) dbop) \<Rightarrow> 'r list \<Rightarrow> ('db, unit) dbop" where
  "save_all save [] db = (Inr (), db)"
| "save_all save (r # rs) db = (case save r db of (Inl err, db) \<Rightarrow> (Inl err, db) | (Inr _, db) \<Rightarrow> save_all save rs db)"

definition generateData :: "insolar_lib \<Rightarrow> gen_lib \<Rightarrow> (nat \<Rightarrow> nat \<Rightarrow> error + bytes) \<Rightarrow> 'db gorm \<Rightarrow> (models_Pulse \<Rightarrow> ('db, unit) dbop) \<Rightarrow> (nat \<Rightarrow> int) \<Rightarrow> configuration_TestDB \<Rightarrow> 'db
    \<Rightarrow> (error option \<times> 'db) gen" where
  "generateData L g crand G save clock cfg db =
     (let pulses = generatePulses (clock 0) (tdb_TestPulses cfg) in
      case save_all save pulses db of (Inl err, db) \<Rightarrow> ret (Some err, db) | (Inr _, db) \<Rightarrow>
        gbind (generateJetDrops L g crand (clock 1) pulses (tdb_TestJetDrops cfg)) (\<lambda>r. case r of Inl err \<Rightarrow> ret (Some err, db) | Inr jdrops \<Rightarrow>
          (case save_all (SaveJetDrop G) jdrops db of (Inl err, db) \<Rightarrow> ret (Some err, db) | (Inr _, db) \<Rightarrow>
            gbind (load_records g crand (clock 2) jdrops (tdb_TestRecords cfg)) (\<lambda>r. case r of Inl err \<Rightarrow> ret (Some err, db) | Inr records \<Rightarrow>
              (case save_all (SaveRecord G) records db of (Inl err, db) \<Rightarrow> ret (Some err, db) | (Inr _, db) \<Rightarrow> ret (None, db))))))"

section \<open>The rows fit together\<close>

definition gruns :: "'a gen \<Rightarrow> ('a \<Rightarrow> bool) \<Rightarrow> bool" where
  "gruns m Q \<longleftrightarrow> (\<forall>s. \<exists>x s'. m s = Some (Done (x, s')) \<and> Q x)"

lemma gruns_ret: "Q x \<Longrightarrow> gruns (ret x) Q"
  by (simp add: gruns_def ret_def)

lemma gruns_bind: "gruns m P \<Longrightarrow> (\<And>x. P x \<Longrightarrow> gruns (f x) Q) \<Longrightarrow> gruns (gbind m f) Q"
  unfolding gruns_def gbind_def by (metis (mono_tags, lifting) case_prod_conv option.simps(5) outcome.simps(5))

lemma gruns_draw: "(\<And>n. Q (source n)) \<Longrightarrow> gruns (draw source) Q"
  by (simp add: gruns_def draw_def)

lemma gruns_weaken: "gruns m P \<Longrightarrow> (\<And>x. P x \<Longrightarrow> Q x) \<Longrightarrow> gruns m Q"
  unfolding gruns_def by blast

lemmas gruns_draw_bind = gruns_bind [OF gruns_draw]

text \<open>What the packages promise: numbers below the bound, jets with a text and now and then one that is not zero, bytes, and identifiers
  that are not empty.\<close>

definition sources_ok :: "insolar_lib \<Rightarrow> gen_lib \<Rightarrow> (nat \<Rightarrow> nat \<Rightarrow> error + bytes) \<Rightarrow> bool" where
  "sources_ok L g crand \<longleftrightarrow> (\<forall>k n. 0 < n \<longrightarrow> 0 \<le> gl_Int63n g k n \<and> gl_Int63n g k n < n) \<and>
     (\<forall>k. 8 \<le> length (Prefix L (gl_JetID g k)) \<and> (\<exists>str. JetIDToString L (gl_JetID g k) = Done str)) \<and>
     (\<forall>n. \<exists>k \<ge> n. big_endian (Prefix L (gl_JetID g k)) \<noteq> 0) \<and> (\<forall>k l. \<exists>b. crand k l = Inr b) \<and> (\<forall>k pn. gl_IDWithPulse g k pn \<noteq> [])"

lemma gruns_Intn:
  assumes "sources_ok L g crand" and "0 < n"
  shows "gruns (Intn g n) (\<lambda>k. k < n)"
proof -
  have "0 \<le> gl_Int63n g k (int n) \<and> gl_Int63n g k (int n) < int n" for k using assms by (simp add: sources_ok_def)
  then show ?thesis using assms(2) by (auto simp: Intn_def nat_less_iff intro!: gruns_draw_bind [where P = "\<lambda>i. 0 \<le> i \<and> i < int n"] gruns_ret)
qed

lemma gruns_notNullJetID:
  assumes "sources_ok L g crand"
  shows "gruns (notNullJetID L g) (\<lambda>_. True)"
  unfolding gruns_def
proof (intro allI)
  fix s :: rstate
  obtain k where "rs_jets s \<le> k" "big_endian (Prefix L (gl_JetID g k)) \<noteq> 0" using assms unfolding sources_ok_def by blast
  then show "\<exists>x s'. notNullJetID L g s = Some (Done (x, s')) \<and> True"
  proof (induction "k - rs_jets s" arbitrary: s rule: less_induct)
    case less
    let ?j = "gl_JetID g (rs_jets s)" and ?s = "s\<lparr>rs_jets := Suc (rs_jets s)\<rparr>"
    obtain str where j: "\<not> length (Prefix L ?j) < 8" "JetIDToString L ?j = Done str"
      using assms unfolding sources_ok_def not_less by blast
    have step: "notNullJetID L g s = (if big_endian (Prefix L ?j) = 0 then notNullJetID L g ?s else Some (Done (str, ?s)))"
      by (subst notNullJetID.simps) (simp add: draw_jet_def j)
    show ?case
    proof (cases "big_endian (Prefix L ?j) = 0")
      case True
      with less.prems have "k - rs_jets ?s < k - rs_jets s" "rs_jets ?s \<le> k" by (auto simp: le_eq_less_or_eq)
      from less.hyps [OF this less.prems(2)] show ?thesis unfolding step if_P [OF True] .
    qed (simp add: step)
  qed
qed

lemma gruns_jet_drop:
  assumes "sources_ok L g crand" and "pulses \<noteq> []"
  shows "gruns (one_jet_drop L g tNow pulses i raw) (\<lambda>j. mj_PulseNumber j \<in> mp_PulseNumber ` set pulses \<and> mj_RecordAmount j = 100)"
  unfolding one_jet_drop_def Let_def
  by (rule gruns_bind [OF gruns_Intn [OF assms(1)]], use assms(2) in simp, rule gruns_bind [OF gruns_notNullJetID [OF assms(1)]])
    (auto intro!: gruns_draw_bind [where P = "\<lambda>_. True"] gruns_ret)

lemma gruns_load_record:
  assumes "sources_ok L g crand" and "jDrops \<noteq> []"
  shows "gruns (one_load_record g tNow jDrops i raw) (\<lambda>r. rec_jd_key r \<in> jd_key ` set jDrops \<and> mr_Reference r \<noteq> [])"
proof -
  have "gl_IDWithPulse g k pn \<noteq> []" for k pn using assms(1) by (simp add: sources_ok_def)
  then show ?thesis unfolding one_load_record_def Let_def
    by (intro gruns_bind [OF gruns_Intn [OF assms(1)]])
      (use assms(2) in \<open>auto intro!: gruns_draw_bind [where P = "\<lambda>b. b \<noteq> []"] gruns_ret simp: rec_jd_key_def jd_key_def\<close>)
qed

lemma gruns_rows:
  assumes "sources_ok L g crand" and "is \<noteq> [] \<Longrightarrow> (\<And>i raw. gruns (mk i raw) P)"
  shows "gruns (rows_loop crand mk is rows) (\<lambda>r. \<exists>rs. r = Inr (rows @ rs) \<and> length rs = length is \<and> (\<forall>x \<in> set rs. P x))"
  using assms(2)
proof (induction "is" arbitrary: rows)
  case Nil
  then show ?case by (auto intro: gruns_ret)
next
  case (Cons i "is")
  have IH: "gruns (rows_loop crand mk is (rows @ [x])) (\<lambda>r. \<exists>rs. r = Inr ((rows @ [x]) @ rs) \<and> length rs = length is \<and> (\<forall>x \<in> set rs. P x))" for x
    by (rule Cons.IH) (rule Cons.prems, simp)
  have up: "gruns (rows_loop crand mk is (rows @ [x])) (\<lambda>r. \<exists>rs. r = Inr (rows @ rs) \<and> length rs = length (i # is) \<and> (\<forall>x \<in> set rs. P x))" if "P x" for x
    by (rule gruns_weaken [OF IH]) (use that in auto)
  have mk: "gruns (mk i raw) P" for raw by (rule Cons.prems) simp
  have b: "\<exists>b. crand n 32 = Inr b" for n using assms(1) by (simp add: sources_ok_def)
  show ?case unfolding rows_loop.simps generateRandBytesLen_def
  proof (rule gruns_draw_bind [where P = "\<lambda>x. \<exists>b. x = Inr b"], rule b, elim exE, hypsubst)
    show "gruns (case Inr raw of Inl err \<Rightarrow> ret (Inl err) | Inr raw \<Rightarrow> gbind (mk i raw) (\<lambda>row. rows_loop crand mk is (rows @ [row])))
      (\<lambda>r. \<exists>rs. r = Inr (rows @ rs) \<and> length rs = length (i # is) \<and> (\<forall>x \<in> set rs. P x))" for raw
      unfolding sum.case by (rule gruns_bind [OF mk up])
  qed
qed

text \<open>What a saved pulse does to the tables, and what \<open>tx.Save\<close> promises of it on a server that is up.\<close>

definition put_pulse :: "models_Pulse \<Rightarrow> database \<Rightarrow> database" where
  "put_pulse p t = t\<lparr>db_pulses := insert p {q \<in> db_pulses t. mp_PulseNumber q \<noteq> mp_PulseNumber p}\<rparr>"

definition saves_pulses :: "('db \<Rightarrow> database) \<Rightarrow> (models_Pulse \<Rightarrow> ('db, unit) dbop) \<Rightarrow> bool" where
  "saves_pulses T save \<longleftrightarrow> (\<forall>p db. mp_PulseNumber p \<noteq> 0 \<longrightarrow> (\<exists>db'. save p db = (Inr (), db') \<and> T db' = put_pulse p (T db)))"

lemma save_all_effect:
  assumes "\<And>r db. r \<in> set rs \<Longrightarrow> I (T db) \<Longrightarrow> \<exists>db'. save r db = (Inr (), db') \<and> T db' = put r (T db) \<and> I (T db')"
  shows "I (T db) \<Longrightarrow> \<exists>db'. save_all save rs db = (Inr (), db') \<and> T db' = fold put rs (T db) \<and> I (T db')"
  using assms
proof (induction rs arbitrary: db)
  case (Cons r rs)
  obtain db1 where 1: "save r db = (Inr (), db1)" "T db1 = put r (T db)" "I (T db1)" using Cons.prems(2) [of r db] Cons.prems(1) by auto
  have "\<exists>db'. save_all save rs db1 = (Inr (), db') \<and> T db' = fold put rs (T db1) \<and> I (T db')"
    by (rule Cons.IH [OF 1(3) Cons.prems(2)]) simp_all
  with 1 show ?case by auto
qed simp

lemma constraints_put_pulse: "constraints t \<Longrightarrow> constraints (put_pulse p t)"
proof -
  assume c: "constraints t"
  have "mp_PulseNumber ` db_pulses (put_pulse p t) = insert (mp_PulseNumber p) (mp_PulseNumber ` db_pulses t)" by (auto simp: put_pulse_def)
  moreover have "inj_on mp_PulseNumber (db_pulses (put_pulse p t))" using c by (auto simp: put_pulse_def constraints_def inj_on_def)
  ultimately show ?thesis using c by (auto simp: put_pulse_def constraints_def)
qed

lemma constraints_put_drop: "constraints t \<Longrightarrow> mj_PulseNumber j \<in> mp_PulseNumber ` db_pulses t \<Longrightarrow> constraints (put_jet_drop j t)"
proof -
  assume c: "constraints t" and j: "mj_PulseNumber j \<in> mp_PulseNumber ` db_pulses t"
  have "inj_on jd_key (db_jet_drops (put_jet_drop j t))" using c by (auto simp: put_jet_drop_def constraints_def inj_on_def)
  moreover have "mj_PulseNumber ` db_jet_drops (put_jet_drop j t) \<subseteq> mp_PulseNumber ` db_pulses t" using c j by (auto simp: put_jet_drop_def constraints_def)
  moreover have "rec_jd_key ` db_records t \<subseteq> jd_key ` db_jet_drops (put_jet_drop j t)"
    using c unfolding keys_put_jet_drop by (auto simp: constraints_def)
  ultimately show ?thesis using c by (auto simp: put_jet_drop_def constraints_def)
qed

lemma constraints_put_record: "constraints t \<Longrightarrow> rec_jd_key r \<in> jd_key ` db_jet_drops t \<Longrightarrow> constraints (put_record r t)"
proof -
  assume c: "constraints t" and r: "rec_jd_key r \<in> jd_key ` db_jet_drops t"
  have "inj_on mr_Reference (db_records (put_record r t))" using c by (auto simp: put_record_def constraints_def inj_on_def)
  then show ?thesis using c r by (auto simp: put_record_def constraints_def)
qed

lemma fold_put_pulses: "distinct (map mp_PulseNumber ps) \<Longrightarrow> mp_PulseNumber ` set ps \<inter> mp_PulseNumber ` db_pulses t = {} \<Longrightarrow>
    fold put_pulse ps t = t\<lparr>db_pulses := set ps \<union> db_pulses t\<rparr>"
proof (induction ps arbitrary: t)
  case (Cons p ps)
  have "mp_PulseNumber p \<notin> mp_PulseNumber ` db_pulses t" using Cons.prems(2) by simp
  then have "{q \<in> db_pulses t. mp_PulseNumber q \<noteq> mp_PulseNumber p} = db_pulses t" by (auto simp: image_iff)
  then have p: "put_pulse p t = t\<lparr>db_pulses := insert p (db_pulses t)\<rparr>" by (simp add: put_pulse_def)
  then have "mp_PulseNumber ` set ps \<inter> mp_PulseNumber ` db_pulses (put_pulse p t) = {}" using Cons.prems by auto
  from Cons.IH [OF _ this] Cons.prems(1) show ?case by (simp add: p)
qed simp

lemma fold_put_drops: "db_pulses (fold put_jet_drop js t) = db_pulses t \<and> db_records (fold put_jet_drop js t) = db_records t \<and>
    db_jet_drops (fold put_jet_drop js t) \<subseteq> set js \<union> db_jet_drops t \<and> jd_key ` set js \<subseteq> jd_key ` db_jet_drops (fold put_jet_drop js t) \<and>
    jd_key ` db_jet_drops t \<subseteq> jd_key ` db_jet_drops (fold put_jet_drop js t)"
proof (induction js arbitrary: t)
  case (Cons j js)
  have "jd_key ` db_jet_drops (put_jet_drop j t) = insert (jd_key j) (jd_key ` db_jet_drops t)" by (rule keys_put_jet_drop)
  moreover have "db_jet_drops (put_jet_drop j t) \<subseteq> insert j (db_jet_drops t)" by auto
  ultimately show ?case using Cons.IH [of "put_jet_drop j t"] by (auto simp del: put_jet_drop_simps(3))
qed simp

lemma fold_put_records: "db_pulses (fold put_record rs t) = db_pulses t \<and> db_jet_drops (fold put_record rs t) = db_jet_drops t \<and>
    db_records (fold put_record rs t) \<subseteq> set rs \<union> db_records t"
proof (induction rs arbitrary: t)
  case (Cons r rs)
  then show ?case by (force simp: put_record_def)
qed simp

lemma generatePulses_numbers: "map mp_PulseNumber (generatePulses tNow n) = map (\<lambda>k. 4000000 + int k) [0..<n]"
  by (simp add: generatePulses_def Let_def o_def)

lemma generatePulses_distinct: "distinct (map mp_PulseNumber (generatePulses tNow n))"
  unfolding generatePulses_numbers by (simp add: distinct_map inj_on_def)

lemma generatePulses_nonzero: "p \<in> set (generatePulses tNow n) \<Longrightarrow> mp_PulseNumber p \<noteq> 0"
  by (auto simp: generatePulses_def Let_def)

text \<open>A filled database: the keys hold, the pulses are the generated ones, and there is one row less than asked for, or fewer when keys
  were drawn twice.\<close>

definition loaded :: "(nat \<Rightarrow> int) \<Rightarrow> configuration_TestDB \<Rightarrow> database \<Rightarrow> bool" where
  "loaded clock cfg t \<longleftrightarrow> constraints t \<and> db_pulses t = set (generatePulses (clock 0) (tdb_TestPulses cfg)) \<and>
     card (db_jet_drops t) \<le> tdb_TestJetDrops cfg - 1 \<and> card (db_records t) \<le> tdb_TestRecords cfg - 1 \<and> (\<forall>j \<in> db_jet_drops t. mj_RecordAmount j = 100)"

definition no_rows :: database where
  "no_rows = \<lparr>db_pulses = {}, db_jet_drops = {}, db_records = {}\<rparr>"

context healthy_db
begin

lemma saved_pulses:
  assumes "saves_pulses T save" and "T db = no_rows"
  shows "\<exists>db'. save_all save (generatePulses tNow n) db = (Inr (), db') \<and> T db' = no_rows\<lparr>db_pulses := set (generatePulses tNow n)\<rparr>"
proof -
  have "\<exists>db'. save_all save (generatePulses tNow n) db = (Inr (), db') \<and> T db' = fold put_pulse (generatePulses tNow n) (T db) \<and> True"
    by (rule save_all_effect) (use assms(1) generatePulses_nonzero in \<open>auto simp: saves_pulses_def\<close>)
  then show ?thesis using fold_put_pulses [OF generatePulses_distinct, of tNow n no_rows] assms(2) by (auto simp: no_rows_def)
qed

lemma saved_drops:
  assumes "constraints (T db)" and "\<And>j. j \<in> set js \<Longrightarrow> mj_PulseNumber j \<in> mp_PulseNumber ` db_pulses (T db)" and "0 \<notin> mp_PulseNumber ` db_pulses (T db)"
  shows "\<exists>db'. save_all (SaveJetDrop G) js db = (Inr (), db') \<and> T db' = fold put_jet_drop js (T db) \<and> constraints (T db')"
proof -
  let ?I = "\<lambda>t. constraints t \<and> db_pulses t = db_pulses (T db)"
  have "\<exists>db'. SaveJetDrop G j d = (Inr (), db') \<and> T db' = put_jet_drop j (T d) \<and> ?I (T db')" if "j \<in> set js" "?I (T d)" for j d
  proof -
    have p: "mj_PulseNumber j \<in> mp_PulseNumber ` db_pulses (T d)" "mj_PulseNumber j \<noteq> 0" using assms(2) [OF that(1)] that(2) assms(3) by auto
    obtain r d' where s: "SaveJetDrop G j d = (r, d')" by (metis surj_pair)
    with p save_jet_drop_fails [of j d] obtain u where r: "r = Inr u" by (cases r) auto
    with s save_jet_drop [of j] have "T d' = put_jet_drop j (T d)" by (auto simp: writes_def)
    then show ?thesis using s r that(2) constraints_put_drop [OF _ p(1)] by (auto simp del: put_jet_drop_simps(3))
  qed
  from save_all_effect [of js ?I T "SaveJetDrop G" put_jet_drop, OF this] assms(1) show ?thesis by auto
qed

lemma saved_records:
  assumes "constraints (T db)" and "\<And>r. r \<in> set rs \<Longrightarrow> rec_jd_key r \<in> jd_key ` db_jet_drops (T db) \<and> mr_Reference r \<noteq> []"
  shows "\<exists>db'. save_all (SaveRecord G) rs db = (Inr (), db') \<and> T db' = fold put_record rs (T db) \<and> constraints (T db')"
proof -
  let ?I = "\<lambda>t. constraints t \<and> db_jet_drops t = db_jet_drops (T db)"
  have "\<exists>db'. SaveRecord G x d = (Inr (), db') \<and> T db' = put_record x (T d) \<and> ?I (T db')" if "x \<in> set rs" "?I (T d)" for x d
  proof -
    have p: "rec_jd_key x \<in> jd_key ` db_jet_drops (T d)" "mr_Reference x \<noteq> []" using assms(2) [OF that(1)] that(2) by auto
    obtain r d' where s: "SaveRecord G x d = (r, d')" by (metis surj_pair)
    with p save_record_fails [of x d] obtain u where r: "r = Inr u" by (cases r) auto
    with s save_record [of x] have "T d' = put_record x (T d)" by (auto simp: writes_def)
    then show ?thesis using s r that(2) constraints_put_record [OF _ p(1)] by auto
  qed
  from save_all_effect [of rs ?I T "SaveRecord G" put_record, OF this] assms(1) show ?thesis by auto
qed

lemma records_loaded:
  assumes src: "sources_ok L g crand" and cfg: "1 < tdb_TestRecords cfg \<Longrightarrow> 1 < tdb_TestJetDrops cfg"
    and js: "length js = tdb_TestJetDrops cfg - 1" "\<forall>j \<in> set js. mj_RecordAmount j = 100" "T db = fold put_jet_drop js t" "constraints (T db)"
    and t: "t = no_rows\<lparr>db_pulses := set (generatePulses (clock 0) (tdb_TestPulses cfg))\<rparr>"
  shows "gruns (gbind (load_records g crand (clock 2) js (tdb_TestRecords cfg)) (\<lambda>r. case r of Inl err \<Rightarrow> ret (Some err, db) | Inr records \<Rightarrow>
      (case save_all (SaveRecord G) records db of (Inl err, db) \<Rightarrow> ret (Some err, db) | (Inr _, db) \<Rightarrow> ret (None, db))))
      (\<lambda>r. \<exists>db'. r = (None, db') \<and> loaded clock cfg (T db'))"
proof (rule gruns_bind)
  let ?P = "\<lambda>r. rec_jd_key r \<in> jd_key ` set js \<and> mr_Reference r \<noteq> []"
  show "gruns (load_records g crand (clock 2) js (tdb_TestRecords cfg)) (\<lambda>r. \<exists>rs. r = Inr ([] @ rs) \<and> length rs = length [1..<tdb_TestRecords cfg] \<and> (\<forall>x \<in> set rs. ?P x))"
    unfolding load_records_def
  proof (rule gruns_rows [OF src])
    assume "[1..<tdb_TestRecords cfg] \<noteq> []"
    then have "js \<noteq> []" using cfg js(1) by auto
    then show "gruns (one_load_record g (clock 2) js i raw) ?P" for i raw by (rule gruns_load_record [OF src])
  qed
  fix r :: "error + models_Record list"
  assume "\<exists>rs. r = Inr ([] @ rs) \<and> length rs = length [1..<tdb_TestRecords cfg] \<and> (\<forall>x \<in> set rs. ?P x)"
  then obtain rs where r: "r = Inr rs" "length rs = tdb_TestRecords cfg - 1" "\<forall>x \<in> set rs. ?P x" by auto
  have keys: "jd_key ` set js \<subseteq> jd_key ` db_jet_drops (T db)" and sub: "db_jet_drops (T db) \<subseteq> set js" and rest: "db_pulses (T db) = db_pulses t" "db_records (T db) = {}"
    using fold_put_drops [of js t] unfolding js(3) by (auto simp: t no_rows_def)
  obtain d where d: "save_all (SaveRecord G) rs db = (Inr (), d)" "T d = fold put_record rs (T db)" "constraints (T d)"
    using saved_records [OF js(4), of rs] r(3) keys by blast
  have "db_records (T d) \<subseteq> set rs" "db_pulses (T d) = db_pulses t" "db_jet_drops (T d) \<subseteq> set js"
    using fold_put_records [of rs "T db"] sub unfolding d(2) by (auto simp: rest)
  then have "loaded clock cfg (T d)" using d(3) r(2) js(1,2) card_length [of rs] card_length [of js] card_mono [of "set rs" "db_records (T d)"] card_mono [of "set js" "db_jet_drops (T d)"]
    by (auto simp: loaded_def t)
  then show "gruns (case r of Inl err \<Rightarrow> ret (Some err, db) | Inr records \<Rightarrow>
      (case save_all (SaveRecord G) records db of (Inl err, db) \<Rightarrow> ret (Some err, db) | (Inr _, db) \<Rightarrow> ret (None, db)))
      (\<lambda>r. \<exists>db'. r = (None, db') \<and> loaded clock cfg (T db'))"
    by (simp add: r(1) d(1) gruns_ret)
qed

lemma load_data:
  assumes src: "sources_ok L g crand" and save: "saves_pulses T save" and cfg: "0 < tdb_TestPulses cfg" "1 < tdb_TestRecords cfg \<Longrightarrow> 1 < tdb_TestJetDrops cfg"
    and empty: "T db = no_rows"
  shows "gruns (generateData L g crand G save clock cfg db) (\<lambda>r. \<exists>db'. r = (None, db') \<and> loaded clock cfg (T db'))"
proof -
  let ?ps = "generatePulses (clock 0) (tdb_TestPulses cfg)"
  let ?P = "\<lambda>j. mj_PulseNumber j \<in> mp_PulseNumber ` set ?ps \<and> mj_RecordAmount j = 100"
  have ps: "?ps \<noteq> []" "0 \<notin> mp_PulseNumber ` set ?ps" using cfg(1) by (auto simp: generatePulses_def Let_def)
  obtain d1 where d1: "save_all save ?ps db = (Inr (), d1)" "T d1 = no_rows\<lparr>db_pulses := set ?ps\<rparr>" using saved_pulses [OF save empty] by blast
  have c1: "constraints (T d1)" using generatePulses_distinct [of "clock 0" "tdb_TestPulses cfg"] by (simp add: d1(2) no_rows_def constraints_def distinct_map)
  have drops: "gruns (generateJetDrops L g crand (clock 1) ?ps (tdb_TestJetDrops cfg))
      (\<lambda>r. \<exists>rs. r = Inr ([] @ rs) \<and> length rs = length [1..<tdb_TestJetDrops cfg] \<and> (\<forall>x \<in> set rs. ?P x))"
    unfolding generateJetDrops_def by (rule gruns_rows [OF src gruns_jet_drop [OF src ps(1)]])
  show ?thesis
    unfolding generateData_def Let_def d1(1) prod.case sum.case
  proof (rule gruns_bind [OF drops])
    fix r :: "error + models_JetDrop list"
    assume "\<exists>rs. r = Inr ([] @ rs) \<and> length rs = length [1..<tdb_TestJetDrops cfg] \<and> (\<forall>x \<in> set rs. ?P x)"
    then obtain js where r: "r = Inr js" "length js = tdb_TestJetDrops cfg - 1" "\<forall>x \<in> set js. ?P x" by auto
    have "mj_PulseNumber j \<in> mp_PulseNumber ` db_pulses (T d1)" if "j \<in> set js" for j using r(3) that by (simp add: d1(2))
    moreover have "0 \<notin> mp_PulseNumber ` db_pulses (T d1)" using ps(2) by (simp add: d1(2))
    ultimately obtain d2 where d2: "save_all (SaveJetDrop G) js d1 = (Inr (), d2)" "T d2 = fold put_jet_drop js (T d1)" "constraints (T d2)"
      using saved_drops [OF c1] by blast
    show "gruns (case r of Inl err \<Rightarrow> ret (Some err, d1) | Inr jdrops \<Rightarrow> (case save_all (SaveJetDrop G) jdrops d1 of (Inl err, db) \<Rightarrow> ret (Some err, db) | (Inr _, db) \<Rightarrow>
        gbind (load_records g crand (clock 2) jdrops (tdb_TestRecords cfg)) (\<lambda>r. case r of Inl err \<Rightarrow> ret (Some err, db) | Inr records \<Rightarrow>
          (case save_all (SaveRecord G) records db of (Inl err, db) \<Rightarrow> ret (Some err, db) | (Inr _, db) \<Rightarrow> ret (None, db)))))
        (\<lambda>r. \<exists>db'. r = (None, db') \<and> loaded clock cfg (T db'))"
      unfolding r(1) sum.case d2(1) prod.case
      by (rule records_loaded [OF src cfg(2) r(2) _ d2(2,3)], use r(3) d1(2) in simp_all)
  qed
qed

end

text \<open>On a server that is up and with empty tables, the load migration ends without an error whatever is drawn, as long as there is a
  pulse to draw for a jet drop and a jet drop to draw for a record.  All keys hold in the rows it leaves, the pulses are the generated ones, and
  there are at most one jet drop and one record less than the configuration asks for; each jet drop claims a hundred records.\<close>

theorem load_data_saved:
  assumes "healthy_db G T" and "sources_ok L g crand" and "saves_pulses T save" and "0 < tdb_TestPulses cfg" and "1 < tdb_TestRecords cfg \<longrightarrow> 1 < tdb_TestJetDrops cfg"
    and "T db = no_rows"
  shows "\<exists>db' s'. generateData L g crand G save clock cfg db s = Some (Done ((None, db'), s')) \<and> loaded clock cfg (T db')"
  using healthy_db.load_data [OF assms(1-4) _ assms(6), of clock] assms(5) unfolding gruns_def by blast

definition rel_save_pulse :: "models_Pulse \<Rightarrow> (tables, unit) dbop" where
  "rel_save_pulse p t = (Inr (), t\<lparr>t_pulses := p # filter (\<lambda>q. mp_PulseNumber q \<noteq> mp_PulseNumber p) (t_pulses t)\<rparr>)"

lemma rel_saves_pulses: "saves_pulses tables_db rel_save_pulse"
  by (auto simp: saves_pulses_def rel_save_pulse_def put_pulse_def tables_db_def)

lemma unary_sources: "sources_ok unary_lib unary_gen (\<lambda>k l. Inr (replicate l 0))"
  unfolding sources_ok_def
proof (intro conjI allI impI)
  fix n :: nat
  have "(of_nat (256 * n + 1) :: 8 word) = 1" by (subst word_of_nat_eq_iff [of _ 1, simplified]) (simp add: take_bit_eq_mod)
  then have "big_endian (Prefix unary_lib (gl_JetID unary_gen (256 * n + 1))) \<noteq> 0"
    by (simp del: of_nat_add of_nat_mult add: big_endian_def unary_lib_def plain_lib_def unary_gen_def)
  then show "\<exists>k \<ge> n. big_endian (Prefix unary_lib (gl_JetID unary_gen k)) \<noteq> 0" by (intro exI [of _ "256 * n + 1"]) simp
  show "\<exists>str. JetIDToString unary_lib (gl_JetID unary_gen n) = Done str" by (simp add: JetIDToString_eq unary_lib_def plain_lib_def unary_gen_def)
qed (simp_all add: unary_lib_def plain_lib_def unary_gen_def)

definition two_rows_cfg :: configuration_TestDB where
  "two_rows_cfg = \<lparr>tdb_TestPulses = 2, tdb_TestJetDrops = 3, tdb_TestRecords = 3\<rparr>"

theorem load_data_saved_witness:
  "\<exists>db' s'. generateData unary_lib unary_gen (\<lambda>k l. Inr (replicate l 0)) rel_gorm rel_save_pulse (\<lambda>_. 0) two_rows_cfg \<lparr>t_pulses = [], t_jet_drops = [], t_records = []\<rparr> gen_start =
     Some (Done ((None, db'), s')) \<and> loaded (\<lambda>_. 0) two_rows_cfg (tables_db db')"
  by (rule load_data_saved [OF rel.healthy_db_axioms unary_sources rel_saves_pulses]) (simp_all add: two_rows_cfg_def tables_db_def no_rows_def)

end
