(* ===== verification/Load.thy ===== *)
theory Load
  imports API_Links Load_Data
begin

text \<open>The load test of the API (\<open>load\<close>): the attacks, the requests they make, and the preparation of \<open>load/cmd/load/main.go\<close>, which asks the API for
  its pulses, jet drops and records and writes what the attacks read.  The client generated from the API specification, the HTTP client and the
  library \<open>loadgen\<close> that runs the attacks are parameters.  The theorems relate the rows that are written to the jet drops on the server, through the handlers
  of the API and the storage, and the requests the attacks make of these rows to the identifiers the API reads.\<close>

section \<open>Parameters of the model\<close>

text \<open>State \<open>'w\<close> is all the world outside the program: the server, the network, the reader of the rows of the attack.  The calls of the generated client
  carry the only option the code sets, the limit.\<close>

record 'w load_lib =
  DefaultReadCSV :: "'w \<Rightarrow> string list \<times> 'w"                    \<comment> \<open>loadgen.DefaultReadCSV(a)\<close>
  PulseApi_Pulses :: "int \<Rightarrow> ('w, api_Pulse list) dbop"
  PulseApi_Pulse :: "int \<Rightarrow> ('w, api_Pulse) dbop"
  JetDropApi_JetDropsByPulseNumber :: "int \<Rightarrow> int \<Rightarrow> ('w, api_JetDrop list) dbop"
  JetDropApi_JetDropsByJetID :: "string \<Rightarrow> ('w, api_JetDrop list) dbop"
  RecordApi_JetDropRecords :: "string \<Rightarrow> int \<Rightarrow> ('w, api_Record list) dbop"
  RecordApi_ObjectLifeline :: "string \<Rightarrow> ('w, api_Record list) dbop"
  SearchApi_Search :: "string \<Rightarrow> ('w, body) dbop"
  NewRequest_ok :: "string \<Rightarrow> bool"                              \<comment> \<open>http.NewRequest("GET", url, nil) returns a request\<close>
  http_Do :: "string \<Rightarrow> ('w, nat) dbop"                           \<comment> \<open>http.Client.Do, with the status of the answer\<close>
  Body_ReadAll :: "'w \<Rightarrow> error option \<times> 'w"                     \<comment> \<open>ioutil.ReadAll(res.Body)\<close>
  Body_Close :: "'w \<Rightarrow> 'w"
  csv_Write :: "string \<Rightarrow> string list list \<Rightarrow> string list \<Rightarrow> error option"  \<comment> \<open>csv.Writer.Write to a file with the rows written so far\<close>

section \<open>Numbers\<close>

text \<open>\<open>v, _ := strconv.ParseInt(s, 10, 64)\<close>: the value that comes with an error is 0 for a text that is no number, the nearest bound for a number out of range.
  The digits are read up to the first one that decides.\<close>

fun ParseUint_value :: "nat \<Rightarrow> string \<Rightarrow> nat" where
  "ParseUint_value n [] = n"
| "ParseUint_value n (c # cs) = (if \<not> is_digit c then 0
     else let n1 = n * 10 + digit_val c in if 2 ^ 64 \<le> n1 then 2 ^ 64 - 1 else ParseUint_value n1 cs)"

definition ParseInt_value :: "string \<Rightarrow> int" where
  "ParseInt_value s =
     (let neg = (s \<noteq> [] \<and> hd s = CHR ''-'');
          ds = (if s \<noteq> [] \<and> (hd s = CHR ''-'' \<or> hd s = CHR ''+'') then tl s else s);
          un = ParseUint_value 0 ds
      in if \<not> neg \<and> 2 ^ 63 \<le> un then 2 ^ 63 - 1 else if neg \<and> 2 ^ 63 < un then - (2 ^ 63)
         else if neg then - int un else int un)"

lemma dec_val_Cons: "foldl (\<lambda>v c. v * 10 + digit_val c) n (c # cs) = foldl (\<lambda>v c. v * 10 + digit_val c) (n * 10 + digit_val c) cs"
  by simp

lemma dec_fold_mono: "n \<le> foldl (\<lambda>v c. v * 10 + digit_val c) n cs"
proof (induction cs arbitrary: n)
  case (Cons c cs)
  have "n \<le> n * 10 + digit_val c" by simp
  also have "\<dots> \<le> foldl (\<lambda>v c. v * 10 + digit_val c) (n * 10 + digit_val c) cs" by (rule Cons.IH)
  finally show ?case by simp
qed simp

lemma ParseUint_value_eq:
  "list_all is_digit cs \<Longrightarrow> foldl (\<lambda>v c. v * 10 + digit_val c) n cs < 2 ^ 64 \<Longrightarrow>
     ParseUint_value n cs = foldl (\<lambda>v c. v * 10 + digit_val c) n cs"
proof (induction cs arbitrary: n)
  case (Cons c cs)
  have "n * 10 + digit_val c < 2 ^ 64" using Cons.prems(2) dec_fold_mono [of "n * 10 + digit_val c" cs] by simp
  with Cons show ?case by (simp add: Let_def)
qed simp

lemma ParseInt_value_eq: "ParseInt s = Some v \<Longrightarrow> ParseInt_value s = v"
proof -
  assume p: "ParseInt s = Some v"
  define ds where "ds = (if s \<noteq> [] \<and> (hd s = CHR ''-'' \<or> hd s = CHR ''+'') then tl s else s)"
  define neg where "neg \<longleftrightarrow> s \<noteq> [] \<and> hd s = CHR ''-''"
  have d: "list_all is_digit ds" "v = (if neg then - int (dec_val ds) else int (dec_val ds))" "int64_range v"
    using p unfolding ParseInt_def Let_def ds_def [symmetric] neg_def [symmetric] by (auto split: if_splits)
  then have b: "dec_val ds \<le> 2 ^ 63" "\<not> neg \<Longrightarrow> dec_val ds < 2 ^ 63" by (auto simp: int64_range_def split: if_splits)
  then have "ParseUint_value 0 ds = dec_val ds" unfolding dec_val_def
    by (intro ParseUint_value_eq) (use d(1) b(1) in \<open>simp_all add: dec_val_def\<close>)
  then show ?thesis using b d(2) unfolding ParseInt_value_def Let_def ds_def [symmetric] neg_def [symmetric] by (cases neg) auto
qed

text \<open>\<open>int32(x)\<close>\<close>

definition to_int32 :: "int \<Rightarrow> int" where
  "to_int32 x = sint (word_of_int x :: 32 word)"

lemma to_int32_small: "0 \<le> x \<Longrightarrow> x < 2 ^ 31 \<Longrightarrow> to_int32 x = x"
  by (simp add: to_int32_def signed_of_int signed_take_bit_int_eq_self)

section \<open>Attacks\<close>

text \<open>\<open>labels.go\<close>\<close>

definition GetPulseLabel :: string where "GetPulseLabel = ''get_pulse''"
definition GetPulsesLabel :: string where "GetPulsesLabel = ''get_pulses''"
definition GetJetDropByIDLabel :: string where "GetJetDropByIDLabel = ''get_jet_drop_by_id''"
definition GetJetDropsByJetIDLabel :: string where "GetJetDropsByJetIDLabel = ''get_jet_drops_by_jet_id''"
definition GetRecordsLabel :: string where "GetRecordsLabel = ''get_records''"
definition GetLifelineLabel :: string where "GetLifelineLabel = ''get_lifeline''"
definition SearchLabel :: string where "SearchLabel = ''search''"
definition GetJetDropsByPulseNumLabel :: string where "GetJetDropsByPulseNumLabel = ''get_jet_drops_by_pulse_number''"

lemmas label_defs = GetPulseLabel_def GetPulsesLabel_def GetJetDropByIDLabel_def GetJetDropsByJetIDLabel_def GetRecordsLabel_def GetLifelineLabel_def
  SearchLabel_def GetJetDropsByPulseNumLabel_def

datatype attack_type = GetPulseAttack | GetPulsesAttack | GetJetDropByIDAttack | GetJetDropsByPulseNumberAttack | GetJetDropsByJetIDAttack |
  GetRecordsAttack | GetLifelineAttack | SearchAttack

datatype monitored = WithMonitor attack_type | WithCSVMonitor attack_type

text \<open>\<open>attackers.go\<close>; for another name the process ends (\<open>log.Fatalf\<close>).\<close>

definition AttackerFromName :: "string \<Rightarrow> monitored option" where
  "AttackerFromName name =
     (if name = ''get_pulse'' then Some (WithMonitor GetPulseAttack)
      else if name = ''get_pulses'' then Some (WithMonitor GetPulsesAttack)
      else if name = ''get_jet_drop_by_id'' then Some (WithMonitor GetJetDropByIDAttack)
      else if name = ''get_jet_drops_by_pulse_number'' then Some (WithMonitor GetJetDropsByPulseNumberAttack)
      else if name = ''get_jet_drops_by_jet_id'' then Some (WithCSVMonitor GetJetDropsByJetIDAttack)
      else if name = ''get_records'' then Some (WithCSVMonitor GetRecordsAttack)
      else if name = ''get_lifeline'' then Some (WithCSVMonitor GetLifelineAttack)
      else if name = ''search'' then Some (WithCSVMonitor SearchAttack)
      else None)"

text \<open>The state of an attack: its runner's settings, and, once \<open>Setup\<close> has run, the client and the limit.\<close>

record load_attack =
  at_type :: attack_type
  at_metadata :: "(string, string) gomap"
  at_target :: string
  at_client :: bool
  at_limit :: int

definition new_attack :: "attack_type \<Rightarrow> (string, string) gomap \<Rightarrow> string \<Rightarrow> load_attack" where
  "new_attack k metadata target = \<lparr>at_type = k, at_metadata = metadata, at_target = target, at_client = False, at_limit = 0\<rparr>"

text \<open>\<open>Clone\<close>: a new attack of the same type with the runner it is given.\<close>

definition GetPulse_Clone where
  "GetPulse_Clone = new_attack GetPulseAttack"
definition GetPulses_Clone where
  "GetPulses_Clone = new_attack GetPulsesAttack"
definition GetJetDropByID_Clone where
  "GetJetDropByID_Clone = new_attack GetJetDropByIDAttack"
definition GetJetDropsByPulseNumber_Clone where
  "GetJetDropsByPulseNumber_Clone = new_attack GetJetDropsByPulseNumberAttack"
definition GetJetDropsByJetID_Clone where
  "GetJetDropsByJetID_Clone = new_attack GetJetDropsByJetIDAttack"
definition GetRecords_Clone where
  "GetRecords_Clone = new_attack GetRecordsAttack"
definition GetLifeline_Clone where
  "GetLifeline_Clone = new_attack GetLifelineAttack"
definition Search_Clone where
  "Search_Clone = new_attack SearchAttack"

definition Clone :: "attack_type \<Rightarrow> (string, string) gomap \<Rightarrow> string \<Rightarrow> load_attack" where
  "Clone k = (case k of GetPulseAttack \<Rightarrow> GetPulse_Clone
     | GetPulsesAttack \<Rightarrow> GetPulses_Clone
     | GetJetDropByIDAttack \<Rightarrow> GetJetDropByID_Clone
     | GetJetDropsByPulseNumberAttack \<Rightarrow> GetJetDropsByPulseNumber_Clone
     | GetJetDropsByJetIDAttack \<Rightarrow> GetJetDropsByJetID_Clone
     | GetRecordsAttack \<Rightarrow> GetRecords_Clone
     | GetLifelineAttack \<Rightarrow> GetLifeline_Clone
     | SearchAttack \<Rightarrow> Search_Clone)"

text \<open>A call that ends the process, or returns.\<close>

datatype 'a run = Exits error | Returns 'a

definition DefaultLimit :: "load_attack \<Rightarrow> int run" where
  "DefaultLimit a = (case map_of (at_metadata a) ''limit'' of None \<Rightarrow> Returns 100
     | Some pulsesLimit \<Rightarrow> (case ParseInt pulsesLimit of None \<Rightarrow> Exits (Err ''ParseInt'') | Some l \<Rightarrow> Returns (to_int32 l)))"

definition setup_client :: "load_attack \<Rightarrow> load_attack" where
  "setup_client a = a\<lparr>at_client := True\<rparr>"

definition setup_limit :: "load_attack \<Rightarrow> load_attack run" where
  "setup_limit a = (case DefaultLimit a of Exits err \<Rightarrow> Exits err | Returns l \<Rightarrow> Returns (a\<lparr>at_limit := l\<rparr>))"

definition GetPulse_Setup where
  "GetPulse_Setup a = Returns (setup_client a)"
definition GetPulses_Setup where
  "GetPulses_Setup a = setup_limit (setup_client a)"
definition GetJetDropByID_Setup where
  "GetJetDropByID_Setup a = Returns (setup_client a)"
definition GetJetDropsByPulseNumber_Setup where
  "GetJetDropsByPulseNumber_Setup a = setup_limit (setup_client a)"
definition GetJetDropsByJetID_Setup where
  "GetJetDropsByJetID_Setup a = Returns (setup_client a)"
definition GetRecords_Setup where
  "GetRecords_Setup a = Returns (setup_client a)"
definition GetLifeline_Setup where
  "GetLifeline_Setup a = Returns (setup_client a)"
definition Search_Setup where
  "Search_Setup a = setup_limit (setup_client a)"

definition Setup :: "load_attack \<Rightarrow> load_attack run" where
  "Setup a = (case at_type a of GetPulseAttack \<Rightarrow> GetPulse_Setup a
     | GetPulsesAttack \<Rightarrow> GetPulses_Setup a
     | GetJetDropByIDAttack \<Rightarrow> GetJetDropByID_Setup a
     | GetJetDropsByPulseNumberAttack \<Rightarrow> GetJetDropsByPulseNumber_Setup a
     | GetJetDropsByJetIDAttack \<Rightarrow> GetJetDropsByJetID_Setup a
     | GetRecordsAttack \<Rightarrow> GetRecords_Setup a
     | GetLifelineAttack \<Rightarrow> GetLifeline_Setup a
     | SearchAttack \<Rightarrow> Search_Setup a)"

lemma Clone_eq: "Clone k = new_attack k"
  by (cases k) (simp_all add: Clone_def GetPulse_Clone_def GetPulses_Clone_def GetJetDropByID_Clone_def GetJetDropsByPulseNumber_Clone_def GetJetDropsByJetID_Clone_def GetRecords_Clone_def GetLifeline_Clone_def Search_Clone_def)

lemma Setup_keeps: "Setup a = Returns a' \<Longrightarrow> at_client a' \<and> at_type a' = at_type a \<and> at_target a' = at_target a"
  by (cases "at_type a") (auto simp: Setup_def setup_limit_def setup_client_def GetPulse_Setup_def GetPulses_Setup_def GetJetDropByID_Setup_def GetJetDropsByPulseNumber_Setup_def GetJetDropsByJetID_Setup_def GetRecords_Setup_def GetLifeline_Setup_def Search_Setup_def split: run.splits)

record DoResult =
  dr_Error :: "error option"
  dr_RequestLabel :: string

definition do_result :: "string \<Rightarrow> (error + 'a) \<times> 'w \<Rightarrow> DoResult outcome \<times> 'w" where
  "do_result label res = (case res of
     (Inl err, w) \<Rightarrow> (Done \<lparr>dr_Error = Some err, dr_RequestLabel = label\<rparr>, w)
   | (Inr _, w) \<Rightarrow> (Done \<lparr>dr_Error = None, dr_RequestLabel = label\<rparr>, w))"

text \<open>\<open>manual_request.go\<close>: one body for \<open>GetJetDropsByID\<close> and \<open>GetRecordsByID\<close>, which differ in the address.  The request is nil if the address is none.\<close>

definition get_url :: "'w load_lib \<Rightarrow> string \<Rightarrow> 'w \<Rightarrow> (error + unit) outcome \<times> 'w" where
  "get_url L url w =
     (if \<not> NewRequest_ok L url then (Panic NilDereference, w)
      else case http_Do L url w of (Inl err, w) \<Rightarrow> (Done (Inl err), w)
        | (Inr status, w) \<Rightarrow> (case Body_ReadAll L w of
            (Some err, w) \<Rightarrow> (Done (Inl err), w)
          | (None, w) \<Rightarrow> (Done (Inr ()), Body_Close L w)))"

definition GetJetDropsByID :: "'w load_lib \<Rightarrow> load_attack \<Rightarrow> string \<Rightarrow> 'w \<Rightarrow> (error + unit) outcome \<times> 'w" where
  "GetJetDropsByID L a i = get_url L (at_target a @ ''/api/v1/jet-drops/'' @ i)"

definition GetRecordsByID :: "'w load_lib \<Rightarrow> load_attack \<Rightarrow> string \<Rightarrow> 'w \<Rightarrow> (error + unit) outcome \<times> 'w" where
  "GetRecordsByID L a i = get_url L (at_target a @ ''/api/v1/jet-drops/'' @ i @ ''/records'')"

definition url_result :: "string \<Rightarrow> (error + unit) outcome \<times> 'w \<Rightarrow> DoResult outcome \<times> 'w" where
  "url_result label res = (case res of (Panic p, w) \<Rightarrow> (Panic p, w) | (Done r, w) \<Rightarrow> do_result label (r, w))"

text \<open>\<open>Do\<close>.  The attacks read a row first, whose columns are taken by index; a client that is not set up is nil.\<close>

definition with_column :: "'w load_lib \<Rightarrow> (string \<Rightarrow> 'w \<Rightarrow> 'a outcome \<times> 'w) \<Rightarrow> 'w \<Rightarrow> 'a outcome \<times> 'w" where
  "with_column L f w = (case DefaultReadCSV L w of (d, w) \<Rightarrow> if d = [] then (Panic IndexOutOfRange, w) else f (d ! 0) w)"

definition with_columns :: "'w load_lib \<Rightarrow> (string \<Rightarrow> string \<Rightarrow> 'w \<Rightarrow> 'a outcome \<times> 'w) \<Rightarrow> 'w \<Rightarrow> 'a outcome \<times> 'w" where
  "with_columns L f w = (case DefaultReadCSV L w of (d, w) \<Rightarrow> if length d < 2 then (Panic IndexOutOfRange, w) else f (d ! 0) (d ! 1) w)"

definition if_client :: "load_attack \<Rightarrow> ('w \<Rightarrow> 'a outcome \<times> 'w) \<Rightarrow> 'w \<Rightarrow> 'a outcome \<times> 'w" where
  "if_client a f w = (if at_client a then f w else (Panic NilDereference, w))"

definition GetPulse_Do :: "'w load_lib \<Rightarrow> load_attack \<Rightarrow> 'w \<Rightarrow> DoResult outcome \<times> 'w" where
  "GetPulse_Do L a = with_column L (\<lambda>pulse. if_client a (\<lambda>w. do_result GetPulseLabel (PulseApi_Pulse L (ParseInt_value pulse) w)))"

definition GetPulses_Do :: "'w load_lib \<Rightarrow> load_attack \<Rightarrow> 'w \<Rightarrow> DoResult outcome \<times> 'w" where
  "GetPulses_Do L a = if_client a (\<lambda>w. do_result GetPulsesLabel (PulseApi_Pulses L (at_limit a) w))"

definition GetJetDropByID_Do :: "'w load_lib \<Rightarrow> load_attack \<Rightarrow> 'w \<Rightarrow> DoResult outcome \<times> 'w" where
  "GetJetDropByID_Do L a = with_columns L (\<lambda>jetDropID pulseNumber. if_client a (\<lambda>w. url_result GetJetDropByIDLabel
     (GetJetDropsByID L a (ToString (NewJetDropID jetDropID (ParseInt_value pulseNumber))) w)))"

definition GetJetDropsByPulseNumber_Do :: "'w load_lib \<Rightarrow> load_attack \<Rightarrow> 'w \<Rightarrow> DoResult outcome \<times> 'w" where
  "GetJetDropsByPulseNumber_Do L a = with_column L (\<lambda>pulse. if_client a (\<lambda>w.
     do_result GetJetDropsByPulseNumLabel (JetDropApi_JetDropsByPulseNumber L (ParseInt_value pulse) (at_limit a) w)))"

definition GetJetDropsByJetID_Do :: "'w load_lib \<Rightarrow> load_attack \<Rightarrow> 'w \<Rightarrow> DoResult outcome \<times> 'w" where
  "GetJetDropsByJetID_Do L a = with_column L (\<lambda>jetID. if_client a (\<lambda>w. do_result GetJetDropsByJetIDLabel (JetDropApi_JetDropsByJetID L jetID w)))"

definition GetRecords_Do :: "'w load_lib \<Rightarrow> load_attack \<Rightarrow> 'w \<Rightarrow> DoResult outcome \<times> 'w" where
  "GetRecords_Do L a = with_columns L (\<lambda>jetDropID pulseNumber. if_client a (\<lambda>w. url_result GetRecordsLabel
     (GetRecordsByID L a (ToString (NewJetDropID jetDropID (ParseInt_value pulseNumber))) w)))"

definition GetLifeline_Do :: "'w load_lib \<Rightarrow> load_attack \<Rightarrow> 'w \<Rightarrow> DoResult outcome \<times> 'w" where
  "GetLifeline_Do L a = with_column L (\<lambda>objectRef. if_client a (\<lambda>w. do_result GetLifelineLabel (RecordApi_ObjectLifeline L objectRef w)))"

definition Search_Do :: "'w load_lib \<Rightarrow> load_attack \<Rightarrow> 'w \<Rightarrow> DoResult outcome \<times> 'w" where
  "Search_Do L a = with_column L (\<lambda>query. if_client a (\<lambda>w. do_result SearchLabel (SearchApi_Search L query w)))"

definition attack_Do :: "'w load_lib \<Rightarrow> load_attack \<Rightarrow> 'w \<Rightarrow> DoResult outcome \<times> 'w" where
  "attack_Do L a = (case at_type a of GetPulseAttack \<Rightarrow> GetPulse_Do L a | GetPulsesAttack \<Rightarrow> GetPulses_Do L a | GetJetDropByIDAttack \<Rightarrow> GetJetDropByID_Do L a
     | GetJetDropsByPulseNumberAttack \<Rightarrow> GetJetDropsByPulseNumber_Do L a | GetJetDropsByJetIDAttack \<Rightarrow> GetJetDropsByJetID_Do L a
     | GetRecordsAttack \<Rightarrow> GetRecords_Do L a | GetLifelineAttack \<Rightarrow> GetLifeline_Do L a | SearchAttack \<Rightarrow> Search_Do L a)"

lemmas attack_defs = attack_Do_def GetPulse_Do_def GetPulses_Do_def GetJetDropByID_Do_def GetJetDropsByPulseNumber_Do_def GetJetDropsByJetID_Do_def
  GetRecords_Do_def GetLifeline_Do_def Search_Do_def

section \<open>What the attacks report\<close>

lemma do_result_label: "fst (do_result label res) = Done r \<Longrightarrow> dr_RequestLabel r = label"
  by (auto simp: do_result_def split: prod.splits sum.splits)

lemma url_result_label: "fst (url_result label res) = Done r \<Longrightarrow> dr_RequestLabel r = label"
  by (auto simp: url_result_def dest: do_result_label split: prod.splits outcome.splits)

fun type_of :: "monitored \<Rightarrow> attack_type" where
  "type_of (WithMonitor k) = k"
| "type_of (WithCSVMonitor k) = k"

text \<open>An attack reports under the name it is configured by.\<close>

theorem attack_label:
  assumes "AttackerFromName name = Some m" and "at_type a = type_of m" and "fst (attack_Do L a w) = Done r"
  shows "dr_RequestLabel r = name"
  using assms by (auto simp: AttackerFromName_def attack_defs label_defs with_column_def with_columns_def if_client_def
      split: if_splits prod.splits dest!: do_result_label url_result_label)

section \<open>Preparation\<close>

text \<open>The closure \<open>beforeAll\<close> of \<open>main\<close>: the world, and the rows written to each file.  A fatal error ends the process before the writers are flushed.\<close>

record 'w load_prep =
  lp_world :: 'w
  lp_files :: "string \<Rightarrow> string list list"

definition run_bind :: "'a run \<Rightarrow> ('a \<Rightarrow> 'b run) \<Rightarrow> 'b run" where
  "run_bind m f = (case m of Exits err \<Rightarrow> Exits err | Returns a \<Rightarrow> f a)"

fun for_each :: "('x \<Rightarrow> 's \<Rightarrow> 's run) \<Rightarrow> 'x list \<Rightarrow> 's \<Rightarrow> 's run" where
  "for_each f [] s = Returns s"
| "for_each f (x # xs) s = run_bind (f x s) (for_each f xs)"

definition NewCSVWriter :: "string \<Rightarrow> 'w load_prep \<Rightarrow> 'w load_prep" where
  "NewCSVWriter name s = s\<lparr>lp_files := (lp_files s)(name := [])\<rparr>"

definition write_row :: "'w load_lib \<Rightarrow> string \<Rightarrow> string list \<Rightarrow> 'w load_prep \<Rightarrow> 'w load_prep run" where
  "write_row L name row s = (case csv_Write L name (lp_files s name) row of Some err \<Rightarrow> Exits err
     | None \<Rightarrow> Returns (s\<lparr>lp_files := (lp_files s)(name := lp_files s name @ [row])\<rparr>))"

text \<open>\<open>hashset.Set\<close>: its values come in the order of a Go map.\<close>

definition hashset_Add :: "'a \<Rightarrow> 'a list \<Rightarrow> 'a list" where
  "hashset_Add x xs = (if x \<in> set xs then xs else xs @ [x])"

text \<open>A field that is absent in an answer is the empty string of the client's structure.\<close>

definition client_ObjectReference :: "api_Record \<Rightarrow> string" where
  "client_ObjectReference r = (case ar_ObjectReference r of None \<Rightarrow> [] | Some s \<Rightarrow> s)"

definition load_pulses :: "'w load_lib \<Rightarrow> api_Pulse list \<Rightarrow> 'w load_prep \<Rightarrow> 'w load_prep run" where
  "load_pulses L = for_each (\<lambda>p. write_row L ''pulses.csv'' [Itoa (ap_PulseNumber p)])"

definition load_jet_drops :: "'w load_lib \<Rightarrow> int \<Rightarrow> int \<Rightarrow> string list \<times> 'w load_prep \<Rightarrow> (string list \<times> 'w load_prep) run" where
  "load_jet_drops L jetDropsToGet pn = (\<lambda>(uniqJetDropIds, s).
     case JetDropApi_JetDropsByPulseNumber L pn jetDropsToGet (lp_world s) of
       (Inl err, w) \<Rightarrow> Exits err
     | (Inr res, w) \<Rightarrow> for_each (\<lambda>uj (uniqJetDropIds, s).
         run_bind (write_row L ''jet_ids.csv'' [aj_JetId uj, Itoa (aj_PulseNumber uj)] s)
           (\<lambda>s. Returns (hashset_Add (aj_JetDropId uj) uniqJetDropIds, s))) res (uniqJetDropIds, s\<lparr>lp_world := w\<rparr>))"

definition load_objects :: "'w load_lib \<Rightarrow> int \<Rightarrow> string \<Rightarrow> string list \<times> 'w load_prep \<Rightarrow> (string list \<times> 'w load_prep) run" where
  "load_objects L recordsToGet jdID = (\<lambda>(uniqObjectRefs, s).
     case RecordApi_JetDropRecords L jdID recordsToGet (lp_world s) of
       (Inl err, w) \<Rightarrow> Exits err
     | (Inr res, w) \<Rightarrow> for_each (\<lambda>r (uniqObjectRefs, s).
         run_bind (write_row L ''objects.csv'' [client_ObjectReference r] s)
           (\<lambda>s. Returns (hashset_Add (client_ObjectReference r) uniqObjectRefs, s))) res (uniqObjectRefs, s\<lparr>lp_world := w\<rparr>))"

definition beforeAll :: "'w load_lib \<Rightarrow> string range_order \<Rightarrow> configuration_TestDB \<Rightarrow> 'w load_prep \<Rightarrow> (error option \<times> 'w load_prep) run" where
  "beforeAll L ro dbCfg s =
     (let pulsesToGet = to_int32 (int (tdb_TestPulses dbCfg)); jetDropsToGet = to_int32 (int (tdb_TestJetDrops dbCfg));
          recordsToGet = to_int32 (int (tdb_TestRecords dbCfg));
          s = NewCSVWriter ''objects.csv'' (NewCSVWriter ''jet_ids.csv'' (NewCSVWriter ''pulses.csv'' s))
      in case PulseApi_Pulses L pulsesToGet (lp_world s) of
        (Inl err, w) \<Rightarrow> Returns (Some err, s\<lparr>lp_world := w\<rparr>)
      | (Inr res, w) \<Rightarrow> if length res = 0 then Returns (Some (Err ''empty pulses, no data''), s\<lparr>lp_world := w\<rparr>)
        else run_bind (load_pulses L res (s\<lparr>lp_world := w\<rparr>)) (\<lambda>s.
          run_bind (for_each (load_jet_drops L jetDropsToGet) (map ap_PulseNumber res) ([], s)) (\<lambda>(uniqJetDropIds, s).
          run_bind (for_each (load_objects L recordsToGet) (ro 0 uniqJetDropIds) ([], s)) (\<lambda>(uniqObjectRefs, s). Returns (None, s)))))"

lemma run_bind_Returns: "run_bind m f = Returns b \<longleftrightarrow> (\<exists>a. m = Returns a \<and> f a = Returns b)"
  by (cases m) (auto simp: run_bind_def)

lemma hashset_Add_set [simp]: "set (hashset_Add x xs) = insert x (set xs)"
  by (auto simp: hashset_Add_def)

text \<open>The rows a loop writes to one file.\<close>

definition appended :: "string \<Rightarrow> string list list \<Rightarrow> 'w load_prep \<Rightarrow> 'w load_prep" where
  "appended name rows s = s\<lparr>lp_files := (lp_files s)(name := lp_files s name @ rows)\<rparr>"

lemma appended_simps [simp]:
  "appended n [] s = s" "appended n ys (appended n xs s) = appended n (xs @ ys) s" "lp_world (appended n xs s) = lp_world s"
  "lp_files (appended n xs s) m = (if m = n then lp_files s n @ xs else lp_files s m)"
  by (simp_all add: appended_def)

lemma write_row_appends: "write_row L n row s = Returns s' \<Longrightarrow> s' = appended n [row] s"
  by (simp add: write_row_def appended_def split: option.splits)

lemma for_each_writes: "for_each (\<lambda>x. write_row L n (row x)) xs s = Returns s' \<Longrightarrow> s' = appended n (map row xs) s"
proof (induction xs arbitrary: s)
  case (Cons x xs)
  then have "for_each (\<lambda>x. write_row L n (row x)) xs (appended n [row x] s) = Returns s'" by (auto simp: run_bind_Returns dest!: write_row_appends)
  from Cons.IH [OF this] show ?case by simp
qed simp

lemma for_each_collects:
  "for_each (\<lambda>x (u, s). run_bind (write_row L n (row x) s) (\<lambda>s. Returns (hashset_Add (key x) u, s))) xs (u, s) = Returns (u', s') \<Longrightarrow>
     s' = appended n (map row xs) s \<and> set u' = set u \<union> key ` set xs"
proof (induction xs arbitrary: u s)
  case (Cons x xs)
  then have "for_each (\<lambda>x (u, s). run_bind (write_row L n (row x) s) (\<lambda>s. Returns (hashset_Add (key x) u, s))) xs
      (hashset_Add (key x) u, appended n [row x] s) = Returns (u', s')" by (auto simp: run_bind_Returns dest!: write_row_appends)
  from Cons.IH [OF this] show ?case by auto
qed simp

lemma load_pulses_spec: "load_pulses L res s = Returns s' \<Longrightarrow> s' = appended ''pulses.csv'' (map (\<lambda>p. [Itoa (ap_PulseNumber p)]) res) s"
  unfolding load_pulses_def by (rule for_each_writes)

lemma load_jet_drops_spec:
  assumes "load_jet_drops L l pn (u, s) = Returns (u', s')"
  shows "\<exists>res w. JetDropApi_JetDropsByPulseNumber L pn l (lp_world s) = (Inr res, w) \<and> set u' = set u \<union> aj_JetDropId ` set res \<and>
    s' = appended ''jet_ids.csv'' (map (\<lambda>d. [aj_JetId d, Itoa (aj_PulseNumber d)]) res) (s\<lparr>lp_world := w\<rparr>)"
  using assms unfolding load_jet_drops_def by (auto split: prod.splits sum.splits dest!: for_each_collects)

lemma load_objects_spec:
  assumes "load_objects L l i (u, s) = Returns (u', s')"
  shows "\<exists>res w. RecordApi_JetDropRecords L i l (lp_world s) = (Inr res, w) \<and>
    s' = appended ''objects.csv'' (map (\<lambda>r. [client_ObjectReference r]) res) (s\<lparr>lp_world := w\<rparr>)"
  using assms unfolding load_objects_def by (auto split: prod.splits sum.splits dest!: for_each_collects)

section \<open>The client and the API\<close>

text \<open>What the generated client promises: when it returns no error, the server has answered the request, with the options that were given, and the result is the
  one of the answer.  The state \<open>'w\<close> is then the one the handlers work on.\<close>

definition limit_pulses :: "int \<Rightarrow> PulsesParams" where
  "limit_pulses l = \<lparr>ps_Limit = Some l, ps_Offset = None, ps_FromPulseNumber = None, ps_TimestampLte = None, ps_TimestampGte = None, ps_PulseNumberGt = None,
     ps_PulseNumberGte = None, ps_PulseNumberLt = None, ps_PulseNumberLte = None, ps_SortBy = None\<rparr>"

definition limit_drops :: "int \<Rightarrow> JetDropsByPulseNumberParams" where
  "limit_drops l = \<lparr>jp_Limit = Some l, jp_Offset = None, jp_FromJetDropId = None\<rparr>"

definition limit_records :: "int \<Rightarrow> JetDropRecordsParams" where
  "limit_records l = \<lparr>jr_Limit = Some l, jr_Offset = None, jr_FromIndex = None, jr_Type = None\<rparr>"

locale explorer_client =
  fixes A :: api_lib and S :: "'st StorageAPIFetcher" and L :: "'st load_lib"
  assumes pulses_answered: "PulseApi_Pulses L l w = (Inr ps, w') \<Longrightarrow> \<exists>n. Pulses A S (limit_pulses l) w = (JSON 200 (PulsesResponse n ps), w')"
    and drops_answered: "JetDropApi_JetDropsByPulseNumber L pn l w = (Inr ds, w') \<Longrightarrow>
      \<exists>n. JetDropsByPulseNumber A S pn (limit_drops l) w = (JSON 200 (JetDropsResponse n ds), w')"
    and records_answered: "RecordApi_JetDropRecords L i l w = (Inr rs, w') \<Longrightarrow>
      \<exists>n. JetDropRecords A S i (limit_records l) w = (JSON 200 (RecordsResponse n rs), w')"

locale explorer_load = gorm_db G T + explorer_client A "APIStorage G" L for G T A L

lemma rows_all:
  assumes "rows_are P le l 0 tab rows n" and "int (card {r \<in> tab. P r}) \<le> l"
  shows "set rows = {r \<in> tab. P r}" "distinct rows"
proof -
  from assms(1) obtain all where a: "distinct all" "set all = {r \<in> tab. P r}" "rows = page l 0 all" by (auto simp: rows_are_def)
  have "int (length all) \<le> l" using assms(2) a(1,2) by (metis distinct_card)
  then have "rows = all" using a(3) by (simp add: page_def Let_def)
  with a show "set rows = {r \<in> tab. P r}" "distinct rows" by simp_all
qed

context explorer_load
begin

lemma client_pulses:
  assumes "PulseApi_Pulses L l w = (Inr ps, w')"
  shows "T w' = T w \<and> (\<exists>rows n. rows_are (\<lambda>_. True) (desc mp_PulseNumber) l 0 (db_pulses (T w)) rows n \<and>
    map ap_PulseNumber ps = map mp_PulseNumber rows)"
proof -
  from pulses_answered [OF assms] obtain n where "Pulses A (APIStorage G) (limit_pulses l) w = (JSON 200 (PulsesResponse n ps), w')" by blast
  then obtain out where g: "GetPulses G None None None None None None None False l 0 w = (Inr (out, n), w')" and ps: "ps = map PulseToAPI out"
    by (auto simp: Pulses_def handler_eqs limit_pulses_def APIStorage_simps server_error_def checkSortByPulseNumberParameter_def
        split: prod.splits sum.splits if_splits)
  from GetPulses_spec [OF g] obtain rows where r: "T w' = T w" "rows_are (\<lambda>_. True) (desc mp_PulseNumber) l 0 (db_pulses (T w)) rows n"
      "list_all2 (link_ok (T w)) rows out" by (auto simp: number_in_def)
  have "map mp_PulseNumber rows = map mp_PulseNumber out"
    using r(3) by (induction rule: list_all2_induct) (auto simp: link_ok_def dest: unlinked_number)
  with r show ?thesis by (auto simp: ps PulseToAPI_def)
qed

lemma client_drops:
  assumes "JetDropApi_JetDropsByPulseNumber L pn l w = (Inr ds, w')"
  shows "T w' = T w \<and> (\<exists>rows n. rows_are (\<lambda>j. mj_PulseNumber j = pn) (asc mj_JetID) l 0 (db_jet_drops (T w)) rows n \<and>
    ds = map (\<lambda>j. JetDropToAPI j [] []) rows)"
proof -
  from drops_answered [OF assms] obtain n where "JetDropsByPulseNumber A (APIStorage G) pn (limit_drops l) w = (JSON 200 (JetDropsResponse n ds), w')" by blast
  then obtain rows where g: "GetJetDropsWithParams G (numbered pn) None l 0 w = (Inr (rows, n), w')" and ds: "ds = map (\<lambda>j. JetDropToAPI j [] []) rows"
    by (auto simp: JetDropsByPulseNumber_def handler_eqs limit_drops_def APIStorage_simps server_error_def split: prod.splits sum.splits if_splits)
  from GetJetDropsWithParams_spec [OF g] show ?thesis by (auto simp: ds numbered_def)
qed

lemma client_records:
  assumes "RecordApi_JetDropRecords L i l w = (Inr rs, w')"
  shows "T w' = T w \<and> (\<exists>jid rows n. NewJetDropIDFromString i = Inr jid \<and> rs = map (RecordToAPI A) rows \<and>
    rows_are (\<lambda>r. rec_jd_key r = (ji_JetID jid, ji_PulseNumber jid)) (rec_le True) l 0 (db_records (T w)) rows n)"
proof -
  from records_answered [OF assms] obtain n where "JetDropRecords A (APIStorage G) i (limit_records l) w = (JSON 200 (RecordsResponse n rs), w')" by blast
  then obtain jid rows where j: "NewJetDropIDFromString i = Inr jid" and g: "GetRecordsByJetDrop G jid None None l 0 w = (Inr (rows, n), w')"
      and rs: "rs = map (RecordToAPI A) rows"
    by (auto simp: JetDropRecords_def handler_eqs limit_records_def APIStorage_simps server_error_def split: prod.splits sum.splits if_splits)
  from GetRecordsByJetDrop_spec [OF g] show ?thesis by (auto simp: j rs from_index_def)
qed

end

section \<open>What is written\<close>

text \<open>The row of a jet drop and of the object of a record.\<close>

definition jet_row :: "models_JetDrop \<Rightarrow> string list" where
  "jet_row j = [aj_JetId (JetDropToAPI j [] []), Itoa (mj_PulseNumber j)]"

definition object_row :: "api_lib \<Rightarrow> models_Record \<Rightarrow> string list" where
  "object_row A r = [client_ObjectReference (RecordToAPI A r)]"

definition drop_id_of :: "models_JetDrop \<Rightarrow> JetDropID" where
  "drop_id_of j = \<lparr>ji_JetID = mj_JetID j, ji_PulseNumber = mj_PulseNumber j\<rparr>"

text \<open>The amounts of the configuration cover what is on the server.\<close>

definition amounts_suffice :: "configuration_TestDB \<Rightarrow> database \<Rightarrow> bool" where
  "amounts_suffice cfg t \<longleftrightarrow> tdb_TestPulses cfg < 2 ^ 31 \<and> tdb_TestJetDrops cfg < 2 ^ 31 \<and> tdb_TestRecords cfg < 2 ^ 31 \<and>
     card (db_pulses t) \<le> tdb_TestPulses cfg \<and> (\<forall>n. card {j \<in> db_jet_drops t. mj_PulseNumber j = n} \<le> tdb_TestJetDrops cfg) \<and>
     (\<forall>k. card {r \<in> db_records t. rec_jd_key r = k} \<le> tdb_TestRecords cfg)"

lemma drop_id_printed:
  assumes "JetDropID_ok (drop_id_of j)"
  shows "NewJetDropID (mj_JetID j) (mj_PulseNumber j) = drop_id_of j" "aj_JetDropId (JetDropToAPI j ps ns) = ToString (drop_id_of j)"
    "aj_JetId (JetDropToAPI j ps ns) = JetIDToString_id (drop_id_of j)" "NewJetDropIDFromString (ToString (drop_id_of j)) = Inr (drop_id_of j)"
proof -
  have "mj_JetID j \<noteq> ''*''" using assms by (auto simp: JetDropID_ok_def drop_id_of_def is_bit_def)
  then show d: "NewJetDropID (mj_JetID j) (mj_PulseNumber j) = drop_id_of j" by (simp add: NewJetDropID_def drop_id_of_def)
  show "aj_JetDropId (JetDropToAPI j ps ns) = ToString (drop_id_of j)" "aj_JetId (JetDropToAPI j ps ns) = JetIDToString_id (drop_id_of j)"
    by (simp_all add: JetDropToAPI_def d Let_def)
  show "NewJetDropIDFromString (ToString (drop_id_of j)) = Inr (drop_id_of j)" using assms by (rule JetDropID_roundtrip)
qed

lemma fields_of_answer [simp]: "aj_PulseNumber (JetDropToAPI j ps ns) = mj_PulseNumber j"
  by (simp add: JetDropToAPI_def Let_def)

context explorer_load
begin

lemma jet_drops_written:
  assumes "for_each (load_jet_drops L l) pns (u, s) = Returns (u', s')"
    and "\<And>n. int (card {j \<in> db_jet_drops (T (lp_world s)). mj_PulseNumber j = n}) \<le> l"
  shows "T (lp_world s') = T (lp_world s) \<and> (\<forall>m. m \<noteq> ''jet_ids.csv'' \<longrightarrow> lp_files s' m = lp_files s m) \<and>
    set (lp_files s' ''jet_ids.csv'') = set (lp_files s ''jet_ids.csv'') \<union> jet_row ` {j \<in> db_jet_drops (T (lp_world s)). mj_PulseNumber j \<in> set pns} \<and>
    set u' = set u \<union> (\<lambda>j. aj_JetDropId (JetDropToAPI j [] [])) ` {j \<in> db_jet_drops (T (lp_world s)). mj_PulseNumber j \<in> set pns}"
  using assms
proof (induction pns arbitrary: u s)
  case (Cons pn pns)
  from Cons.prems(1) obtain u1 s1 where f: "load_jet_drops L l pn (u, s) = Returns (u1, s1)" "for_each (load_jet_drops L l) pns (u1, s1) = Returns (u', s')"
    by (auto simp: run_bind_Returns)
  from load_jet_drops_spec [OF f(1)] obtain res w where c: "JetDropApi_JetDropsByPulseNumber L pn l (lp_world s) = (Inr res, w)"
    "set u1 = set u \<union> aj_JetDropId ` set res"
    "s1 = appended ''jet_ids.csv'' (map (\<lambda>d. [aj_JetId d, Itoa (aj_PulseNumber d)]) res) (s\<lparr>lp_world := w\<rparr>)" by blast
  from client_drops [OF c(1)] obtain rows n where r: "T w = T (lp_world s)" "res = map (\<lambda>j. JetDropToAPI j [] []) rows"
    "rows_are (\<lambda>j. mj_PulseNumber j = pn) (asc mj_JetID) l 0 (db_jet_drops (T (lp_world s))) rows n" by blast
  have rows: "set rows = {j \<in> db_jet_drops (T (lp_world s)). mj_PulseNumber j = pn}" by (rule rows_all(1) [OF r(3) Cons.prems(2)])
  have t: "T (lp_world s1) = T (lp_world s)" using r(1) by (simp add: c(3))
  have "(\<lambda>d. [aj_JetId d, Itoa (aj_PulseNumber d)]) ` set res = jet_row ` set rows" by (simp add: r(2) image_image jet_row_def)
  moreover have "aj_JetDropId ` set res = (\<lambda>j. aj_JetDropId (JetDropToAPI j [] [])) ` set rows" by (simp add: r(2) image_image)
  ultimately show ?case using Cons.IH [OF f(2)] Cons.prems(2) c(2) unfolding t by (auto simp: c(3) rows)
qed simp

lemma objects_written:
  assumes "for_each (load_objects L l) ids (u, s) = Returns (u', s')" and "set ids \<subseteq> ToString ` drop_id_of ` J" and "\<forall>j \<in> J. JetDropID_ok (drop_id_of j)"
    and "\<And>k. int (card {r \<in> db_records (T (lp_world s)). rec_jd_key r = k}) \<le> l"
  shows "T (lp_world s') = T (lp_world s) \<and> (\<forall>m. m \<noteq> ''objects.csv'' \<longrightarrow> lp_files s' m = lp_files s m) \<and>
    set (lp_files s' ''objects.csv'') = set (lp_files s ''objects.csv'') \<union>
      object_row A ` {r \<in> db_records (T (lp_world s)). \<exists>j \<in> J. rec_jd_key r = jd_key j \<and> ToString (drop_id_of j) \<in> set ids}"
  using assms
proof (induction ids arbitrary: u s)
  case (Cons i ids)
  let ?t = "T (lp_world s)"
  from Cons.prems(1) obtain u1 s1 where f: "load_objects L l i (u, s) = Returns (u1, s1)" "for_each (load_objects L l) ids (u1, s1) = Returns (u', s')"
    by (auto simp: run_bind_Returns)
  from load_objects_spec [OF f(1)] obtain res w where c: "RecordApi_JetDropRecords L i l (lp_world s) = (Inr res, w)"
    "s1 = appended ''objects.csv'' (map (\<lambda>r. [client_ObjectReference r]) res) (s\<lparr>lp_world := w\<rparr>)" by blast
  from client_records [OF c(1)] obtain jid rows n where r: "T w = ?t" "NewJetDropIDFromString i = Inr jid" "res = map (RecordToAPI A) rows"
    "rows_are (\<lambda>r. rec_jd_key r = (ji_JetID jid, ji_PulseNumber jid)) (rec_le True) l 0 (db_records ?t) rows n" by blast
  from Cons.prems(2) obtain j0 where j0: "j0 \<in> J" "i = ToString (drop_id_of j0)" by (simp add: image_iff) blast
  have jid: "jid = drop_id_of j0" using drop_id_printed(4) [of j0] r(2) Cons.prems(3) unfolding j0(2) by (simp add: j0(1))
  have same: "ToString (drop_id_of j) = i \<longleftrightarrow> drop_id_of j = jid" if "j \<in> J" for j
  proof -
    have "NewJetDropIDFromString (ToString (drop_id_of j)) = Inr (drop_id_of j)" using Cons.prems(3) that by (intro drop_id_printed(4)) simp
    then show ?thesis using r(2) by (metis Inr_inject j0(2) jid)
  qed
  have key: "rec_jd_key r = (ji_JetID jid, ji_PulseNumber jid) \<longleftrightarrow> (\<exists>j \<in> J. rec_jd_key r = jd_key j \<and> ToString (drop_id_of j) = i)" for r
  proof
    assume "rec_jd_key r = (ji_JetID jid, ji_PulseNumber jid)"
    then have "rec_jd_key r = jd_key j0" by (simp add: jid drop_id_of_def jd_key_def)
    with j0 show "\<exists>j \<in> J. rec_jd_key r = jd_key j \<and> ToString (drop_id_of j) = i" by blast
  next
    assume "\<exists>j \<in> J. rec_jd_key r = jd_key j \<and> ToString (drop_id_of j) = i"
    then obtain j where "rec_jd_key r = jd_key j" "drop_id_of j = jid" using same by blast
    then show "rec_jd_key r = (ji_JetID jid, ji_PulseNumber jid)" by (auto simp: drop_id_of_def jd_key_def)
  qed
  let ?of = "\<lambda>I. {r \<in> db_records ?t. \<exists>j \<in> J. rec_jd_key r = jd_key j \<and> ToString (drop_id_of j) \<in> I}"
  have "set rows = {r \<in> db_records ?t. rec_jd_key r = (ji_JetID jid, ji_PulseNumber jid)}" by (rule rows_all(1) [OF r(4) Cons.prems(4)])
  then have "set rows = ?of {i}" by (simp add: key)
  then have rows: "set (map (\<lambda>r. [client_ObjectReference r]) res) = object_row A ` ?of {i}"
    by (simp add: r(3) image_image object_row_def [abs_def])
  have t: "T (lp_world s1) = ?t" using r(1) by (simp add: c(2))
  have files: "lp_files s1 m = (if m = ''objects.csv'' then lp_files s ''objects.csv'' @ map (\<lambda>r. [client_ObjectReference r]) res else lp_files s m)" for m
    by (simp add: c(2))
  have split: "?of (set (i # ids)) = ?of {i} \<union> ?of (set ids)" by auto
  have "set ids \<subseteq> ToString ` drop_id_of ` J" using Cons.prems(2) by simp
  from Cons.IH [OF f(2) this Cons.prems(3)] Cons.prems(4)
  have "T (lp_world s') = ?t \<and> (\<forall>m. m \<noteq> ''objects.csv'' \<longrightarrow> lp_files s' m = lp_files s1 m) \<and>
    set (lp_files s' ''objects.csv'') = set (lp_files s1 ''objects.csv'') \<union> object_row A ` ?of (set ids)" unfolding t by blast
  then show ?case unfolding split image_Un using rows by (simp add: files Un_assoc)
qed simp

end

context explorer_load
begin

lemma files_prepared:
  assumes "beforeAll L ro cfg s = Returns (None, s')" and "range_ok ro" and "constraints (T (lp_world s))" and "amounts_suffice cfg (T (lp_world s))"
    and "\<forall>j \<in> db_jet_drops (T (lp_world s)). JetDropID_ok (drop_id_of j)"
  shows "T (lp_world s') = T (lp_world s) \<and>
    set (lp_files s' ''pulses.csv'') = (\<lambda>p. [Itoa (mp_PulseNumber p)]) ` db_pulses (T (lp_world s)) \<and>
    length (lp_files s' ''pulses.csv'') = card (db_pulses (T (lp_world s))) \<and>
    set (lp_files s' ''jet_ids.csv'') = jet_row ` db_jet_drops (T (lp_world s)) \<and>
    set (lp_files s' ''objects.csv'') = object_row A ` db_records (T (lp_world s))"
proof -
  let ?t = "T (lp_world s)"
  define s0 where "s0 = NewCSVWriter ''objects.csv'' (NewCSVWriter ''jet_ids.csv'' (NewCSVWriter ''pulses.csv'' s))"
  have files0: "lp_world s0 = lp_world s" "lp_files s0 ''pulses.csv'' = []" "lp_files s0 ''jet_ids.csv'' = []" "lp_files s0 ''objects.csv'' = []"
    by (simp_all add: s0_def NewCSVWriter_def)
  have l: "to_int32 (int (tdb_TestPulses cfg)) = int (tdb_TestPulses cfg)" "to_int32 (int (tdb_TestJetDrops cfg)) = int (tdb_TestJetDrops cfg)"
    "to_int32 (int (tdb_TestRecords cfg)) = int (tdb_TestRecords cfg)" using assms(4) by (auto simp: amounts_suffice_def intro!: to_int32_small)
  from assms(1) obtain res w s1 u2 s2 u3 where p: "PulseApi_Pulses L (int (tdb_TestPulses cfg)) (lp_world s) = (Inr res, w)"
    and f1: "load_pulses L res (s0\<lparr>lp_world := w\<rparr>) = Returns s1"
    and f2: "for_each (load_jet_drops L (int (tdb_TestJetDrops cfg))) (map ap_PulseNumber res) ([], s1) = Returns (u2, s2)"
    and f3: "for_each (load_objects L (int (tdb_TestRecords cfg))) (ro 0 u2) ([], s2) = Returns (u3, s')"
    unfolding beforeAll_def Let_def s0_def [symmetric] l files0(1) by (auto simp: run_bind_Returns split: prod.splits sum.splits if_splits)
  from client_pulses [OF p] obtain rows n where r: "T w = ?t" "map ap_PulseNumber res = map mp_PulseNumber rows"
    "rows_are (\<lambda>_. True) (desc mp_PulseNumber) (int (tdb_TestPulses cfg)) 0 (db_pulses ?t) rows n" by blast
  have rows: "set rows = db_pulses ?t" "distinct rows" using rows_all [OF r(3)] assms(4) by (auto simp: amounts_suffice_def)
  have s1: "s1 = appended ''pulses.csv'' (map (\<lambda>p. [Itoa (mp_PulseNumber p)]) rows) (s0\<lparr>lp_world := w\<rparr>)"
    using load_pulses_spec [OF f1] arg_cong [OF r(2), of "map (\<lambda>n. [Itoa n])"] by (simp add: comp_def)
  have t1: "T (lp_world s1) = ?t" using r(1) by (simp add: s1)
  have "\<And>n. int (card {j \<in> db_jet_drops ?t. mj_PulseNumber j = n}) \<le> int (tdb_TestJetDrops cfg)" using assms(4) by (simp add: amounts_suffice_def)
  note j = jet_drops_written [OF f2, unfolded t1, OF this]
  have all: "{j \<in> db_jet_drops ?t. mj_PulseNumber j \<in> set (map ap_PulseNumber res)} = db_jet_drops ?t"
    using assms(3) by (auto simp: r(2) rows constraints_def)
  have "set u2 = ToString ` drop_id_of ` db_jet_drops ?t"
    using j assms(5) unfolding all by (auto simp: image_image drop_id_printed(2) cong: image_cong_simp)
  then have u2: "set (ro 0 u2) = ToString ` drop_id_of ` db_jet_drops ?t" using range_ok_set [OF assms(2)] by simp
  have t2: "T (lp_world s2) = ?t" using j by simp
  have "\<And>k. int (card {r \<in> db_records ?t. rec_jd_key r = k}) \<le> int (tdb_TestRecords cfg)" using assms(4) unfolding amounts_suffice_def of_nat_le_iff by blast
  note ob = objects_written [OF f3 equalityD1 [OF u2] assms(5), unfolded t2, OF this]
  have "{r \<in> db_records ?t. \<exists>j \<in> db_jet_drops ?t. rec_jd_key r = jd_key j \<and> ToString (drop_id_of j) \<in> set (ro 0 u2)} = db_records ?t"
    using assms(3) unfolding u2 constraints_def by auto
  moreover have "length rows = card (db_pulses ?t)" using rows by (metis distinct_card)
  ultimately show ?thesis using ob j rows unfolding all by (auto simp: s1 files0)
qed

end


section \<open>What is requested\<close>

text \<open>An attack that reads the row of a jet drop asks for the identifier the API prints for this drop, and the API reads it back as the jet and the pulse of the drop;
  the attack on a jet asks for a jet that the API reads back too.\<close>

theorem attack_asks_for_row:
  assumes "JetDropID_ok (drop_id_of j)" and "DefaultReadCSV L w = (jet_row j, w1)" and "Setup (Clone k md target) = Returns a"
  shows "GetJetDropByID_Do L a w = url_result GetJetDropByIDLabel (get_url L (target @ ''/api/v1/jet-drops/'' @ aj_JetDropId (JetDropToAPI j ps ns)) w1) \<and>
    GetRecords_Do L a w = url_result GetRecordsLabel (get_url L (target @ ''/api/v1/jet-drops/'' @ aj_JetDropId (JetDropToAPI j ps ns) @ ''/records'') w1) \<and>
    NewJetDropIDFromString (aj_JetDropId (JetDropToAPI j ps ns)) = Inr (drop_id_of j) \<and>
    GetJetDropsByJetID_Do L a w = do_result GetJetDropsByJetIDLabel (JetDropApi_JetDropsByJetID L (aj_JetId (JetDropToAPI j ps ns)) w1) \<and>
    checkJetID A (aj_JetId (JetDropToAPI j ps ns)) = (mj_JetID j, [])"
proof -
  note p = drop_id_printed [OF assms(1)]
  have a: "at_client a" "at_target a = target" using Setup_keeps [OF assms(3)] by (simp_all add: Clone_eq new_attack_def)
  have b: "bitstring (ji_JetID (drop_id_of j))" "length (ji_JetID (drop_id_of j)) \<le> 216" "int64_range (mj_PulseNumber j)"
    using assms(1) by (simp_all add: JetDropID_ok_def drop_id_of_def)
  have v: "ParseInt_value (Itoa (mj_PulseNumber j)) = mj_PulseNumber j" by (rule ParseInt_value_eq [OF ParseInt_Itoa [OF b(3)]])
  have "NewJetDropID (JetIDToString_id (drop_id_of j)) (mj_PulseNumber j) = drop_id_of j"
    using NewJetDropID_JetIDToString_id [OF b(1)] by (simp add: drop_id_of_def)
  then show ?thesis using checkJetID_printed [OF b(1,2), of A]
    by (simp add: GetJetDropByID_Do_def GetRecords_Do_def GetJetDropsByJetID_Do_def with_columns_def with_column_def if_client_def assms(2) jet_row_def a p v
        GetJetDropsByID_def GetRecordsByID_def) (simp add: drop_id_of_def)
qed

text \<open>The status of the answer is not looked at: an attack that is refused counts as a success.  A body that cannot be read stays open.\<close>

theorem refusal_counts_as_success:
  assumes "NewRequest_ok L url" and "http_Do L url w = (Inr status, w1)" and "Body_ReadAll L w1 = (r, w2)"
  shows "url_result label (get_url L url w) = (Done \<lparr>dr_Error = r, dr_RequestLabel = label\<rparr>, if r = None then Body_Close L w2 else w2)"
  using assms by (cases r) (simp_all add: get_url_def url_result_def do_result_def)

section \<open>A client in the process of the server\<close>

text \<open>A client that calls the handlers, without a network between.\<close>

fun decoded :: "(body \<Rightarrow> 'a option) \<Rightarrow> response \<times> 'st \<Rightarrow> (error + 'a) \<times> 'st" where
  "decoded f (JSON status b, w) = (if status = 200 then (case f b of Some a \<Rightarrow> (Inr a, w) | None \<Rightarrow> (Inl (Err ''undefined response type''), w))
     else (Inl (Err (Itoa (int status))), w))"
| "decoded f (Crash p, w) = (Inl (Err ''EOF''), w)"

fun pulses_in :: "body \<Rightarrow> api_Pulse list option" where
  "pulses_in (PulsesResponse n ps) = Some ps"
| "pulses_in _ = None"

fun pulse_in :: "body \<Rightarrow> api_Pulse option" where
  "pulse_in (PulseResponse p) = Some p"
| "pulse_in _ = None"

fun drops_in :: "body \<Rightarrow> api_JetDrop list option" where
  "drops_in (JetDropsResponse n ds) = Some ds"
| "drops_in _ = None"

fun records_in :: "body \<Rightarrow> api_Record list option" where
  "records_in (RecordsResponse n rs) = Some rs"
| "records_in _ = None"

definition handler_client :: "api_lib \<Rightarrow> 'st StorageAPIFetcher \<Rightarrow> string list \<Rightarrow> 'st load_lib" where
  "handler_client A S row = \<lparr>DefaultReadCSV = Pair row,
     PulseApi_Pulses = (\<lambda>l w. decoded pulses_in (Pulses A S (limit_pulses l) w)),
     PulseApi_Pulse = (\<lambda>n w. decoded pulse_in (Pulse S n w)),
     JetDropApi_JetDropsByPulseNumber = (\<lambda>n l w. decoded drops_in (JetDropsByPulseNumber A S n (limit_drops l) w)),
     JetDropApi_JetDropsByJetID = (\<lambda>i w. decoded drops_in (JetDropsByJetID A S i no_jet_params w)),
     RecordApi_JetDropRecords = (\<lambda>i l w. decoded records_in (JetDropRecords A S i (limit_records l) w)),
     RecordApi_ObjectLifeline = (\<lambda>r w. decoded records_in (ObjectLifeline A S r no_lifeline_params w)),
     SearchApi_Search = (\<lambda>v w. decoded Some (Search A S v w)),
     NewRequest_ok = (\<lambda>url. True), http_Do = (\<lambda>url w. (Inr 404, w)), Body_ReadAll = Pair None, Body_Close = (\<lambda>w. w),
     csv_Write = (\<lambda>name rows row. None)\<rparr>"

lemma decoded_Inr: "decoded f res = (Inr a, w) \<Longrightarrow> \<exists>b. res = (JSON 200 b, w) \<and> f b = Some a"
  by (cases "(f, res)" rule: decoded.cases) (auto split: if_splits option.splits)

lemma bodies: "pulses_in b = Some ps \<longleftrightarrow> (\<exists>n. b = PulsesResponse n ps)" "drops_in b = Some ds \<longleftrightarrow> (\<exists>n. b = JetDropsResponse n ds)"
  "records_in b = Some rs \<longleftrightarrow> (\<exists>n. b = RecordsResponse n rs)"
  by (cases b; simp)+

interpretation in_process: explorer_client A S "handler_client A S row" for A S row
  by unfold_locales (auto simp: handler_client_def bodies dest!: decoded_Inr)

interpretation in_tables: explorer_load rel_gorm tables_db A "handler_client A (APIStorage rel_gorm) row" for A row
  by (intro explorer_load.intro rel.gorm_db_axioms in_process.explorer_client_axioms)

text \<open>One pulse with the drop of the root jet and two records of one object.\<close>

definition load_record :: "bytes \<Rightarrow> int \<Rightarrow> models_Record" where
  "load_record ref n = sample_row\<lparr>mr_Reference := ref, mr_ObjectReference := [97], mr_JetID := [], mr_PulseNumber := 65537, mr_Order := n\<rparr>"

definition load_tables :: tables where
  "load_tables = \<lparr>t_pulses = [pulse_no 65537 0], t_jet_drops = [sample_drop [] 65537 [1] [] []], t_records = [load_record [1] 0, load_record [2] 1]\<rparr>"

definition load_cfg :: configuration_TestDB where
  "load_cfg = \<lparr>tdb_TestPulses = 5, tdb_TestJetDrops = 5, tdb_TestRecords = 5\<rparr>"

abbreviation "load_client \<equiv> handler_client sample_api (APIStorage rel_gorm) [''*'', ''65537'']"

lemma Itoa_65537: "Itoa 65537 = ''65537''"
  by (simp add: Itoa_def dec_nat.simps digit_char_def char_of_def bit_0)

lemma load_drop_id: "NewJetDropID [] 65537 = \<lparr>ji_JetID = [], ji_PulseNumber = 65537\<rparr>" "ToString \<lparr>ji_JetID = [], ji_PulseNumber = 65537\<rparr> = ''*:65537''"
  "NewJetDropIDFromString ''*:65537'' = Inr \<lparr>ji_JetID = [], ji_PulseNumber = 65537\<rparr>"
proof -
  show t: "ToString \<lparr>ji_JetID = [], ji_PulseNumber = 65537\<rparr> = ''*:65537''" by (simp add: ToString_def JetIDToString_id_def Itoa_65537)
  have "JetDropID_ok \<lparr>ji_JetID = [], ji_PulseNumber = 65537\<rparr>" by (simp add: JetDropID_ok_def int64_range_def)
  from JetDropID_roundtrip [OF this] show "NewJetDropIDFromString ''*:65537'' = Inr \<lparr>ji_JetID = [], ji_PulseNumber = 65537\<rparr>" by (simp add: t)
qed (simp add: NewJetDropID_def)

lemma load_pulses_answer: "\<exists>p. PulseApi_Pulses load_client 5 load_tables = (Inr [p], load_tables) \<and> ap_PulseNumber p = 65537"
  by (simp add: handler_client_def Pulses_def limit_pulses_def checkLimitOffset_def pulse_number_param_def checkSortByPulseNumberParameter_def APIStorage_simps
      GetPulses_def getPulses_def load_tables_def rel_eval pulse_no_simps Let_def update_at_def updatePrevPulse_def updateNextPulse_def PulseToAPI_def)

lemma load_drops_answer:
  "JetDropApi_JetDropsByPulseNumber load_client 65537 5 load_tables = (Inr [JetDropToAPI (sample_drop [] 65537 [1] [] []) [] []], load_tables)"
  by (simp add: handler_client_def JetDropsByPulseNumber_def limit_drops_def checkLimitOffset_def sample_api_def APIStorage_simps
      GetJetDropsWithParams_def load_tables_def rel_eval sample_drop_def numbered_def Let_def)

lemma load_records_answer:
  "RecordApi_JetDropRecords load_client ''*:65537'' 5 load_tables = (Inr (map (RecordToAPI sample_api) [load_record [1] 0, load_record [2] 1]), load_tables)"
  by (simp add: handler_client_def JetDropRecords_def limit_records_def checkLimitOffset_def check_from_index_def load_drop_id APIStorage_simps
      GetRecordsByJetDrop_def storage_getRecords_def sortRecordsByDirection_def load_tables_def rel_eval load_record_def sample_row_def Let_def)

text \<open>The references of objects are collected in a set, as those of the jet drops are, but the rows are written before that: an object with two records has two rows.\<close>

theorem objects_repeated:
  "\<exists>s'. beforeAll load_client range_insertion load_cfg \<lparr>lp_world = load_tables, lp_files = (\<lambda>_. [])\<rparr> = Returns (None, s') \<and>
     lp_files s' ''pulses.csv'' = [[''65537'']] \<and> lp_files s' ''jet_ids.csv'' = [[''*'', ''65537'']] \<and> lp_files s' ''objects.csv'' = [[''a''], [''a'']]"
proof -
  obtain p where p: "PulseApi_Pulses load_client 5 load_tables = (Inr [p], load_tables)" "ap_PulseNumber p = 65537" using load_pulses_answer by blast
  have w: "csv_Write load_client name rows row = None" for name rows row by (simp add: handler_client_def)
  have l: "to_int32 5 = 5" by (rule to_int32_small) simp_all
  have ids: "aj_JetDropId (JetDropToAPI (sample_drop [] 65537 [1] [] []) [] []) = ''*:65537''"
    "aj_JetId (JetDropToAPI (sample_drop [] 65537 [1] [] []) [] []) = ''*''"
    by (simp_all add: JetDropToAPI_def sample_drop_def load_drop_id Let_def) (simp add: JetIDToString_id_def)
  have obj: "client_ObjectReference (RecordToAPI sample_api (load_record ref n)) = ''a''" for ref n
    by (simp add: client_ObjectReference_def RecordToAPI_def load_record_def optional_reference_def sample_api_def IsEmpty_def char_of_def bit_0 Let_def)
  have pn: "mj_PulseNumber (sample_drop [] 65537 [1] [] []) = 65537" by (simp add: sample_drop_def)
  show ?thesis
    by (simp add: beforeAll_def load_cfg_def l NewCSVWriter_def p load_pulses_def write_row_def w run_bind_def load_jet_drops_def load_drops_answer ids pn
        Itoa_65537 hashset_Add_def range_insertion_def load_objects_def load_records_answer obj Let_def)
qed

lemma card_some_of: "card {x \<in> {a, b}. P x} \<le> 5"
  by (rule order_trans [OF card_mono [of "{a, b}"]]) (auto simp: card_insert_if)


theorem attack_asks_for_row_witness:
  "\<exists>a. Setup (Clone GetJetDropByIDAttack [] ''http://localhost:8080'') = Returns a \<and>
     attack_Do load_client a load_tables = url_result GetJetDropByIDLabel (get_url load_client ''http://localhost:8080/api/v1/jet-drops/*:65537'' load_tables)"
proof -
  let ?j = "sample_drop [] 65537 [1] [] []"
  have ok: "JetDropID_ok (drop_id_of ?j)" by (simp add: drop_id_of_def sample_drop_def JetDropID_ok_def int64_range_def)
  have ids: "aj_JetDropId (JetDropToAPI ?j [] []) = ''*:65537''" "jet_row ?j = [''*'', ''65537'']"
    by (simp_all add: jet_row_def drop_id_printed [OF ok]) (simp_all add: drop_id_of_def sample_drop_def load_drop_id JetIDToString_id_def Itoa_65537)
  obtain a where a: "Setup (Clone GetJetDropByIDAttack [] ''http://localhost:8080'') = Returns a"
    "at_type a = GetJetDropByIDAttack" by (simp add: Setup_def Clone_eq new_attack_def setup_client_def GetJetDropByID_Setup_def)
  have "DefaultReadCSV load_client load_tables = (jet_row ?j, load_tables)" by (simp add: handler_client_def ids)
  from attack_asks_for_row [OF ok this a(1), of "[]" "[]"] a show ?thesis by (auto simp: attack_Do_def ids)
qed

end
