(* ===== verification/Test_Setup.thy ===== *)
theory Test_Setup
  imports Program Migration Load_Data
begin

text \<open>What the integration tests start and stop, and the two migration tools: the database in a container (\<open>testutils/db.go\<close>), the connections
  (\<open>testutils/connectionmanager\<close>), the components of the explorer (\<open>testutils/betestsetup\<close>), the suite that holds them (\<open>test/integration/helper.go\<close>) and the
  programs \<open>cmd/migrate\<close> and \<open>cmd/loadtest_migrate\<close>.  The world counts the calls of libraries, whose results are a parameter, and has the list of what is open: a set-up
  is right if nothing that it opened is left.\<close>

section \<open>The world\<close>

datatype resource = Container nat | DBConnection nat | GRPCServer nat | GRPCClient nat | HTTPServer nat | Running component nat

datatype lib_call = NewPool | RunContainer | OpenDB | SelectOne | MigrateDB | CloseDB | PurgeContainer | DeleteRows | ListenTCP | DialGRPC | StartCall component | StopCall component

text \<open>The error of the call with a number, and how many times \<open>pool.Retry\<close> of the container library tries (at least once).\<close>

record setup_lib =
  sl_result :: "lib_call \<Rightarrow> nat \<Rightarrow> error option"
  sl_retries :: "nat \<Rightarrow> nat"

record setup_world =
  sw_calls :: nat
  sw_open :: "resource list"

text \<open>How a call in a test ends: it returns; the process exits (\<open>log.Fatal\<close>); it panics; the test is failed and its goroutine ends (\<open>require\<close>, \<open>t.Fatal\<close>).\<close>

datatype 'a test_run = Yields 'a | Exited | Panicked | FailedNow

type_synonym 'a set_up = "setup_world \<Rightarrow> 'a test_run \<times> setup_world"

definition return_s :: "'a \<Rightarrow> 'a set_up" where
  "return_s a w = (Yields a, w)"

definition end_s :: "'a test_run \<Rightarrow> 'a set_up" where
  "end_s e w = (e, w)"

definition bind_s :: "'a set_up \<Rightarrow> ('a \<Rightarrow> 'b set_up) \<Rightarrow> 'b set_up" where
  "bind_s m f w = (case m w of (Yields a, w) \<Rightarrow> f a w | (Exited, w) \<Rightarrow> (Exited, w) | (Panicked, w) \<Rightarrow> (Panicked, w) | (FailedNow, w) \<Rightarrow> (FailedNow, w))"

definition call_s :: "setup_lib \<Rightarrow> lib_call \<Rightarrow> error option set_up" where
  "call_s L c w = (Yields (sl_result L c (sw_calls w)), w\<lparr>sw_calls := Suc (sw_calls w)\<rparr>)"

text \<open>A resource is named by the number of the call that opens it.\<close>

definition acquire :: "(nat \<Rightarrow> resource) \<Rightarrow> resource set_up" where
  "acquire r w = (Yields (r (sw_calls w)), w\<lparr>sw_open := r (sw_calls w) # sw_open w\<rparr>)"

definition release :: "resource \<Rightarrow> unit set_up" where
  "release r w = (Yields (), w\<lparr>sw_open := remove1 r (sw_open w)\<rparr>)"

section \<open>The database in a container\<close>

definition createPool :: "setup_lib \<Rightarrow> unit set_up" where
  "createPool L = bind_s (call_s L NewPool) (\<lambda>r. case r of Some err \<Rightarrow> end_s Exited | None \<Rightarrow> return_s ())"

definition poolCleaner :: "setup_lib \<Rightarrow> resource \<Rightarrow> unit set_up" where
  "poolCleaner L c = bind_s (call_s L PurgeContainer) (\<lambda>r. case r of Some err \<Rightarrow> return_s () | None \<Rightarrow> release c)"

definition RunDBInDocker :: "setup_lib \<Rightarrow> resource set_up" where
  "RunDBInDocker L = bind_s (createPool L) (\<lambda>_. bind_s (call_s L RunContainer) (\<lambda>r. case r of Some err \<Rightarrow> end_s Panicked | None \<Rightarrow> acquire Container))"

text \<open>The retry loop of the variant with a port of the host: each try takes the next port.\<close>

fun bind_port :: "setup_lib \<Rightarrow> nat \<Rightarrow> int \<Rightarrow> (int \<times> resource) set_up" where
  "bind_port L n hostPort = bind_s (call_s L RunContainer) (\<lambda>r. case r of
     None \<Rightarrow> bind_s (acquire Container) (\<lambda>c. return_s (hostPort + 1, c))
   | Some err \<Rightarrow> (case n of 0 \<Rightarrow> end_s Panicked | Suc m \<Rightarrow> bind_port L m (hostPort + 1)))"

definition RunDBInDockerWithPortBindings :: "setup_lib \<Rightarrow> (int \<times> resource) set_up" where
  "RunDBInDockerWithPortBindings L = bind_s (createPool L) (\<lambda>_ w. bind_port L (sl_retries L (sw_calls w)) 10000 w)"

text \<open>The retry loop of \<open>SetupDB\<close>: a connection that was opened and does not answer is overwritten by the next one.\<close>

fun open_retry :: "setup_lib \<Rightarrow> nat \<Rightarrow> (error + resource) set_up" where
  "open_retry L n =
     (let again = (\<lambda>err. case n of 0 \<Rightarrow> return_s (Inl err) | Suc m \<Rightarrow> open_retry L m)
      in bind_s (call_s L OpenDB) (\<lambda>r. case r of Some err \<Rightarrow> again err
        | None \<Rightarrow> bind_s (acquire DBConnection) (\<lambda>db. bind_s (call_s L SelectOne) (\<lambda>r. case r of Some err \<Rightarrow> again err | None \<Rightarrow> return_s (Inr db)))))"

declare bind_port.simps [simp del] open_retry.simps [simp del]

definition dbCleaner :: "setup_lib \<Rightarrow> resource \<Rightarrow> unit set_up" where
  "dbCleaner L db = bind_s (call_s L CloseDB) (\<lambda>r. case r of Some err \<Rightarrow> return_s () | None \<Rightarrow> release db)"

definition cleaner :: "setup_lib \<Rightarrow> resource \<times> resource \<Rightarrow> unit set_up" where
  "cleaner L p = bind_s (dbCleaner L (fst p)) (\<lambda>_. poolCleaner L (snd p))"

text \<open>\<open>SetupDB\<close>: the database and the cleaner, which is determined by the database and the container.\<close>

definition SetupDB :: "setup_lib \<Rightarrow> (error + (resource \<times> resource)) set_up" where
  "SetupDB L = bind_s (RunDBInDocker L) (\<lambda>c w. bind_s (open_retry L (sl_retries L (sw_calls w))) (\<lambda>r. case r of
     Inl err \<Rightarrow> bind_s (poolCleaner L c) (\<lambda>_. return_s (Inl (Wrap err ''Could not start postgres:'')))
   | Inr db \<Rightarrow> bind_s (call_s L MigrateDB) (\<lambda>r. case r of
       Some err \<Rightarrow> return_s (Inl (Wrap err ''Could not migrate:''))
     | None \<Rightarrow> return_s (Inr (db, c)))) w)"

fun TruncateTables :: "setup_lib \<Rightarrow> 'm list \<Rightarrow> unit set_up" where
  "TruncateTables L [] = return_s ()"
| "TruncateTables L (m # ms) = bind_s (call_s L DeleteRows) (\<lambda>r. case r of Some err \<Rightarrow> end_s FailedNow | None \<Rightarrow> TruncateTables L ms)"

section \<open>The components\<close>

text \<open>\<open>BlockExplorerTestSetUp\<close>: the components once they are made.  A component is running from its start to its stop.\<close>

record be_setup =
  be_extr :: "nat option"
  be_trsf :: "nat option"
  be_cont :: "nat option"
  be_proc :: "nat option"

definition NewBlockExplorer :: be_setup where
  "NewBlockExplorer = \<lparr>be_extr = None, be_trsf = None, be_cont = None, be_proc = None\<rparr>"

definition new_component :: "nat set_up" where
  "new_component w = (Yields (sw_calls w), w\<lparr>sw_calls := Suc (sw_calls w)\<rparr>)"

definition start_one :: "setup_lib \<Rightarrow> component \<Rightarrow> nat \<Rightarrow> error option set_up" where
  "start_one L c i = bind_s (call_s L (StartCall c)) (\<lambda>r. case r of Some err \<Rightarrow> return_s (Some err)
     | None \<Rightarrow> bind_s (acquire (\<lambda>_. Running c i)) (\<lambda>_. return_s None))"

text \<open>A component that was never made is nil; its \<open>Stop\<close> panics.\<close>

definition stop_one :: "setup_lib \<Rightarrow> component \<Rightarrow> nat option \<Rightarrow> error option set_up" where
  "stop_one L c i = (case i of None \<Rightarrow> end_s Panicked
     | Some i \<Rightarrow> bind_s (call_s L (StopCall c)) (\<lambda>r. case r of Some err \<Rightarrow> return_s (Some err) | None \<Rightarrow> bind_s (release (Running c i)) (\<lambda>_. return_s None)))"

text \<open>\<open>NewController\<close> reads the database; its errors are those of the call.\<close>

definition be_Start :: "setup_lib \<Rightarrow> be_setup \<Rightarrow> (error option \<times> be_setup) set_up" where
  "be_Start L b =
     bind_s new_component (\<lambda>i. let b = b\<lparr>be_extr := Some i\<rparr> in bind_s (start_one L C_extractor i) (\<lambda>r. case r of Some err \<Rightarrow> return_s (Some err, b) | None \<Rightarrow>
     bind_s new_component (\<lambda>i. let b = b\<lparr>be_trsf := Some i\<rparr> in bind_s (start_one L C_transformer i) (\<lambda>r. case r of Some err \<Rightarrow> return_s (Some err, b) | None \<Rightarrow>
     bind_s (call_s L (StartCall C_controller)) (\<lambda>r. case r of Some err \<Rightarrow> return_s (Some err, b\<lparr>be_cont := None\<rparr>) | None \<Rightarrow>
     bind_s new_component (\<lambda>i. let b = b\<lparr>be_cont := Some i\<rparr> in
     bind_s new_component (\<lambda>i. let b = b\<lparr>be_proc := Some i\<rparr> in bind_s (start_one L C_processor i) (\<lambda>r. case r of Some err \<Rightarrow> return_s (Some err, b)
       | None \<Rightarrow> return_s (None, b)))))))))"

definition be_Stop :: "setup_lib \<Rightarrow> be_setup \<Rightarrow> error option set_up" where
  "be_Stop L b = bind_s (stop_one L C_extractor (be_extr b)) (\<lambda>r. case r of Some err \<Rightarrow> return_s (Some err) | None \<Rightarrow>
     bind_s (stop_one L C_transformer (be_trsf b)) (\<lambda>r. case r of Some err \<Rightarrow> return_s (Some err) | None \<Rightarrow>
     bind_s (stop_one L C_processor (be_proc b)) (\<lambda>r. case r of Some err \<Rightarrow> return_s (Some err) | None \<Rightarrow> return_s None)))"

section \<open>The connections\<close>

record connection_manager =
  cm_grpcServer :: "resource option"
  cm_grpcClientConn :: "resource option"
  cm_DB :: "resource option"
  cm_dbPoolCleaner :: "(resource \<times> resource) option"
  cm_echo :: "resource option"

definition cm_new :: connection_manager where
  "cm_new = \<lparr>cm_grpcServer = None, cm_grpcClientConn = None, cm_DB = None, cm_dbPoolCleaner = None, cm_echo = None\<rparr>"

definition cm_Start :: "setup_lib \<Rightarrow> connection_manager \<Rightarrow> connection_manager set_up" where
  "cm_Start L c = bind_s (call_s L ListenTCP) (\<lambda>r. case r of Some err \<Rightarrow> end_s FailedNow | None \<Rightarrow>
     bind_s (acquire GRPCServer) (\<lambda>s. let c = c\<lparr>cm_grpcServer := Some s\<rparr> in
     bind_s (call_s L DialGRPC) (\<lambda>r. case r of Some err \<Rightarrow> end_s FailedNow | None \<Rightarrow>
     bind_s (acquire GRPCClient) (\<lambda>k. return_s (c\<lparr>cm_grpcClientConn := Some k\<rparr>)))))"

definition cm_StartDB :: "setup_lib \<Rightarrow> connection_manager \<Rightarrow> connection_manager set_up" where
  "cm_StartDB L c = bind_s (SetupDB L) (\<lambda>r. case r of Inl err \<Rightarrow> end_s FailedNow
     | Inr p \<Rightarrow> return_s (c\<lparr>cm_DB := Some (fst p), cm_dbPoolCleaner := Some p\<rparr>))"

definition cm_StartAPIServer :: "setup_lib \<Rightarrow> connection_manager \<Rightarrow> connection_manager set_up" where
  "cm_StartAPIServer L c = (if cm_DB c = None then end_s FailedNow
     else bind_s (call_s L ListenTCP) (\<lambda>r. case r of Some err \<Rightarrow> end_s FailedNow | None \<Rightarrow>
       bind_s (acquire HTTPServer) (\<lambda>h. return_s (c\<lparr>cm_echo := Some h\<rparr>))))"

definition close_or_panic :: "resource option \<Rightarrow> unit set_up" where
  "close_or_panic r = (case r of None \<Rightarrow> end_s Panicked | Some r \<Rightarrow> release r)"

definition cm_Stop :: "setup_lib \<Rightarrow> connection_manager \<Rightarrow> unit set_up" where
  "cm_Stop L c = bind_s (close_or_panic (cm_grpcServer c)) (\<lambda>_. bind_s (close_or_panic (cm_grpcClientConn c)) (\<lambda>_.
     bind_s (case cm_dbPoolCleaner c of None \<Rightarrow> return_s () | Some p \<Rightarrow> cleaner L p) (\<lambda>_.
     case cm_echo c of Some h \<Rightarrow> release h | None \<Rightarrow> return_s ())))"

section \<open>The suite\<close>

record test_suite =
  ts_ConMngr :: connection_manager
  ts_BE :: be_setup

definition NewBlockExplorerTestSetup :: "setup_lib \<Rightarrow> test_suite set_up" where
  "NewBlockExplorerTestSetup L = bind_s (cm_Start L cm_new) (\<lambda>c. bind_s (cm_StartDB L c) (\<lambda>c. return_s \<lparr>ts_ConMngr = c, ts_BE = NewBlockExplorer\<rparr>))"

definition ts_StartBE :: "setup_lib \<Rightarrow> test_suite \<Rightarrow> test_suite set_up" where
  "ts_StartBE L a = bind_s (be_Start L (ts_BE a)) (\<lambda>(r, b). case r of Some err \<Rightarrow> end_s FailedNow | None \<Rightarrow> return_s (a\<lparr>ts_BE := b\<rparr>))"

definition ts_StopBE :: "setup_lib \<Rightarrow> test_suite \<Rightarrow> unit set_up" where
  "ts_StopBE L a = bind_s (be_Stop L (ts_BE a)) (\<lambda>r. case r of Some err \<Rightarrow> end_s FailedNow | None \<Rightarrow> return_s ())"

definition ts_Start :: "setup_lib \<Rightarrow> test_suite \<Rightarrow> test_suite set_up" where
  "ts_Start L a = bind_s (cm_Start L (ts_ConMngr a)) (\<lambda>c. bind_s (cm_StartDB L c) (\<lambda>c. ts_StartBE L \<lparr>ts_ConMngr = c, ts_BE = NewBlockExplorer\<rparr>))"

definition ts_Stop :: "setup_lib \<Rightarrow> test_suite \<Rightarrow> unit set_up" where
  "ts_Stop L a = cm_Stop L (ts_ConMngr a)"

definition WithHTTPServer :: "setup_lib \<Rightarrow> test_suite \<Rightarrow> test_suite set_up" where
  "WithHTTPServer L a = bind_s (cm_StartAPIServer L (ts_ConMngr a)) (\<lambda>c. return_s (a\<lparr>ts_ConMngr := c\<rparr>))"

text \<open>The loops that wait for the database.  \<open>look i\<close> is what the query of attempt \<open>i\<close> leaves in the variable; the test goes on exactly if the last value is the expected one.\<close>

fun wait_loop :: "(nat \<Rightarrow> 'a) \<Rightarrow> ('a \<Rightarrow> bool) \<Rightarrow> nat list \<Rightarrow> 'a \<Rightarrow> 'a" where
  "wait_loop look ready [] c = c"
| "wait_loop look ready (i # ks) c = (if ready (look i) then look i else wait_loop look ready ks (look i))"

definition WaitRecordsCount :: "(nat \<Rightarrow> int) \<Rightarrow> int \<Rightarrow> nat \<Rightarrow> unit test_run" where
  "WaitRecordsCount look expCount timeoutMs =
     (if wait_loop look (\<lambda>c. c \<ge> expCount) [0..<timeoutMs div 100] 0 = expCount then Yields () else FailedNow)"

definition WaitJetDropHash :: "(nat \<Rightarrow> bytes) \<Rightarrow> bytes \<Rightarrow> nat \<Rightarrow> unit test_run" where
  "WaitJetDropHash look expectedHash timeoutMs =
     (if wait_loop look (\<lambda>h. h = expectedHash) [0..<timeoutMs div 100] [] = expectedHash then Yields () else FailedNow)"

definition CheckForRecordsNotChanged :: "(nat \<Rightarrow> int) \<Rightarrow> int \<Rightarrow> nat \<Rightarrow> unit test_run" where
  "CheckForRecordsNotChanged look expCount timeoutMs = (if \<forall>i \<in> set [0..<timeoutMs div 100]. look i = expCount then Yields () else FailedNow)"


section \<open>The migration tools\<close>

text \<open>The migration library: \<open>gormigrate.New(db, options, migrations).Migrate()\<close>.  A fatal error ends the process without the deferred \<open>Close\<close>.\<close>

record 'db tool_lib =
  tl_Load :: "error option"
  tl_Open :: "error + 'db"
  tl_Migrate :: "migration_options \<Rightarrow> 'db Migration list \<Rightarrow> 'db \<Rightarrow> error option \<times> 'db"
  tl_DefaultOptions :: migration_options

datatype 'db tool_end = ConfigPanic error | FatalOpen error | FatalMigrate error 'db | ClosedAfter 'db

definition run_tool :: "'db tool_lib \<Rightarrow> 'db Migration list \<Rightarrow> 'db tool_end" where
  "run_tool X ms = (case tl_Load X of Some err \<Rightarrow> ConfigPanic err | None \<Rightarrow> (case tl_Open X of Inl err \<Rightarrow> FatalOpen err
     | Inr db \<Rightarrow> (case tl_Migrate X (MigrationOptions (tl_DefaultOptions X)) ms db of (Some err, db) \<Rightarrow> FatalMigrate err db | (None, db) \<Rightarrow> ClosedAfter db)))"

definition migrate_main :: "'db ddl \<Rightarrow> 'db tool_lib \<Rightarrow> 'db tool_end" where
  "migrate_main M X = run_tool X (Migrations M)"

definition loadtest_migrate_main :: "'db ddl \<Rightarrow> ('db \<Rightarrow> error option \<times> 'db) \<Rightarrow> 'db tool_lib \<Rightarrow> 'db tool_end" where
  "loadtest_migrate_main M generate X = run_tool X (Migrations M @ [LoadTestMigrations M generate])"

section \<open>What is left open\<close>

lemma bind_s_Yields: "bind_s m f w = (Yields b, w') \<longleftrightarrow> (\<exists>a w1. m w = (Yields a, w1) \<and> f a w1 = (Yields b, w'))"
  by (auto simp: bind_s_def split: prod.splits test_run.splits)

lemma step_Yields [simp]:
  "return_s a w = (Yields b, w') \<longleftrightarrow> b = a \<and> w' = w"
  "end_s Exited w \<noteq> (Yields b, w')" "end_s Panicked w \<noteq> (Yields b, w')" "end_s FailedNow w \<noteq> (Yields b, w')"
  "call_s L c w = (Yields r, w') \<longleftrightarrow> r = sl_result L c (sw_calls w) \<and> w' = w\<lparr>sw_calls := Suc (sw_calls w)\<rparr>"
  "acquire k w = (Yields x, w') \<longleftrightarrow> x = k (sw_calls w) \<and> w' = w\<lparr>sw_open := k (sw_calls w) # sw_open w\<rparr>"
  "release x w = (Yields u, w') \<longleftrightarrow> w' = w\<lparr>sw_open := remove1 x (sw_open w)\<rparr>"
  "new_component w = (Yields i, w') \<longleftrightarrow> i = sw_calls w \<and> w' = w\<lparr>sw_calls := Suc (sw_calls w)\<rparr>"
  by (auto simp: return_s_def end_s_def call_s_def acquire_def release_def new_component_def)

abbreviation bag :: "setup_world \<Rightarrow> resource multiset" where
  "bag w \<equiv> mset (sw_open w)"

text \<open>A library whose closing calls succeed, and whose database answers once it is open.\<close>

definition closes_well :: "setup_lib \<Rightarrow> bool" where
  "closes_well L \<longleftrightarrow> (\<forall>k. sl_result L SelectOne k = None \<and> sl_result L CloseDB k = None \<and> sl_result L PurgeContainer k = None)"

text \<open>The port is above 10000, and at most one further for each try.\<close>

theorem bind_port_bounds: "bind_port L n p w = (Yields (q, c), w') \<Longrightarrow> p < q \<and> q \<le> p + int n + 1"
proof (induction n arbitrary: p w)
  case 0
  then show ?case by (auto simp: bind_port.simps [of L 0] bind_s_Yields split: option.splits)
next
  case (Suc n)
  from Suc.prems consider "q = p + 1" | w1 where "bind_port L n (p + 1) w1 = (Yields (q, c), w')"
    by (auto simp: bind_port.simps [of L "Suc n"] bind_s_Yields split: option.splits)
  then show ?case by cases (use Suc.IH in fastforce)+
qed

lemma RunDBInDocker_opens: "RunDBInDocker L w = (Yields c, w') \<Longrightarrow> bag w' = add_mset c (bag w)"
  by (auto simp: RunDBInDocker_def createPool_def bind_s_Yields split: option.splits)

lemma open_retry_opens:
  "closes_well L \<Longrightarrow> open_retry L n w = (Yields r, w') \<Longrightarrow> bag w' = (case r of Inl err \<Rightarrow> bag w | Inr db \<Rightarrow> add_mset db (bag w))"
proof (induction n arbitrary: w)
  case 0
  then show ?case by (auto simp: open_retry.simps [of L 0] bind_s_Yields closes_well_def Let_def split: option.splits)
next
  case (Suc n)
  from Suc.prems(2) consider (again) w1 where "open_retry L n w1 = (Yields r, w')" "bag w1 = bag w" | (opened) db where "r = Inr db" "bag w' = add_mset db (bag w)"
    using Suc.prems(1) by (auto simp: open_retry.simps [of L "Suc n"] bind_s_Yields closes_well_def Let_def split: option.splits)
  then show ?case by cases (use Suc.IH [OF Suc.prems(1)] in \<open>auto split: sum.splits\<close>)
qed

lemma SetupDB_opens:
  assumes "closes_well L" and "SetupDB L w = (Yields (Inr (db, c)), w')"
  shows "bag w' = add_mset db (add_mset c (bag w))"
proof -
  from assms(2) obtain a w1 r w2 where c: "RunDBInDocker L w = (Yields a, w1)" "open_retry L (sl_retries L (sw_calls w1)) w1 = (Yields r, w2)"
      "(case r of Inl err \<Rightarrow> bind_s (poolCleaner L a) (\<lambda>_. return_s (Inl (Wrap err ''Could not start postgres:'')))
        | Inr db \<Rightarrow> bind_s (call_s L MigrateDB) (\<lambda>r. case r of Some err \<Rightarrow> return_s (Inl (Wrap err ''Could not migrate:'')) | None \<Rightarrow> return_s (Inr (db, a)))) w2 = (Yields (Inr (db, c)), w')"
    unfolding SetupDB_def by (auto simp: bind_s_Yields)
  then have "r = Inr db" "a = c" "sw_open w' = sw_open w2" by (auto simp: bind_s_Yields split: sum.splits option.splits)
  with RunDBInDocker_opens [OF c(1)] open_retry_opens [OF assms(1) c(2)] show ?thesis by simp
qed

lemma cleaner_closes:
  "closes_well L \<Longrightarrow> cleaner L (db, c) w = (Yields u, w') \<Longrightarrow> bag w' = bag w - {#db#} - {#c#}"
  by (auto simp: cleaner_def dbCleaner_def poolCleaner_def bind_s_Yields closes_well_def)

lemma cm_Start_opens:
  "cm_Start L c w = (Yields c', w') \<Longrightarrow> \<exists>s k. cm_grpcServer c' = Some s \<and> cm_grpcClientConn c' = Some k \<and> cm_echo c' = cm_echo c \<and> bag w' = add_mset s (add_mset k (bag w))"
  by (auto simp: cm_Start_def bind_s_Yields Let_def add_mset_commute split: option.splits)

lemma cm_StartDB_opens:
  assumes "closes_well L" and "cm_StartDB L c w = (Yields c', w')"
  shows "\<exists>db k. c' = c\<lparr>cm_DB := Some db, cm_dbPoolCleaner := Some (db, k)\<rparr> \<and> bag w' = add_mset db (add_mset k (bag w))"
proof -
  from assms(2) obtain r w1 where r: "SetupDB L w = (Yields r, w1)"
    "(case r of Inl err \<Rightarrow> end_s FailedNow | Inr p \<Rightarrow> return_s (c\<lparr>cm_DB := Some (fst p), cm_dbPoolCleaner := Some p\<rparr>)) w1 = (Yields c', w')"
    unfolding cm_StartDB_def bind_s_Yields by blast
  then obtain db k where "r = Inr (db, k)" by (cases r) auto
  with r show ?thesis using SetupDB_opens [OF assms(1)] by auto
qed

lemma cm_StartAPIServer_opens:
  "cm_StartAPIServer L c w = (Yields c', w') \<Longrightarrow> \<exists>h. c' = c\<lparr>cm_echo := Some h\<rparr> \<and> bag w' = add_mset h (bag w)"
  by (auto simp: cm_StartAPIServer_def bind_s_Yields split: option.splits if_splits)

lemma start_one_opens: "start_one L c i w = (Yields None, w') \<Longrightarrow> bag w' = add_mset (Running c i) (bag w)"
  by (auto simp: start_one_def bind_s_Yields split: option.splits)

lemma stop_one_closes: "stop_one L c i w = (Yields None, w') \<Longrightarrow> \<exists>n. i = Some n \<and> bag w' = bag w - {#Running c n#}"
  by (auto simp: stop_one_def bind_s_Yields split: option.splits)

lemma be_Start_opens:
  assumes "be_Start L b w = (Yields (None, b'), w')"
  shows "\<exists>x t p. be_extr b' = Some x \<and> be_trsf b' = Some t \<and> be_proc b' = Some p \<and>
    bag w' = add_mset (Running C_processor p) (add_mset (Running C_transformer t) (add_mset (Running C_extractor x) (bag w)))"
  using assms unfolding be_Start_def by (auto simp: bind_s_Yields Let_def dest!: start_one_opens split: option.splits)

lemma be_Stop_closes:
  assumes "be_Stop L b w = (Yields None, w')" and "be_extr b = Some x" and "be_trsf b = Some t" and "be_proc b = Some p"
  shows "bag w' = bag w - {#Running C_extractor x#} - {#Running C_transformer t#} - {#Running C_processor p#}"
  using assms unfolding be_Stop_def by (auto simp: bind_s_Yields dest!: stop_one_closes split: option.splits)

lemma cm_Stop_closes:
  assumes "closes_well L" and "cm_Stop L c w = (Yields u, w')" and "cm_dbPoolCleaner c = Some (db, k)"
  shows "\<exists>s g. cm_grpcServer c = Some s \<and> cm_grpcClientConn c = Some g \<and>
    bag w' = bag w - {#s#} - {#g#} - {#db#} - {#k#} - (case cm_echo c of Some h \<Rightarrow> {#h#} | None \<Rightarrow> {#})"
  using assms(2,3) unfolding cm_Stop_def close_or_panic_def
  by (auto simp: bind_s_Yields add_mset_commute split: option.splits dest!: cleaner_closes [OF assms(1)])


text \<open>What the tests do: make a suite with its HTTP server, start the components, stop them, stop the suite.\<close>

definition session :: "setup_lib \<Rightarrow> unit set_up" where
  "session L = bind_s (NewBlockExplorerTestSetup L) (\<lambda>a. bind_s (WithHTTPServer L a) (\<lambda>a. bind_s (ts_StartBE L a) (\<lambda>a. bind_s (ts_StopBE L a) (\<lambda>_. ts_Stop L a))))"

text \<open>A session of a test that reaches its end leaves open exactly what was open before, however many tries the database took to start.\<close>

theorem session_leaves_nothing:
  assumes "closes_well L" and "session L w = (Yields (), w')"
  shows "mset (sw_open w') = mset (sw_open w)"
proof -
  from assms(2) obtain c1 w1 c2 w2 c3 w3 b w4 w5 where s: "cm_Start L cm_new w = (Yields c1, w1)" "cm_StartDB L c1 w1 = (Yields c2, w2)"
    "cm_StartAPIServer L c2 w2 = (Yields c3, w3)" "be_Start L NewBlockExplorer w3 = (Yields (None, b), w4)" "be_Stop L b w4 = (Yields None, w5)" "cm_Stop L c3 w5 = (Yields (), w')"
    unfolding session_def NewBlockExplorerTestSetup_def WithHTTPServer_def ts_StartBE_def ts_StopBE_def ts_Stop_def
    by (auto simp: bind_s_Yields split: option.splits prod.splits)
  from cm_Start_opens [OF s(1)] obtain g k where 1: "cm_grpcServer c1 = Some g" "cm_grpcClientConn c1 = Some k" "bag w1 = add_mset g (add_mset k (bag w))" by auto
  from cm_StartDB_opens [OF assms(1) s(2)] obtain db c where 2: "c2 = c1\<lparr>cm_DB := Some db, cm_dbPoolCleaner := Some (db, c)\<rparr>" "bag w2 = add_mset db (add_mset c (bag w1))" by auto
  from cm_StartAPIServer_opens [OF s(3)] obtain h where 3: "c3 = c2\<lparr>cm_echo := Some h\<rparr>" "bag w3 = add_mset h (bag w2)" by auto
  from be_Start_opens [OF s(4)] obtain x t p where 4: "be_extr b = Some x" "be_trsf b = Some t" "be_proc b = Some p"
    "bag w4 = add_mset (Running C_processor p) (add_mset (Running C_transformer t) (add_mset (Running C_extractor x) (bag w3)))" by auto
  have 5: "bag w5 = bag w3" using be_Stop_closes [OF s(5) 4(1-3)] 4(4) by (simp add: add_mset_commute)
  from cm_Stop_closes [OF assms(1) s(6), of db c] show ?thesis using 1 2 3 5 by (auto simp: add_mset_commute)
qed

text \<open>When no call fails the session reaches its end.\<close>

lemma no_failure_eval:
  assumes "\<forall>c k. sl_result L c k = None"
  shows "call_s L c w = (Yields None, w\<lparr>sw_calls := Suc (sw_calls w)\<rparr>)" "open_retry L n w = (Yields (Inr (DBConnection (Suc (sw_calls w)))),
    w\<lparr>sw_calls := Suc (Suc (sw_calls w)), sw_open := DBConnection (Suc (sw_calls w)) # sw_open w\<rparr>)"
  using assms by (simp_all add: call_s_def open_retry.simps [of L n] bind_s_def acquire_def return_s_def Let_def)

lemmas session_defs = session_def NewBlockExplorerTestSetup_def WithHTTPServer_def ts_StartBE_def ts_StopBE_def ts_Stop_def ts_Start_def cm_Start_def cm_StartDB_def cm_StartAPIServer_def
  cm_Stop_def be_Start_def be_Stop_def SetupDB_def RunDBInDocker_def createPool_def poolCleaner_def dbCleaner_def cleaner_def start_one_def stop_one_def
  new_component_def close_or_panic_def bind_s_def acquire_def release_def return_s_def cm_new_def NewBlockExplorer_def

theorem session_ends:
  assumes "\<forall>c k. sl_result L c k = None"
  shows "\<exists>w'. session L w = (Yields (), w') \<and> sw_open w' = sw_open w"
  by (simp add: session_defs no_failure_eval [OF assms] Let_def)

text \<open>The path with an error that closes nothing: when the migration fails, \<open>SetupDB\<close> returns neither the database nor the cleaner, and both the connection and the
  container stay.\<close>

theorem failed_migration_leaks:
  assumes "\<forall>c k. c \<noteq> MigrateDB \<longrightarrow> sl_result L c k = None" and "\<forall>k. sl_result L MigrateDB k = Some err"
  shows "\<exists>db c w'. SetupDB L w = (Yields (Inl (Wrap err ''Could not migrate:'')), w') \<and> sw_open w' = db # c # sw_open w"
  using assms by (simp add: session_defs open_retry.simps call_s_def Let_def)

text \<open>\<open>Start\<close> of the suite starts connections and database, which \<open>NewBlockExplorerTestSetup\<close> has started already: the first ones are overwritten and stay open.\<close>

theorem second_start_leaks:
  assumes "\<forall>c k. sl_result L c k = None"
  shows "\<exists>w' db c k s. bind_s (NewBlockExplorerTestSetup L) (\<lambda>a. bind_s (ts_Start L a) (\<lambda>a. bind_s (ts_StopBE L a) (\<lambda>_. ts_Stop L a))) w = (Yields (), w') \<and>
    sw_open w' = DBConnection db # Container c # GRPCClient k # GRPCServer s # sw_open w"
  by (simp add: session_defs no_failure_eval [OF assms] Let_def)

text \<open>The controller is made, and never started.\<close>

theorem controller_never_runs:
  assumes "be_Start L b w = (Yields (None, b'), w')" and "Running C_controller n \<in> set (sw_open w')"
  shows "Running C_controller n \<in> set (sw_open w) \<and> be_cont b' \<noteq> None"
proof -
  from be_Start_opens [OF assms(1)] obtain x t p where "bag w' = add_mset (Running C_processor p) (add_mset (Running C_transformer t) (add_mset (Running C_extractor x) (bag w)))" by auto
  from arg_cong [OF this, of set_mset] have "set (sw_open w') = {Running C_processor p, Running C_transformer t, Running C_extractor x} \<union> set (sw_open w)" by auto
  moreover have "be_cont b' \<noteq> None" using assms(1) unfolding be_Start_def by (auto simp: bind_s_Yields Let_def split: option.splits)
  ultimately show ?thesis using assms(2) by auto
qed

section \<open>Waiting\<close>

lemma wait_loop_spec:
  assumes "ks \<noteq> []"
  shows "wait_loop look ready ks c = v \<and> ready v \<longleftrightarrow> (\<exists>i < length ks. look (ks ! i) = v \<and> ready v \<and> (\<forall>k < i. \<not> ready (look (ks ! k))))"
  using assms
proof (induction ks arbitrary: c)
  case (Cons i ks)
  then show ?case by (cases "ks = []"; cases "ready (look i)") (auto simp: Ex_less_Suc2 All_less_Suc2 simp del: not_less)
qed simp

text \<open>The wait for records succeeds exactly if some look finds the expected number and every look before it found fewer: a number that is passed between two looks fails the test.\<close>

theorem WaitRecordsCount_iff:
  assumes "100 \<le> timeoutMs"
  shows "WaitRecordsCount look expCount timeoutMs = Yields () \<longleftrightarrow> (\<exists>i < timeoutMs div 100. look i = expCount \<and> (\<forall>k < i. look k < expCount))"
proof -
  have n: "[0..<timeoutMs div 100] \<noteq> []" using assms by (simp add: div_greater_zero_iff)
  have "WaitRecordsCount look expCount timeoutMs = Yields () \<longleftrightarrow> wait_loop look (\<lambda>c. c \<ge> expCount) [0..<timeoutMs div 100] 0 = expCount \<and> expCount \<ge> expCount"
    by (simp add: WaitRecordsCount_def)
  then show ?thesis unfolding wait_loop_spec [OF n, of look "\<lambda>c. c \<ge> expCount"] by (auto simp: not_le)
qed

section \<open>The tools migrate the schema\<close>

text \<open>On a database without migrations the library runs the given ones in order.  Then both tools end with the schema of the explorer.\<close>

theorem migrate_main_schema:
  assumes "schema_library M V" and "tl_Open X = Inr db" and "V db = []"
    and "\<And>opts ms db'. tl_Migrate X opts ms db = (None, db') \<Longrightarrow> run_statements (map mg_Migrate ms) db = (None, db')"
  shows "migrate_main M X = ClosedAfter db' \<Longrightarrow> V db' = explorer_schema"
    and "loadtest_migrate_main M generate X = ClosedAfter db' \<Longrightarrow> \<exists>db1. V db1 = explorer_schema \<and> generate db1 = (None, db')"
proof -
  have r: "run_statements (map mg_Migrate ms) db = (None, db')" if "run_tool X ms = ClosedAfter db'" for ms
    using that assms(2,4) by (auto simp: run_tool_def split: option.splits prod.splits)
  show "V db' = explorer_schema" if "migrate_main M X = ClosedAfter db'"
  proof -
    have "migrate_initial M db = (None, db')" using r [OF that [unfolded migrate_main_def]] by (simp add: Migrations_def split: prod.splits option.splits)
    from schema_library.migrate_adds(1) [OF assms(1) this] assms(3) show ?thesis by simp
  qed
  show "\<exists>db1. V db1 = explorer_schema \<and> generate db1 = (None, db')" if "loadtest_migrate_main M generate X = ClosedAfter db'"
  proof -
    from r that obtain db1 where d: "migrate_initial M db = (None, db1)" "generate db1 = (None, db')"
      unfolding loadtest_migrate_main_def by (fastforce simp: Migrations_def LoadTestMigrations_def run_Cons split: prod.splits option.splits)
    from schema_library.migrate_adds(1) [OF assms(1) d(1)] d(2) assms(3) show ?thesis by auto
  qed
qed

end
