(* ===== verification/Spec2Isabelle.thy ===== *)
theory Spec2Isabelle
  imports Transformer_Loop Ingest Controller_Loops Extractor_Pulses API_Links Exporter Program Instrumentation
    Metrics_Registry Version_Check Test_Data Generated_Lifelines Heavymock Migration Load_Data Load Test_Setup
begin

text \<open>
  \<^bold>\<open>The block explorer of the Insolar platform\<close>

  The explorer copies the ledger of a platform into a relational database and serves it over HTTP and gRPC.  Data take this way:
  the \<^emph>\<open>extractor\<close> asks the platform for its finalized pulses and for the records of each; the \<^emph>\<open>transformer\<close> turns a pulse with
  its records into one canonical jet drop for each jet; the \<^emph>\<open>processor\<close> has a pool of workers that turn jet drops into rows and
  save them through the \<^emph>\<open>storage\<close>; the \<^emph>\<open>controller\<close> keeps a register of the jets received for each pulse, marks a pulse
  complete once its jets make up the whole jet tree, follows the chain of complete pulses, and asks the extractor again for
  what is missing.  The \<^emph>\<open>API\<close> and the \<^emph>\<open>exporter\<close> read the database through the same storage.

  \<^bold>\<open>Theories\<close>

  \<^item> \<open>Prelude\<close>: Go values (errors, panics, bytes), Go maps as association lists with an oracle for the order of iteration, chains.
  \<^item> \<open>Go_Lib\<close>: the functions of Go's standard library on strings the code calls, with their inverse laws.
  \<^item> \<open>Types_Models\<close>: \<open>etl/types\<close>, \<open>etl/models\<close>, the messages of the platform and the record of its library's functions.
  \<^item> \<open>Converter\<close>: \<open>instrumentation/converter\<close>, \<open>instrumentation/comparator.go\<close>.
  \<^item> \<open>Transformer\<close>, \<open>Transformer_Loop\<close>: \<open>etl/transformer\<close>; first the transformation of one pulse as a function, then the goroutine as
    a step relation.
  \<^item> \<open>Database\<close>: the schema of \<open>migrations\<close>, and the database library as the record \<open>gorm\<close> with the locale \<open>gorm_db\<close> of its laws.
  \<^item> \<open>Storage\<close>, \<open>Storage_Write\<close>, \<open>Storage_Read\<close>: the methods of \<open>etl/storage\<close> in the order of the file; what the writing methods do to
    the tables; what the reading methods answer.
  \<^item> \<open>Completeness\<close>, \<open>Missed_Data\<close>, \<open>Controller\<close>, \<open>Controller_Loops\<close>: \<open>etl/controller\<close>: when a set of jets is complete; the pool of requested
    ranges; the register, the maintainer and the sequencer; the loops of the goroutines and how they stop.
  \<^item> \<open>Processor\<close>: \<open>etl/processor\<close>, \<open>process\<close> as a function with its three effects, the pool as a step relation.
  \<^item> \<open>ETL_System\<close>: workers, maintainer and sequencer together on one database, interleaved between their calls.
  \<^item> \<open>Ingest\<close>: one pulse through transformer, processor and maintainer.
  \<^item> \<open>Extractor\<close>, \<open>Extractor_Pulses\<close>: \<open>etl/extractor\<close>: workers and the records of one pulse; the loop over the pulses, loads, start, stop.
  \<^item> \<open>API_Params\<close>, \<open>API\<close>, \<open>API_Laws\<close>, \<open>API_Links\<close>: \<open>api\<close>: checks of parameters and mapping to responses, the handlers, what they promise,
    the links between jet drops.
  \<^item> \<open>Exporter\<close>: \<open>etl/exporter\<close>.
  \<^item> \<open>Connection\<close>: \<open>etl/connection\<close>, \<open>etl/dbconn\<close>: tokens, options and watchers of the connections.
  \<^item> \<open>Program\<close>: the programs of \<open>cmd\<close>: order of starting and stopping, the stop channel.
  \<^item> \<open>Instrumentation\<close>: the settings of logger and profiling agent.
  \<^item> \<open>Metrics_Registry\<close>: \<open>instrumentation/metrics\<close>, the metrics of \<open>etl\<close> and the collectors of \<open>etl/storage\<close>.
  \<^item> \<open>Migration\<close>, \<open>Load_Data\<close>: \<open>migrations\<close>: the statements that create the tables; the rows of the load test.
  \<^item> \<open>Load\<close>: \<open>load\<close>: the attacks of the load test, their requests, and the preparation that writes what they read.
  \<^item> \<open>Test_Setup\<close>: \<open>testutils/db.go\<close>, \<open>testutils/betestsetup\<close>, \<open>testutils/connectionmanager\<close>, \<open>test/integration/helper.go\<close>: what the tests start and stop;
    \<open>cmd/migrate\<close>, \<open>cmd/loadtest_migrate\<close>.
  \<^item> \<open>Generators\<close>, \<open>Generated_Lifelines\<close>: \<open>testutils/generators.go\<close>: random jets and records; the lifelines of objects.
  \<^item> \<open>Test_Data\<close>: \<open>testutils/models.go\<close>, \<open>testutils/canonical.go\<close> and the rest of \<open>generators.go\<close>: random rows, drops and jet trees.
  \<^item> \<open>Version_Check\<close>: the metadata of the extractor's requests and the check of \<open>testutils/grpc.go\<close>.
  \<^item> \<open>Heavymock\<close>: \<open>test/heavymock\<close> and \<open>testutils/clients\<close>: the platform of the integration tests.

  \<^bold>\<open>How the code is modelled\<close>

  Structures are records with a prefix for each type, tagged unions are datatypes, returned errors are \<open>error + 'a\<close>, panics are
  \<open>outcome\<close>.  Integers are words where the code relies on their width (jet depths, pulse numbers and nanoseconds of the platform,
  life times of tokens), integers otherwise.  A method that reaches the database is a function \<open>('db, 'a) dbop\<close> from a state of the
  database to a result and a state.  Goroutines are step relations cut at their blocking operations and critical sections, and
  invariants are proved by rule induction.  Loops that depend on the platform or never end take fuel, and the theorems on what
  they deliver give the fuel: \<open>K + 1\<close> requests where request \<open>K\<close> is served, \<open>m\<close> turns for each pulse where the platform answers one
  question in \<open>m\<close>.  The exporter's stream has no end, so its claims hold for every fuel.  Logging and timers are left out.

  \<^bold>\<open>Interfaces\<close>

  \<^item> \<open>gorm_db\<close>, extended by \<open>healthy_db\<close>: what the database library promises; a call may fail at any time in the former and only
    for a violated constraint in the latter.  Interpreted on a relational implementation (\<open>rel\<close>).
  \<^item> \<open>pulse_store\<close>: what controller and processor rely on; a sublocale shows that the storage provides it over any \<open>gorm_db\<close>.
  \<^item> \<open>api_store\<close>, \<open>pulse_fetcher\<close>: the same for the API and for the exporter.
  \<^item> \<open>schema_library\<close>: what a statement adds to the schema; interpreted on a schema in memory (\<open>mem\<close>).
  \<^item> \<open>explorer_client\<close>, \<open>explorer_load\<close>: the generated client of the API, over any \<open>gorm_db\<close>; interpreted on the handlers (\<open>in_process\<close>, \<open>in_tables\<close>).
  \<^item> \<open>metric_registry\<close>: which metrics a registry accepts; interpreted on a list (\<open>listed\<close>).

  \<^bold>\<open>What is shown\<close>

  A pulse marked complete has jet drops for the whole tree, sequential pulses form a chain of complete ones, in all interleavings
  and with all failures (\<open>Spec2Isabelle\<close>); on a server that is up a new pulse is taken in exactly and ends complete (\<open>Ingest\<close>), and the sequencer
  catches up with a chain of complete pulses (\<open>Controller_Loops\<close>).
  Saving a jet drop is atomic, idempotent and keeps the counters (\<open>Storage_Write\<close>).  Sorting puts the records of each object in the
  order of change and succeeds whenever there is one (\<open>Transformer\<close>); the goroutine loses and repeats nothing (\<open>Transformer_Loop\<close>).
  The test of completeness decides coverage of the tree (\<open>Completeness\<close>).  The extractor hands over exactly the records of the pulses
  in its range, over any broken streams (\<open>Extractor\<close>, \<open>Extractor_Pulses\<close>).  The pool loses no task, and deadlocks (\<open>Processor\<close>).
  Queries answer the rows asked for, in order and cut to the page (\<open>Storage_Read\<close>); the API refuses exactly the invalid requests,
  changes nothing, bounds its answers, and reads back the identifiers it prints (\<open>API_Laws\<close>, \<open>API_Links\<close>).  Exported pulses form a chain
  (\<open>Exporter\<close>).  Tokens are live when used (\<open>Connection\<close>).  Programs stop what they started in reverse order, unless the database is
  lost at the wrong moment (\<open>Program\<close>).  The keys the migration declares are the constraints assumed everywhere else (\<open>Migration\<close>), and
  the rows of the load test satisfy them (\<open>Load_Data\<close>).  A generated lifeline is sorted back into the order it was generated in
  (\<open>Generated_Lifelines\<close>), all metrics are registered and show the last values read (\<open>Metrics_Registry\<close>), and the extractor reads the whole ledger of the test platform (\<open>Heavymock\<close>).
  A server that checks versions lets the extractor's calls pass exactly if it allows clients of version two (\<open>Version_Check\<close>); the random
  jet trees of the tests are trees of splits (\<open>Test_Data\<close>).  The files of the load test hold exactly the data of the
  server, and its attacks ask for identifiers the API reads back (\<open>Load\<close>).  A session of an integration test
  leaves nothing open, and both migration tools end with the schema (\<open>Test_Setup\<close>).

  \<^bold>\<open>Not modelled\<close>

  The increments of counters and the writing of log lines (output only); the libraries the programs call: database, migrations, containers, the
  runner of the load test; mocks and code generated from protocol and API specifications, and the wrapper of the generated client in
  \<open>test/api\<close>; sockets, TLS and HTTP routing, with the router of health check and profiles (\<open>api/pprof_router.go\<close>); loading of configurations in the
  programs.  The timers of the controller are steps that may happen at any time.
\<close>

section \<open>From the platform's data to the flags of a pulse\<close>

text \<open>C1: whatever the interleaving of workers, maintainer and sequencer, and whatever calls of the storage fail, a pulse is
  marked complete in the database only if the database has jet drops of it for the whole jet tree: every branch of the
  tree passes through the jet of a saved drop.\<close>

theorem complete_pulses_are_covered:
  assumes "gorm_db G T" and "db_inv prevOf (T st)" and "controller_Start (NewStorage G) (NewController cfg st pv) = (None, c)"
    and "(etl_step L (NewStorage G) prevOf)\<^sup>*\<^sup>* \<lparr>et_ctl = c, et_work = [], et_copy = []\<rparr> s"
    and "p \<in> db_pulses (T (ct_storage (et_ctl s)))" and "mp_IsComplete p"
  shows "covers (mj_JetID ` {j \<in> db_jet_drops (T (ct_storage (et_ctl s))). mj_PulseNumber j = mp_PulseNumber p})"
proof -
  note store = gorm_db.storage_contract [OF assms(1)]
  have "db_inv prevOf (T (ct_storage (et_ctl s)))"
    using pulse_store.etl_inv_reachable [OF store assms(4) pulse_store.controller_Start_inv [OF store assms(2,3)]]
    by (simp add: etl_inv_def Let_def)
  then have "covers (jets_of (T (ct_storage (et_ctl s))) (mp_PulseNumber p))"
    using assms(5,6) by (auto simp: db_inv_def complete_numbers_def)
  moreover have "jets_of t n = mj_JetID ` {j \<in> db_jet_drops t. mj_PulseNumber j = n}" for t n
    by (auto simp: jets_of_def drop_keys_def jd_key_def)
  ultimately show ?thesis by simp
qed

text \<open>C2: under the same interleavings and failures, a sequential pulse is complete, and the pulse before it is sequential too
  unless it is the first one: the sequential pulses form an unbroken chain of complete pulses.\<close>

theorem sequential_pulses_chain:
  assumes "gorm_db G T" and "db_inv prevOf (T st)" and "controller_Start (NewStorage G) (NewController cfg st pv) = (None, c)"
    and "(etl_step L (NewStorage G) prevOf)\<^sup>*\<^sup>* \<lparr>et_ctl = c, et_work = [], et_copy = []\<rparr> s"
    and "p \<in> db_pulses (T (ct_storage (et_ctl s)))" and "mp_IsSequential p"
  shows "mp_IsComplete p \<and> (mp_PrevPulseNumber p = 0 \<or>
    (\<exists>q \<in> db_pulses (T (ct_storage (et_ctl s))). mp_PulseNumber q = mp_PrevPulseNumber p \<and> mp_IsSequential q))"
proof -
  let ?t = "T (ct_storage (et_ctl s))"
  note store = gorm_db.storage_contract [OF assms(1)]
  have i: "db_inv prevOf ?t"
    using pulse_store.etl_inv_reachable [OF store assms(4) pulse_store.controller_Start_inv [OF store assms(2,3)]]
    by (simp add: etl_inv_def Let_def)
  have n: "mp_PulseNumber p \<in> sequential_numbers ?t" using assms(5,6) by (auto simp: sequential_numbers_def)
  with i have "mp_PulseNumber p \<in> complete_numbers ?t" by (auto simp: db_inv_def)
  then obtain q where "q \<in> db_pulses ?t" "mp_IsComplete q" "mp_PulseNumber q = mp_PulseNumber p" by (auto simp: complete_numbers_def)
  then have "mp_IsComplete p" using pulse_unique [of ?t p q] i assms(5) by (auto simp: db_inv_def)
  moreover have "mp_PrevPulseNumber p = prevOf (mp_PulseNumber p)" using i assms(5) by (auto simp: db_inv_def)
  moreover have "prevOf (mp_PulseNumber p) = 0 \<or> prevOf (mp_PulseNumber p) \<in> sequential_numbers ?t" using i n by (auto simp: db_inv_def)
  ultimately show ?thesis by (auto simp: sequential_numbers_def)
qed

section \<open>A run of the whole system\<close>

text \<open>One drop of the root jet, for a pulse without a predecessor: saved, registered, completed and sequenced.\<close>

definition run_pulse_data :: types_Pulse where
  "run_pulse_data = \<lparr>tp_PulseNo = 65537, tp_EpochPulseNo = 1, tp_PulseTimestamp = 5, tp_NextPulseNumber = 65547, tp_PrevPulseNumber = 0\<rparr>"

definition run_drop :: types_JetDrop where
  "run_drop = \<lparr>tj_MainSection = \<lparr>ms_Start = \<lparr>ds_PulseData = run_pulse_data, ds_JetDropPrefix = [], ds_JetDropPrefixLength = 0\<rparr>,
     ms_DropContinue = \<lparr>dc_PrevDropHash = []\<rparr>, ms_Records = []\<rparr>, tj_Sections = [], tj_RawData = [], tj_Hash = [7]\<rparr>"

definition run_cfg :: controller_cfg where
  "run_cfg = \<lparr>cfg_PulsePeriod = 1, cfg_SequentialPeriod = 1, cfg_ReloadPeriod = 10, cfg_ReloadCleanPeriod = 1\<rparr>"

definition run_state :: "models_Pulse list \<Rightarrow> models_JetDrop list \<Rightarrow> (types_Pulse \<times> string list) list \<Rightarrow> models_Pulse \<Rightarrow> tables Controller" where
  "run_state ps js reg seq = (NewController run_cfg \<lparr>t_pulses = ps, t_jet_drops = js, t_records = []\<rparr> 2)
     \<lparr>ct_jetDropRegister := reg, ct_sequentialPulse := seq\<rparr>"

abbreviation "run_row \<equiv> process_pulse run_drop"
abbreviation "run_counted \<equiv> run_row\<lparr>mp_JetDropAmount := 1, mp_RecordAmount := 0\<rparr>"
abbreviation "run_complete \<equiv> run_counted\<lparr>mp_IsComplete := True\<rparr>"
abbreviation "run_sequential \<equiv> run_complete\<lparr>mp_IsSequential := True\<rparr>"
abbreviation "run_jd \<equiv> process_jetdrop run_drop"

lemmas run_eval = run_state_def NewController_def NewStorage_def run_drop_def run_pulse_data_def process_pulse_def process_jetdrop_def
  Let_def emptyPulse_def rel_gorm_def wrap_db_def bind_db_def return_db_def rel_upsert_def rel_put_jet_drop_def jd_key_def
  rel_map_def keyed_def rel_count_def Where_def Model_def

lemma run_0: "controller_Start (NewStorage rel_gorm) (NewController run_cfg \<lparr>t_pulses = [], t_jet_drops = [], t_records = []\<rparr> 2) =
  (None, run_state [] [] [] emptyPulse)"
  by (simp add: controller_Start_def setIncompletePulses_def setSeqPulse_def GetIncompletePulses_def GetSequentialPulse_def
      rel_find_def sort_le_def page_def Limit_def Order_def run_eval)

lemma run_1: "process_save_pulse (NewStorage rel_gorm) run_drop (run_state [] [] [] emptyPulse) = (None, run_state [run_row] [] [] emptyPulse)"
  by (simp add: process_save_pulse_def SavePulse_def run_eval)

lemma run_2: "process_save_data (NewStorage rel_gorm) run_drop (run_state [run_row] [] [] emptyPulse) =
  (None, run_state [run_counted] [run_jd] [] emptyPulse)"
  by (simp add: process_save_data_def SaveJetDropData_def initJD_def add_amounts_def run_eval)

lemma run_3: "process_register run_drop (run_state ps js [] seq) = run_state ps js [(run_pulse_data, [[]])] seq"
  by (simp add: process_register_def SetJetDropData_def add_jet_def run_eval)

lemma run_4: "erase_entry L (NewStorage rel_gorm) ro now (run_pulse_data, [[]]) (run_state [run_counted] [run_jd] [(run_pulse_data, [[]])] seq) =
  Done (run_state [run_complete] [run_jd] [] seq)"
  by (simp add: erase_entry_def pulseIsComplete_def CompletePulse_def update_fields_def nonzero_def map_del_def run_eval)

lemma run_5: "pulseSequence L (NewStorage rel_gorm) now (run_state [run_complete] [run_jd] [] emptyPulse) =
  (0, run_state [run_sequential] [run_jd] [] run_complete)"
  by (simp add: pulseSequence_def GetPulseByPrev_def SequencePulse_def rel_first_def sort_le_def update_fields_def nonzero_def run_eval)

definition run_prev :: "int \<Rightarrow> int" where
  "run_prev n = (if n = 65537 then 0 else n - 10)"

lemma run_complete_reachable:
  "(etl_step plain_lib (NewStorage rel_gorm) run_prev)\<^sup>*\<^sup>* \<lparr>et_ctl = run_state [] [] [] emptyPulse, et_work = [], et_copy = []\<rparr>
     \<lparr>et_ctl = run_state [run_complete] [run_jd] [] emptyPulse, et_work = [], et_copy = []\<rparr>"
proof -
  let ?step = "etl_step plain_lib (NewStorage rel_gorm) run_prev"
  let ?s = "\<lambda>c w k. \<lparr>et_ctl = c, et_work = w, et_copy = k\<rparr> :: tables etl"
  have "good_drop run_prev run_drop" by (simp add: good_drop_def run_drop_def run_pulse_data_def run_prev_def)
  then have "?step (?s (run_state [] [] [] emptyPulse) [] []) (?s (run_state [] [] [] emptyPulse) [(run_drop, 0)] [])"
    using etl_step.take_drop [of run_prev run_drop plain_lib "NewStorage rel_gorm" "?s (run_state [] [] [] emptyPulse) [] []"] by simp
  moreover have "?step (?s (run_state [] [] [] emptyPulse) [(run_drop, 0)] []) (?s (run_state [run_row] [] [] emptyPulse) [(run_drop, 1)] [])"
    using etl_step.save_pulse [of 0 "?s (run_state [] [] [] emptyPulse) [(run_drop, 0)] []" run_drop] run_1 by fastforce
  moreover have "?step (?s (run_state [run_row] [] [] emptyPulse) [(run_drop, 1)] []) (?s (run_state [run_counted] [run_jd] [] emptyPulse) [(run_drop, 2)] [])"
    using etl_step.save_data [of 0 "?s (run_state [run_row] [] [] emptyPulse) [(run_drop, 1)] []" run_drop] run_2 by fastforce
  moreover have "?step (?s (run_state [run_counted] [run_jd] [] emptyPulse) [(run_drop, 2)] [])
      (?s (run_state [run_counted] [run_jd] [(run_pulse_data, [[]])] emptyPulse) [] [])"
    using etl_step.register [of "?s (run_state [run_counted] [run_jd] [] emptyPulse) [(run_drop, 2)] []" "[]" run_drop "[]"] by (simp add: run_3)
  moreover have "?step (?s (run_state [run_counted] [run_jd] [(run_pulse_data, [[]])] emptyPulse) [] [])
      (?s (run_state [run_counted] [run_jd] [(run_pulse_data, [[]])] emptyPulse) [] [(run_pulse_data, [[]])])"
    using etl_step.copy [of "?s (run_state [run_counted] [run_jd] [(run_pulse_data, [[]])] emptyPulse) [] []" range_insertion plain_lib "NewStorage rel_gorm" run_prev]
    by (simp add: register_copy_def range_insertion_def map_keys_def run_state_def)
  moreover have "?step (?s (run_state [run_counted] [run_jd] [(run_pulse_data, [[]])] emptyPulse) [] [(run_pulse_data, [[]])])
      (?s (run_state [run_complete] [run_jd] [] emptyPulse) [] [])"
    using etl_step.erase [of "?s (run_state [run_counted] [run_jd] [(run_pulse_data, [[]])] emptyPulse) [] [(run_pulse_data, [[]])]" "(run_pulse_data, [[]])" "[]"
        range_insertion plain_lib "NewStorage rel_gorm" 0] by (simp add: run_4)
  ultimately show ?thesis by (meson converse_rtranclp_into_rtranclp rtranclp.rtrancl_refl)
qed

lemma run_sequential_reachable:
  "(etl_step plain_lib (NewStorage rel_gorm) run_prev)\<^sup>*\<^sup>* \<lparr>et_ctl = run_state [] [] [] emptyPulse, et_work = [], et_copy = []\<rparr>
     \<lparr>et_ctl = run_state [run_sequential] [run_jd] [] run_complete, et_work = [], et_copy = []\<rparr>"
proof -
  have "etl_step plain_lib (NewStorage rel_gorm) run_prev \<lparr>et_ctl = run_state [run_complete] [run_jd] [] emptyPulse, et_work = [], et_copy = []\<rparr>
     \<lparr>et_ctl = run_state [run_sequential] [run_jd] [] run_complete, et_work = [], et_copy = []\<rparr>"
    using etl_step.sequence [of plain_lib "NewStorage rel_gorm" 0 "\<lparr>et_ctl = run_state [run_complete] [run_jd] [] emptyPulse, et_work = [], et_copy = []\<rparr>"] run_5
    by fastforce
  with run_complete_reachable show ?thesis by (rule rtranclp.rtrancl_into_rtrancl)
qed

lemma run_db_inv: "db_inv run_prev (tables_db \<lparr>t_pulses = [], t_jet_drops = [], t_records = []\<rparr>)"
  using db_inv_empty by (simp add: tables_db_def)

lemma run_storage: "db_pulses (tables_db (ct_storage (run_state ps js reg seq))) = set ps"
  "db_jet_drops (tables_db (ct_storage (run_state ps js reg seq))) = set js"
  by (simp_all add: run_state_def NewController_def tables_db_def)

theorem complete_pulses_are_covered_witness:
  "covers (mj_JetID ` {j \<in> db_jet_drops (tables_db (ct_storage (run_state [run_complete] [run_jd] [] emptyPulse))).
     mj_PulseNumber j = mp_PulseNumber run_complete})"
  using complete_pulses_are_covered [OF rel.gorm_db_axioms run_db_inv run_0 run_complete_reachable, of run_complete]
  by (simp add: run_storage)

theorem sequential_pulses_chain_witness: "mp_IsSequential run_sequential \<and> mp_IsComplete run_sequential"
  using sequential_pulses_chain [OF rel.gorm_db_axioms run_db_inv run_0 run_sequential_reachable, of run_sequential]
  by (simp add: run_storage)

end
